(* ===== verification/GoStd.thy ===== *)
theory GoStd
  imports Main "HOL-Library.List_Lexorder" "HOL-Library.Char_ord" "HOL-Library.Product_Lexorder"
    "HOL-Library.Multiset"
begin

text \<open>
  The part of the Go language and standard library the modelled code calls, shared by every
  component: byte strings (package \<open>strings\<close>), decimal conversion (\<open>strconv\<close>), the
  leftmost-first regular expressions the tag grammar uses (\<open>regexp\<close>), glob matching
  (\<open>path.Match\<close>) and comparison sorting (\<open>sort\<close>, \<open>slices\<close>).  A Go string is a
  \<open>string\<close>, that is a list of bytes; case mapping is the ASCII one.  The sorting functions
  carry a locale that states what a comparison function promises; every comparison function of
  the code is an interpretation of it.
\<close>

named_theorems go_simps \<open>unfolding rules of the Go standard library layer\<close>

section \<open>Strings\<close>

definition HasPrefix :: "string \<Rightarrow> string \<Rightarrow> bool" where
  "HasPrefix s p \<longleftrightarrow> take (length p) s = p"

definition HasSuffix :: "string \<Rightarrow> string \<Rightarrow> bool" where
  "HasSuffix s p \<longleftrightarrow> HasPrefix (rev s) (rev p)"

text \<open>\<open>strings.CutPrefix\<close>: \<open>None\<close> when the prefix is absent.\<close>

definition CutPrefix :: "string \<Rightarrow> string \<Rightarrow> string option" where
  "CutPrefix s p = (if HasPrefix s p then Some (drop (length p) s) else None)"

definition TrimPrefix :: "string \<Rightarrow> string \<Rightarrow> string" where
  "TrimPrefix s p = (if HasPrefix s p then drop (length p) s else s)"

fun Contains :: "string \<Rightarrow> string \<Rightarrow> bool" where
  "Contains [] p = (p = [])"
| "Contains (c # s) p = (HasPrefix (c # s) p \<or> Contains s p)"

definition ContainsAny :: "string \<Rightarrow> string \<Rightarrow> bool" where
  "ContainsAny s cs \<longleftrightarrow> list_ex (\<lambda>c. c \<in> set cs) s"

text \<open>\<open>strings.IndexByte\<close> followed by the two slices around the hit: \<open>None\<close> is index -1.\<close>

fun cut_byte :: "char \<Rightarrow> string \<Rightarrow> (string \<times> string) option" where
  "cut_byte b [] = None"
| "cut_byte b (c # s) =
     (if c = b then Some ([], s)
      else (case cut_byte b s of None \<Rightarrow> None | Some (u, v) \<Rightarrow> Some (c # u, v)))"

text \<open>\<open>strings.Split\<close> on a one-byte separator; the empty string splits into one empty part.\<close>

fun Split :: "string \<Rightarrow> char \<Rightarrow> string list" where
  "Split [] b = [[]]"
| "Split (c # s) b =
     (if c = b then [] # Split s b
      else (case Split s b of [] \<Rightarrow> [[c]] | p # ps \<Rightarrow> (c # p) # ps))"

fun Join :: "string list \<Rightarrow> string \<Rightarrow> string" where
  "Join [] sep = []"
| "Join [p] sep = p"
| "Join (p # q # ps) sep = p @ sep @ Join (q # ps) sep"

definition TrimLeft :: "string \<Rightarrow> string \<Rightarrow> string" where
  "TrimLeft s cs = dropWhile (\<lambda>c. c \<in> set cs) s"

definition TrimRight :: "string \<Rightarrow> string \<Rightarrow> string" where
  "TrimRight s cs = rev (dropWhile (\<lambda>c. c \<in> set cs) (rev s))"

definition is_digit :: "char \<Rightarrow> bool" where
  "is_digit c \<longleftrightarrow> 48 \<le> (of_char c :: nat) \<and> (of_char c :: nat) \<le> 57"

definition is_lower :: "char \<Rightarrow> bool" where
  "is_lower c \<longleftrightarrow> 97 \<le> (of_char c :: nat) \<and> (of_char c :: nat) \<le> 122"

definition is_upper :: "char \<Rightarrow> bool" where
  "is_upper c \<longleftrightarrow> 65 \<le> (of_char c :: nat) \<and> (of_char c :: nat) \<le> 90"

definition is_letter :: "char \<Rightarrow> bool" where
  "is_letter c \<longleftrightarrow> is_lower c \<or> is_upper c"

definition lower_char :: "char \<Rightarrow> char" where
  "lower_char c = (if is_upper c then char_of (of_char c + (32 :: nat)) else c)"

definition upper_char :: "char \<Rightarrow> char" where
  "upper_char c = (if is_lower c then char_of (of_char c - (32 :: nat)) else c)"

definition ToLower :: "string \<Rightarrow> string" where
  "ToLower = map lower_char"

definition ToUpper :: "string \<Rightarrow> string" where
  "ToUpper = map upper_char"

definition EqualFold :: "string \<Rightarrow> string \<Rightarrow> bool" where
  "EqualFold s t \<longleftrightarrow> ToLower s = ToLower t"

definition Count_byte :: "string \<Rightarrow> char \<Rightarrow> nat" where
  "Count_byte s b = length (filter (\<lambda>c. c = b) s)"

section \<open>Decimal conversion\<close>

text \<open>
  \<open>strconv.Atoi\<close> on a 64-bit platform: the value and whether an error is returned.  A number
  out of range is an error that still carries the nearest representable value, which the code
  uses where it discards the error.
\<close>

definition max_int :: int where
  "max_int = 9223372036854775807"

definition digit_value :: "char \<Rightarrow> int" where
  "digit_value c = int (of_char c) - 48"

definition digits_value :: "string \<Rightarrow> int" where
  "digits_value s = foldl (\<lambda>a c. 10 * a + digit_value c) 0 s"

definition Atoi_unsigned :: "string \<Rightarrow> (int \<times> bool)" where
  "Atoi_unsigned s =
     (if s = [] \<or> \<not> list_all is_digit s then (0, True)
      else if digits_value s > max_int then (max_int, True)
      else (digits_value s, False))"

definition Atoi :: "string \<Rightarrow> int \<times> bool" where
  "Atoi s =
     (case s of
        [] \<Rightarrow> (0, True)
      | c # t \<Rightarrow>
          if c = CHR ''+'' then Atoi_unsigned t
          else if c = CHR ''-'' then
            (if t = [] \<or> \<not> list_all is_digit t then (0, True)
             else if digits_value t > max_int + 1 then (- max_int - 1, True)
             else (- digits_value t, False))
          else Atoi_unsigned s)"

abbreviation atoi_val :: "string \<Rightarrow> int" where
  "atoi_val s \<equiv> fst (Atoi s)"

abbreviation atoi_err :: "string \<Rightarrow> bool" where
  "atoi_err s \<equiv> snd (Atoi s)"

fun nat_digits :: "nat \<Rightarrow> string" where
  "nat_digits n =
     (if n < 10 then [char_of (48 + n)]
      else nat_digits (n div 10) @ [char_of (48 + n mod 10)])"

declare nat_digits.simps [simp del]

definition Itoa :: "int \<Rightarrow> string" where
  "Itoa i = (if i < 0 then CHR ''-'' # nat_digits (nat (- i)) else nat_digits (nat i))"

section \<open>Comparison and sorting\<close>

definition cmp_Compare :: "'a::linorder \<Rightarrow> 'a \<Rightarrow> int" where
  "cmp_Compare x y = (if x < y then - 1 else if y < x then 1 else 0)"

fun ins_cmp :: "('a \<Rightarrow> 'a \<Rightarrow> int) \<Rightarrow> 'a \<Rightarrow> 'a list \<Rightarrow> 'a list" where
  "ins_cmp cmp x [] = [x]"
| "ins_cmp cmp x (y # ys) = (if cmp x y \<le> 0 then x # y # ys else y # ins_cmp cmp x ys)"

text \<open>
  \<open>slices.SortFunc\<close> and \<open>slices.SortedStableFunc\<close>.  Insertion sort is one of the
  permutations the specification of \<open>SortFunc\<close> allows; \<open>sort_unique\<close> below shows that a
  comparison function without ties leaves no other.
\<close>

definition SortFunc :: "('a \<Rightarrow> 'a \<Rightarrow> int) \<Rightarrow> 'a list \<Rightarrow> 'a list" where
  "SortFunc cmp xs = foldr (ins_cmp cmp) xs []"

text \<open>\<open>sort.Strings\<close>: ascending byte order.\<close>

definition sort_Strings :: "string list \<Rightarrow> string list" where
  "sort_Strings = SortFunc cmp_Compare"

text \<open>\<open>sort.Slice\<close> with a less function.\<close>

definition sort_Slice :: "('a \<Rightarrow> 'a \<Rightarrow> bool) \<Rightarrow> 'a list \<Rightarrow> 'a list" where
  "sort_Slice lt = SortFunc (\<lambda>x y. if lt y x then 1 else 0)"

section \<open>Regular expressions\<close>

text \<open>
  The expressions of the tag grammar.  Repetition occurs over character classes only, so a
  repeated class is a constructor of its own, greedy or lazy.  A match is the list of all ways
  to match a prefix of the input, in the order a leftmost-first (Perl) matcher prefers them;
  each carries the text it consumed, the capture groups and the rest of the input.
\<close>

datatype re =
    REmpty
  | RClass "char \<Rightarrow> bool"
  | RMany bool "char \<Rightarrow> bool"
  | RSeq re re
  | RAlt re re
  | RGroup nat re

type_synonym re_match = "string \<times> (nat \<times> string) list \<times> string"

fun class_splits :: "(char \<Rightarrow> bool) \<Rightarrow> string \<Rightarrow> (string \<times> string) list" where
  "class_splits p [] = [([], [])]"
| "class_splits p (c # s) =
     ([], c # s) # (if p c then map (\<lambda>(u, v). (c # u, v)) (class_splits p s) else [])"

fun re_run :: "re \<Rightarrow> string \<Rightarrow> re_match list" where
  "re_run REmpty s = [([], [], s)]"
| "re_run (RClass p) s =
     (case s of [] \<Rightarrow> [] | c # t \<Rightarrow> if p c then [([c], [], t)] else [])"
| "re_run (RMany greedy p) s =
     map (\<lambda>(u, v). (u, [], v)) (if greedy then rev (class_splits p s) else class_splits p s)"
| "re_run (RSeq a b) s =
     concat (map (\<lambda>(m, g, t). map (\<lambda>(m', g', t'). (m @ m', g @ g', t')) (re_run b t)) (re_run a s))"
| "re_run (RAlt a b) s = re_run a s @ re_run b s"
| "re_run (RGroup n a) s = map (\<lambda>(m, g, t). (m, (n, m) # g, t)) (re_run a s)"

text \<open>\<open>FindStringSubmatch\<close> of an expression anchored at both ends.\<close>

definition re_full :: "re \<Rightarrow> string \<Rightarrow> (nat \<times> string) list option" where
  "re_full r s = (case find (\<lambda>(m, g, t). t = []) (re_run r s) of
      None \<Rightarrow> None | Some (m, g, t) \<Rightarrow> Some g)"

text \<open>A group that did not take part in the match is the empty string.\<close>

definition re_group :: "(nat \<times> string) list \<Rightarrow> nat \<Rightarrow> string" where
  "re_group g n = (case map_of g n of None \<Rightarrow> [] | Some s \<Rightarrow> s)"

abbreviation ROpt :: "re \<Rightarrow> re" where
  "ROpt r \<equiv> RAlt r REmpty"

abbreviation RPlus :: "(char \<Rightarrow> bool) \<Rightarrow> re" where
  "RPlus p \<equiv> RSeq (RClass p) (RMany True p)"

section \<open>Glob matching\<close>

text \<open>
  \<open>path.Match\<close>.  A pattern is cut into chunks at its stars (\<open>scanChunk\<close>); each chunk is a
  list of one-character items.  A pattern that does not parse is \<open>ErrBadPattern\<close>.
\<close>

datatype glob_item =
    GLit char
  | GAny
  | GClass bool "(char \<times> char) list"

fun glob_esc :: "string \<Rightarrow> (char \<times> string) option" where
  "glob_esc [] = None"
| "glob_esc (c # s) =
     (if c = CHR ''-'' \<or> c = CHR '']'' then None
      else if c = CHR 0x5C then (case s of [] \<Rightarrow> None | d # t \<Rightarrow> if t = [] then None else Some (d, t))
      else if s = [] then None else Some (c, s))"

text \<open>The ranges of a bracket expression up to its closing bracket; the fuel is the text left.\<close>

fun glob_ranges :: "nat \<Rightarrow> nat \<Rightarrow> string \<Rightarrow> ((char \<times> char) list \<times> string) option" where
  "glob_ranges 0 n s = None"
| "glob_ranges (Suc fuel) n s =
     (if s \<noteq> [] \<and> hd s = CHR '']'' \<and> n > 0 then Some ([], tl s)
      else (case glob_esc s of
          None \<Rightarrow> None
        | Some (lo, t) \<Rightarrow>
            (case (if t \<noteq> [] \<and> hd t = CHR ''-'' then glob_esc (tl t) else Some (lo, t)) of
               None \<Rightarrow> None
             | Some (hi, u) \<Rightarrow>
                 (case glob_ranges fuel (Suc n) u of
                    None \<Rightarrow> None
                  | Some (rs, v) \<Rightarrow> Some ((lo, hi) # rs, v)))))"

text \<open>
  The chunks of a pattern, each with whether stars precede it.  \<open>pending\<close> is whether stars
  were just read; the fuel is the length of the pattern.
\<close>

fun glob_parse :: "nat \<Rightarrow> string \<Rightarrow> bool \<Rightarrow> glob_item list \<Rightarrow> (bool \<times> glob_item list) list option" where
  "glob_parse 0 s star acc = None"
| "glob_parse (Suc fuel) s star acc =
     (case s of
        [] \<Rightarrow> Some (if star \<or> acc \<noteq> [] then [(star, rev acc)] else [])
      | c # t \<Rightarrow>
          if c = CHR ''*'' then
            (if acc = [] then glob_parse fuel t True []
             else (case glob_parse fuel t True [] of
                None \<Rightarrow> None | Some ch \<Rightarrow> Some ((star, rev acc) # ch)))
          else if c = CHR ''?'' then glob_parse fuel t star (GAny # acc)
          else if c = CHR ''['' then
            (let neg = (t \<noteq> [] \<and> hd t = CHR 0x5E); u = (if neg then tl t else t)
             in case glob_ranges (Suc (length u)) 0 u of
                  None \<Rightarrow> None
                | Some (rs, v) \<Rightarrow> glob_parse fuel v star (GClass neg rs # acc))
          else if c = CHR 0x5C then
            (case t of [] \<Rightarrow> None | d # u \<Rightarrow> glob_parse fuel u star (GLit d # acc))
          else glob_parse fuel t star (GLit c # acc))"

fun glob_item_ok :: "glob_item \<Rightarrow> char \<Rightarrow> bool" where
  "glob_item_ok (GLit d) c = (c = d)"
| "glob_item_ok GAny c = (c \<noteq> CHR ''/'')"
| "glob_item_ok (GClass neg rs) c = (list_ex (\<lambda>(lo, hi). lo \<le> c \<and> c \<le> hi) rs \<noteq> neg)"

text \<open>\<open>matchChunk\<close>: the rest of the name when the chunk matches its beginning.\<close>

fun match_chunk :: "glob_item list \<Rightarrow> string \<Rightarrow> string option" where
  "match_chunk [] s = Some s"
| "match_chunk (i # is) [] = None"
| "match_chunk (i # is) (c # s) = (if glob_item_ok i c then match_chunk is s else None)"

text \<open>
  The first way to match a chunk after skipping bytes a star may absorb; the last chunk must
  exhaust the name.
\<close>

fun match_star :: "glob_item list \<Rightarrow> bool \<Rightarrow> string \<Rightarrow> string option" where
  "match_star ch final [] = None"
| "match_star ch final (c # s) =
     (if c = CHR ''/'' then None
      else (case match_chunk ch s of
          Some t \<Rightarrow> if final \<and> t \<noteq> [] then match_star ch final s else Some t
        | None \<Rightarrow> match_star ch final s))"

fun match_chunks :: "(bool \<times> glob_item list) list \<Rightarrow> string \<Rightarrow> bool" where
  "match_chunks [] name = (name = [])"
| "match_chunks ((star, ch) # rest) name =
     (if star \<and> ch = [] then CHR ''/'' \<notin> set name
      else (case match_chunk ch name of
          Some t \<Rightarrow>
            if t = [] \<or> rest \<noteq> [] then match_chunks rest t
            else if star then
              (case match_star ch (rest = []) name of None \<Rightarrow> False | Some u \<Rightarrow> match_chunks rest u)
            else False
        | None \<Rightarrow>
            if star then
              (case match_star ch (rest = []) name of None \<Rightarrow> False | Some u \<Rightarrow> match_chunks rest u)
            else False))"

text \<open>\<open>None\<close> is \<open>ErrBadPattern\<close>.\<close>

definition path_Match :: "string \<Rightarrow> string \<Rightarrow> bool option" where
  "path_Match pattern name =
     (case glob_parse (Suc (length pattern)) pattern False [] of
        None \<Rightarrow> None | Some ch \<Rightarrow> Some (match_chunks ch name))"

section \<open>Laws of the string functions\<close>

lemma HasPrefix_iff: "HasPrefix s p \<longleftrightarrow> (\<exists>r. s = p @ r)"
  unfolding HasPrefix_def by (metis append_eq_conv_conj append_take_drop_id)

lemma CutPrefix_Some [simp]: "CutPrefix s p = Some r \<longleftrightarrow> s = p @ r"
  by (auto simp: CutPrefix_def HasPrefix_iff)

lemma CutPrefix_None: "CutPrefix s p = None \<longleftrightarrow> \<not> HasPrefix s p"
  by (simp add: CutPrefix_def)

lemma HasPrefix_Nil [simp]: "HasPrefix s []"
  by (simp add: HasPrefix_def)

lemma HasPrefix_append [simp]: "HasPrefix (p @ r) p"
  by (simp add: HasPrefix_def)

lemma cut_byte_None: "cut_byte b s = None \<longleftrightarrow> b \<notin> set s"
proof (induction s)
  case (Cons c s)
  then show ?case by (cases "cut_byte b s") auto
qed simp

lemma cut_byte_Some: "cut_byte b s = Some (u, v) \<longleftrightarrow> s = u @ b # v \<and> b \<notin> set u"
proof (induction s arbitrary: u)
  case Nil
  then show ?case by simp
next
  case (Cons c s)
  show ?case
  proof (cases "c = b")
    case True
    then show ?thesis by (cases u) auto
  next
    case False
    then have "cut_byte b (c # s) = Some (u, v)
        \<longleftrightarrow> (\<exists>u'. cut_byte b s = Some (u', v) \<and> u = c # u')"
      by (cases "cut_byte b s") auto
    with Cons.IH False show ?thesis by (cases u) auto
  qed
qed

lemma cut_byte_simps [simp]:
  "b \<notin> set u \<Longrightarrow> cut_byte b (u @ b # v) = Some (u, v)"
  "b \<notin> set s \<Longrightarrow> cut_byte b s = None"
  by (simp_all add: cut_byte_Some cut_byte_None)

lemma cut_byte_cases:
  obtains (absent) "b \<notin> set s" "cut_byte b s = None"
  | (found) u v where "s = u @ b # v" "b \<notin> set u" "cut_byte b s = Some (u, v)"
  by (cases "cut_byte b s") (auto simp: cut_byte_None cut_byte_Some)

lemma Split_neq_Nil [simp]: "Split s b \<noteq> []"
  by (induction s) (auto split: list.splits)

lemma Join_Cons: "ps \<noteq> [] \<Longrightarrow> Join (p # ps) sep = p @ sep @ Join ps sep"
  by (cases ps) auto

lemma Join_Split [simp]: "Join (Split s b) [b] = s"
proof (induction s)
  case Nil
  then show ?case by simp
next
  case (Cons c s)
  show ?case
  proof (cases "c = b")
    case True
    with Cons show ?thesis by (simp add: Join_Cons)
  next
    case False
    obtain p ps where "Split s b = p # ps" by (cases "Split s b") auto
    with Cons False show ?thesis by (cases ps) auto
  qed
qed

lemma Split_parts: "p \<in> set (Split s b) \<Longrightarrow> b \<notin> set p"
  by (induction s arbitrary: p) (auto split: list.splits if_splits)

lemma Split_no_sep: "b \<notin> set s \<Longrightarrow> Split s b = [s]"
  by (induction s) auto

lemma Split_append_sep: "b \<notin> set u \<Longrightarrow> Split (u @ b # v) b = u # Split v b"
  by (induction u) auto

lemma Split_snoc: "b \<notin> set v \<Longrightarrow> Split (u @ b # v) b = Split u b @ [v]"
  by (induction u) (auto simp: Split_no_sep split: list.split)

lemma Split_sub: "p \<in> set (Split s b) \<Longrightarrow> set p \<subseteq> set s"
proof (induction s arbitrary: p)
  case (Cons c s)
  then show ?case by (cases "Split s b") (auto split: if_splits, blast)
qed simp

lemma Split_Join:
  "ps \<noteq> [] \<Longrightarrow> \<forall>p \<in> set ps. b \<notin> set p \<Longrightarrow> Split (Join ps [b]) b = ps"
proof (induction ps)
  case Nil
  then show ?case by simp
next
  case (Cons p ps)
  then show ?case by (cases ps) (auto simp: Split_no_sep Split_append_sep Join_Cons)
qed

lemma ToLower_append [simp]: "ToLower (s @ t) = ToLower s @ ToLower t"
  by (simp add: ToLower_def)

lemma length_ToLower [simp]: "length (ToLower s) = length s"
  by (simp add: ToLower_def)

section \<open>Laws of the regular expressions and of sorting\<close>

lemma class_splits_append: "(u, v) \<in> set (class_splits p s) \<Longrightarrow> s = u @ v"
  by (induction s arbitrary: u) (auto split: if_splits)

lemma class_splits_class: "(u, v) \<in> set (class_splits p s) \<Longrightarrow> list_all p u"
  by (induction s arbitrary: u) (auto split: if_splits)

text \<open>A match consumes exactly the text it reports: nothing of the input is lost.\<close>

lemma re_run_append: "(m, g, t) \<in> set (re_run r s) \<Longrightarrow> s = m @ t"
proof (induction r arbitrary: m g t s)
  case (RClass p)
  then show ?case by (auto split: list.splits if_splits)
next
  case (RMany greedy p)
  then show ?case by (auto dest: class_splits_append split: if_splits)
next
  case (RSeq a b)
  then show ?case by fastforce
qed auto

lemma re_full_find:
  "re_full r s = Some g \<Longrightarrow> \<exists>m. (m, g, []) \<in> set (re_run r s) \<and> m = s"
proof -
  assume "re_full r s = Some g"
  then obtain m t where f: "find (\<lambda>(m, g, t). t = []) (re_run r s) = Some (m, g, t)"
    by (auto simp: re_full_def split: option.splits prod.splits)
  then have "(m, g, t) \<in> set (re_run r s)" and "t = []"
    by (auto simp: find_Some_iff in_set_conv_nth)
  then show ?thesis using re_run_append by fastforce
qed

lemma mset_ins_cmp [simp]: "mset (ins_cmp cmp x ys) = add_mset x (mset ys)"
  by (induction ys) auto

lemma mset_SortFunc [simp]: "mset (SortFunc cmp xs) = mset xs"
  by (induction xs) (auto simp: SortFunc_def)

lemma set_SortFunc [simp]: "set (SortFunc cmp xs) = set xs"
  by (metis mset_SortFunc set_mset_mset)

lemma length_SortFunc [simp]: "length (SortFunc cmp xs) = length xs"
  by (metis mset_SortFunc size_mset)

lemma SortFunc_Nil_iff [simp]: "SortFunc cmp xs = [] \<longleftrightarrow> xs = []"
  by (metis length_0_conv length_SortFunc)

lemma distinct_SortFunc [simp]: "distinct (SortFunc cmp xs) \<longleftrightarrow> distinct xs"
  by (metis distinct_card card_distinct set_SortFunc length_SortFunc)

lemma SortFunc_simps [go_simps]:
  "SortFunc cmp [] = []"
  "SortFunc cmp (x # xs) = ins_cmp cmp x (SortFunc cmp xs)"
  by (simp_all add: SortFunc_def)

text \<open>
  What a Go comparison function promises: it orders its arguments by a key in a linear order,
  largest key first.  A client sorts with it and takes the head.
\<close>

locale desc_cmp =
  fixes cmp :: "'a \<Rightarrow> 'a \<Rightarrow> int" and key :: "'a \<Rightarrow> 'k::linorder"
  assumes cmp_le: "cmp x y \<le> 0 \<longleftrightarrow> key y \<le> key x"
begin

abbreviation desc :: "'a list \<Rightarrow> bool" where
  "desc \<equiv> sorted_wrt (\<lambda>x y. key y \<le> key x)"

lemma desc_ins: "desc ys \<Longrightarrow> desc (ins_cmp cmp x ys)"
proof (induction ys)
  case Nil
  then show ?case by simp
next
  case (Cons y ys)
  have "set (ins_cmp cmp x ys) = insert x (set ys)"
    by (metis mset_ins_cmp set_mset_add_mset_insert set_mset_mset)
  with Cons show ?case by (auto simp: cmp_le)
qed

lemma desc_sort: "desc (SortFunc cmp xs)"
  by (induction xs) (auto simp: go_simps desc_ins)

lemma hd_sort_in: "xs \<noteq> [] \<Longrightarrow> hd (SortFunc cmp xs) \<in> set xs"
  by (metis SortFunc_Nil_iff hd_in_set set_SortFunc)

lemma hd_sort_max: "x \<in> set xs \<Longrightarrow> key x \<le> key (hd (SortFunc cmp xs))"
proof -
  assume x: "x \<in> set xs"
  obtain h ts where s: "SortFunc cmp xs = h # ts"
    using x by (metis SortFunc_Nil_iff empty_iff list.exhaust list.set(1))
  have "x \<in> set (h # ts)" using x set_SortFunc [of cmp xs] s by simp
  with desc_sort [of xs] s show ?thesis by auto
qed

lemma sort_unique:
  "mset ys = mset xs \<Longrightarrow> desc ys \<Longrightarrow> inj_on key (set xs) \<Longrightarrow> ys = SortFunc cmp xs"
proof -
  assume m: "mset ys = mset xs" and d: "desc ys" and i: "inj_on key (set xs)"
  have u: "us = vs"
    if "mset us = mset vs" "desc us" "desc vs" "inj_on key (set us)" for us vs :: "'a list"
    using that
  proof (induction us arbitrary: vs)
    case Nil
    then show ?case by simp
  next
    case (Cons a us)
    then obtain b vs' where vs: "vs = b # vs'" by (cases vs) auto
    have sets: "set (a # us) = set (b # vs')"
      using Cons.prems(1) vs by (metis set_mset_mset)
    have "key a \<le> key b" and "key b \<le> key a"
      using Cons.prems(2,3) sets vs by (force simp: set_eq_iff)+
    then have "a = b"
      using Cons.prems(4) sets by (metis inj_onD list.set_intros(1) order_antisym)
    then show ?case
      using Cons vs by (auto simp: inj_on_def)
  qed
  have "set ys = set xs" using m by (metis set_mset_mset)
  then show ?thesis using u [of ys "SortFunc cmp xs"] m d i desc_sort by simp
qed

text \<open>With no two equal keys the result does not depend on the order the input came in.\<close>

lemma sort_perm_eq:
  "mset ys = mset xs \<Longrightarrow> inj_on key (set xs) \<Longrightarrow> SortFunc cmp ys = SortFunc cmp xs"
  by (rule sort_unique) (auto simp: desc_sort)

end

lemma cmp_Compare_le [simp]: "cmp_Compare x y \<le> 0 \<longleftrightarrow> x \<le> y"
  by (auto simp: cmp_Compare_def)

lemma cmp_Compare_zero [simp]: "cmp_Compare x y = 0 \<longleftrightarrow> x = y"
  by (auto simp: cmp_Compare_def)

lemma cmp_Compare_less [simp]: "cmp_Compare x y < 0 \<longleftrightarrow> x < y"
  by (auto simp: cmp_Compare_def)

lemma sorted_sort_Strings [simp]: "sorted (sort_Strings xs)"
proof (induction xs)
  case Nil
  then show ?case by (simp add: sort_Strings_def go_simps)
next
  case (Cons x xs)
  have "sorted (ins_cmp cmp_Compare x ys)" if "sorted ys" for ys :: "string list"
    using that
  proof (induction ys)
    case (Cons y ys)
    have "set (ins_cmp cmp_Compare x ys) = insert x (set ys)"
      by (metis mset_ins_cmp set_mset_add_mset_insert set_mset_mset)
    with Cons show ?case by auto
  qed simp
  with Cons show ?case by (simp add: sort_Strings_def go_simps)
qed

lemma set_sort_Strings [simp]: "set (sort_Strings xs) = set xs"
  by (simp add: sort_Strings_def)

lemma distinct_sort_Strings [simp]: "distinct (sort_Strings xs) \<longleftrightarrow> distinct xs"
  by (simp add: sort_Strings_def)

lemma mset_sort_Strings [simp]: "mset (sort_Strings xs) = mset xs"
  by (simp add: sort_Strings_def)

lemma sort_Strings_cong: "mset xs = mset ys \<Longrightarrow> sort_Strings xs = sort_Strings ys"
  by (metis mset_sort_Strings properties_for_sort sorted_sort_Strings)

end
