(* ===== verification/Prelude.thy ===== *)
theory Prelude
  imports GoStd
begin

text \<open>
  Conventions shared by the component theories.  A Go pointer or slice that may be nil is an
  \<open>option\<close>; a Go map is an association list, looked up with \<open>map_of\<close> and iterated in list
  order; a function that returns an error is a value of \<open>'e + 'a\<close> with \<open>Inl\<close> the error,
  or an \<open>'e option\<close> when it returns nothing else.  Times are integers, the zero time 0.

  The locale \<open>event_aggregate\<close> is the contract of an event-sourced aggregate
  (docs/spec/commands.md): a command is validated against the current value and, when accepted,
  replaces it by the value it emits; a rejected command leaves it as it was.  \<open>ok\<close> is what the
  callers guarantee of the commands they send, \<open>inv\<close> the invariant every emitted value has.
\<close>

named_theorems model_defs \<open>definitions of the model's small helpers, unfolded in proofs\<close>

type_synonym go_time = int
type_synonym go_error = string

definition zero_time :: go_time where
  "zero_time = 0"

abbreviation elems :: "'a list option \<Rightarrow> 'a list" where
  "elems xs \<equiv> (case xs of None \<Rightarrow> [] | Some ys \<Rightarrow> ys)"

abbreviation keys :: "('k \<times> 'v) list \<Rightarrow> 'k list" where
  "keys m \<equiv> map fst m"

text \<open>Writing \<open>m[k] = v\<close>: the entry is overwritten in place or appended.\<close>

fun map_put :: "('k \<times> 'v) list \<Rightarrow> 'k \<Rightarrow> 'v \<Rightarrow> ('k \<times> 'v) list" where
  "map_put [] k v = [(k, v)]"
| "map_put ((k', v') # m) k v = (if k' = k then (k, v) # m else (k', v') # map_put m k v)"

definition has_key :: "('k \<times> 'v) list \<Rightarrow> 'k \<Rightarrow> bool" where
  "has_key m k \<longleftrightarrow> map_of m k \<noteq> None"

text \<open>Running a list of checks and keeping every error, in order.\<close>

definition collect :: "('a \<Rightarrow> 'e list) \<Rightarrow> 'a list \<Rightarrow> 'e list" where
  "collect f xs = concat (map f xs)"

definition enum :: "'a list \<Rightarrow> (nat \<times> 'a) list" where
  "enum xs = zip [0..<length xs] xs"

text \<open>A loop that stops at the first error.\<close>

fun try_map :: "('a \<Rightarrow> 'e + 'b) \<Rightarrow> 'a list \<Rightarrow> 'e + 'b list" where
  "try_map f [] = Inr []"
| "try_map f (x # xs) =
     (case f x of
        Inl e \<Rightarrow> Inl e
      | Inr y \<Rightarrow> (case try_map f xs of Inl e \<Rightarrow> Inl e | Inr ys \<Rightarrow> Inr (y # ys)))"

lemma map_of_map_put [simp]: "map_of (map_put m k v) = (map_of m)(k \<mapsto> v)"
  by (induction m) auto

lemma keys_map_put: "set (keys (map_put m k v)) = insert k (set (keys m))"
proof (induction m)
  case (Cons p m)
  then show ?case by (cases p) (simp add: insert_commute)
qed simp

lemma distinct_map_put [simp]: "distinct (keys m) \<Longrightarrow> distinct (keys (map_put m k v))"
proof (induction m)
  case (Cons p m)
  then show ?case by (cases p) (auto simp: keys_map_put simp flip: set_map)
qed simp

lemma has_key_iff [simp]: "has_key m k \<longleftrightarrow> k \<in> set (keys m)"
  by (induction m) (auto simp: has_key_def)

lemma collect_Nil_iff [simp]: "collect f xs = [] \<longleftrightarrow> (\<forall>x \<in> set xs. f x = [])"
  by (simp add: collect_def)

lemma set_collect [simp]: "set (collect f xs) = (\<Union>x \<in> set xs. set (f x))"
  by (simp add: collect_def)

lemma enum_snd [simp]: "map snd (enum xs) = xs"
  by (simp add: enum_def)

lemma ball_enum: "(\<forall>p \<in> set (enum xs). P (snd p)) \<longleftrightarrow> (\<forall>x \<in> set xs. P x)"
  by (metis (no_types, lifting) enum_snd imageE imageI set_map)

lemma try_map_Inr_iff:
  "try_map f xs = Inr ys \<longleftrightarrow> list_all2 (\<lambda>x y. f x = Inr y) xs ys"
proof (induction xs arbitrary: ys)
  case (Cons x xs)
  show ?case
  proof (cases ys)
    case (Cons y ys')
    then show ?thesis
      using Cons.IH [of ys'] Cons.IH by (cases "f x"; cases "try_map f xs") auto
  qed (auto split: sum.splits)
qed auto

lemma try_map_total: "\<forall>x \<in> set xs. \<exists>y. f x = Inr y \<Longrightarrow> \<exists>ys. try_map f xs = Inr ys"
  by (induction xs) (auto split: sum.splits)

lemma try_map_length: "try_map f xs = Inr ys \<Longrightarrow> length ys = length xs"
  by (auto simp: try_map_Inr_iff dest: list_all2_lengthD)

lemma find_SomeD: "find P xs = Some x \<Longrightarrow> x \<in> set xs \<and> P x"
  by (induction xs) (auto split: if_splits)

section \<open>Event-sourced aggregates\<close>

text \<open>
  A command is a record of the methods of asynx's \<open>Command\<close> interface.  A rejected command is
  asynx's validation error; \<open>ErrExecutionSuperseded\<close> is the validation error that also says
  that the execution is no longer the current one.
\<close>

datatype cmd_error = ErrValidation | ErrExecutionSuperseded

record 's command =
  cmd_id :: string
  cmd_event :: string
  cmd_snapshot :: bool
  cmd_validate :: "'s option \<Rightarrow> cmd_error option"
  cmd_emit :: "'s option \<Rightarrow> 's"

definition reject_unless :: "bool \<Rightarrow> cmd_error option" where
  "reject_unless ok = (if ok then None else Some ErrValidation)"

lemma reject_unless_None [simp]: "reject_unless ok = None \<longleftrightarrow> ok"
  by (simp add: reject_unless_def)

text \<open>One command sent to an aggregate, and a sequence of them.\<close>

definition agg_send ::
  "('c \<Rightarrow> 's option \<Rightarrow> 'e option) \<Rightarrow> ('c \<Rightarrow> 's option \<Rightarrow> 's) \<Rightarrow> 'c \<Rightarrow> 's option \<Rightarrow> 'e + 's" where
  "agg_send validate emit c cur =
     (case validate c cur of Some e \<Rightarrow> Inl e | None \<Rightarrow> Inr (emit c cur))"

fun agg_run ::
  "('c \<Rightarrow> 's option \<Rightarrow> 'e option) \<Rightarrow> ('c \<Rightarrow> 's option \<Rightarrow> 's) \<Rightarrow> 'c list \<Rightarrow> 's option \<Rightarrow> 's option" where
  "agg_run validate emit [] cur = cur"
| "agg_run validate emit (c # cs) cur =
     agg_run validate emit cs
       (case agg_send validate emit c cur of Inl e \<Rightarrow> cur | Inr s \<Rightarrow> Some s)"

locale event_aggregate =
  fixes validate :: "'c \<Rightarrow> 's option \<Rightarrow> 'e option"
    and emit :: "'c \<Rightarrow> 's option \<Rightarrow> 's"
    and ok :: "'c \<Rightarrow> bool"
    and inv :: "'s \<Rightarrow> bool"
  assumes inv_emit: "ok c \<Longrightarrow> validate c cur = None \<Longrightarrow> pred_option inv cur \<Longrightarrow> inv (emit c cur)"
begin

lemma inv_send: "agg_send validate emit c cur = Inr s \<Longrightarrow> ok c \<Longrightarrow> pred_option inv cur \<Longrightarrow> inv s"
  by (auto simp: agg_send_def inv_emit split: option.splits)

lemma inv_run:
  "list_all ok cs \<Longrightarrow> pred_option inv cur \<Longrightarrow> pred_option inv (agg_run validate emit cs cur)"
proof (induction cs arbitrary: cur)
  case (Cons c cs)
  then show ?case by (cases "agg_send validate emit c cur") (auto dest: inv_send)
qed simp

lemma inv_from_scratch: "agg_run validate emit cs None = Some s \<Longrightarrow> list_all ok cs \<Longrightarrow> inv s"
  using inv_run [of cs None] by simp

end

lemma agg_run_append [simp]: "agg_run v e (cs @ ds) cur = agg_run v e ds (agg_run v e cs cur)"
  by (induction cs arbitrary: cur) simp_all

section \<open>Refinement of a state by an abstract one\<close>

text \<open>
  A component whose operations change a concrete state stands for an abstract state: every
  operation keeps the invariant and does to the abstraction what the specification says.
\<close>

locale simulation =
  fixes step :: "'op \<Rightarrow> 'c \<Rightarrow> 'c"
    and spec :: "'op \<Rightarrow> 'a \<Rightarrow> 'a"
    and ok :: "'op \<Rightarrow> bool"
    and inv :: "'c \<Rightarrow> bool"
    and abs :: "'c \<Rightarrow> 'a"
  assumes step_sim: "inv c \<Longrightarrow> ok op \<Longrightarrow> inv (step op c) \<and> abs (step op c) = spec op (abs c)"
begin

lemma run_sim: "inv c \<Longrightarrow> list_all ok ops \<Longrightarrow> inv (fold step ops c) \<and> abs (fold step ops c) = fold spec ops (abs c)"
  by (induction ops arbitrary: c) (auto simp: step_sim)

end

end
