(* ===== verification/Steps.thy ===== *)
theory Steps
  imports Prelude
begin

text \<open>
  The steps of a lifecycle or method (internal/domain/runtime/step): the values that may vary
  per platform (\<open>Overrideable\<close>), the concrete step types and the operations of the \<open>Step\<close>
  interface.
\<close>

section \<open>Data\<close>

record 'a Overrideable =
  Default :: 'a
  OSArch :: "(string \<times> 'a) list"

datatype StepType =
    StepTypeRun | StepTypeFetch | StepTypeExtract | StepTypePortable | StepTypeSignal
  | StepTypeDependencies | StepTypeExpose | StepTypeUnexpose | StepTypeOther string

record BasicStep =
  stepType :: StepType
  exitOnFailure :: bool
  title :: string

record UIOptions =
  uiTitle :: string
  uiPath :: string
  uiListen :: "string list"
  uiStatic :: string

datatype SignalKind = SignalKindGraceful | SignalKindKill | SignalKindInterrupt | SignalKindOther string

text \<open>
  The arguments of each constructor are the fields of the Go struct in order: a run step has its
  command, elevated, timeout and interface; a fetch step its url, destination, checksum and
  timeout; an extract and a portable step their source, destination and timeout.
\<close>

datatype Step =
    RunStep BasicStep "string Overrideable" "bool Overrideable" "string Overrideable" "UIOptions option"
  | FetchStep BasicStep "string Overrideable" "string Overrideable" "string Overrideable" "string Overrideable"
  | ExtractStep BasicStep "string Overrideable" "string Overrideable" "string Overrideable"
  | PortableStep BasicStep "string Overrideable" "string Overrideable" "string Overrideable" string
  | SignalStep BasicStep "SignalKind Overrideable" "string Overrideable"
  | DependenciesStep BasicStep
  | ExposeStep BasicStep string string string string "string list" string
  | UnexposeStep BasicStep

type_synonym StepList = "Step list option"

section \<open>Operations\<close>

definition plain :: "'a \<Rightarrow> 'a Overrideable" where
  "plain v = \<lparr>Default = v, OSArch = []\<rparr>"

definition Overrideable_Resolve :: "'a Overrideable \<Rightarrow> string \<Rightarrow> 'a" where
  "Overrideable_Resolve ov osArch =
     (case map_of (OSArch ov) osArch of Some v \<Rightarrow> v | None \<Rightarrow> Default ov)"

text \<open>
  \<open>fromMap\<close> on a fresh value: the key "default" becomes the default (the zero value when it is
  absent), every other key an override.
\<close>

definition Overrideable_fromMap :: "'a \<Rightarrow> (string \<times> 'a) list \<Rightarrow> 'a Overrideable" where
  "Overrideable_fromMap zero m =
     \<lparr>Default = (case map_of m ''default'' of Some v \<Rightarrow> v | None \<Rightarrow> zero),
      OSArch = filter (\<lambda>(k, v). k \<noteq> ''default'') m\<rparr>"

text \<open>The two shapes an overrideable is written as: a scalar, or an object with its overrides.\<close>

datatype 'a ov_wire = OvScalar 'a | OvObject "(string \<times> 'a) list"

definition Overrideable_Marshal :: "'a Overrideable \<Rightarrow> 'a ov_wire" where
  "Overrideable_Marshal ov =
     (if OSArch ov = [] then OvScalar (Default ov)
      else OvObject (foldl (\<lambda>m (k, v). map_put m k v) [(''default'', Default ov)] (OSArch ov)))"

definition Overrideable_Unmarshal :: "'a \<Rightarrow> 'a ov_wire \<Rightarrow> 'a Overrideable" where
  "Overrideable_Unmarshal zero w =
     (case w of OvScalar v \<Rightarrow> plain v | OvObject m \<Rightarrow> Overrideable_fromMap zero m)"

definition newBasicStep :: "StepType \<Rightarrow> string \<Rightarrow> bool \<Rightarrow> BasicStep" where
  "newBasicStep ty ti ex = \<lparr>stepType = ty, exitOnFailure = ex, title = ti\<rparr>"

fun basic :: "Step \<Rightarrow> BasicStep" where
  "basic (RunStep b _ _ _ _) = b"
| "basic (FetchStep b _ _ _ _) = b"
| "basic (ExtractStep b _ _ _) = b"
| "basic (PortableStep b _ _ _ _) = b"
| "basic (SignalStep b _ _) = b"
| "basic (DependenciesStep b) = b"
| "basic (ExposeStep b _ _ _ _ _ _) = b"
| "basic (UnexposeStep b) = b"

definition Step_Type :: "Step \<Rightarrow> StepType" where
  "Step_Type s = stepType (basic s)"

definition Step_Title :: "Step \<Rightarrow> string" where
  "Step_Title s = title (basic s)"

definition Step_ExitOnFailure :: "Step \<Rightarrow> bool" where
  "Step_ExitOnFailure s = exitOnFailure (basic s)"

definition RunStep_Resolve ::
  "BasicStep \<Rightarrow> string Overrideable \<Rightarrow> bool Overrideable \<Rightarrow> string Overrideable \<Rightarrow> UIOptions option \<Rightarrow> string \<Rightarrow> Step" where
  "RunStep_Resolve b cmd el ti ui os =
     RunStep b (plain (Overrideable_Resolve cmd os)) (plain (Overrideable_Resolve el os))
       (plain (Overrideable_Resolve ti os)) ui"

definition FetchStep_Resolve ::
  "BasicStep \<Rightarrow> string Overrideable \<Rightarrow> string Overrideable \<Rightarrow> string Overrideable \<Rightarrow> string Overrideable \<Rightarrow> string \<Rightarrow> Step" where
  "FetchStep_Resolve b url to ck ti os =
     FetchStep b (plain (Overrideable_Resolve url os)) (plain (Overrideable_Resolve to os))
       (plain (Overrideable_Resolve ck os)) (plain (Overrideable_Resolve ti os))"

definition ExtractStep_Resolve ::
  "BasicStep \<Rightarrow> string Overrideable \<Rightarrow> string Overrideable \<Rightarrow> string Overrideable \<Rightarrow> string \<Rightarrow> Step" where
  "ExtractStep_Resolve b fr to ti os =
     ExtractStep b (plain (Overrideable_Resolve fr os)) (plain (Overrideable_Resolve to os))
       (plain (Overrideable_Resolve ti os))"

definition PortableStep_Resolve ::
  "BasicStep \<Rightarrow> string Overrideable \<Rightarrow> string Overrideable \<Rightarrow> string Overrideable \<Rightarrow> string \<Rightarrow> string \<Rightarrow> Step" where
  "PortableStep_Resolve b fr to ti name os =
     PortableStep b (plain (Overrideable_Resolve fr os)) (plain (Overrideable_Resolve to os))
       (plain (Overrideable_Resolve ti os)) name"

definition SignalStep_Resolve ::
  "BasicStep \<Rightarrow> SignalKind Overrideable \<Rightarrow> string Overrideable \<Rightarrow> string \<Rightarrow> Step" where
  "SignalStep_Resolve b sg ti os =
     SignalStep b (plain (Overrideable_Resolve sg os)) (plain (Overrideable_Resolve ti os))"

text \<open>\<open>Step.Resolve\<close>: the step types without overrideable fields return themselves.\<close>

fun Step_Resolve :: "Step \<Rightarrow> string \<Rightarrow> Step" where
  "Step_Resolve (RunStep b cmd el ti ui) os = RunStep_Resolve b cmd el ti ui os"
| "Step_Resolve (FetchStep b url to ck ti) os = FetchStep_Resolve b url to ck ti os"
| "Step_Resolve (ExtractStep b fr to ti) os = ExtractStep_Resolve b fr to ti os"
| "Step_Resolve (PortableStep b fr to ti name) os = PortableStep_Resolve b fr to ti name os"
| "Step_Resolve (SignalStep b sg ti) os = SignalStep_Resolve b sg ti os"
| "Step_Resolve s os = s"

definition NewRunStep :: "string \<Rightarrow> string \<Rightarrow> bool \<Rightarrow> string \<Rightarrow> bool \<Rightarrow> Step" where
  "NewRunStep ti cmd el to ex =
     RunStep (newBasicStep StepTypeRun ti ex) (plain cmd) (plain el) (plain to) None"

definition NewFetchStep :: "string \<Rightarrow> string \<Rightarrow> string \<Rightarrow> string \<Rightarrow> string \<Rightarrow> bool \<Rightarrow> Step" where
  "NewFetchStep ti url to ck tmo ex =
     FetchStep (newBasicStep StepTypeFetch ti ex) (plain url) (plain to) (plain ck) (plain tmo)"

definition NewExtractStep :: "string \<Rightarrow> string \<Rightarrow> string \<Rightarrow> string \<Rightarrow> bool \<Rightarrow> Step" where
  "NewExtractStep ti fr to tmo ex =
     ExtractStep (newBasicStep StepTypeExtract ti ex) (plain fr) (plain to) (plain tmo)"

definition NewPortableStep :: "string \<Rightarrow> string \<Rightarrow> string \<Rightarrow> string \<Rightarrow> bool \<Rightarrow> Step" where
  "NewPortableStep ti fr to tmo ex =
     PortableStep (newBasicStep StepTypePortable ti ex) (plain fr) (plain to) (plain tmo) []"

definition NewSignalStep :: "string \<Rightarrow> SignalKind \<Rightarrow> string \<Rightarrow> bool \<Rightarrow> Step" where
  "NewSignalStep ti sg tmo ex =
     SignalStep (newBasicStep StepTypeSignal ti ex) (plain sg) (plain tmo)"

definition NewDependenciesStep :: "string \<Rightarrow> Step" where
  "NewDependenciesStep ti = DependenciesStep (newBasicStep StepTypeDependencies ti True)"

definition NewExposeStep :: "string \<Rightarrow> string \<Rightarrow> string \<Rightarrow> Step" where
  "NewExposeStep kind name path =
     ExposeStep (newBasicStep StepTypeExpose (''Expose '' @ kind @ '' '' @ name) False)
       kind name path [] [] []"

definition NewUnexposeStep :: Step where
  "NewUnexposeStep = UnexposeStep (newBasicStep StepTypeUnexpose ''Remove exposed entries'' False)"

definition Listens :: "UIOptions \<Rightarrow> bool" where
  "Listens ui \<longleftrightarrow> uiStatic ui = []"

text \<open>A step whose overrideable fields carry a default only.\<close>

fun flat_step :: "Step \<Rightarrow> bool" where
  "flat_step (RunStep b cmd el ti ui) = (OSArch cmd = [] \<and> OSArch el = [] \<and> OSArch ti = [])"
| "flat_step (FetchStep b url to ck ti) =
     (OSArch url = [] \<and> OSArch to = [] \<and> OSArch ck = [] \<and> OSArch ti = [])"
| "flat_step (ExtractStep b fr to ti) = (OSArch fr = [] \<and> OSArch to = [] \<and> OSArch ti = [])"
| "flat_step (PortableStep b fr to ti name) = (OSArch fr = [] \<and> OSArch to = [] \<and> OSArch ti = [])"
| "flat_step (SignalStep b sg ti) = (OSArch sg = [] \<and> OSArch ti = [])"
| "flat_step s = True"

lemmas Step_Resolve_defs = RunStep_Resolve_def FetchStep_Resolve_def ExtractStep_Resolve_def
  PortableStep_Resolve_def SignalStep_Resolve_def

lemmas New_step_defs = NewRunStep_def NewFetchStep_def NewExtractStep_def NewPortableStep_def
  NewSignalStep_def NewDependenciesStep_def NewExposeStep_def NewUnexposeStep_def

lemma plain_sel [simp]: "Default (plain v) = v" "OSArch (plain v) = []"
  by (simp_all add: plain_def)

lemma Overrideable_Resolve_plain [simp]: "Overrideable_Resolve (plain v) os = v"
  by (simp add: Overrideable_Resolve_def)

lemma plain_Default: "OSArch ov = [] \<Longrightarrow> plain (Default ov) = (ov :: 'a Overrideable)"
  by (cases ov) (simp add: plain_def)

lemma basic_Step_Resolve [simp]: "basic (Step_Resolve s os) = basic s"
  by (cases s) (auto simp: Step_Resolve_defs)

end
