(* ===== verification/Domain.thy ===== *)
theory Domain
  imports Steps
begin

text \<open>
  The domain types of the daemon (internal/domain): namespaces, platforms, arrow states and their
  transition table, selector kinds and ref snapshots, manifest data (variables, ports,
  requirements, targets, arrows), portable-app records and collections.
\<close>

section \<open>Namespaces\<close>

type_synonym Namespace = string

datatype ns_error = NsEmpty | NsFormat string | NsSegment nat

definition BareNamespace :: "Namespace \<Rightarrow> Namespace" where
  "BareNamespace n = (case cut_byte CHR ''@'' n of Some (u, v) \<Rightarrow> u | None \<Rightarrow> n)"

definition Ref :: "Namespace \<Rightarrow> string" where
  "Ref n = (case cut_byte CHR ''@'' n of Some (u, v) \<Rightarrow> v | None \<Rightarrow> [])"

definition IsGlob :: "Namespace \<Rightarrow> bool" where
  "IsGlob n \<longleftrightarrow> Contains (Ref n) ''*''"

abbreviation segments :: "Namespace \<Rightarrow> string list" where
  "segments n \<equiv> Split (BareNamespace n) CHR ''/''"

definition Namespace_Validate :: "Namespace \<Rightarrow> ns_error option" where
  "Namespace_Validate n =
     (if n = [] then Some NsEmpty
      else if length (segments n) \<noteq> 3 \<and> length (segments n) \<noteq> 4 then Some (NsFormat n)
      else (case find (\<lambda>(i, part). part = []) (enum (segments n)) of
          Some (i, part) \<Rightarrow> Some (NsSegment i) | None \<Rightarrow> None))"

definition GetQUID :: "Namespace \<Rightarrow> string" where
  "GetQUID n = (if length (segments n) \<ge> 3 then Join (take 3 (segments n)) ''/'' else BareNamespace n)"

definition GetAUID :: "Namespace \<Rightarrow> string" where
  "GetAUID n = (if length (segments n) \<ge> 4 then segments n ! 3 else [])"

definition IsQuiverHosted :: "Namespace \<Rightarrow> bool" where
  "IsQuiverHosted n \<longleftrightarrow> length (segments n) = 4"

definition WithRef :: "Namespace \<Rightarrow> string \<Rightarrow> Namespace" where
  "WithRef n r = (if r = [] then BareNamespace n else BareNamespace n @ ''@'' @ r)"

definition Domain_of :: "Namespace \<Rightarrow> string" where
  "Domain_of n = (case cut_byte CHR ''/'' (BareNamespace n) of Some (u, v) \<Rightarrow> u | None \<Rightarrow> BareNamespace n)"

definition CloneURL :: "Namespace \<Rightarrow> string" where
  "CloneURL n =
     (if length (segments n) < 3 then []
      else ''https://'' @ segments n ! 0 @ ''/'' @ segments n ! 1 @ ''/'' @ segments n ! 2)"

section \<open>Platforms\<close>

type_synonym OS = string

definition OSLinuxAMD64 :: OS where "OSLinuxAMD64 = ''linux/amd64''"
definition OSLinuxARM64 :: OS where "OSLinuxARM64 = ''linux/arm64''"
definition OSWindowsAMD64 :: OS where "OSWindowsAMD64 = ''windows/amd64''"
definition OSWindowsARM64 :: OS where "OSWindowsARM64 = ''windows/arm64''"
definition OSDarwinAMD64 :: OS where "OSDarwinAMD64 = ''darwin/amd64''"
definition OSDarwinARM64 :: OS where "OSDarwinARM64 = ''darwin/arm64''"

definition OS_IsValid :: "OS \<Rightarrow> bool" where
  "OS_IsValid o' \<longleftrightarrow> o' = OSLinuxAMD64 \<or> o' = OSLinuxARM64 \<or> o' = OSWindowsAMD64 \<or>
     o' = OSWindowsARM64 \<or> o' = OSDarwinAMD64 \<or> o' = OSDarwinARM64"

definition IsLinux :: "OS \<Rightarrow> bool" where
  "IsLinux o' \<longleftrightarrow> o' = OSLinuxAMD64 \<or> o' = OSLinuxARM64"

definition IsWindows :: "OS \<Rightarrow> bool" where
  "IsWindows o' \<longleftrightarrow> o' = OSWindowsAMD64 \<or> o' = OSWindowsARM64"

definition IsDarwin :: "OS \<Rightarrow> bool" where
  "IsDarwin o' \<longleftrightarrow> o' = OSDarwinAMD64 \<or> o' = OSDarwinARM64"

definition IsAMD64 :: "OS \<Rightarrow> bool" where
  "IsAMD64 o' \<longleftrightarrow> o' = OSLinuxAMD64 \<or> o' = OSWindowsAMD64 \<or> o' = OSDarwinAMD64"

definition IsARM64 :: "OS \<Rightarrow> bool" where
  "IsARM64 o' \<longleftrightarrow> o' = OSLinuxARM64 \<or> o' = OSWindowsARM64 \<or> o' = OSDarwinARM64"

definition AllOS :: "OS list" where
  "AllOS = [OSLinuxAMD64, OSLinuxARM64, OSWindowsAMD64, OSWindowsARM64, OSDarwinAMD64, OSDarwinARM64]"

lemmas OS_defs = OSLinuxAMD64_def OSLinuxARM64_def OSWindowsAMD64_def OSWindowsARM64_def
  OSDarwinAMD64_def OSDarwinARM64_def

section \<open>Arrow states\<close>

text \<open>
  The Go type is a string with these constants; the last constructor is any other string, which
  a manifest can carry in \<open>available_in\<close>.
\<close>

datatype ArrowState =
    ArrowStateAbsent | ArrowStateInstalling | ArrowStateUpdating | ArrowStateReady
  | ArrowStateRunning | ArrowStateStopping | ArrowStateDraining | ArrowStateDetached
  | ArrowStateUninstalling | ArrowStateRemoved | ArrowStateOutdated | ArrowStateOther string

fun transitions :: "ArrowState \<Rightarrow> ArrowState list" where
  "transitions ArrowStateAbsent = [ArrowStateReady]"
| "transitions ArrowStateReady = [ArrowStateRunning, ArrowStateInstalling, ArrowStateUninstalling,
     ArrowStateUpdating, ArrowStateOutdated]"
| "transitions ArrowStateRunning = [ArrowStateStopping, ArrowStateDetached]"
| "transitions ArrowStateStopping = [ArrowStateReady, ArrowStateDraining]"
| "transitions ArrowStateDraining = [ArrowStateReady]"
| "transitions ArrowStateDetached = [ArrowStateReady, ArrowStateStopping, ArrowStateRunning]"
| "transitions ArrowStateInstalling = [ArrowStateReady, ArrowStateAbsent]"
| "transitions ArrowStateUninstalling = [ArrowStateAbsent, ArrowStateReady]"
| "transitions ArrowStateUpdating = [ArrowStateReady, ArrowStateAbsent]"
| "transitions ArrowStateRemoved = []"
| "transitions ArrowStateOutdated = [ArrowStateReady, ArrowStateRunning, ArrowStateUninstalling]"
| "transitions (ArrowStateOther s) = []"

definition CanTransitionTo :: "ArrowState \<Rightarrow> ArrowState \<Rightarrow> bool" where
  "CanTransitionTo s target = list_ex (\<lambda>allowed. allowed = target) (transitions s)"

definition ArrowState_IsActive :: "ArrowState \<Rightarrow> bool" where
  "ArrowState_IsActive s \<longleftrightarrow> s = ArrowStateRunning \<or> s = ArrowStateStopping \<or>
     s = ArrowStateDraining \<or> s = ArrowStateInstalling \<or> s = ArrowStateUpdating"

definition MethodInstall :: string where "MethodInstall = ''_install''"
definition MethodUninstall :: string where "MethodUninstall = ''_uninstall''"
definition MethodUpdate :: string where "MethodUpdate = ''_update''"
definition MethodExecute :: string where "MethodExecute = ''_execute''"
definition MethodStop :: string where "MethodStop = ''_stop''"

lemmas method_defs = MethodInstall_def MethodUninstall_def MethodUpdate_def MethodExecute_def
  MethodStop_def

section \<open>Selectors and ref snapshots\<close>

datatype SelectorKind =
    SelectorPin | SelectorTagPin | SelectorBranchPin | SelectorChannel | SelectorOrderedChannel
  | SelectorPointerChannel | SelectorBranchChannel | SelectorConstraint | SelectorCommit
  | SelectorOther string

record Resolved =
  rRef :: string
  rCommit :: string
  rFingerprint :: string

record Available =
  avRef :: string
  avCommit :: string

record RefSnapshot =
  Tags :: "(string \<times> string) list"
  Branches :: "(string \<times> string) list"
  Head :: string

definition RefOr :: "Resolved \<Rightarrow> string \<Rightarrow> string" where
  "RefOr r fallback = (if rRef r = [] then fallback else rRef r)"

definition SelectorKind_Valid :: "SelectorKind \<Rightarrow> bool" where
  "SelectorKind_Valid k = (case k of SelectorOther s \<Rightarrow> False | _ \<Rightarrow> True)"

definition Family :: "SelectorKind \<Rightarrow> SelectorKind" where
  "Family k = (case k of
      SelectorPin \<Rightarrow> SelectorPin | SelectorTagPin \<Rightarrow> SelectorPin | SelectorBranchPin \<Rightarrow> SelectorPin
    | SelectorChannel \<Rightarrow> SelectorChannel | SelectorOrderedChannel \<Rightarrow> SelectorChannel
    | SelectorPointerChannel \<Rightarrow> SelectorChannel | SelectorBranchChannel \<Rightarrow> SelectorChannel
    | _ \<Rightarrow> k)"

definition Snapshot_Commit :: "RefSnapshot \<Rightarrow> string \<Rightarrow> string option" where
  "Snapshot_Commit s ref =
     (case map_of (Tags s) ref of Some c \<Rightarrow> Some c | None \<Rightarrow> map_of (Branches s) ref)"

section \<open>Manifest data\<close>

datatype VariableType =
  VariableTypeString | VariableTypeNumber | VariableTypeBoolean | VariableTypeSelect
  | VariableTypeOther string

record Variable =
  vName :: string
  vDescription :: string
  vDefault :: string
  vValues :: "string list"
  vMin :: int
  vMax :: int
  vSensitive :: bool
  vType :: VariableType

datatype var_error = VarEmptyName | VarNameTooLong | VarMinMax int int | VarDefault string

definition MaxVariableNameLength :: nat where
  "MaxVariableNameLength = 255"

definition Variable_Validate :: "Variable \<Rightarrow> var_error option" where
  "Variable_Validate v =
     (if vName v = [] then Some VarEmptyName
      else if length (vName v) > MaxVariableNameLength then Some VarNameTooLong
      else if vMax v > 0 \<and> vMin v > vMax v then Some (VarMinMax (vMin v) (vMax v))
      else if length (vValues v) > 0 \<and> vDefault v \<noteq> [] \<and> vDefault v \<notin> set (vValues v)
        then Some (VarDefault (vDefault v))
      else None)"

definition VariableType_IsValid :: "VariableType \<Rightarrow> bool" where
  "VariableType_IsValid t \<longleftrightarrow> t = VariableTypeString \<or> t = VariableTypeNumber \<or>
     t = VariableTypeBoolean \<or> t = VariableTypeSelect"

definition IsSelect :: "VariableType \<Rightarrow> bool" where
  "IsSelect t \<longleftrightarrow> t = VariableTypeSelect"

definition ReservedVariableNames :: "string list" where
  "ReservedVariableNames = [''WORKDIR'', ''INSTALL_PATH'', ''ARROW_NAMESPACE'', ''PLATFORM'', ''REF'',
     ''ARROW_UI_LISTEN'', ''ARROW_APP'']"

definition IsReservedVariable :: "string \<Rightarrow> bool" where
  "IsReservedVariable name \<longleftrightarrow> name \<in> set ReservedVariableNames"

datatype Protocol = ProtocolTCP | ProtocolUDP | ProtocolTCPUDP | ProtocolOther string

definition Protocol_IsValid :: "Protocol \<Rightarrow> bool" where
  "Protocol_IsValid p \<longleftrightarrow> p = ProtocolTCP \<or> p = ProtocolUDP \<or> p = ProtocolTCPUDP"

record PortDef =
  pName :: string
  pProtocol :: Protocol
  pDefault :: int
  pRequired :: bool

datatype port_error = PortEmptyName | PortRange int | PortProtocol Protocol

definition MinPort :: int where "MinPort = 1"
definition MaxPort :: int where "MaxPort = 65535"

definition PortDef_Validate :: "PortDef \<Rightarrow> port_error option" where
  "PortDef_Validate p =
     (if pName p = [] then Some PortEmptyName
      else if pDefault p \<noteq> 0 \<and> (pDefault p < MinPort \<or> pDefault p > MaxPort)
        then Some (PortRange (pDefault p))
      else if \<not> Protocol_IsValid (pProtocol p) then Some (PortProtocol (pProtocol p))
      else None)"

record Requirement =
  CpuCores :: int
  MemoryGB :: int
  DiskGB :: int

definition MinCPUCores :: int where "MinCPUCores = 1"
definition MinMemoryGB :: int where "MinMemoryGB = 1"
definition MinDiskGB :: int where "MinDiskGB = 1"

datatype req_error = ReqCPU int | ReqMemory int | ReqDisk int

definition Requirement_IsValid :: "Requirement \<Rightarrow> bool" where
  "Requirement_IsValid r \<longleftrightarrow>
     CpuCores r \<ge> MinCPUCores \<and> MemoryGB r \<ge> MinMemoryGB \<and> DiskGB r \<ge> MinDiskGB"

definition Requirement_Validate :: "Requirement \<Rightarrow> req_error option" where
  "Requirement_Validate r =
     (if CpuCores r < MinCPUCores then Some (ReqCPU (CpuCores r))
      else if MemoryGB r < MinMemoryGB then Some (ReqMemory (MemoryGB r))
      else if DiskGB r < MinDiskGB then Some (ReqDisk (DiskGB r))
      else None)"

record ExposeEntry =
  eName :: string
  ePath :: string
  eIcon :: string
  eCategories :: "string list"

record Expose =
  exCLI :: "ExposeEntry list option"
  exDesktop :: "ExposeEntry list option"

definition Expose_IsEmpty :: "Expose \<Rightarrow> bool" where
  "Expose_IsEmpty e \<longleftrightarrow> length (elems (exCLI e)) = 0 \<and> length (elems (exDesktop e)) = 0"

definition ExposeExternalRoots :: "string list" where
  "ExposeExternalRoots = [''LOCALAPPDATA'', ''PROGRAMFILES'', ''PROGRAMFILES(X86)'', ''APPDATA'']"

fun split_expose_root :: "string list \<Rightarrow> string \<Rightarrow> (string \<times> string) option" where
  "split_expose_root [] path = None"
| "split_expose_root (root # roots) path =
     (case CutPrefix path (''${'' @ root @ ''}'') of
        Some rest \<Rightarrow>
          if length rest > 1 \<and> (rest ! 0 = CHR ''/'' \<or> rest ! 0 = CHR 0x5C)
          then Some (root, drop 1 rest) else split_expose_root roots path
      | None \<Rightarrow> split_expose_root roots path)"

definition SplitExposeRoot :: "string \<Rightarrow> (string \<times> string) option" where
  "SplitExposeRoot path = split_expose_root ExposeExternalRoots path"

definition IsWindowsReservedName :: "string \<Rightarrow> bool" where
  "IsWindowsReservedName name =
     (let stem = ToUpper (case cut_byte CHR ''.'' name of Some (u, v) \<Rightarrow> u | None \<Rightarrow> name)
      in if stem \<in> set [''CON'', ''PRN'', ''AUX'', ''NUL''] then True
         else if length stem \<noteq> 4 \<or> (\<not> HasPrefix stem ''COM'' \<and> \<not> HasPrefix stem ''LPT'') then False
         else CHR ''1'' \<le> stem ! 3 \<and> stem ! 3 \<le> CHR ''9'')"

datatype DepType = ToolDep | ServiceDep

record DependencyEdge =
  deNamespace :: Namespace
  deConstraint :: string
  deType :: DepType

record Method =
  AvailableIn :: "ArrowState list"
  mSteps :: StepList

record TargetLifecycle =
  Install :: StepList
  Update :: StepList
  Execute :: StepList
  Stop :: StepList
  Uninstall :: StepList
  Preinstalled :: StepList

record Target =
  Requirements :: Requirement
  Tools :: "DependencyEdge list"
  Services :: "DependencyEdge list"
  Exports :: "(string \<times> string) list"
  Lifecycle :: TargetLifecycle
  Methods :: "(string \<times> Method) list"
  tExpose :: Expose

record Credit =
  cName :: string
  cEmail :: string
  cURL :: string

record ArrowMedia =
  mediaIcon :: string
  mediaBanner :: string

record ArrowGenerator =
  gName :: string
  gConfidence :: string
  gWarnings :: "string list"

record ArrowMeta =
  mName :: string
  mDescription :: string
  mLicense :: string
  mURL :: string
  mMaintainers :: "Credit list"
  mCredits :: "Credit list"
  mTags :: "string list"
  mMedia :: ArrowMedia
  mGenerator :: "ArrowGenerator option"

record Arrow =
  aNamespace :: Namespace
  aMeta :: ArrowMeta
  aVariables :: "Variable list"
  aNetbridge :: "PortDef list"
  aTargets :: "(OS \<times> Target) list"
  aReadme :: string
  aInstalledAt :: go_time
  aUserInstalled :: bool
  aLastUsedAt :: go_time
  aSelectorKind :: SelectorKind
  aResolved :: Resolved
  aAvailable :: "Available option"

definition ArrowOriginDeclared :: string where "ArrowOriginDeclared = ''declared''"
definition ArrowOriginInferred :: string where "ArrowOriginInferred = ''inferred''"

definition Origin :: "Arrow \<Rightarrow> string" where
  "Origin a = (case mGenerator (aMeta a) of
      None \<Rightarrow> ArrowOriginDeclared
    | Some g \<Rightarrow> if gName g = [] then ArrowOriginDeclared else ArrowOriginInferred)"

definition Confidence :: "Arrow \<Rightarrow> string" where
  "Confidence a = (if Origin a = ArrowOriginDeclared then []
     else (case mGenerator (aMeta a) of None \<Rightarrow> [] | Some g \<Rightarrow> gConfidence g))"

section \<open>Portable-app records\<close>

record PortableApp =
  paName :: string
  paEntry :: string
  paIcon :: string

text \<open>
  \<open>PortableRecord.Merge\<close>: the incoming apps indexed by entry (the last of equal entries wins)
  and by name, then the loop over the recorded apps, then the loop over the incoming ones.
\<close>

definition pr_incoming :: "PortableApp list \<Rightarrow> (string \<times> PortableApp) list" where
  "pr_incoming apps = foldl (\<lambda>m app. map_put m (paEntry app) app) [] apps"

fun pr_existing ::
  "(string \<times> PortableApp) list \<Rightarrow> string list \<Rightarrow> PortableApp list \<Rightarrow> string list \<Rightarrow> PortableApp list \<times> string list" where
  "pr_existing incoming names [] consumed = ([], consumed)"
| "pr_existing incoming names (ex # exs) consumed =
     (case map_of incoming (paEntry ex) of
        Some replacement \<Rightarrow>
          (let (ms, c) = pr_existing incoming names exs (paEntry ex # consumed) in (replacement # ms, c))
      | None \<Rightarrow>
          (let (ms, c) = pr_existing incoming names exs consumed
           in (if paName ex \<notin> set names then (ex # ms, c) else (ms, c))))"

fun pr_fresh :: "PortableApp list \<Rightarrow> string list \<Rightarrow> PortableApp list" where
  "pr_fresh [] consumed = []"
| "pr_fresh (app # apps) consumed =
     (if paEntry app \<in> set consumed then pr_fresh apps consumed
      else app # pr_fresh apps (paEntry app # consumed))"

definition PortableRecord_Merge :: "PortableApp list \<Rightarrow> PortableApp list \<Rightarrow> PortableApp list" where
  "PortableRecord_Merge recorded apps =
     (let (merged, consumed) = pr_existing (pr_incoming apps) (map paName apps) recorded []
      in merged @ pr_fresh apps consumed)"

section \<open>Collections\<close>

record CollectionMedia =
  cmIcon :: string
  cmBanner :: string

record CollectionMeta =
  clName :: string
  clDescription :: string
  clURL :: string
  clMaintainers :: "string list"
  clTags :: "string list"
  clMedia :: CollectionMedia

record CollectionArrow =
  caNamespace :: Namespace
  caIsLocal :: bool
  caSourcePath :: string

record Collection =
  coNamespace :: Namespace
  coFollowedAt :: go_time
  coFailedArrows :: "Namespace list"
  coMeta :: CollectionMeta
  coArrows :: "CollectionArrow list"

section \<open>Laws\<close>

lemma BareNamespace_no_at [simp]: "CHR ''@'' \<notin> set (BareNamespace n)"
  by (cases n rule: cut_byte_cases [of "CHR ''@''"]) (auto simp: BareNamespace_def)

lemma BareNamespace_id: "CHR ''@'' \<notin> set n \<Longrightarrow> BareNamespace n = n"
  by (simp add: BareNamespace_def)

lemma BareNamespace_idem [simp]: "BareNamespace (BareNamespace n) = BareNamespace n"
  by (simp add: BareNamespace_id)

lemma BareNamespace_WithRef [simp]: "BareNamespace (WithRef n r) = BareNamespace n"
  by (cases "r = []") (simp_all add: WithRef_def BareNamespace_def [of "_ @ _"])

lemma Ref_WithRef [simp]: "Ref (WithRef n r) = r"
  by (cases "r = []") (simp_all add: WithRef_def Ref_def)

lemma WithRef_cong: "BareNamespace n = BareNamespace n' \<Longrightarrow> WithRef n r = WithRef n' r"
  by (simp add: WithRef_def)

lemma WithRef_nonempty: "r \<noteq> [] \<Longrightarrow> WithRef n r \<noteq> []"
  by (simp add: WithRef_def)

lemma Family_idem [simp]: "Family (Family k) = Family k"
  by (cases k) (auto simp: Family_def)

end
