(* ===== verification/Channels.thy ===== *)
theory Channels
  imports Domain
begin

text \<open>
  Tags as release channels (internal/engine/manifold/resolver/resolvers: channel.go,
  constraint.go, newest_first.go): the tag grammar, the classification of a tag set into ordered
  channels, the order inside a channel, and the order a constraint picks its tag in.
\<close>

section \<open>The tag grammar\<close>

definition StableChannel :: string where
  "StableChannel = ''stable''"

definition sep_char :: "char \<Rightarrow> bool" where
  "sep_char c \<longleftrightarrow> c \<in> set ''-_.''"

definition word_char :: "char \<Rightarrow> bool" where
  "word_char c \<longleftrightarrow> is_letter c \<or> is_digit c \<or> c \<in> set ''._-''"

definition any_char :: "char \<Rightarrow> bool" where
  "any_char c \<longleftrightarrow> c \<noteq> CHR 0x0A"

definition one_char :: "char \<Rightarrow> re" where
  "one_char d = RClass (\<lambda>c. c = d)"

text \<open>\<open>[-_.]?[A-Za-z][A-Za-z0-9._-]*|[-_.]?\d+\<close>\<close>

definition suffix_re :: re where
  "suffix_re =
     RAlt (RSeq (ROpt (RClass sep_char)) (RSeq (RClass is_letter) (RMany True word_char)))
          (RSeq (ROpt (RClass sep_char)) (RPlus is_digit))"

definition version_re :: re where
  "version_re =
     RSeq (RPlus is_digit)
       (RSeq (RSeq (one_char CHR ''.'') (RPlus is_digit))
             (ROpt (RSeq (one_char CHR ''.'') (RPlus is_digit))))"

definition tagPatternWithOrdinalSuffix :: re where
  "tagPatternWithOrdinalSuffix =
     RSeq (RGroup 1 (RMany False any_char)) (RSeq (RGroup 2 version_re) (ROpt (RGroup 3 suffix_re)))"

definition one_or_two_digits :: re where
  "one_or_two_digits = RSeq (RClass is_digit) (ROpt (RClass is_digit))"

definition tagPatternWithDateCore :: re where
  "tagPatternWithDateCore =
     RSeq (RGroup 1 (RMany False any_char))
       (RSeq (RGroup 2 (RSeq (RClass is_digit) (RSeq (RClass is_digit) (RSeq (RClass is_digit) (RClass is_digit)))))
         (RSeq (one_char CHR ''-'') (RSeq (RGroup 3 one_or_two_digits)
           (RSeq (one_char CHR ''-'') (RSeq (RGroup 4 one_or_two_digits)
             (RSeq (ROpt (RSeq (one_char CHR ''.'') (RGroup 5 (RPlus is_digit))))
               (ROpt (RGroup 6 suffix_re))))))))"

definition dateEpoch :: int where
  "dateEpoch = 2000"

definition validDate :: "string \<Rightarrow> string \<Rightarrow> string \<Rightarrow> bool" where
  "validDate year month day =
     (let y = atoi_val year; m = atoi_val month; d = atoi_val day
      in y \<ge> dateEpoch \<and> y < dateEpoch + 100 \<and> m \<ge> 1 \<and> m \<le> 12 \<and> d \<ge> 1 \<and> d \<le> 31)"

definition dateCore :: "string \<Rightarrow> string \<Rightarrow> string \<Rightarrow> string \<Rightarrow> string" where
  "dateCore year month day patch =
     (let y = atoi_val year - dateEpoch; p = (if patch = [] then ''0'' else patch)
      in Itoa y @ ''.'' @ month @ ''.'' @ day @ ''.'' @ p)"

definition isDateCore :: "string \<Rightarrow> bool" where
  "isDateCore core \<longleftrightarrow> Count_byte core CHR ''.'' = 3"

definition knownChannels :: "string list" where
  "knownChannels = [''alpha'', ''beta'', ''canary'', ''dev'', ''edge'', ''hotfix'', ''insiders'',
     ''next'', ''nightly'', ''preview'', ''rc'', StableChannel]"

definition isKnownChannel :: "string \<Rightarrow> bool" where
  "isKnownChannel prefix \<longleftrightarrow> prefix \<in> set knownChannels"

definition normalizeVersionPrefix :: "string \<Rightarrow> string" where
  "normalizeVersionPrefix prefix =
     (let trimmed = TrimRight prefix ''-_.''
      in if EqualFold trimmed ''v'' then [] else ToLower trimmed)"

text \<open>Prefix, core and suffix of a tag; \<open>None\<close> when it has neither a date nor a version.\<close>

definition parseTagFull :: "string \<Rightarrow> (string \<times> string \<times> string) option" where
  "parseTagFull tag =
     (let dated = (case re_full tagPatternWithDateCore tag of
          None \<Rightarrow> None
        | Some m \<Rightarrow>
            if isKnownChannel (normalizeVersionPrefix (re_group m 1)) \<and>
               validDate (re_group m 2) (re_group m 3) (re_group m 4)
            then Some (re_group m 1, dateCore (re_group m 2) (re_group m 3) (re_group m 4) (re_group m 5),
                       TrimLeft (re_group m 6) ''-_.'')
            else None)
      in case dated of
          Some p \<Rightarrow> Some p
        | None \<Rightarrow>
            (case re_full tagPatternWithOrdinalSuffix tag of
               None \<Rightarrow> None
             | Some m \<Rightarrow> Some (re_group m 1, re_group m 2, TrimLeft (re_group m 3) ''-_.'')))"

definition HasVersionCore :: "string \<Rightarrow> bool" where
  "HasVersionCore tag \<longleftrightarrow> parseTagFull tag \<noteq> None"

definition channelSuffixPattern :: re where
  "channelSuffixPattern =
     RSeq (RGroup 1 (RPlus is_letter)) (ROpt (RSeq (ROpt (RClass sep_char)) (RGroup 2 (RPlus is_digit))))"

definition ClassifyChannel :: "string \<Rightarrow> string \<times> int \<times> bool" where
  "ClassifyChannel suffix =
     (case re_full channelSuffixPattern suffix of
        None \<Rightarrow> (ToLower suffix, 0, False)
      | Some m \<Rightarrow>
          if re_group m 2 = [] then (ToLower (re_group m 1), 0, False)
          else (ToLower (re_group m 1), atoi_val (re_group m 2), True))"

section \<open>Version cores\<close>

type_synonym core = "int \<times> int \<times> int \<times> int"

text \<open>The first four components; a missing one is 0, a discarded error leaves its value.\<close>

definition semverParts :: "string \<Rightarrow> core" where
  "semverParts tag =
     (let parts = Split (TrimPrefix tag ''v'') CHR ''.'';
          at = (\<lambda>i. if i < length parts then atoi_val (parts ! i) else 0)
      in (at 0, at 1, at 2, at 3))"

fun compareCores :: "core \<Rightarrow> core \<Rightarrow> int" where
  "compareCores (a0, a1, a2, a3) (b0, b1, b2, b3) =
     (if cmp_Compare a0 b0 \<noteq> 0 then cmp_Compare a0 b0
      else if cmp_Compare a1 b1 \<noteq> 0 then cmp_Compare a1 b1
      else if cmp_Compare a2 b2 \<noteq> 0 then cmp_Compare a2 b2
      else cmp_Compare a3 b3)"

definition IsStableSemver :: "string \<Rightarrow> bool" where
  "IsStableSemver tag =
     (let parts = Split (TrimPrefix tag ''v'') CHR ''.''
      in if length parts < 2 \<or> length parts > 3 then False
         else list_all (\<lambda>p. \<not> (atoi_err p \<or> atoi_val p < 0)) parts)"

section \<open>Classification\<close>

record classifiedTag =
  ct_tag :: string
  ct_channel :: string
  ct_core :: core
  ct_ordinal :: int
  ct_dated :: bool
  ct_tier :: int

definition calendarMajor :: int where
  "calendarMajor = 20"

definition tierAgainstDates :: "classifiedTag list \<Rightarrow> classifiedTag list" where
  "tierAgainstDates members =
     (if \<not> list_ex ct_dated members then members
      else if list_ex (\<lambda>c. \<not> ct_dated c \<and> fst (ct_core c) \<ge> calendarMajor) members then members
      else map (\<lambda>c. if \<not> ct_dated c then c\<lparr>ct_tier := 1\<rparr> else c) members)"

definition classifyByPrefix :: "string \<Rightarrow> bool \<Rightarrow> int \<Rightarrow> string \<times> int" where
  "classifyByPrefix prefix prefixIsMeaningful ordinal =
     (if prefix \<noteq> [] \<and> (prefixIsMeaningful \<or> isKnownChannel prefix) then (prefix, ordinal)
      else (StableChannel, ordinal))"

definition classifyOne :: "string \<Rightarrow> string \<Rightarrow> bool \<Rightarrow> string \<times> int" where
  "classifyOne suffix prefix prefixIsMeaningful =
     (if suffix = [] then classifyByPrefix prefix prefixIsMeaningful 0
      else if \<not> atoi_err suffix then classifyByPrefix prefix prefixIsMeaningful (atoi_val suffix)
      else (let (name, ord, has) = ClassifyChannel suffix in (name, ord)))"

text \<open>One parsed tag as a classified tag.\<close>

definition classified :: "bool \<Rightarrow> string \<Rightarrow> string \<times> string \<times> string \<Rightarrow> classifiedTag" where
  "classified meaningful tag p =
     (case p of (prefix, core, suffix) \<Rightarrow>
        (let (channel, ordinal) = classifyOne suffix (normalizeVersionPrefix prefix) meaningful
         in \<lparr>ct_tag = tag, ct_channel = channel, ct_core = semverParts core, ct_ordinal = ordinal,
             ct_dated = isDateCore core, ct_tier = 0\<rparr>))"

text \<open>The distinct prefixes of a tag set that are not channel words.\<close>

definition prefix_values :: "string list \<Rightarrow> string list" where
  "prefix_values tags =
     remdups (filter (\<lambda>p. \<not> isKnownChannel p)
       (map (\<lambda>(prefix, core, suffix). normalizeVersionPrefix prefix) (List.map_filter parseTagFull tags)))"

definition classifyAll :: "string list \<Rightarrow> classifiedTag list" where
  "classifyAll tags =
     (let meaningful = length (prefix_values tags) > 1
      in List.map_filter (\<lambda>t. map_option (classified meaningful t) (parseTagFull t)) tags)"

definition rankOf :: "string \<Rightarrow> classifiedTag option" where
  "rankOf tag = map_option (classified False tag) (parseTagFull tag)"

section \<open>The order inside a channel\<close>

definition compareClassified :: "classifiedTag \<Rightarrow> classifiedTag \<Rightarrow> int" where
  "compareClassified a b =
     (if cmp_Compare (ct_tier b) (ct_tier a) \<noteq> 0 then cmp_Compare (ct_tier b) (ct_tier a)
      else if compareCores (ct_core b) (ct_core a) \<noteq> 0 then compareCores (ct_core b) (ct_core a)
      else if cmp_Compare (ct_ordinal b) (ct_ordinal a) \<noteq> 0 then cmp_Compare (ct_ordinal b) (ct_ordinal a)
      else cmp_Compare (ct_tag b) (ct_tag a))"

definition Outranks :: "string \<Rightarrow> string \<Rightarrow> bool" where
  "Outranks a b =
     (case (rankOf a, rankOf b) of
        (Some ra, Some rb) \<Rightarrow>
          if ct_channel ra \<noteq> ct_channel rb then False
          else (let pair = tierAgainstDates [ra, rb] in compareClassified (pair ! 0) (pair ! 1) < 0)
      | _ \<Rightarrow> False)"

record TagChannel =
  tcName :: string
  tcMembers :: "string list"

definition channel_members :: "classifiedTag list \<Rightarrow> string \<Rightarrow> classifiedTag list" where
  "channel_members cs name =
     SortFunc compareClassified (tierAgainstDates (filter (\<lambda>c. ct_channel c = name) cs))"

definition GroupChannels :: "string list \<Rightarrow> TagChannel list" where
  "GroupChannels tags =
     (let cs = classifyAll tags
      in map (\<lambda>name. \<lparr>tcName = name, tcMembers = map ct_tag (channel_members cs name)\<rparr>)
           (sort_Strings (remdups (map ct_channel cs))))"

definition SortInChannel :: "string list \<Rightarrow> string \<Rightarrow> string list" where
  "SortInChannel tags channel =
     (case find (\<lambda>c. tcName c = channel) (GroupChannels tags) of None \<Rightarrow> [] | Some c \<Rightarrow> tcMembers c)"

definition ChannelsPresent :: "string list \<Rightarrow> string list" where
  "ChannelsPresent tags = map tcName (GroupChannels tags)"

section \<open>The order of a constraint\<close>

definition sortLexDesc :: "string list \<Rightarrow> string list" where
  "sortLexDesc tags = SortFunc (\<lambda>a b. cmp_Compare b a) tags"

definition channelWordTag :: "string \<Rightarrow> classifiedTag option" where
  "channelWordTag tag =
     (case parseTagFull tag of
        None \<Rightarrow> None
      | Some (prefix, core, suffix) \<Rightarrow>
          if isKnownChannel (normalizeVersionPrefix prefix) then rankOf tag else None)"

definition compareSemver :: "string \<Rightarrow> string \<Rightarrow> int" where
  "compareSemver a b =
     (if compareCores (semverParts b) (semverParts a) \<noteq> 0 then compareCores (semverParts b) (semverParts a)
      else cmp_Compare b a)"

definition sortTagsDesc :: "string list \<Rightarrow> string list" where
  "sortTagsDesc tags =
     (let semver = filter IsStableSemver tags;
          channelled = List.map_filter channelWordTag (filter (\<lambda>t. \<not> IsStableSemver t) tags);
          rest = filter (\<lambda>t. \<not> IsStableSemver t \<and> channelWordTag t = None) tags
      in if semver = [] \<and> channelled = [] then sortLexDesc tags
         else SortFunc compareSemver semver @
              map ct_tag (SortFunc compareClassified (tierAgainstDates channelled)) @
              sortLexDesc rest)"

definition ConstraintOutranks :: "string \<Rightarrow> string \<Rightarrow> bool" where
  "ConstraintOutranks a b \<longleftrightarrow> hd (sortTagsDesc [b, a]) = a \<and> a \<noteq> b"

text \<open>\<open>Inl\<close> is \<open>path.ErrBadPattern\<close>; \<open>Inr None\<close> is that no tag matches.\<close>

fun matching_tags :: "string \<Rightarrow> string list \<Rightarrow> string list option" where
  "matching_tags pattern [] = Some []"
| "matching_tags pattern (tag # tags) =
     (case path_Match pattern tag of
        None \<Rightarrow> None
      | Some ok \<Rightarrow>
          (case matching_tags pattern tags of
             None \<Rightarrow> None | Some ms \<Rightarrow> Some (if ok then tag # ms else ms)))"

definition HighestMatch :: "string list \<Rightarrow> string \<Rightarrow> go_error + string option" where
  "HighestMatch tags pattern =
     (case matching_tags pattern tags of
        None \<Rightarrow> Inl ''syntax error in pattern''
      | Some matched \<Rightarrow>
          if length matched = 0 then Inr None else Inr (Some (hd (sortTagsDesc matched))))"

section \<open>Channel listings and ref advertisements\<close>

record ChannelInfo =
  ciName :: string
  ciKind :: string
  ciLatest :: string
  ciCount :: nat
  ciMembers :: "string list option"
  ciIsDefaultBranchFallback :: bool

definition channelKindOrdered :: string where
  "channelKindOrdered = ''ordered''"

definition coreOf :: "string \<Rightarrow> core" where
  "coreOf tag = semverParts (case parseTagFull tag of None \<Rightarrow> [] | Some (prefix, core, suffix) \<Rightarrow> core)"

definition orderedFirst :: "bool \<Rightarrow> int" where
  "orderedFirst aOrdered = (if aOrdered then - 1 else 1)"

definition newerThan :: "ChannelInfo \<Rightarrow> ChannelInfo \<Rightarrow> int" where
  "newerThan a b =
     (let aOrdered = (ciKind a = channelKindOrdered); bOrdered = (ciKind b = channelKindOrdered)
      in if aOrdered \<noteq> bOrdered then orderedFirst aOrdered
         else if \<not> aOrdered then 0
         else compareCores (coreOf (ciLatest b)) (coreOf (ciLatest a)))"

definition NewestFirst :: "ChannelInfo list \<Rightarrow> ChannelInfo list" where
  "NewestFirst channels = SortFunc newerThan channels"

text \<open>
  A git reference: name, hash and, for a symbolic reference, its target.  What a name is and how
  it is shortened is the git library's: \<open>isBranch\<close>, \<open>isTag\<close> and \<open>short\<close>.
\<close>

record Reference =
  rfName :: string
  rfHash :: string
  rfTarget :: "string option"

definition peeledSuffix :: string where
  "peeledSuffix = ''^{}''"

definition CutSuffix :: "string \<Rightarrow> string \<Rightarrow> string option" where
  "CutSuffix s p = (if HasSuffix s p then Some (take (length s - length p) s) else None)"

definition headTarget :: "Reference list \<Rightarrow> string" where
  "headTarget refs =
     (case find (\<lambda>r. rfName r = ''HEAD'' \<and> rfTarget r \<noteq> None) refs of
        None \<Rightarrow> [] | Some r \<Rightarrow> (case rfTarget r of None \<Rightarrow> [] | Some t \<Rightarrow> t))"

definition snapshot_step ::
  "(string \<Rightarrow> bool) \<Rightarrow> (string \<Rightarrow> bool) \<Rightarrow> (string \<Rightarrow> string) \<Rightarrow> RefSnapshot \<times> (string \<times> string) list
     \<Rightarrow> Reference \<Rightarrow> RefSnapshot \<times> (string \<times> string) list" where
  "snapshot_step isBranch isTag short sp r =
     (case sp of (snap, peeled) \<Rightarrow>
        if isBranch (rfName r)
        then (snap\<lparr>Branches := map_put (Branches snap) (short (rfName r)) (rfHash r)\<rparr>, peeled)
        else if isTag (rfName r) then
          (case CutSuffix (short (rfName r)) peeledSuffix of
             Some tag \<Rightarrow> (snap, map_put peeled tag (rfHash r))
           | None \<Rightarrow> (snap\<lparr>Tags := map_put (Tags snap) (short (rfName r)) (rfHash r)\<rparr>, peeled))
        else sp)"

definition snapshotOf ::
  "(string \<Rightarrow> bool) \<Rightarrow> (string \<Rightarrow> bool) \<Rightarrow> (string \<Rightarrow> string) \<Rightarrow> Reference list \<Rightarrow> RefSnapshot" where
  "snapshotOf isBranch isTag short refs =
     (let (snap, peeled) = foldl (snapshot_step isBranch isTag short) (\<lparr>Tags = [], Branches = [], Head = []\<rparr>, []) refs;
          snap' = snap\<lparr>Tags := foldl (\<lambda>m (tag, commit). map_put m tag commit) (Tags snap) peeled\<rparr>;
          target = headTarget refs
      in if has_key (Branches snap') (short target) \<and> isBranch target then snap'\<lparr>Head := short target\<rparr> else snap')"

section \<open>Laws of the classification\<close>

lemma cmp_Compare_minus: "cmp_Compare x y = - cmp_Compare y x"
  by (auto simp: cmp_Compare_def)

lemma compareCores_lex: "compareCores a b = cmp_Compare a b"
  by (cases a; cases b) (auto simp: cmp_Compare_def)

definition ct_key :: "classifiedTag \<Rightarrow> int \<times> core \<times> int \<times> string" where
  "ct_key c = (ct_tier c, ct_core c, ct_ordinal c, ct_tag c)"

lemma compareClassified_key: "compareClassified a b = cmp_Compare (ct_key b) (ct_key a)"
  unfolding compareClassified_def compareCores_lex ct_key_def
  by (auto simp: cmp_Compare_def)

interpretation cc: desc_cmp compareClassified ct_key
  by unfold_locales (simp add: compareClassified_key)

interpretation lexdesc: desc_cmp "\<lambda>a b :: string. cmp_Compare b a" id
  by unfold_locales simp

definition semver_key :: "string \<Rightarrow> core \<times> string" where
  "semver_key t = (semverParts t, t)"

lemma compareSemver_key: "compareSemver a b = cmp_Compare (semver_key b) (semver_key a)"
  unfolding compareSemver_def compareCores_lex semver_key_def
  by (auto simp: cmp_Compare_def)

interpretation sv: desc_cmp compareSemver semver_key
  by unfold_locales (simp add: compareSemver_key)

lemma mset_map_filter_cong: "mset xs = mset ys \<Longrightarrow> mset (List.map_filter f xs) = mset (List.map_filter f ys)"
  by (simp add: map_filter_def)

lemma set_map_filter: "set (List.map_filter f xs) = {y. \<exists>x \<in> set xs. f x = Some y}"
  by (force simp: map_filter_def)

lemma set_prefix_values_cong:
  assumes "set xs = set ys"
  shows "length (prefix_values xs) = length (prefix_values ys)"
  using assms by (simp only: prefix_values_def length_remdups_card_conv set_filter set_map set_map_filter)

lemma mset_classifyAll_cong: "mset xs = mset ys \<Longrightarrow> mset (classifyAll xs) = mset (classifyAll ys)"
proof -
  assume m: "mset xs = mset ys"
  then have "set xs = set ys" by (metis set_mset_mset)
  then have "length (prefix_values xs) = length (prefix_values ys)" by (rule set_prefix_values_cong)
  with mset_map_filter_cong [OF m] show ?thesis by (simp only: classifyAll_def Let_def)
qed

lemma ct_tag_classified [simp]: "ct_tag (classified b t p) = t"
  by (simp add: classified_def split: prod.splits)

lemma ct_tier_classified [simp]: "ct_tier (classified b t p) = 0"
  by (simp add: classified_def split: prod.splits)

text \<open>A classified tag is determined by its tag: the order of a channel has no ties.\<close>

lemma inj_ct_tag_classifyAll: "inj_on ct_tag (set (classifyAll tags))"
  by (auto simp: inj_on_def classifyAll_def Let_def set_map_filter)

lemma map_ct_tag_classified:
  "map ct_tag (List.map_filter (\<lambda>t. map_option (classified b t) (parseTagFull t)) tags) = filter HasVersionCore tags"
proof (induction tags)
  case (Cons t tags)
  then show ?case
    by (cases "parseTagFull t") (simp_all add: map_filter_simps HasVersionCore_def del: not_None_eq)
qed (simp add: map_filter_simps)

lemma map_ct_tag_classifyAll: "map ct_tag (classifyAll tags) = filter HasVersionCore tags"
  by (simp add: classifyAll_def Let_def map_ct_tag_classified)

text \<open>Tiering is a map over the members that depends on the set of members only.\<close>

definition tier_of :: "classifiedTag set \<Rightarrow> classifiedTag \<Rightarrow> classifiedTag" where
  "tier_of A c =
     (if (\<exists>d \<in> A. ct_dated d) \<and> \<not> (\<exists>d \<in> A. \<not> ct_dated d \<and> fst (ct_core d) \<ge> calendarMajor) \<and> \<not> ct_dated c
      then c\<lparr>ct_tier := 1\<rparr> else c)"

lemma tierAgainstDates_map: "tierAgainstDates cs = map (tier_of (set cs)) cs"
  by (auto simp: tierAgainstDates_def tier_of_def list_ex_iff intro!: map_idI [symmetric])

lemma ct_tag_tier_of [simp]: "ct_tag (tier_of A c) = ct_tag c"
  by (simp add: tier_of_def)

lemma mset_tier_cong: "mset xs = mset ys \<Longrightarrow> mset (tierAgainstDates xs) = mset (tierAgainstDates ys)"
  by (metis tierAgainstDates_map mset_map set_mset_mset)

lemma inj_ct_key_tier: "inj_on ct_tag (set cs) \<Longrightarrow> inj_on ct_key (set (tierAgainstDates cs))"
  by (auto simp: inj_on_def tierAgainstDates_map ct_key_def)

lemma channel_members_cong:
  assumes "mset xs = mset ys" "inj_on ct_tag (set xs)"
  shows "channel_members xs name = channel_members ys name"
proof -
  let ?f = "filter (\<lambda>c. ct_channel c = name)"
  have "mset (?f xs) = mset (?f ys)" using assms(1) by simp
  moreover have "inj_on ct_key (set (tierAgainstDates (?f xs)))"
    using assms(2) by (intro inj_ct_key_tier) (auto intro: inj_on_subset)
  ultimately show ?thesis
    unfolding channel_members_def by (metis cc.sort_perm_eq mset_tier_cong)
qed

text \<open>The same members in the same order, however they were sorted.\<close>

lemma channel_members_desc: "cc.desc (channel_members cs name)"
  by (simp add: channel_members_def cc.desc_sort)

lemma mset_channel_members:
  "mset (map ct_tag (channel_members cs name)) = mset (map ct_tag (filter (\<lambda>c. ct_channel c = name) cs))"
  by (simp add: channel_members_def tierAgainstDates_map image_mset.compositionality o_def)

lemma GroupChannels_names:
  "map tcName (GroupChannels tags) = sort_Strings (remdups (map ct_channel (classifyAll tags)))"
  by (simp add: GroupChannels_def Let_def o_def)

lemma mset_by_channel:
  "distinct ns \<Longrightarrow> set (map ct_channel cs) \<subseteq> set ns \<Longrightarrow>
   mset (concat (map (\<lambda>n. map f (filter (\<lambda>c. ct_channel c = n) cs)) ns)) = mset (map f cs)"
proof (induction ns arbitrary: cs)
  case (Cons n ns)
  let ?rest = "filter (\<lambda>c. ct_channel c \<noteq> n) cs"
  have "filter (\<lambda>c. ct_channel c = m) cs = filter (\<lambda>c. ct_channel c = m) ?rest" if "m \<in> set ns" for m
    using that Cons.prems(1) by (auto intro!: filter_cong)
  then have e: "map (\<lambda>n. map f (filter (\<lambda>c. ct_channel c = n) cs)) ns
      = map (\<lambda>n. map f (filter (\<lambda>c. ct_channel c = n) ?rest)) ns"
    by (metis (no_types, lifting) map_eq_conv)
  have "mset (concat (map (\<lambda>n. map f (filter (\<lambda>c. ct_channel c = n) ?rest)) ns)) = mset (map f ?rest)"
    using Cons.prems by (intro Cons.IH) auto
  moreover have "mset (map f (filter (\<lambda>c. ct_channel c = n) cs)) + mset (map f ?rest) = mset (map f cs)"
    by (simp flip: image_mset_union multiset_partition)
  ultimately show ?case by (simp only: list.map concat.simps mset_append e)
qed simp

lemma GroupChannels_members_perm:
  "mset (concat (map tcMembers (GroupChannels tags))) = mset (filter HasVersionCore tags)"
proof -
  let ?cs = "classifyAll tags" and ?ns = "sort_Strings (remdups (map ct_channel (classifyAll tags)))"
  have "mset (concat (map (\<lambda>n. map ct_tag (channel_members ?cs n)) ns))
      = mset (concat (map (\<lambda>n. map ct_tag (filter (\<lambda>c. ct_channel c = n) ?cs)) ns))" for ns
    by (induction ns) (simp_all only: list.map concat.simps mset_append mset_channel_members mset.simps)
  also have "mset (concat (map (\<lambda>n. map ct_tag (filter (\<lambda>c. ct_channel c = n) ?cs)) ?ns)) = mset (map ct_tag ?cs)"
    by (rule mset_by_channel) simp_all
  finally show ?thesis
    by (simp only: GroupChannels_def Let_def map_map o_def map_ct_tag_classifyAll TagChannel.simps)
qed

section \<open>Laws of the tag grammar\<close>

primrec re_group_ids :: "re \<Rightarrow> nat set" where
  "re_group_ids REmpty = {}"
| "re_group_ids (RClass p) = {}"
| "re_group_ids (RMany greedy p) = {}"
| "re_group_ids (RSeq a b) = re_group_ids a \<union> re_group_ids b"
| "re_group_ids (RAlt a b) = re_group_ids a \<union> re_group_ids b"
| "re_group_ids (RGroup n a) = insert n (re_group_ids a)"

lemma re_run_SeqE:
  assumes "(m, g, t) \<in> set (re_run (RSeq a b) s)"
  obtains m1 g1 u m2 g2 where "m = m1 @ m2" "g = g1 @ g2" "(m1, g1, u) \<in> set (re_run a s)"
    "(m2, g2, t) \<in> set (re_run b u)"
  using assms by auto

lemma re_run_AltE:
  assumes "(m, g, t) \<in> set (re_run (RAlt a b) s)"
  obtains (left) "(m, g, t) \<in> set (re_run a s)" | (right) "(m, g, t) \<in> set (re_run b s)"
  using assms by auto

lemma re_run_GroupE:
  assumes "(m, g, t) \<in> set (re_run (RGroup n a) s)"
  obtains g1 where "g = (n, m) # g1" "(m, g1, t) \<in> set (re_run a s)"
  using assms by auto

lemma re_run_ClassE:
  assumes "(m, g, t) \<in> set (re_run (RClass p) s)"
  obtains c where "m = [c]" "g = []" "p c" "s = c # t"
  using assms by (auto split: list.splits if_splits)

lemma re_run_EmptyE:
  assumes "(m, g, t) \<in> set (re_run REmpty s)"
  obtains "m = []" "g = []" "t = s"
  using assms by auto

lemma re_run_ManyE:
  assumes "(m, g, t) \<in> set (re_run (RMany greedy p) s)"
  obtains "g = []" "list_all p m" "s = m @ t"
  using assms by (auto dest: class_splits_class class_splits_append split: if_splits)

lemmas re_runEs = re_run_SeqE re_run_AltE re_run_GroupE re_run_ClassE re_run_EmptyE re_run_ManyE

lemma re_run_no_groups: "(m, g, t) \<in> set (re_run r s) \<Longrightarrow> re_group_ids r = {} \<Longrightarrow> g = []"
proof (induction r arbitrary: m g t s)
  case (RSeq a b)
  from RSeq.prems(1) show ?case by (rule re_run_SeqE) (use RSeq in auto)
next
  case (RAlt a b)
  from RAlt.prems(1) show ?case by (rule re_run_AltE) (use RAlt in auto)
qed (auto split: if_splits list.splits)

lemma tag_pattern_no_groups [simp]:
  "re_group_ids version_re = {}" "re_group_ids suffix_re = {}"
  by (simp_all add: version_re_def suffix_re_def one_char_def)

lemma tag_pattern_groups:
  assumes "re_full tagPatternWithOrdinalSuffix tag = Some g"
  shows "tag = re_group g 1 @ re_group g 2 @ re_group g 3"
    and "\<exists>s t. (re_group g 2, [], t) \<in> set (re_run version_re s)"
proof -
  obtain m where "(m, g, []) \<in> set (re_run tagPatternWithOrdinalSuffix tag)" "m = tag"
    using re_full_find [OF assms] by blast
  then obtain m1 m2 m3 g1 g2 g3 t1 t2 where g: "g = g1 @ g2 @ g3" and tag: "tag = m1 @ m2 @ m3"
    and r1: "(m1, g1, t1) \<in> set (re_run (RGroup 1 (RMany False any_char)) tag)"
    and r2: "(m2, g2, t2) \<in> set (re_run (RGroup 2 version_re) t1)"
    and r3: "(m3, g3, []) \<in> set (re_run (ROpt (RGroup 3 suffix_re)) t2)"
    unfolding tagPatternWithOrdinalSuffix_def by (metis re_run_SeqE)
  from r1 have g1: "g1 = [(1, m1)]" by (elim re_run_GroupE re_run_ManyE) simp
  from r2 obtain h2 where h2: "g2 = (2, m2) # h2" "(m2, h2, t2) \<in> set (re_run version_re t1)"
    by (rule re_run_GroupE)
  then have n2: "h2 = []" by (auto dest: re_run_no_groups)
  from r3 have "(m3 = [] \<and> g3 = []) \<or> g3 = [(3, m3)]"
    by (elim re_run_AltE re_run_GroupE re_run_EmptyE) (auto dest: re_run_no_groups)
  with g g1 h2 n2 tag show "tag = re_group g 1 @ re_group g 2 @ re_group g 3"
    and "\<exists>s t. (re_group g 2, [], t) \<in> set (re_run version_re s)"
    by (auto simp: re_group_def)
qed

lemma re_run_RPlus: "(m, g, t) \<in> set (re_run (RPlus p) s) \<Longrightarrow> m \<noteq> [] \<and> list_all p m"
  by (elim re_run_SeqE re_run_ClassE re_run_ManyE) simp

text \<open>A core is two or three runs of digits joined by dots.\<close>

definition numeric_core :: "string \<Rightarrow> bool" where
  "numeric_core s \<longleftrightarrow> (\<exists>ps. s = Join ps ''.'' \<and> (length ps = 2 \<or> length ps = 3) \<and>
     (\<forall>p \<in> set ps. p \<noteq> [] \<and> list_all is_digit p))"

lemma version_re_core: "(m, g, t) \<in> set (re_run version_re s) \<Longrightarrow> numeric_core m"
proof -
  let ?part = "RSeq (one_char CHR ''.'') (RPlus is_digit)"
  assume "(m, g, t) \<in> set (re_run version_re s)"
  then obtain m1 g1 t1 m2 g2 t2 m3 g3 where m: "m = m1 @ m2 @ m3"
    and p1: "(m1, g1, t1) \<in> set (re_run (RPlus is_digit) s)"
    and p2: "(m2, g2, t2) \<in> set (re_run ?part t1)"
    and p3: "(m3, g3, t) \<in> set (re_run (ROpt ?part) t2)"
    unfolding version_re_def by (metis re_run_SeqE)
  have part: "\<exists>n'. n = CHR ''.'' # n' \<and> n' \<noteq> [] \<and> list_all is_digit n'"
    if "(n, h, u) \<in> set (re_run ?part v)" for n h u v
    using that unfolding one_char_def
    by (elim re_run_SeqE [of n h u "RClass (\<lambda>c. c = CHR ''.'')"] re_run_ClassE) (auto dest!: re_run_RPlus simp del: re_run.simps)
  obtain n2 where n2: "m2 = CHR ''.'' # n2" "n2 \<noteq> []" "list_all is_digit n2" using part [OF p2] by blast
  have n1: "m1 \<noteq> []" "list_all is_digit m1" using re_run_RPlus [OF p1] by simp_all
  from p3 show ?thesis
  proof (cases rule: re_run_AltE)
    case left
    then obtain n3 where "m3 = CHR ''.'' # n3" "n3 \<noteq> []" "list_all is_digit n3" using part by blast
    with m n1 n2 show ?thesis
      unfolding numeric_core_def by (intro exI [of _ "[m1, n2, n3]"]) simp
  next
    case right
    with m n1 n2 show ?thesis
      unfolding numeric_core_def by (intro exI [of _ "[m1, n2]"]) simp
  qed
qed

lemma TrimLeft_split: "\<exists>seps. s = seps @ TrimLeft s cs \<and> set seps \<subseteq> set cs"
proof (intro exI conjI)
  show "s = takeWhile (\<lambda>c. c \<in> set cs) s @ TrimLeft s cs" by (simp add: TrimLeft_def)
  show "set (takeWhile (\<lambda>c. c \<in> set cs) s) \<subseteq> set cs" by (auto dest: set_takeWhileD)
qed

section \<open>Laws of the orders\<close>

definition newer_key :: "ChannelInfo \<Rightarrow> nat \<times> core" where
  "newer_key c = (if ciKind c = channelKindOrdered then (1, coreOf (ciLatest c)) else (0, (0, 0, 0, 0)))"

interpretation nf: desc_cmp newerThan newer_key
  by unfold_locales
    (auto simp: newerThan_def newer_key_def orderedFirst_def compareCores_lex Let_def less_eq_prod_simp)

text \<open>Every tag set but a mixed one is ranked by one key, whatever pair is compared.\<close>

definition mixed_ranks :: "classifiedTag list \<Rightarrow> bool" where
  "mixed_ranks cs \<longleftrightarrow> list_ex ct_dated cs \<and>
     list_ex (\<lambda>c. \<not> ct_dated c \<and> fst (ct_core c) \<ge> calendarMajor) cs \<and>
     list_ex (\<lambda>c. \<not> ct_dated c \<and> fst (ct_core c) < calendarMajor) cs"

definition uniform_key :: "classifiedTag list \<Rightarrow> classifiedTag \<Rightarrow> int \<times> core \<times> int \<times> string" where
  "uniform_key cs c =
     (if list_ex (\<lambda>d. \<not> ct_dated d \<and> fst (ct_core d) \<ge> calendarMajor) cs then ct_key c
      else ct_key (if ct_dated c then c else c\<lparr>ct_tier := 1\<rparr>))"

definition same_channel_outranks :: "classifiedTag \<Rightarrow> classifiedTag \<Rightarrow> bool" where
  "same_channel_outranks a b \<longleftrightarrow>
     ct_key (tier_of {a, b} b) < ct_key (tier_of {a, b} a)"

lemma Outranks_iff:
  "Outranks s t \<longleftrightarrow> (\<exists>a b. rankOf s = Some a \<and> rankOf t = Some b \<and> ct_channel a = ct_channel b \<and>
     same_channel_outranks a b)"
  by (auto simp: Outranks_def tierAgainstDates_map compareClassified_key same_channel_outranks_def Let_def
      split: option.splits)

lemma same_channel_asym: "same_channel_outranks a b \<Longrightarrow> \<not> same_channel_outranks b a"
  by (simp add: same_channel_outranks_def insert_commute)

lemma ct_key_less_tier:
  "ct_tier a = 0 \<Longrightarrow> ct_tier b = 0 \<Longrightarrow>
   ct_key (b\<lparr>ct_tier := 1\<rparr>) < ct_key (a\<lparr>ct_tier := 1\<rparr>) \<longleftrightarrow> ct_key b < ct_key a"
  by (simp add: ct_key_def)

lemma same_channel_uniform:
  assumes m: "\<not> mixed_ranks cs" and ab: "a \<in> set cs" "b \<in> set cs" and z: "\<forall>c \<in> set cs. ct_tier c = 0"
  shows "same_channel_outranks a b \<longleftrightarrow> uniform_key cs b < uniform_key cs a"
proof (cases "list_ex (\<lambda>d. \<not> ct_dated d \<and> fst (ct_core d) \<ge> calendarMajor) cs")
  case True
  then have "tier_of {a, b} c = c" if "c \<in> {a, b}" for c
    using m ab that unfolding mixed_ranks_def tier_of_def list_ex_iff by (auto simp: not_le)
  with True show ?thesis by (simp add: same_channel_outranks_def uniform_key_def)
next
  case False
  then have s: "\<not> (\<exists>d \<in> {a, b}. \<not> ct_dated d \<and> fst (ct_core d) \<ge> calendarMajor)"
    using ab by (auto simp: list_ex_iff)
  show ?thesis
  proof (cases "ct_dated a \<or> ct_dated b")
    case True
    with s False show ?thesis
      by (simp add: same_channel_outranks_def uniform_key_def tier_of_def)
  next
    case n: False
    with False ab z show ?thesis
      by (simp add: same_channel_outranks_def uniform_key_def tier_of_def ct_key_less_tier)
  qed
qed

lemma rankOf_tier: "rankOf t = Some a \<Longrightarrow> ct_tier a = 0 \<and> ct_tag a = t"
  by (auto simp: rankOf_def)

section \<open>Laws of dates\<close>

lemma tag_pattern_date_groups:
  assumes "re_full tagPatternWithDateCore tag = Some g"
  shows "\<exists>pt. tag = re_group g 1 @ re_group g 2 @ ''-'' @ re_group g 3 @ ''-'' @ re_group g 4 @ pt @ re_group g 6 \<and>
     (pt = [] \<and> re_group g 5 = [] \<or> pt = ''.'' @ re_group g 5) \<and>
     list_all is_digit (re_group g 2 @ re_group g 3 @ re_group g 4 @ re_group g 5)"
proof -
  let ?y = "RSeq (RClass is_digit) (RSeq (RClass is_digit) (RSeq (RClass is_digit) (RClass is_digit)))"
  let ?p = "ROpt (RSeq (one_char CHR ''.'') (RGroup 5 (RPlus is_digit)))"
  let ?s = "ROpt (RGroup 6 suffix_re)"
  have "(tag, g, []) \<in> set (re_run tagPatternWithDateCore tag)"
    using re_full_find [OF assms] by blast
  then obtain m1 m2 m3 m4 m5 m6 d1 d2 g1 g2 g3 g4 g5 g6 e1 e2 t1 t2 t3 t4 t5 t6 t7
    where r1: "(m1, g1, t1) \<in> set (re_run (RGroup 1 (RMany False any_char)) tag)"
      and r2: "(m2, g2, t2) \<in> set (re_run (RGroup 2 ?y) t1)"
      and s1: "(d1, e1, t3) \<in> set (re_run (one_char CHR ''-'') t2)"
      and r3: "(m3, g3, t4) \<in> set (re_run (RGroup 3 one_or_two_digits) t3)"
      and s2: "(d2, e2, t5) \<in> set (re_run (one_char CHR ''-'') t4)"
      and r4: "(m4, g4, t6) \<in> set (re_run (RGroup 4 one_or_two_digits) t5)"
      and r5: "(m5, g5, t7) \<in> set (re_run ?p t6)"
      and r6: "(m6, g6, []) \<in> set (re_run ?s t7)"
      and tag: "tag = m1 @ m2 @ d1 @ m3 @ d2 @ m4 @ m5 @ m6"
      and g: "g = g1 @ g2 @ e1 @ g3 @ e2 @ g4 @ g5 @ g6"
    unfolding tagPatternWithDateCore_def
    by (elim re_run_SeqE) (rule that, assumption+, simp_all only:)
  have a1: "g1 = [(1, m1)]" using r1 by (elim re_run_GroupE re_run_ManyE) simp
  have a2: "g2 = [(2, m2)]" "list_all is_digit m2"
    using r2 by (elim re_run_GroupE re_run_SeqE re_run_ClassE, simp)+
  have dg: "h = [(i, n)] \<and> list_all is_digit n"
    if "(n, h, u) \<in> set (re_run (RGroup i one_or_two_digits) v)" for n h i u v
    using that unfolding one_or_two_digits_def
    by (elim re_run_GroupE re_run_SeqE re_run_AltE re_run_ClassE re_run_EmptyE) simp_all
  have a3: "g3 = [(3, m3)]" "list_all is_digit m3" using dg [OF r3] by simp_all
  have a4: "g4 = [(4, m4)]" "list_all is_digit m4" using dg [OF r4] by simp_all
  have b1: "d1 = ''-''" "e1 = []" using s1 unfolding one_char_def by (elim re_run_ClassE, simp)+
  have b2: "d2 = ''-''" "e2 = []" using s2 unfolding one_char_def by (elim re_run_ClassE, simp)+
  have a5: "m5 = [] \<and> g5 = [] \<or> (\<exists>n. m5 = ''.'' @ n \<and> g5 = [(5, n)] \<and> list_all is_digit n)"
    using r5 unfolding one_char_def
    by (elim re_run_AltE re_run_SeqE re_run_GroupE re_run_ClassE re_run_EmptyE re_run_ManyE) auto
  have a6: "m6 = [] \<and> g6 = [] \<or> g6 = [(6, m6)]"
    using r6 by (elim re_run_AltE re_run_GroupE re_run_EmptyE) (auto dest: re_run_no_groups)
  show ?thesis
    using tag g a1 a2 a3 a4 b1 b2 a5 a6 by (intro exI [of _ m5]) (auto simp: re_group_def)
qed

lemma digit_char: "k < 10 \<Longrightarrow> is_digit (char_of (48 + k :: nat))"
  by (simp add: is_digit_def)

lemma nat_digits_digit: "list_all is_digit (nat_digits n)"
proof (induction n rule: nat_digits.induct)
  case (1 n)
  then show ?case
    by (subst nat_digits.simps) (simp add: digit_char)
qed

lemma dot_no_digit [simp]: "\<not> is_digit CHR ''.''"
  by (simp add: is_digit_def)

lemma Count_byte_append [simp]: "Count_byte (s @ t) b = Count_byte s b + Count_byte t b"
  by (simp add: Count_byte_def)

lemma Count_byte_Cons [simp]: "Count_byte (c # s) b = (if c = b then Suc (Count_byte s b) else Count_byte s b)"
  by (simp add: Count_byte_def)

lemma Count_byte_Nil [simp]: "Count_byte [] b = 0"
  by (simp add: Count_byte_def)

lemma Count_dot_digits: "list_all is_digit s \<Longrightarrow> Count_byte s CHR ''.'' = 0"
  by (induction s) auto

lemma dateCore_isDateCore:
  assumes "atoi_val year \<ge> dateEpoch" "list_all is_digit month" "list_all is_digit day" "list_all is_digit patch"
  shows "isDateCore (dateCore year month day patch)"
  using assms nat_digits_digit
  by (auto simp: isDateCore_def dateCore_def Let_def Itoa_def Count_dot_digits is_digit_def)

lemma numeric_core_not_date: "numeric_core s \<Longrightarrow> \<not> isDateCore s"
proof -
  assume "numeric_core s"
  then obtain ps where ps: "s = Join ps ''.''" "length ps = 2 \<or> length ps = 3"
    "\<forall>p \<in> set ps. list_all is_digit p"
    unfolding numeric_core_def by blast
  have "Count_byte (Join ps ''.'') CHR ''.'' = length ps - 1"
    using ps(3)
  proof (induction ps rule: induct_list012)
    case (3 p q ps)
    then show ?case by (simp add: Count_dot_digits)
  qed (simp_all add: Count_dot_digits)
  with ps show ?thesis by (auto simp: isDateCore_def)
qed

section \<open>Laws of the constraint order\<close>

lemma matching_tags_Some:
  "matching_tags pattern tags = Some ms \<longleftrightarrow>
     list_all (\<lambda>t. path_Match pattern t \<noteq> None) tags \<and> ms = filter (\<lambda>t. path_Match pattern t = Some True) tags"
proof (induction tags arbitrary: ms)
  case (Cons t tags)
  then show ?case by (cases "path_Match pattern t"; cases "matching_tags pattern tags") auto
qed auto

lemma channelWordTag_tag: "channelWordTag t = Some c \<Longrightarrow> ct_tag c = t"
  by (auto simp: channelWordTag_def rankOf_tier split: option.splits if_splits)

lemma map_ct_tag_channelWord:
  "map ct_tag (List.map_filter channelWordTag ts) = filter (\<lambda>t. channelWordTag t \<noteq> None) ts"
proof (induction ts)
  case (Cons t ts)
  then show ?case
    by (cases "channelWordTag t") (simp_all add: map_filter_simps channelWordTag_tag del: not_None_eq)
qed (simp add: map_filter_simps)

lemma channelled_set:
  "ct_tag ` set (List.map_filter channelWordTag ts) = {t \<in> set ts. channelWordTag t \<noteq> None}"
  by (metis map_ct_tag_channelWord set_filter set_map)

lemma mset_sortTagsDesc: "mset (sortTagsDesc tags) = mset tags"
proof -
  let ?sv = "filter IsStableSemver tags" and ?ns = "filter (\<lambda>t. \<not> IsStableSemver t) tags"
  let ?rest = "filter (\<lambda>t. \<not> IsStableSemver t \<and> channelWordTag t = None) tags"
  have r: "?rest = filter (\<lambda>t. \<not> channelWordTag t \<noteq> None) ?ns"
    by (simp add: conj_commute)
  have "mset (map ct_tag (tierAgainstDates (List.map_filter channelWordTag ?ns)))
      = mset (filter (\<lambda>t. channelWordTag t \<noteq> None) ?ns)"
    by (simp add: tierAgainstDates_map o_def map_ct_tag_channelWord flip: mset_map mset_filter del: not_None_eq)
  then have "mset (map ct_tag (tierAgainstDates (List.map_filter channelWordTag ?ns))) + mset ?rest = mset ?ns"
    unfolding r by (simp only: mset_filter flip: multiset_partition)
  then show ?thesis
    by (simp add: sortTagsDesc_def Let_def sortLexDesc_def flip: multiset_partition)
qed

text \<open>What it takes to stand before another tag in the order of a constraint.\<close>

definition constraint_ge :: "string \<Rightarrow> string \<Rightarrow> bool" where
  "constraint_ge t u \<longleftrightarrow>
     (if IsStableSemver u then IsStableSemver t \<and> semver_key u \<le> semver_key t
      else if channelWordTag u \<noteq> None then IsStableSemver t \<or> channelWordTag t \<noteq> None
      else IsStableSemver t \<or> channelWordTag t \<noteq> None \<or> u \<le> t)"

lemma hd_sortTagsDesc:
  assumes "u \<in> set tags"
  shows "constraint_ge (hd (sortTagsDesc tags)) u"
proof -
  let ?sv = "filter IsStableSemver tags" and ?ns = "filter (\<lambda>t. \<not> IsStableSemver t) tags"
  let ?ch = "List.map_filter channelWordTag ?ns"
  show ?thesis
  proof (cases "?sv = []")
    case False
    then have h: "hd (sortTagsDesc tags) = hd (SortFunc compareSemver ?sv)"
      by (simp add: sortTagsDesc_def Let_def hd_append)
    have "hd (SortFunc compareSemver ?sv) \<in> set ?sv" using False by (rule sv.hd_sort_in)
    then have "IsStableSemver (hd (sortTagsDesc tags))" by (simp add: h)
    moreover have "semver_key u \<le> semver_key (hd (sortTagsDesc tags))" if "IsStableSemver u"
      unfolding h using assms that by (intro sv.hd_sort_max) simp
    ultimately show ?thesis by (simp add: constraint_ge_def)
  next
    case nosv: True
    then have ns: "\<forall>t \<in> set tags. \<not> IsStableSemver t" by (auto simp: filter_empty_conv)
    show ?thesis
    proof (cases "?ch = []")
      case False
      let ?c = "hd (SortFunc compareClassified (tierAgainstDates ?ch))"
      have h: "hd (sortTagsDesc tags) = ct_tag ?c"
        using nosv False by (simp add: sortTagsDesc_def Let_def hd_append hd_map tierAgainstDates_map)
      have "?c \<in> set (tierAgainstDates ?ch)"
        using False by (intro cc.hd_sort_in) (simp add: tierAgainstDates_map)
      then have "ct_tag ?c \<in> ct_tag ` set ?ch" by (auto simp: tierAgainstDates_map)
      then have "channelWordTag (hd (sortTagsDesc tags)) \<noteq> None"
        unfolding h channelled_set by blast
      with assms ns show ?thesis by (simp add: constraint_ge_def)
    next
      case True
      then have h: "sortTagsDesc tags = sortLexDesc tags"
        using nosv by (simp add: sortTagsDesc_def Let_def)
      have "{t \<in> set ?ns. channelWordTag t \<noteq> None} = {}"
        by (simp only: True list.set image_empty flip: channelled_set)
      then have "channelWordTag u = None" using assms ns by auto
      moreover have "u \<le> hd (sortTagsDesc tags)"
        unfolding h sortLexDesc_def using lexdesc.hd_sort_max [OF assms] by simp
      ultimately show ?thesis using assms ns by (simp add: constraint_ge_def)
    qed
  qed
qed

section \<open>Laws of the rank inside a channel\<close>

lemma classified_fields:
  "ct_core (classified b t p) = ct_core (classified b' t p)"
  "ct_ordinal (classified b t p) = ct_ordinal (classified b' t p)"
  "ct_dated (classified b t p) = ct_dated (classified b' t p)"
  by (auto simp: classified_def classifyOne_def classifyByPrefix_def split: prod.splits)

text \<open>The order inside a channel: semantic versions above dates unless the channel is a calendar.\<close>

definition channel_rank :: "classifiedTag list \<Rightarrow> classifiedTag \<Rightarrow> bool \<times> core \<times> int \<times> string" where
  "channel_rank rs c =
     (\<not> ct_dated c \<and> list_ex ct_dated rs \<and> \<not> list_ex (\<lambda>d. \<not> ct_dated d \<and> fst (ct_core d) \<ge> calendarMajor) rs,
      ct_core c, ct_ordinal c, ct_tag c)"

definition same_rank :: "classifiedTag \<Rightarrow> classifiedTag \<Rightarrow> bool" where
  "same_rank c r \<longleftrightarrow> ct_core c = ct_core r \<and> ct_ordinal c = ct_ordinal r \<and> ct_dated c = ct_dated r \<and> ct_tag c = ct_tag r"

lemma classifyAll_rankOf:
  "c \<in> set (classifyAll tags) \<Longrightarrow> same_rank c (the (rankOf (ct_tag c)))"
proof -
  assume "c \<in> set (classifyAll tags)"
  then obtain b t p where "c = classified b t p" "parseTagFull t = Some p"
    by (auto simp: classifyAll_def Let_def set_map_filter)
  then have "same_rank c (classified False t p)" "the (rankOf (ct_tag c)) = classified False t p"
    using classified_fields [of b t p False] by (simp_all add: same_rank_def rankOf_def)
  then show ?thesis by simp
qed

lemma same_rank_tier: "same_rank c r \<Longrightarrow> same_rank (tier_of A c) r"
  by (simp add: same_rank_def tier_of_def)

lemma channel_rank_key:
  assumes "list_all2 same_rank cs rs" "\<forall>c \<in> set cs. ct_tier c = 0" "same_rank c r"
    "c \<in> set cs"
  shows "ct_key (tier_of (set cs) c) = (if fst (channel_rank rs r) then 1 else 0, snd (channel_rank rs r))"
proof -
  have "list_ex ct_dated rs = list_ex ct_dated cs"
    "list_ex (\<lambda>d. \<not> ct_dated d \<and> fst (ct_core d) \<ge> calendarMajor) rs
     = list_ex (\<lambda>d. \<not> ct_dated d \<and> fst (ct_core d) \<ge> calendarMajor) cs"
    using assms(1) by (induction rule: list_all2_induct) (auto simp: same_rank_def)
  with assms(2-4) show ?thesis
    by (auto simp: ct_key_def channel_rank_def tier_of_def same_rank_def list_ex_iff)
qed

lemma bool_tier_le:
  "((if fst p then 1 else 0 :: int), snd p) \<le> ((if fst q then 1 else 0), snd q) \<longleftrightarrow> p \<le> q"
  by (cases p; cases q) (auto simp: less_eq_prod_simp)

section \<open>Properties\<close>

text \<open>
  The channels of a repository hold every tag with a version exactly once between them; their
  names are strictly ascending and no channel is empty.
\<close>

theorem group_channels_partition:
  "mset (concat (map tcMembers (GroupChannels tags))) = mset (filter HasVersionCore tags) \<and>
   sorted_wrt (<) (map tcName (GroupChannels tags)) \<and>
   list_all (\<lambda>c. tcMembers c \<noteq> []) (GroupChannels tags)"
proof (intro conjI)
  show "sorted_wrt (<) (map tcName (GroupChannels tags))"
    by (simp add: GroupChannels_names strict_sorted_iff)
  show "list_all (\<lambda>c. tcMembers c \<noteq> []) (GroupChannels tags)"
    by (auto simp: GroupChannels_def Let_def list_all_iff channel_members_def tierAgainstDates_map filter_empty_conv)
qed (simp add: GroupChannels_members_perm)

text \<open>
  C4. The channels and the order inside each do not depend on the order the tags are advertised
  in (a map's keys, in the callers): no two tags of a channel compare equal.
\<close>

theorem group_channels_order_independent:
  assumes "mset tags' = mset tags"
  shows "GroupChannels tags' = GroupChannels tags"
proof -
  have m: "mset (classifyAll tags') = mset (classifyAll tags)" by (rule mset_classifyAll_cong [OF assms])
  have e: "mset (remdups (map ct_channel cs)) = mset_set (ct_channel ` set cs)" for cs
    by (metis mset_set_set set_remdups distinct_remdups set_map)
  have "set (classifyAll tags') = set (classifyAll tags)" using m by (metis set_mset_mset)
  then have "sort_Strings (remdups (map ct_channel (classifyAll tags')))
      = sort_Strings (remdups (map ct_channel (classifyAll tags)))"
    by (intro sort_Strings_cong) (simp only: e)
  then show ?thesis
    by (simp add: GroupChannels_def Let_def channel_members_cong [OF m inj_ct_tag_classifyAll])
qed

theorem group_channels_order_independent_witness:
  "GroupChannels [''v2.0.0'', ''beta-26.5-1'', ''v1.10.0''] = GroupChannels [''v1.10.0'', ''v2.0.0'', ''beta-26.5-1''] \<and>
   map tcMembers (GroupChannels [''v1.10.0'', ''v2.0.0'', ''beta-26.5-1'']) = [[''beta-26.5-1''], [''v2.0.0'', ''v1.10.0'']]"
proof
  show "GroupChannels [''v2.0.0'', ''beta-26.5-1'', ''v1.10.0''] = GroupChannels [''v1.10.0'', ''v2.0.0'', ''beta-26.5-1'']"
    by (rule group_channels_order_independent) simp
qed code_simp

text \<open>
  Inside a channel the tags stand in descending order of version core, numbers compared as
  numbers, then of ordinal, then of name; where the channel mixes dated tags with semantic
  versions only, every semantic version stands before every date.
\<close>

theorem channel_members_ranked:
  assumes "ch \<in> set (GroupChannels tags)"
  shows "let rs = map (\<lambda>t. the (rankOf t)) (tcMembers ch)
    in sorted_wrt (\<lambda>a b. channel_rank rs b \<le> channel_rank rs a) rs"
proof -
  obtain cs where cs: "cs = filter (\<lambda>c. ct_channel c = tcName ch) (classifyAll tags)"
    and ms: "tcMembers ch = map ct_tag (SortFunc compareClassified (tierAgainstDates cs))"
    using assms by (auto simp: GroupChannels_def Let_def channel_members_def)
  let ?r = "\<lambda>c. the (rankOf (ct_tag c))"
  let ?ts = "SortFunc compareClassified (tierAgainstDates cs)"
  let ?rs = "map ?r ?ts"
  have z: "\<forall>c \<in> set cs. ct_tier c = 0"
    by (auto simp: cs classifyAll_def Let_def set_map_filter)
  have sr: "\<forall>c \<in> set cs. same_rank c (?r c)"
    unfolding cs by (auto intro: classifyAll_rankOf)
  have ex: "list_ex P ?rs = list_ex P (map ?r cs)" for P
    by (simp add: list_ex_iff tierAgainstDates_map)
  then have ch: "channel_rank ?rs = channel_rank (map ?r cs)"
    by (simp add: channel_rank_def fun_eq_iff)
  have key: "ct_key c = (if fst (channel_rank ?rs (?r c)) then 1 else 0, snd (channel_rank ?rs (?r c)))"
    if c: "c \<in> set ?ts" for c
  proof -
    obtain d where d: "d \<in> set cs" "c = tier_of (set cs) d" using c by (auto simp: tierAgainstDates_map)
    have "list_all2 same_rank cs (map ?r cs)" using sr by (simp add: list_all2_map2 list_all2_same)
    from channel_rank_key [OF this z sr [rule_format, OF d(1)] d(1)] show ?thesis by (simp add: d ch)
  qed
  have "sorted_wrt (\<lambda>c d. ct_key d \<le> ct_key c) ?ts" by (rule cc.desc_sort)
  then have "sorted_wrt (\<lambda>c d. channel_rank ?rs (?r d) \<le> channel_rank ?rs (?r c)) ?ts"
  proof (rule sorted_wrt_mono_rel [rotated])
    fix c d assume "c \<in> set ?ts" "d \<in> set ?ts" "ct_key d \<le> ct_key c"
    then show "channel_rank ?rs (?r d) \<le> channel_rank ?rs (?r c)"
      by (simp only: key [of c] key [of d] bool_tier_le)
  qed
  then show ?thesis by (simp add: ms sorted_wrt_map o_def)
qed

text \<open>
  C5. \<open>parseTagFull\<close> loses nothing: a tag is its prefix, its version core, separators and its
  suffix, the core two or three numbers joined by dots; only a date of this century behind a
  channel word becomes a four-component core, written from its year, month, day and patch.
\<close>

theorem parse_tag_roundtrip:
  assumes "parseTagFull tag = Some (prefix, core, suffix)"
  shows "if isDateCore core
    then isKnownChannel (normalizeVersionPrefix prefix) \<and>
      (\<exists>year month day patch pt seps. tag = prefix @ year @ ''-'' @ month @ ''-'' @ day @ pt @ seps @ suffix \<and>
         pt \<in> {[], ''.'' @ patch} \<and> set seps \<subseteq> set ''-_.'' \<and> validDate year month day \<and>
         core = dateCore year month day patch)
    else numeric_core core \<and> (\<exists>seps. tag = prefix @ core @ seps @ suffix \<and> set seps \<subseteq> set ''-_.'')"
proof -
  consider (dated) m where "re_full tagPatternWithDateCore tag = Some m" "prefix = re_group m 1"
      "isKnownChannel (normalizeVersionPrefix (re_group m 1))"
      "validDate (re_group m 2) (re_group m 3) (re_group m 4)"
      "core = dateCore (re_group m 2) (re_group m 3) (re_group m 4) (re_group m 5)"
      "suffix = TrimLeft (re_group m 6) ''-_.''"
    | (plain) m where "re_full tagPatternWithOrdinalSuffix tag = Some m" "prefix = re_group m 1"
      "core = re_group m 2" "suffix = TrimLeft (re_group m 3) ''-_.''"
    using assms unfolding parseTagFull_def Let_def by (auto split: option.splits if_splits)
  then show ?thesis
  proof cases
    case dated
    obtain pt where tag: "tag = re_group m 1 @ re_group m 2 @ ''-'' @ re_group m 3 @ ''-'' @ re_group m 4 @ pt @ re_group m 6"
      and pt: "pt \<in> {[], ''.'' @ re_group m 5}"
      and dg: "list_all is_digit (re_group m 2 @ re_group m 3 @ re_group m 4 @ re_group m 5)"
      using tag_pattern_date_groups [OF dated(1)] by blast
    obtain seps where "re_group m 6 = seps @ suffix" "set seps \<subseteq> set ''-_.''"
      using TrimLeft_split [of "re_group m 6" "''-_.''"] dated(6) by auto
    moreover have "isDateCore core"
      using dated(4,5) dg by (simp only: dated(5), intro dateCore_isDateCore) (simp_all add: validDate_def Let_def)
    ultimately show ?thesis
      using dated(2-5) tag pt by (simp only: if_True append.assoc) blast
  next
    case plain
    obtain s t where "(re_group m 2, [], t) \<in> set (re_run version_re s)"
      using tag_pattern_groups(2) [OF plain(1)] by blast
    then have n: "numeric_core core" using version_re_core plain(3) by simp
    obtain seps where "re_group m 3 = seps @ suffix" "set seps \<subseteq> set ''-_.''"
      using TrimLeft_split [of "re_group m 3" "''-_.''"] plain(4) by auto
    with tag_pattern_groups(1) [OF plain(1)] plain n numeric_core_not_date [OF n] show ?thesis
      by (metis append.assoc)
  qed
qed

theorem parse_tag_roundtrip_witness:
  "parseTagFull ''hotfix-2026-09-27.1-1'' = Some (''hotfix-'', ''26.09.27.1'', ''1'') \<and>
   (\<exists>seps. ''release-v1.4.0-rc.2'' = ''release-v'' @ ''1.4.0'' @ seps @ ''rc.2'' \<and> set seps \<subseteq> set ''-_.'')"
proof
  have h: "parseTagFull ''release-v1.4.0-rc.2'' = Some (''release-v'', ''1.4.0'', ''rc.2'')" by code_simp
  have "\<not> isDateCore ''1.4.0''" by code_simp
  with parse_tag_roundtrip [OF h]
  show "\<exists>seps. ''release-v1.4.0-rc.2'' = ''release-v'' @ ''1.4.0'' @ seps @ ''rc.2'' \<and> set seps \<subseteq> set ''-_.''"
    by (simp only: if_False)
qed code_simp

text \<open>
  \<open>Outranks\<close> never ranks two tags above each other, and on any tags that do not mix dates,
  semantic versions and calendar versions it is transitive.
\<close>

theorem outranks_strict_order:
  assumes r: "rankOf a = Some ra" "rankOf b = Some rb" "rankOf c = Some rc" "\<not> mixed_ranks [ra, rb, rc]"
  shows "\<not> (Outranks a b \<and> Outranks b a) \<and> (Outranks a b \<longrightarrow> Outranks b c \<longrightarrow> Outranks a c)"
proof (intro conjI impI)
  show "\<not> (Outranks a b \<and> Outranks b a)"
    using same_channel_asym by (auto simp: Outranks_iff)
next
  assume ab: "Outranks a b" and bc: "Outranks b c"
  let ?cs = "[ra, rb, rc]"
  have z: "\<forall>x \<in> set ?cs. ct_tier x = 0" using r rankOf_tier by auto
  have u: "same_channel_outranks x y \<longleftrightarrow> uniform_key ?cs y < uniform_key ?cs x" if "x \<in> set ?cs" "y \<in> set ?cs" for x y
    using r z that by (intro same_channel_uniform) auto
  have "ct_channel ra = ct_channel rb" "same_channel_outranks ra rb"
    "ct_channel rb = ct_channel rc" "same_channel_outranks rb rc"
    using r ab bc by (simp_all add: Outranks_iff)
  moreover have "same_channel_outranks ra rc"
    using calculation(2,4) u by (meson less_trans list.set_intros)
  ultimately show "Outranks a c" using r by (simp add: Outranks_iff)
qed

text \<open>
  On mixed tags \<open>Outranks\<close> is not an order at all: each of these three tags of the stable
  channel outranks the next, because the pair alone decides how dates are tiered, although the
  channel they form together has one order.
\<close>

theorem outranks_cycle:
  "Outranks ''v2.0.0'' ''stable-2026-09-27'' \<and> Outranks ''stable-2026-09-27'' ''v26.8'' \<and>
   Outranks ''v26.8'' ''v2.0.0'' \<and>
   SortInChannel [''v2.0.0'', ''stable-2026-09-27'', ''v26.8''] StableChannel =
     [''stable-2026-09-27'', ''v26.8'', ''v2.0.0'']"
  by code_simp

text \<open>
  A constraint picks a tag of the repository that matches its pattern.  A stable release
  beats any other match, the highest one by number wins among them, and a tag behind a channel
  word beats the rest; no pick means that no tag matches.
\<close>

theorem highest_match_sound:
  "case HighestMatch tags pattern of
     Inl e \<Rightarrow> list_ex (\<lambda>t. path_Match pattern t = None) tags
   | Inr None \<Rightarrow> list_all (\<lambda>t. path_Match pattern t = Some False) tags
   | Inr (Some t) \<Rightarrow> t \<in> set tags \<and> path_Match pattern t = Some True \<and>
       list_all (\<lambda>u. path_Match pattern u = Some False \<or> constraint_ge t u) tags"
proof (cases "matching_tags pattern tags")
  case None
  moreover have "matching_tags pattern tags \<noteq> None" if "list_all (\<lambda>t. path_Match pattern t \<noteq> None) tags"
    using that matching_tags_Some [of pattern tags] by blast
  ultimately have "list_ex (\<lambda>t. path_Match pattern t = None) tags"
    by (metis (mono_tags, lifting) list_all_iff list_ex_iff)
  with None show ?thesis by (simp add: HighestMatch_def)
next
  case (Some ms)
  then have ok: "\<forall>t \<in> set tags. path_Match pattern t \<noteq> None"
    and ms: "ms = filter (\<lambda>t. path_Match pattern t = Some True) tags"
    by (simp_all add: matching_tags_Some list_all_iff del: not_None_eq)
  have bool: "path_Match pattern t = Some True \<or> path_Match pattern t = Some False" if "t \<in> set tags" for t
    using ok that by auto
  show ?thesis
  proof (cases "ms = []")
    case True
    then show ?thesis
      using Some ms bool by (auto simp: HighestMatch_def list_all_iff filter_empty_conv)
  next
    case False
    let ?t = "hd (sortTagsDesc ms)"
    have h: "HighestMatch tags pattern = Inr (Some ?t)" using Some False by (simp add: HighestMatch_def)
    have "sortTagsDesc ms \<noteq> []" using False mset_sortTagsDesc [of ms] by auto
    then have "?t \<in> set ms" using mset_sortTagsDesc [of ms] by (metis hd_in_set set_mset_mset)
    moreover have "path_Match pattern u = Some False \<or> constraint_ge ?t u" if "u \<in> set tags" for u
    proof (cases "path_Match pattern u = Some False")
      case False
      then have "u \<in> set ms" using bool that ms by auto
      then show ?thesis by (simp add: hd_sortTagsDesc)
    qed simp
    ultimately show ?thesis unfolding h by (simp add: ms list_all_iff)
  qed
qed

end
