(* ===== verification/DepTree.thy ===== *)
theory DepTree
  imports Domain
begin

text \<open>
  The dependency-order engine (internal/engine/deptree): a depth-first traversal that visits
  every transitive dependency once and returns them dependencies first, or the cycle it met.
  The resolver is a parameter, as is the context: \<open>ctx i\<close> is what the \<open>i\<close>-th poll of
  \<open>ctx.Err()\<close> returns.  The recursion runs on fuel, one unit per level of nesting;
  \<open>dfs_enough_fuel\<close> shows that one more than the number of reachable namespaces suffices.
\<close>

section \<open>Model\<close>

datatype nodeState = Unvisited | InProgress | Done

datatype dep_error = CycleError "Namespace list" | CtxError go_error | ResolverError go_error

type_synonym ResolverFunc = "Namespace \<Rightarrow> go_error + Namespace list"

record traversal =
  node_state :: "Namespace \<Rightarrow> nodeState"
  stack :: "Namespace list"
  order :: "Namespace list"
  polls :: nat

definition NewTraversal :: traversal where
  "NewTraversal = \<lparr>node_state = (\<lambda>_. Unvisited), stack = [], order = [], polls = 0\<rparr>"

text \<open>The first position of the namespace on the stack, 0 when it is not there.\<close>

fun cycle_start :: "Namespace list \<Rightarrow> Namespace \<Rightarrow> nat" where
  "cycle_start [] ns = 0"
| "cycle_start (n # st) ns = (if n = ns then 0 else if ns \<in> set st then Suc (cycle_start st ns) else 0)"

definition buildCycleError :: "traversal \<Rightarrow> Namespace \<Rightarrow> dep_error" where
  "buildCycleError t ns = CycleError (drop (cycle_start (stack t) ns) (stack t) @ [ns])"

fun dfs :: "nat \<Rightarrow> (nat \<Rightarrow> go_error option) \<Rightarrow> ResolverFunc \<Rightarrow> Namespace \<Rightarrow> traversal
      \<Rightarrow> (dep_error + traversal) option"
  and dfs_deps :: "nat \<Rightarrow> (nat \<Rightarrow> go_error option) \<Rightarrow> ResolverFunc \<Rightarrow> Namespace list \<Rightarrow> traversal
      \<Rightarrow> (dep_error + traversal) option" where
  "dfs 0 ctx resolver ns t = None"
| "dfs (Suc fuel) ctx resolver ns t =
     (if node_state t ns = Done then Some (Inr t)
      else if node_state t ns = InProgress then Some (Inl (buildCycleError t ns))
      else case ctx (polls t) of
        Some e \<Rightarrow> Some (Inl (CtxError e))
      | None \<Rightarrow>
          (case resolver ns of
             Inl e \<Rightarrow> Some (Inl (ResolverError e))
           | Inr deps \<Rightarrow>
               (case dfs_deps fuel ctx resolver deps
                   (t\<lparr>polls := Suc (polls t), node_state := (node_state t)(ns := InProgress),
                      stack := stack t @ [ns]\<rparr>) of
                  None \<Rightarrow> None
                | Some (Inl e) \<Rightarrow> Some (Inl e)
                | Some (Inr u) \<Rightarrow>
                    Some (Inr (u\<lparr>stack := butlast (stack u),
                      node_state := (node_state u)(ns := Done), order := order u @ [ns]\<rparr>)))))"
| "dfs_deps fuel ctx resolver [] t = Some (Inr t)"
| "dfs_deps fuel ctx resolver (dep # deps) t =
     (case dfs fuel ctx resolver dep t of
        None \<Rightarrow> None
      | Some (Inl e) \<Rightarrow> Some (Inl e)
      | Some (Inr u) \<Rightarrow> dfs_deps fuel ctx resolver deps u)"

definition Resolve :: "nat \<Rightarrow> (nat \<Rightarrow> go_error option) \<Rightarrow> ResolverFunc \<Rightarrow> Namespace
      \<Rightarrow> (dep_error + Namespace list) option" where
  "Resolve fuel ctx resolver root =
     (case dfs fuel ctx resolver root NewTraversal of
        None \<Rightarrow> None
      | Some (Inl e) \<Rightarrow> Some (Inl e)
      | Some (Inr t) \<Rightarrow> Some (Inr (order t)))"

section \<open>What the traversal computes\<close>

text \<open>The declared dependency edges, and the namespaces reachable along them.\<close>

definition dep_edges :: "ResolverFunc \<Rightarrow> (Namespace \<times> Namespace) set" where
  "dep_edges resolver = {(n, d). \<exists>ds. resolver n = Inr ds \<and> d \<in> set ds}"

definition reachable_deps :: "ResolverFunc \<Rightarrow> Namespace \<Rightarrow> Namespace set" where
  "reachable_deps resolver n = (dep_edges resolver)\<^sup>* `` {n}"

text \<open>Every namespace of the list resolves, and its dependencies all stand before it.\<close>

definition deps_first :: "ResolverFunc \<Rightarrow> Namespace list \<Rightarrow> bool" where
  "deps_first resolver xs \<longleftrightarrow>
     (\<forall>us n vs. xs = us @ n # vs \<longrightarrow> (\<exists>ds. resolver n = Inr ds \<and> set ds \<subseteq> set us))"

lemma deps_first_Nil [simp]: "deps_first resolver []"
  by (simp add: deps_first_def)

lemma deps_first_snoc [simp]:
  "deps_first resolver (xs @ [n]) \<longleftrightarrow>
     deps_first resolver xs \<and> (\<exists>ds. resolver n = Inr ds \<and> set ds \<subseteq> set xs)"
proof
  assume L: "deps_first resolver (xs @ [n])"
  have "\<exists>ds. resolver m = Inr ds \<and> set ds \<subseteq> set us" if "xs = us @ m # vs" for us m vs
    using L that unfolding deps_first_def by (metis append.assoc append_Cons)
  moreover have "\<exists>ds. resolver n = Inr ds \<and> set ds \<subseteq> set xs"
    using L unfolding deps_first_def by blast
  ultimately show "deps_first resolver xs \<and> (\<exists>ds. resolver n = Inr ds \<and> set ds \<subseteq> set xs)"
    by (simp add: deps_first_def)
next
  assume R: "deps_first resolver xs \<and> (\<exists>ds. resolver n = Inr ds \<and> set ds \<subseteq> set xs)"
  have "\<exists>ds. resolver m = Inr ds \<and> set ds \<subseteq> set us" if e: "xs @ [n] = us @ m # vs" for us m vs
  proof (cases vs rule: rev_cases)
    case Nil
    with e R show ?thesis by auto
  next
    case (snoc vs' v)
    with e have "xs = us @ m # vs'" by simp
    with R show ?thesis unfolding deps_first_def by blast
  qed
  then show "deps_first resolver (xs @ [n])" unfolding deps_first_def by blast
qed

lemma deps_first_closed:
  assumes "deps_first resolver xs" "n \<in> set xs" "(n, d) \<in> dep_edges resolver"
  shows "d \<in> set xs"
proof -
  obtain us vs where "xs = us @ n # vs" using assms(2) by (meson split_list)
  with assms(1,3) show ?thesis unfolding deps_first_def dep_edges_def by fastforce
qed

lemma deps_first_reachable:
  assumes "deps_first resolver xs" "n \<in> set xs"
  shows "reachable_deps resolver n \<subseteq> set xs"
proof
  fix d assume "d \<in> reachable_deps resolver n"
  then have "(n, d) \<in> (dep_edges resolver)\<^sup>*" by (simp add: reachable_deps_def)
  then show "d \<in> set xs"
    by induction (use assms deps_first_closed in blast)+
qed

text \<open>The invariant of a traversal between two calls.\<close>

definition trav_inv :: "ResolverFunc \<Rightarrow> traversal \<Rightarrow> bool" where
  "trav_inv resolver t \<longleftrightarrow>
     distinct (stack t) \<and> set (stack t) = {n. node_state t n = InProgress} \<and>
     distinct (order t) \<and> set (order t) = {n. node_state t n = Done} \<and>
     deps_first resolver (order t)"

lemma trav_inv_New [simp]: "trav_inv resolver NewTraversal"
  by (simp add: trav_inv_def NewTraversal_def)

lemma trav_inv_push:
  "trav_inv resolver t \<Longrightarrow> node_state t ns = Unvisited \<Longrightarrow>
   trav_inv resolver (t\<lparr>polls := p, node_state := (node_state t)(ns := InProgress), stack := stack t @ [ns]\<rparr>)"
  by (auto simp: trav_inv_def)

lemma trav_inv_pop:
  assumes "trav_inv resolver u" "stack u = st @ [ns]" "resolver ns = Inr ds" "set ds \<subseteq> set (order u)"
  shows "trav_inv resolver (u\<lparr>stack := st, node_state := (node_state u)(ns := Done), order := order u @ [ns]\<rparr>)"
proof -
  have p: "node_state u ns = InProgress" using assms(1,2) by (auto simp: trav_inv_def)
  have "set st = {n. node_state u n = InProgress} - {ns}"
    using assms(1,2) by (auto simp: trav_inv_def set_eq_iff)
  then show ?thesis using assms p by (auto simp: trav_inv_def)
qed

lemma reachable_deps_refl [simp]: "n \<in> reachable_deps resolver n"
  by (simp add: reachable_deps_def)

lemma reachable_deps_step:
  "resolver n = Inr ds \<Longrightarrow> d \<in> set ds \<Longrightarrow> reachable_deps resolver d \<subseteq> reachable_deps resolver n"
  unfolding reachable_deps_def dep_edges_def by (auto intro: converse_rtrancl_into_rtrancl)

text \<open>
  A call that returns without error leaves the stack as it found it, keeps the invariant,
  extends the order by reachable namespaces only and finishes the namespace it was given.
\<close>

definition visit_post :: "ResolverFunc \<Rightarrow> Namespace list \<Rightarrow> traversal \<Rightarrow> traversal \<Rightarrow> bool" where
  "visit_post resolver nss t u \<longleftrightarrow>
     trav_inv resolver u \<and> stack u = stack t \<and>
     (\<exists>more. order u = order t @ more \<and> set more \<subseteq> (\<Union>n \<in> set nss. reachable_deps resolver n)) \<and>
     set nss \<subseteq> set (order u)"

lemma visit_post_refl: "trav_inv resolver t \<Longrightarrow> set nss \<subseteq> set (order t) \<Longrightarrow> visit_post resolver nss t t"
  by (simp add: visit_post_def)

lemma visit_post_Cons:
  "visit_post resolver [n] t u \<Longrightarrow> visit_post resolver nss u v \<Longrightarrow> visit_post resolver (n # nss) t v"
  unfolding visit_post_def by force

lemma visit_post_pop:
  assumes inv: "trav_inv resolver t" and r: "resolver ns = Inr deps"
    and post: "visit_post resolver deps
       (t\<lparr>polls := p, node_state := (node_state t)(ns := InProgress), stack := stack t @ [ns]\<rparr>) u"
  shows "visit_post resolver [ns] t
       (u\<lparr>stack := butlast (stack u), node_state := (node_state u)(ns := Done), order := order u @ [ns]\<rparr>)"
proof -
  from post obtain more where u: "trav_inv resolver u" "stack u = stack t @ [ns]"
      "order u = order t @ more" "set more \<subseteq> (\<Union>n \<in> set deps. reachable_deps resolver n)"
      "set deps \<subseteq> set (order u)"
    by (auto simp: visit_post_def)
  have "set more \<subseteq> reachable_deps resolver ns"
    using u(4) r reachable_deps_step [where resolver = resolver and n = ns and ds = deps] by blast
  with u trav_inv_pop [OF u(1,2) r u(5)] show ?thesis
    by (auto simp: visit_post_def)
qed

lemma dfs_visit:
  "dfs fuel ctx resolver ns t = Some (Inr u) \<Longrightarrow> trav_inv resolver t \<Longrightarrow> visit_post resolver [ns] t u"
  "dfs_deps fuel ctx resolver deps t = Some (Inr u) \<Longrightarrow> trav_inv resolver t \<Longrightarrow> visit_post resolver deps t u"
proof (induction fuel ctx resolver ns t and fuel ctx resolver deps t arbitrary: u and u
    rule: dfs_dfs_deps.induct)
  case (2 fuel ctx resolver ns t)
  show ?case
  proof (cases "node_state t ns")
    case Done
    with 2(2,3) show ?thesis by (auto simp: trav_inv_def intro!: visit_post_refl)
  next
    case InProgress
    with 2(2) show ?thesis by simp
  next
    case Unvisited
    let ?t = "t\<lparr>polls := Suc (polls t), node_state := (node_state t)(ns := InProgress), stack := stack t @ [ns]\<rparr>"
    from Unvisited 2(2) obtain deps v where c: "ctx (polls t) = None" and r: "resolver ns = Inr deps"
      and d: "dfs_deps fuel ctx resolver deps ?t = Some (Inr v)"
      and u: "u = v\<lparr>stack := butlast (stack v), node_state := (node_state v)(ns := Done), order := order v @ [ns]\<rparr>"
      by (auto split: option.splits sum.splits)
    have "visit_post resolver deps ?t v"
      using 2(1) Unvisited c r d trav_inv_push [OF 2(3) Unvisited] by simp
    with 2(3) r u show ?thesis by (auto intro: visit_post_pop)
  qed
next
  case (3 fuel ctx resolver t)
  then show ?case by (auto intro: visit_post_refl)
next
  case (4 fuel ctx resolver dep deps t)
  from 4(3) obtain v where v: "dfs fuel ctx resolver dep t = Some (Inr v)"
    and u: "dfs_deps fuel ctx resolver deps v = Some (Inr u)"
    by (auto split: option.splits sum.splits)
  have 1: "visit_post resolver [dep] t v" using 4(1) v 4(4) by blast
  then have "trav_inv resolver v" by (simp add: visit_post_def)
  then have "visit_post resolver deps v u" using 4(2) v u by blast
  with 1 show ?case by (rule visit_post_Cons)
qed simp

section \<open>Fuel\<close>

lemma card_stack_less:
  assumes "finite A" "ns \<in> A" "ns \<notin> set st"
  shows "card (A - set (st @ [ns])) < card (A - set st)"
proof (rule psubset_card_mono)
  show "finite (A - set st)" using assms(1) by simp
  show "A - set (st @ [ns]) \<subset> A - set st" using assms(2,3) by auto
qed

lemma dfs_enough_fuel:
  "finite A \<Longrightarrow> \<forall>n \<in> A. \<forall>ds. resolver n = Inr ds \<longrightarrow> set ds \<subseteq> A \<Longrightarrow> trav_inv resolver t \<Longrightarrow>
     ns \<in> A \<Longrightarrow> card (A - set (stack t)) < fuel \<Longrightarrow> dfs fuel ctx resolver ns t \<noteq> None"
  "finite A \<Longrightarrow> \<forall>n \<in> A. \<forall>ds. resolver n = Inr ds \<longrightarrow> set ds \<subseteq> A \<Longrightarrow> trav_inv resolver t \<Longrightarrow>
     set deps \<subseteq> A \<Longrightarrow> card (A - set (stack t)) < fuel \<Longrightarrow> dfs_deps fuel ctx resolver deps t \<noteq> None"
proof (induction fuel ctx resolver ns t and fuel ctx resolver deps t rule: dfs_dfs_deps.induct)
  case (2 fuel ctx resolver ns t)
  show ?case
  proof (cases "node_state t ns = Unvisited \<and> ctx (polls t) = None")
    case True
    then have un: "node_state t ns = Unvisited" and c: "ctx (polls t) = None" by auto
    let ?t = "t\<lparr>polls := Suc (polls t), node_state := (node_state t)(ns := InProgress), stack := stack t @ [ns]\<rparr>"
    show ?thesis
    proof (cases "resolver ns")
      case (Inl e)
      with un c show ?thesis by simp
    next
      case (Inr deps)
      have "ns \<notin> set (stack t)" using un 2(4) by (auto simp: trav_inv_def)
      then have "card (A - set (stack ?t)) < fuel"
        using card_stack_less [OF 2(2,5), of "stack t"] 2(6) by simp
      moreover have "set deps \<subseteq> A" using 2(3,5) Inr by blast
      ultimately have "dfs_deps fuel ctx resolver deps ?t \<noteq> None"
        using 2(1) un c Inr 2(2,3) trav_inv_push [OF 2(4) un] by simp
      with un c Inr show ?thesis by (auto split: option.splits sum.splits)
    qed
  next
    case False
    then show ?thesis by (cases "node_state t ns") (auto split: option.splits)
  qed
next
  case (4 fuel ctx resolver dep deps t)
  have "dfs fuel ctx resolver dep t \<noteq> None" using 4(1,3-7) by simp
  then obtain r where r: "dfs fuel ctx resolver dep t = Some r" by blast
  show ?case
  proof (cases r)
    case (Inl e)
    with r show ?thesis by simp
  next
    case (Inr u)
    then have "visit_post resolver [dep] t u" using r 4(5) dfs_visit(1) by blast
    then have "trav_inv resolver u" "stack u = stack t" by (auto simp: visit_post_def)
    then have "dfs_deps fuel ctx resolver deps u \<noteq> None" using 4(2-7) r Inr by simp
    with r Inr show ?thesis by simp
  qed
qed simp_all

section \<open>Cycles\<close>

text \<open>A walk along dependency edges.\<close>

fun dep_walk :: "ResolverFunc \<Rightarrow> Namespace list \<Rightarrow> bool" where
  "dep_walk resolver (a # b # ns) =
     ((case resolver a of Inl e \<Rightarrow> False | Inr ds \<Rightarrow> b \<in> set ds) \<and> dep_walk resolver (b # ns))"
| "dep_walk resolver ns = True"

definition dep_cycle :: "ResolverFunc \<Rightarrow> Namespace list \<Rightarrow> bool" where
  "dep_cycle resolver p \<longleftrightarrow> length p \<ge> 2 \<and> hd p = last p \<and> dep_walk resolver p"

lemma dep_edges_iff:
  "(a, b) \<in> dep_edges resolver \<longleftrightarrow> (case resolver a of Inl e \<Rightarrow> False | Inr ds \<Rightarrow> b \<in> set ds)"
  by (auto simp: dep_edges_def split: sum.splits)

lemma dep_walk_snoc:
  "dep_walk resolver (xs @ [a, b]) \<longleftrightarrow> dep_walk resolver (xs @ [a]) \<and> (a, b) \<in> dep_edges resolver"
  by (induction resolver xs rule: dep_walk.induct) (auto simp: dep_edges_iff)

lemma dep_walk_drop: "dep_walk resolver (xs @ ys) \<Longrightarrow> dep_walk resolver ys"
proof (induction xs)
  case (Cons x xs)
  then show ?case by (cases "xs @ ys") auto
qed simp

lemma dep_walk_rtrancl:
  "dep_walk resolver xs \<Longrightarrow> xs \<noteq> [] \<Longrightarrow> (hd xs, last xs) \<in> (dep_edges resolver)\<^sup>*"
proof (induction resolver xs rule: dep_walk.induct)
  case (1 resolver a b ns)
  then have "(a, b) \<in> dep_edges resolver" by (auto simp: dep_edges_iff split: sum.splits)
  with 1 show ?case by (auto intro: converse_rtrancl_into_rtrancl)
qed auto

lemma dep_walk_reachable:
  "dep_walk resolver xs \<Longrightarrow> x \<in> set xs \<Longrightarrow> x \<in> reachable_deps resolver (hd xs)"
proof (induction resolver xs rule: dep_walk.induct)
  case (1 resolver a b ns)
  then have e: "(a, b) \<in> dep_edges resolver" by (simp add: dep_edges_iff)
  show ?case
  proof (cases "x = a")
    case False
    with 1 have "(b, x) \<in> (dep_edges resolver)\<^sup>*" by (auto simp: reachable_deps_def split: sum.splits)
    with e show ?thesis by (auto simp: reachable_deps_def intro: converse_rtrancl_into_rtrancl)
  qed simp
qed auto

lemma dep_cycle_trancl:
  assumes "dep_cycle resolver p"
  shows "(hd p, hd p) \<in> (dep_edges resolver)\<^sup>+"
proof -
  obtain a b ns where p: "p = a # b # ns"
    using assms by (cases p; cases "tl p") (auto simp: dep_cycle_def)
  then have w: "dep_walk resolver (a # b # ns)" and l: "last (b # ns) = a"
    using assms by (auto simp: dep_cycle_def)
  have "(a, b) \<in> dep_edges resolver" using w by (simp add: dep_edges_iff)
  moreover have "(b, a) \<in> (dep_edges resolver)\<^sup>*"
    using w l dep_walk_rtrancl [of resolver "b # ns"] by simp
  ultimately have "(a, a) \<in> (dep_edges resolver)\<^sup>+" by (rule rtrancl_into_trancl2)
  with p show ?thesis by simp
qed

lemma drop_cycle_start:
  "ns \<in> set st \<Longrightarrow> \<exists>us vs. st = us @ ns # vs \<and> drop (cycle_start st ns) st = ns # vs"
proof (induction st)
  case (Cons n st)
  show ?case
  proof (cases "n = ns")
    case False
    with Cons obtain us vs where "st = us @ ns # vs" "drop (cycle_start st ns) st = ns # vs" by auto
    with False Cons.prems show ?thesis by (intro exI [of _ "n # us"] exI [of _ vs]) auto
  qed auto
qed simp

text \<open>The stack is a walk from the root, and the namespace about to be visited extends it.\<close>

lemma cycle_error_sound:
  assumes "ns \<in> set (stack t)" "dep_walk resolver (stack t @ [ns])"
  shows "\<exists>p. buildCycleError t ns = CycleError p \<and> dep_cycle resolver p \<and> set p \<subseteq> set (stack t)"
proof -
  obtain us vs where st: "stack t = us @ ns # vs"
    and dr: "drop (cycle_start (stack t) ns) (stack t) = ns # vs"
    using drop_cycle_start [OF assms(1)] by blast
  have "dep_walk resolver (ns # vs @ [ns])"
    using assms(2) st dep_walk_drop [of resolver us "ns # vs @ [ns]"] by simp
  with st dr show ?thesis
    by (auto simp: buildCycleError_def dep_cycle_def)
qed

lemma dfs_cycle:
  "dfs fuel ctx resolver ns t = Some (Inl (CycleError p)) \<Longrightarrow> trav_inv resolver t \<Longrightarrow>
     dep_walk resolver (stack t @ [ns]) \<Longrightarrow>
     dep_cycle resolver p \<and> set p \<subseteq> reachable_deps resolver (hd (stack t @ [ns]))"
  "dfs_deps fuel ctx resolver deps t = Some (Inl (CycleError p)) \<Longrightarrow> trav_inv resolver t \<Longrightarrow>
     stack t \<noteq> [] \<Longrightarrow> (\<forall>d \<in> set deps. dep_walk resolver (stack t @ [d])) \<Longrightarrow>
     dep_cycle resolver p \<and> set p \<subseteq> reachable_deps resolver (hd (stack t))"
proof (induction fuel ctx resolver ns t and fuel ctx resolver deps t rule: dfs_dfs_deps.induct)
  case (2 fuel ctx resolver ns t)
  show ?case
  proof (cases "node_state t ns")
    case Done
    with 2(2) show ?thesis by simp
  next
    case InProgress
    then have "ns \<in> set (stack t)" using 2(3) by (simp add: trav_inv_def)
    then obtain q where "buildCycleError t ns = CycleError q" "dep_cycle resolver q"
        "set q \<subseteq> set (stack t)"
      using cycle_error_sound [OF _ 2(4)] by blast
    moreover have "set (stack t) \<subseteq> reachable_deps resolver (hd (stack t @ [ns]))"
      using dep_walk_reachable [OF 2(4)] by auto
    ultimately show ?thesis using InProgress 2(2) by auto
  next
    case Unvisited
    let ?t = "t\<lparr>polls := Suc (polls t), node_state := (node_state t)(ns := InProgress), stack := stack t @ [ns]\<rparr>"
    from Unvisited 2(2) obtain deps where c: "ctx (polls t) = None" and r: "resolver ns = Inr deps"
      and d: "dfs_deps fuel ctx resolver deps ?t = Some (Inl (CycleError p))"
      by (auto split: option.splits sum.splits)
    have "\<forall>d \<in> set deps. dep_walk resolver (stack ?t @ [d])"
      using 2(4) r by (auto simp: dep_walk_snoc dep_edges_iff)
    then have "dep_cycle resolver p \<and> set p \<subseteq> reachable_deps resolver (hd (stack ?t))"
      using 2(1) Unvisited c r d trav_inv_push [OF 2(3) Unvisited] by simp
    then show ?thesis by simp
  qed
next
  case (4 fuel ctx resolver dep deps t)
  from 4(3) consider (now) "dfs fuel ctx resolver dep t = Some (Inl (CycleError p))"
    | (later) u where "dfs fuel ctx resolver dep t = Some (Inr u)"
        "dfs_deps fuel ctx resolver deps u = Some (Inl (CycleError p))"
    by (auto split: option.splits sum.splits)
  then show ?case
  proof cases
    case now
    with 4 show ?thesis by simp
  next
    case later
    then have "visit_post resolver [dep] t u" using dfs_visit(1) 4(4) by blast
    with 4 later show ?thesis by (simp add: visit_post_def)
  qed
qed simp_all

text \<open>Without cancellation and with a resolver that answers, the only error is a cycle.\<close>

lemma dfs_errors:
  "(\<forall>i. ctx i = None) \<Longrightarrow> (\<forall>n. \<exists>ds. resolver n = Inr ds) \<Longrightarrow>
     dfs fuel ctx resolver ns t = Some (Inl e) \<Longrightarrow> \<exists>p. e = CycleError p"
  "(\<forall>i. ctx i = None) \<Longrightarrow> (\<forall>n. \<exists>ds. resolver n = Inr ds) \<Longrightarrow>
     dfs_deps fuel ctx resolver deps t = Some (Inl e) \<Longrightarrow> \<exists>p. e = CycleError p"
proof (induction fuel ctx resolver ns t and fuel ctx resolver deps t rule: dfs_dfs_deps.induct)
  case (2 fuel ctx resolver ns t)
  from 2(3) obtain ds where "resolver ns = Inr ds" by blast
  with 2 show ?case
    by (auto simp: buildCycleError_def split: if_splits option.splits sum.splits)
next
  case (4 fuel ctx resolver dep deps t)
  from 4(5) consider "dfs fuel ctx resolver dep t = Some (Inl e)"
    | u where "dfs fuel ctx resolver dep t = Some (Inr u)"
        "dfs_deps fuel ctx resolver deps u = Some (Inl e)"
    by (auto split: option.splits sum.splits)
  then show ?case
    by cases (use 4 in blast)+
qed simp_all

lemma deps_first_no_cycle:
  assumes "deps_first resolver xs" "distinct xs" "n \<in> set xs"
  shows "(n, n) \<notin> (dep_edges resolver)\<^sup>+"
  using assms
proof (induction xs rule: rev_induct)
  case (snoc x xs)
  obtain ds where x: "resolver x = Inr ds" "set ds \<subseteq> set xs" and tf: "deps_first resolver xs"
    using snoc.prems(1) by auto
  show ?case
  proof (cases "n = x")
    case True
    show ?thesis
    proof
      assume "(n, n) \<in> (dep_edges resolver)\<^sup>+"
      then obtain d where "(x, d) \<in> dep_edges resolver" and r: "(d, x) \<in> (dep_edges resolver)\<^sup>*"
        using True by (meson tranclD)
      then have "d \<in> set xs" using x by (auto simp: dep_edges_def)
      then have "x \<in> set xs"
        using deps_first_reachable [OF tf] r by (auto simp: reachable_deps_def)
      with snoc.prems(2) show False by simp
    qed
  next
    case False
    with snoc tf show ?thesis by simp
  qed
qed simp

section \<open>Properties\<close>

text \<open>A concrete resolver for the witnesses.\<close>

definition sample_resolver :: ResolverFunc where
  "sample_resolver n =
     (if n = ''app'' then Inr [''lib'', ''tool''] else if n = ''lib'' then Inr [''tool'']
      else if n = ''loop'' then Inr [''loop2''] else if n = ''loop2'' then Inr [''loop''] else Inr [])"

lemma Resolve_visit:
  assumes "Resolve fuel ctx resolver root = Some (Inr ns)"
  shows "trav_inv resolver NewTraversal"
    and "\<exists>t us. order t = ns \<and> ns = us @ [root] \<and> visit_post resolver [root] NewTraversal t"
proof -
  obtain t where t: "dfs fuel ctx resolver root NewTraversal = Some (Inr t)" "order t = ns"
    using assms unfolding Resolve_def by (auto split: option.splits sum.splits)
  have "visit_post resolver [root] NewTraversal t" using dfs_visit(1) [OF t(1)] by simp
  moreover obtain us where "ns = us @ [root]"
    using t by (cases fuel) (auto simp: NewTraversal_def split: option.splits sum.splits)
  ultimately show "\<exists>t us. order t = ns \<and> ns = us @ [root] \<and> visit_post resolver [root] NewTraversal t"
    using t by blast
qed simp

lemma reachable_deps_closed:
  assumes "root \<in> A" "\<And>n ds. n \<in> A \<Longrightarrow> resolver n = Inr ds \<Longrightarrow> set ds \<subseteq> A"
  shows "reachable_deps resolver root \<subseteq> A"
proof
  fix d assume "d \<in> reachable_deps resolver root"
  then have "(root, d) \<in> (dep_edges resolver)\<^sup>*" by (simp add: reachable_deps_def)
  then show "d \<in> A"
  proof induction
    case (step m d)
    then obtain ds where "resolver m = Inr ds" "d \<in> set ds" by (auto simp: dep_edges_def)
    with assms(2) step.IH show ?case by blast
  qed (rule assms(1))
qed

lemma Resolve_enough_fuel:
  assumes "finite A" "root \<in> A" "\<And>n ds. n \<in> A \<Longrightarrow> resolver n = Inr ds \<Longrightarrow> set ds \<subseteq> A"
    and "card A < fuel"
  shows "\<exists>r. Resolve fuel ctx resolver root = Some r"
proof -
  have "dfs fuel ctx resolver root NewTraversal \<noteq> None"
    using dfs_enough_fuel(1) [of A resolver NewTraversal root fuel ctx] assms
    by (simp add: NewTraversal_def trav_inv_def)
  then show ?thesis by (auto simp: Resolve_def split: option.splits sum.splits)
qed

lemma Resolve_cycle:
  "Resolve fuel ctx resolver root = Some (Inl (CycleError p)) \<Longrightarrow>
   dep_cycle resolver p \<and> set p \<subseteq> reachable_deps resolver root"
  using dfs_cycle(1) [of fuel ctx resolver root NewTraversal p]
  by (auto simp: Resolve_def NewTraversal_def trav_inv_def split: option.splits sum.splits)

lemma resolve_order_facts:
  assumes "Resolve fuel ctx resolver root = Some (Inr ns)"
  shows "distinct ns \<and> set ns = reachable_deps resolver root \<and> deps_first resolver ns \<and> last ns = root"
proof -
  obtain t us where t: "order t = ns" "ns = us @ [root]" "visit_post resolver [root] NewTraversal t"
    using Resolve_visit(2) [OF assms] by blast
  then have "distinct ns" "deps_first resolver ns"
    by (auto simp: visit_post_def trav_inv_def)
  moreover have "set ns \<subseteq> reachable_deps resolver root"
    using t(1,3) by (fastforce simp: visit_post_def NewTraversal_def)
  moreover have "reachable_deps resolver root \<subseteq> set ns"
    using deps_first_reachable [OF \<open>deps_first resolver ns\<close>, of root] t(2) by simp
  ultimately show ?thesis using t(2) by auto
qed

text \<open>What a traversal that was not cancelled and whose manifests all resolve answers.\<close>

lemma Resolve_answer:
  assumes r: "Resolve fuel ctx resolver root = Some r"
    and ok: "\<forall>i. ctx i = None" "\<forall>n. \<exists>ds. resolver n = Inr ds"
  shows "if \<exists>n \<in> reachable_deps resolver root. (n, n) \<in> (dep_edges resolver)\<^sup>+
    then \<exists>p. Resolve fuel ctx resolver root = Some (Inl (CycleError p)) \<and> dep_cycle resolver p \<and>
           set p \<subseteq> reachable_deps resolver root
    else \<exists>ns. Resolve fuel ctx resolver root = Some (Inr ns)"
proof (cases r)
  case (Inl e)
  then have "dfs fuel ctx resolver root NewTraversal = Some (Inl e)"
    using r by (auto simp: Resolve_def split: option.splits sum.splits)
  then obtain p where e: "e = CycleError p"
    using dfs_errors(1) [of ctx resolver fuel root NewTraversal e] ok by auto
  have c: "dep_cycle resolver p" "set p \<subseteq> reachable_deps resolver root"
    using Resolve_cycle [of fuel ctx resolver root p] r Inl e by simp_all
  have "p \<noteq> []" using c(1) by (auto simp: dep_cycle_def)
  then have "hd p \<in> reachable_deps resolver root" using c(2) by auto
  with dep_cycle_trancl [OF c(1)]
  have "\<exists>n \<in> reachable_deps resolver root. (n, n) \<in> (dep_edges resolver)\<^sup>+" by blast
  with c e r Inl show ?thesis by simp
next
  case (Inr ns)
  then have "deps_first resolver ns" "distinct ns" "set ns = reachable_deps resolver root"
    using resolve_order_facts r by auto
  then have "\<not> (\<exists>n \<in> reachable_deps resolver root. (n, n) \<in> (dep_edges resolver)\<^sup>+)"
    using deps_first_no_cycle by blast
  with r Inr show ?thesis by simp
qed

text \<open>
  C1. \<open>Resolve\<close> returns an installation order: every namespace reachable from the root along
  declared dependencies appears exactly once, nothing else does, each one stands after all of
  its own dependencies, and the root is last.
\<close>

theorem resolve_dependencies_first:
  assumes "Resolve fuel ctx resolver root = Some (Inr ns)"
  shows "distinct ns \<and> set ns = reachable_deps resolver root \<and> deps_first resolver ns \<and> last ns = root"
  by (rule resolve_order_facts [OF assms])

theorem resolve_dependencies_first_witness:
  "Resolve 4 (\<lambda>_. None) sample_resolver ''app'' = Some (Inr [''tool'', ''lib'', ''app'']) \<and>
   set [''tool'', ''lib'', ''app''] = reachable_deps sample_resolver ''app''"
proof -
  have h: "Resolve 4 (\<lambda>_. None) sample_resolver ''app'' = Some (Inr [''tool'', ''lib'', ''app''])"
    by code_simp
  with resolve_dependencies_first [OF h] show ?thesis by simp
qed

text \<open>
  C2. Termination and completeness of \<open>Resolve\<close>.  When the root and the dependencies stay within
  a finite set, the traversal always returns (with fuel above the size of the set), whether it is
  cancelled on the way or not and whatever the resolver answers.  When moreover it is not cancelled
  and every manifest resolves, it succeeds exactly when no reachable namespace depends on itself;
  otherwise it reports an actual cycle reachable from the root.
\<close>

theorem resolve_total_iff_acyclic:
  assumes "finite A" "root \<in> A" "\<And>n ds. n \<in> A \<Longrightarrow> resolver n = Inr ds \<Longrightarrow> set ds \<subseteq> A"
    and "card A < fuel"
  shows "(\<exists>r. Resolve fuel ctx resolver root = Some r) \<and>
    ((\<forall>i. ctx i = None) \<and> (\<forall>n. \<exists>ds. resolver n = Inr ds) \<longrightarrow>
     (if \<exists>n \<in> reachable_deps resolver root. (n, n) \<in> (dep_edges resolver)\<^sup>+
      then \<exists>p. Resolve fuel ctx resolver root = Some (Inl (CycleError p)) \<and> dep_cycle resolver p \<and>
             set p \<subseteq> reachable_deps resolver root
      else \<exists>ns. Resolve fuel ctx resolver root = Some (Inr ns)))"
proof -
  obtain r where r: "Resolve fuel ctx resolver root = Some r"
    using Resolve_enough_fuel [of A root resolver fuel ctx] assms by auto
  show ?thesis
    using r Resolve_answer [OF r] by blast
qed

theorem resolve_total_iff_acyclic_witness:
  "Resolve 6 (\<lambda>_. None) sample_resolver ''app'' = Some (Inr [''tool'', ''lib'', ''app'']) \<and>
   \<not> (\<exists>n \<in> reachable_deps sample_resolver ''app''. (n, n) \<in> (dep_edges sample_resolver)\<^sup>+) \<and>
   Resolve 6 (\<lambda>_. None) sample_resolver ''loop'' = Some (Inl (CycleError [''loop'', ''loop2'', ''loop''])) \<and>
   (\<exists>n \<in> reachable_deps sample_resolver ''loop''. (n, n) \<in> (dep_edges sample_resolver)\<^sup>+) \<and>
   (\<exists>r. Resolve 6 (\<lambda>i. if i = 1 then Some ''cancelled'' else None) sample_resolver ''app'' = Some r)"
proof -
  let ?A = "set [''app'', ''lib'', ''tool'', ''loop'', ''loop2'']"
  have A: "finite ?A" "''app'' \<in> ?A" "''loop'' \<in> ?A" "card ?A < 6" by simp_all
  have closed: "set ds \<subseteq> ?A" if "sample_resolver n = Inr ds" for n ds
    using that by (auto simp: sample_resolver_def split: if_splits)
  have resolvable: "\<exists>ds. sample_resolver n = Inr ds" for n
    by (simp add: sample_resolver_def)
  have app: "Resolve 6 (\<lambda>_. None) sample_resolver ''app'' = Some (Inr [''tool'', ''lib'', ''app''])"
    and loop: "Resolve 6 (\<lambda>_. None) sample_resolver ''loop'' =
      Some (Inl (CycleError [''loop'', ''loop2'', ''loop'']))"
    by code_simp+
  note at = resolve_total_iff_acyclic [OF A(1) _ _ A(4), of _ sample_resolver]
  have "\<not> (\<exists>n \<in> reachable_deps sample_resolver ''app''. (n, n) \<in> (dep_edges sample_resolver)\<^sup>+)"
    using at [OF A(2), of "\<lambda>_. None"] closed resolvable app by (auto split: if_splits)
  moreover have "\<exists>n \<in> reachable_deps sample_resolver ''loop''. (n, n) \<in> (dep_edges sample_resolver)\<^sup>+"
    using at [OF A(3), of "\<lambda>_. None"] closed resolvable loop by (auto split: if_splits)
  moreover have "\<exists>r. Resolve 6 (\<lambda>i. if i = 1 then Some ''cancelled'' else None) sample_resolver ''app'' = Some r"
    using at [OF A(2), of "\<lambda>i. if i = 1 then Some ''cancelled'' else None"] closed by blast
  ultimately show ?thesis using app loop by simp
qed

text \<open>
  C3. The reported cycle is real: its namespaces are reachable from the root, each names the
  next one as a dependency, and it ends where it started.
\<close>

theorem resolve_cycle_error_sound:
  assumes "Resolve fuel ctx resolver root = Some (Inl (CycleError p))"
  shows "length p \<ge> 2 \<and> hd p = last p \<and> dep_walk resolver p \<and> set p \<subseteq> reachable_deps resolver root"
  using Resolve_cycle [OF assms] by (simp add: dep_cycle_def)

theorem resolve_cycle_error_sound_witness:
  "Resolve 5 (\<lambda>_. None) sample_resolver ''loop'' = Some (Inl (CycleError [''loop'', ''loop2'', ''loop''])) \<and>
   dep_walk sample_resolver [''loop'', ''loop2'', ''loop'']"
proof -
  have h: "Resolve 5 (\<lambda>_. None) sample_resolver ''loop'' = Some (Inl (CycleError [''loop'', ''loop2'', ''loop'']))"
    by code_simp
  with resolve_cycle_error_sound [OF h] show ?thesis by simp
qed

end
