(* ===== verification/Versioning.thy ===== *)
theory Versioning
  imports Channels
begin

text \<open>
  What a row follows and when it is behind (internal/engine/manifold/versioning: selector,
  channels, drift, admit, snapshot; and the identity of an install in
  internal/app/repositories/arrow/internal/store/selector.go).  The maps of a ref snapshot are
  association lists, iterated in list order; \<open>snapshot_same\<close> says when two lists stand for one map.
\<close>

section \<open>Channels of a snapshot\<close>

datatype sel_error = ErrUnknownSelector | ErrNotAdmitted

definition map_get :: "(string \<times> string) list \<Rightarrow> string \<Rightarrow> string" where
  "map_get m k = (case map_of m k of None \<Rightarrow> [] | Some v \<Rightarrow> v)"

definition SortedTags :: "RefSnapshot \<Rightarrow> string list" where
  "SortedTags snap = sort_Strings (keys (Tags snap))"

definition pointer_channel :: "string \<Rightarrow> bool \<Rightarrow> ChannelInfo" where
  "pointer_channel name fallback =
     \<lparr>ciName = name, ciKind = ''pointer'', ciLatest = name, ciCount = 0, ciMembers = None,
      ciIsDefaultBranchFallback = fallback\<rparr>"

definition ordered_channel :: "TagChannel \<Rightarrow> ChannelInfo" where
  "ordered_channel c =
     \<lparr>ciName = tcName c, ciKind = ''ordered'', ciLatest = hd (tcMembers c), ciCount = length (tcMembers c),
      ciMembers = Some (tcMembers c), ciIsDefaultBranchFallback = False\<rparr>"

definition channel_before :: "ChannelInfo \<Rightarrow> ChannelInfo \<Rightarrow> bool" where
  "channel_before a b =
     (let aStable = (ciName a = StableChannel); bStable = (ciName b = StableChannel)
      in if aStable \<noteq> bStable then aStable
         else if aStable then False
         else if ciKind a \<noteq> ciKind b then ciKind a = ''ordered''
         else ciName a < ciName b)"

definition sortChannels :: "ChannelInfo list \<Rightarrow> ChannelInfo list" where
  "sortChannels channels = sort_Slice channel_before channels"

definition listed_channels :: "string list \<Rightarrow> string \<Rightarrow> ChannelInfo list" where
  "listed_channels tags head =
     (let groups = GroupChannels tags; consumed = concat (map tcMembers groups)
      in map ordered_channel groups @
         map (\<lambda>t. pointer_channel t False) (filter (\<lambda>t. t \<notin> set consumed) tags) @
         (if length tags = 0 \<and> head \<noteq> [] then [pointer_channel head True] else []))"

definition ChannelsOf :: "RefSnapshot \<Rightarrow> ChannelInfo list" where
  "ChannelsOf snap = sortChannels (listed_channels (SortedTags snap) (Head snap))"

text \<open>The ordered channel of the name, else the last other one.\<close>

fun find_channel :: "string \<Rightarrow> ChannelInfo option \<Rightarrow> ChannelInfo list \<Rightarrow> ChannelInfo option" where
  "find_channel selector found [] = found"
| "find_channel selector found (c # cs) =
     (if ciName c \<noteq> selector then find_channel selector found cs
      else if ciKind c = ''ordered'' then Some c
      else find_channel selector (Some c) cs)"

definition FindChannel :: "string \<Rightarrow> RefSnapshot \<Rightarrow> ChannelInfo option" where
  "FindChannel selector snap = find_channel selector None (ChannelsOf snap)"

definition LatestStable :: "RefSnapshot \<Rightarrow> string option" where
  "LatestStable snap = map_option ciLatest (FindChannel StableChannel snap)"

definition DefaultBranch :: "RefSnapshot \<Rightarrow> (string \<times> string) option" where
  "DefaultBranch snap =
     (case map_of (Branches snap) (Head snap) of
        None \<Rightarrow> None
      | Some commit \<Rightarrow> if Head snap = [] then None else Some (Head snap, commit))"

definition DefaultChannel :: "RefSnapshot \<Rightarrow> sel_error + string" where
  "DefaultChannel snap =
     (let channels = ChannelsOf snap
      in if length channels = 0 then Inl ErrUnknownSelector
         else if ciName (channels ! 0) = StableChannel then Inr StableChannel
         else Inr (ciName (NewestFirst channels ! 0)))"

section \<open>Selectors\<close>

definition tagRefPrefix :: string where "tagRefPrefix = ''refs/tags/''"
definition branchRefPrefix :: string where "branchRefPrefix = ''refs/heads/''"
definition minCommitLen :: nat where "minCommitLen = 7"
definition maxCommitLen :: nat where "maxCommitLen = 40"

datatype refSource = refEither | refTag | refBranch

fun lookup :: "refSource \<Rightarrow> string \<Rightarrow> RefSnapshot \<Rightarrow> string option" where
  "lookup refTag name snap = map_of (Tags snap) name"
| "lookup refBranch name snap = map_of (Branches snap) name"
| "lookup refEither name snap = Snapshot_Commit snap name"

definition source_pinKind :: "refSource \<Rightarrow> SelectorKind" where
  "source_pinKind src = (if src = refBranch then SelectorBranchPin else SelectorTagPin)"

definition FollowedRef :: "SelectorKind \<Rightarrow> string \<Rightarrow> string \<times> refSource" where
  "FollowedRef kind selector =
     (case CutPrefix selector tagRefPrefix of
        Some name \<Rightarrow> (name, refTag)
      | None \<Rightarrow>
          (case CutPrefix selector branchRefPrefix of
             Some name \<Rightarrow> (name, refBranch)
           | None \<Rightarrow>
               (case kind of
                  SelectorTagPin \<Rightarrow> (selector, refTag)
                | SelectorPointerChannel \<Rightarrow> (selector, refTag)
                | SelectorBranchPin \<Rightarrow> (selector, refBranch)
                | SelectorBranchChannel \<Rightarrow> (selector, refBranch)
                | _ \<Rightarrow> (selector, refEither))))"

text \<open>The kind a pin would have, and whether its ref exists.\<close>

definition pinKind :: "string \<Rightarrow> RefSnapshot \<Rightarrow> SelectorKind \<times> bool" where
  "pinKind selector snap =
     (let (name, source) = FollowedRef SelectorPin selector
      in if source \<noteq> refEither then (source_pinKind source, lookup source name snap \<noteq> None)
         else if has_key (Tags snap) name then (SelectorTagPin, True)
         else (SelectorBranchPin, has_key (Branches snap) name))"

definition channelKind :: "ChannelInfo \<Rightarrow> SelectorKind" where
  "channelKind channel =
     (if ciKind channel = ''ordered'' then SelectorOrderedChannel
      else if ciIsDefaultBranchFallback channel then SelectorBranchChannel
      else SelectorPointerChannel)"

definition PinnedRef :: "SelectorKind \<Rightarrow> string \<Rightarrow> RefSnapshot \<Rightarrow> string \<times> string option" where
  "PinnedRef kind selector snap =
     (let (name, source) = FollowedRef kind selector in (name, lookup source name snap))"

definition RefCommit :: "SelectorKind \<Rightarrow> string \<Rightarrow> string \<Rightarrow> RefSnapshot \<Rightarrow> string option" where
  "RefCommit kind selector ref snap =
     (case kind of
        SelectorCommit \<Rightarrow>
          (case Snapshot_Commit snap ref of Some commit \<Rightarrow> Some commit | None \<Rightarrow> Some ref)
      | SelectorOrderedChannel \<Rightarrow> map_of (Tags snap) ref
      | SelectorConstraint \<Rightarrow> map_of (Tags snap) ref
      | _ \<Rightarrow> (let (name, source) = FollowedRef kind selector in lookup source ref snap))"

definition HasEmptyComponent :: "string \<Rightarrow> bool" where
  "HasEmptyComponent selector \<longleftrightarrow>
     HasPrefix selector ''/'' \<or> HasSuffix selector ''/'' \<or> Contains selector ''//''"

definition isGlob :: "string \<Rightarrow> bool" where
  "isGlob selector = ContainsAny selector ''*?[''"

definition is_hex :: "char \<Rightarrow> bool" where
  "is_hex r \<longleftrightarrow> \<not> ((r < CHR ''0'' \<or> r > CHR ''9'') \<and> (r < CHR ''a'' \<or> r > CHR ''f''))"

definition isCommitish :: "string \<Rightarrow> bool" where
  "isCommitish selector =
     (if length selector < minCommitLen \<or> length selector > maxCommitLen then False
      else list_all is_hex (ToLower selector))"

definition ClassifySelector :: "string \<Rightarrow> RefSnapshot \<Rightarrow> sel_error + SelectorKind" where
  "ClassifySelector selector snap =
     (if HasEmptyComponent selector then Inl ErrUnknownSelector
      else case FindChannel selector snap of
        Some channel \<Rightarrow> Inr (channelKind channel)
      | None \<Rightarrow>
          (let (kind, ok) = pinKind selector snap
           in if ok then Inr kind
              else if isGlob selector then
                (case path_Match selector [] of None \<Rightarrow> Inl ErrUnknownSelector | Some m \<Rightarrow> Inr SelectorConstraint)
              else if isCommitish selector then Inr SelectorCommit
              else Inl ErrUnknownSelector))"

section \<open>Targets and drift\<close>

definition orderedTarget :: "string \<Rightarrow> RefSnapshot \<Rightarrow> sel_error + Available" where
  "orderedTarget selector snap =
     (case find (\<lambda>c. ciName c = selector \<and> ciKind c = ''ordered'') (ChannelsOf snap) of
        Some c \<Rightarrow> Inr \<lparr>avRef = ciLatest c, avCommit = map_get (Tags snap) (ciLatest c)\<rparr>
      | None \<Rightarrow> Inl ErrUnknownSelector)"

definition channelTarget :: "string \<Rightarrow> RefSnapshot \<Rightarrow> sel_error + Available" where
  "channelTarget selector snap =
     (case FindChannel selector snap of
        None \<Rightarrow> Inl ErrUnknownSelector
      | Some channel \<Rightarrow>
          (case Snapshot_Commit snap (ciLatest channel) of
             None \<Rightarrow> Inl ErrUnknownSelector
           | Some commit \<Rightarrow> Inr \<lparr>avRef = ciLatest channel, avCommit = commit\<rparr>))"

definition constraintTarget :: "string \<Rightarrow> RefSnapshot \<Rightarrow> sel_error + Available" where
  "constraintTarget selector snap =
     (case HighestMatch (SortedTags snap) selector of
        Inl e \<Rightarrow> Inl ErrUnknownSelector
      | Inr None \<Rightarrow> Inl ErrUnknownSelector
      | Inr (Some ref) \<Rightarrow> Inr \<lparr>avRef = ref, avCommit = map_get (Tags snap) ref\<rparr>)"

definition pinned_target :: "SelectorKind \<Rightarrow> string \<Rightarrow> RefSnapshot \<Rightarrow> sel_error + Available" where
  "pinned_target kind selector snap =
     (case PinnedRef kind selector snap of
        (ref, Some commit) \<Rightarrow> Inr \<lparr>avRef = ref, avCommit = commit\<rparr>
      | (ref, None) \<Rightarrow> Inl ErrUnknownSelector)"

definition Target_of :: "SelectorKind \<Rightarrow> string \<Rightarrow> RefSnapshot \<Rightarrow> sel_error + Available" where
  "Target_of kind selector snap =
     (case kind of
        SelectorChannel \<Rightarrow> channelTarget selector snap
      | SelectorOrderedChannel \<Rightarrow> orderedTarget selector snap
      | SelectorConstraint \<Rightarrow> constraintTarget selector snap
      | SelectorCommit \<Rightarrow> Inr \<lparr>avRef = selector, avCommit = selector\<rparr>
      | SelectorOther k \<Rightarrow> Inl ErrUnknownSelector
      | _ \<Rightarrow> pinned_target kind selector snap)"

definition defaultBranchTarget :: "string \<Rightarrow> Resolved \<Rightarrow> RefSnapshot \<Rightarrow> Available option" where
  "defaultBranchTarget selector resolved snap =
     (if selector \<noteq> Head snap \<or> rRef resolved \<noteq> selector then None
      else map_option (\<lambda>commit. \<lparr>avRef = selector, avCommit = commit\<rparr>) (map_of (Branches snap) selector))"

definition formerChannelTarget :: "Resolved \<Rightarrow> RefSnapshot \<Rightarrow> Available option" where
  "formerChannelTarget resolved snap =
     (if rRef resolved = [] then None
      else map_option (\<lambda>c. \<lparr>avRef = ciLatest c, avCommit = map_get (Tags snap) (ciLatest c)\<rparr>)
        (find (\<lambda>c. ciKind c = ''ordered'' \<and> rRef resolved \<in> set (elems (ciMembers c))) (ChannelsOf snap)))"

definition fallbackTarget ::
  "SelectorKind \<Rightarrow> string \<Rightarrow> Resolved \<Rightarrow> RefSnapshot \<Rightarrow> sel_error \<Rightarrow> sel_error + Available" where
  "fallbackTarget kind selector resolved snap notFound =
     (let or_not_found = (\<lambda>r. case r of Some a \<Rightarrow> Inr a | None \<Rightarrow> Inl notFound)
      in case kind of
        SelectorChannel \<Rightarrow>
          (case defaultBranchTarget selector resolved snap of
             Some a \<Rightarrow> Inr a | None \<Rightarrow> or_not_found (formerChannelTarget resolved snap))
      | SelectorOrderedChannel \<Rightarrow> or_not_found (formerChannelTarget resolved snap)
      | _ \<Rightarrow> Inl notFound)"

definition isDowngrade :: "SelectorKind \<Rightarrow> Resolved \<Rightarrow> Available \<Rightarrow> RefSnapshot \<Rightarrow> bool" where
  "isDowngrade kind resolved target snap =
     (if avRef target = rRef resolved then False
      else if \<not> has_key (Tags snap) (rRef resolved) then False
      else case kind of
        SelectorChannel \<Rightarrow> Outranks (rRef resolved) (avRef target)
      | SelectorOrderedChannel \<Rightarrow> Outranks (rRef resolved) (avRef target)
      | SelectorConstraint \<Rightarrow> ConstraintOutranks (rRef resolved) (avRef target)
      | _ \<Rightarrow> False)"

text \<open>\<open>Inr None\<close> is that the row is up to date.\<close>

definition Drift :: "SelectorKind \<Rightarrow> string \<Rightarrow> Resolved \<Rightarrow> RefSnapshot \<Rightarrow> sel_error + Available option" where
  "Drift kind selector resolved snap =
     (if kind = SelectorCommit then Inr None
      else case (case Target_of kind selector snap of
            Inl err \<Rightarrow> fallbackTarget kind selector resolved snap err
          | Inr target \<Rightarrow> Inr target) of
        Inl err \<Rightarrow> Inl err
      | Inr target \<Rightarrow>
          if avRef target = rRef resolved \<and> avCommit target = rCommit resolved then Inr None
          else if isDowngrade kind resolved target snap then Inr None
          else Inr (Some target))"

section \<open>Declared state\<close>

definition channelAdmits :: "string \<Rightarrow> string \<Rightarrow> RefSnapshot \<Rightarrow> bool" where
  "channelAdmits selector ref snap =
     (case FindChannel selector snap of
        None \<Rightarrow> selector = Head snap \<and> ref = selector
      | Some channel \<Rightarrow>
          if ciKind channel = ''ordered'' then ref \<in> set (elems (ciMembers channel))
          else ciLatest channel = ref)"

definition admits :: "SelectorKind \<Rightarrow> string \<Rightarrow> string \<Rightarrow> string \<Rightarrow> RefSnapshot \<Rightarrow> bool" where
  "admits kind selector ref commit snap =
     (case kind of
        SelectorChannel \<Rightarrow> channelAdmits selector ref snap
      | SelectorOrderedChannel \<Rightarrow>
          (case FindChannel selector snap of
             None \<Rightarrow> False
           | Some channel \<Rightarrow> ciKind channel = ''ordered'' \<and> ref \<in> set (elems (ciMembers channel)))
      | SelectorConstraint \<Rightarrow> path_Match selector ref = Some True
      | SelectorCommit \<Rightarrow> HasPrefix (ToLower commit) (ToLower selector)
      | SelectorOther k \<Rightarrow> False
      | _ \<Rightarrow> fst (FollowedRef kind selector) = ref)"

definition Admit :: "SelectorKind \<Rightarrow> string \<Rightarrow> string \<Rightarrow> RefSnapshot \<Rightarrow> sel_error + Available" where
  "Admit kind selector ref snap =
     (if kind = SelectorCommit \<and> EqualFold ref selector then Inr \<lparr>avRef = selector, avCommit = selector\<rparr>
      else if Snapshot_Commit snap ref = None then Inl ErrUnknownSelector
      else case RefCommit kind selector ref snap of
        None \<Rightarrow> Inl ErrNotAdmitted
      | Some commit \<Rightarrow>
          if \<not> admits kind selector ref commit snap then Inl ErrNotAdmitted
          else Inr \<lparr>avRef = ref, avCommit = commit\<rparr>)"

section \<open>The identity of an install\<close>

datatype install_error = ErrNotFound sel_error | ErrInvalidNamespace sel_error

definition resolvedAt :: "Available \<Rightarrow> Resolved" where
  "resolvedAt target =
     \<lparr>rRef = avRef target, rCommit = avCommit target, rFingerprint = avCommit target\<rparr>"

definition targetSentinel :: "SelectorKind \<Rightarrow> sel_error \<Rightarrow> install_error" where
  "targetSentinel kind e = (if Family kind = SelectorChannel then ErrNotFound e else ErrInvalidNamespace e)"

definition classifyInstall :: "Namespace \<Rightarrow> RefSnapshot \<Rightarrow> install_error + Namespace \<times> SelectorKind" where
  "classifyInstall ns snap =
     (case (if Ref ns = [] then DefaultChannel snap else Inr (Ref ns)) of
        Inl e \<Rightarrow> Inl (ErrNotFound e)
      | Inr ref \<Rightarrow>
          (let ns' = (if Ref ns = [] then WithRef ns ref else ns)
           in case ClassifySelector (Ref ns') snap of
                Inl e \<Rightarrow> Inl (ErrInvalidNamespace e)
              | Inr kind \<Rightarrow>
                  if kind = SelectorCommit then Inr (WithRef ns' (ToLower (Ref ns')), kind)
                  else Inr (ns', kind)))"

definition fallbackSelectors :: "RefSnapshot \<Rightarrow> string \<Rightarrow> string list" where
  "fallbackSelectors snap tried =
     (let add = (\<lambda>sels name. if name \<in> set sels then sels else sels @ [name]);
          sels = foldl (\<lambda>sels c. if ciIsDefaultBranchFallback c then sels else add sels (ciName c))
                   [tried] (NewestFirst (ChannelsOf snap))
      in tl (if Head snap \<noteq> [] then add sels (Head snap) else sels))"

section \<open>The snapshot cache\<close>

text \<open>
  One call of \<open>Snapshot\<close> or \<open>FreshSnapshot\<close>: the times its clock reads and what the remote
  answers if it is asked.
\<close>

record snap_entry =
  se_snap :: RefSnapshot
  se_cachedAt :: go_time

type_synonym snap_cache = "Namespace \<rightharpoonup> snap_entry"

record snap_call =
  sc_fresh :: bool
  sc_ns :: Namespace
  sc_checked :: go_time
  sc_remote :: "go_error + RefSnapshot"
  sc_stored :: go_time

definition cachedSnapshot :: "go_time \<Rightarrow> go_time \<Rightarrow> Namespace \<Rightarrow> snap_cache \<Rightarrow> RefSnapshot option" where
  "cachedSnapshot ttl now bare cache =
     (case cache bare of
        None \<Rightarrow> None
      | Some cached \<Rightarrow> if now - se_cachedAt cached > ttl then None else Some (se_snap cached))"

definition liveSnapshot ::
  "Namespace \<Rightarrow> go_error + RefSnapshot \<Rightarrow> go_time \<Rightarrow> snap_cache \<Rightarrow> (go_error + RefSnapshot) \<times> snap_cache" where
  "liveSnapshot bare remote now cache =
     (case remote of
        Inl err \<Rightarrow> (Inl err, cache)
      | Inr snap \<Rightarrow> (Inr snap, cache(bare \<mapsto> \<lparr>se_snap = snap, se_cachedAt = now\<rparr>)))"

definition snapshot_call :: "go_time \<Rightarrow> snap_call \<Rightarrow> snap_cache \<Rightarrow> (go_error + RefSnapshot) \<times> snap_cache" where
  "snapshot_call ttl call cache =
     (let bare = BareNamespace (sc_ns call)
      in if sc_fresh call then liveSnapshot bare (sc_remote call) (sc_stored call) cache
         else case cachedSnapshot ttl (sc_checked call) bare cache of
           Some cached \<Rightarrow> (Inr cached, cache)
         | None \<Rightarrow> liveSnapshot bare (sc_remote call) (sc_stored call) cache)"

fun snapshot_run :: "go_time \<Rightarrow> snap_call list \<Rightarrow> snap_cache \<Rightarrow> (go_error + RefSnapshot) list \<times> snap_cache" where
  "snapshot_run ttl [] cache = ([], cache)"
| "snapshot_run ttl (c # cs) cache =
     (let (r, cache') = snapshot_call ttl c cache; (rs, cache'') = snapshot_run ttl cs cache'
      in (r # rs, cache''))"

section \<open>Laws of the channel list\<close>

lemma set_ChannelsOf: "set (ChannelsOf snap) = set (listed_channels (SortedTags snap) (Head snap))"
  by (simp add: ChannelsOf_def sortChannels_def sort_Slice_def)

lemma set_SortedTags [simp]: "set (SortedTags snap) = set (keys (Tags snap))"
  by (simp add: SortedTags_def)

lemma channel_simps [simp]:
  "ciName (ordered_channel c) = tcName c" "ciKind (ordered_channel c) = ''ordered''"
  "ciLatest (ordered_channel c) = hd (tcMembers c)" "ciMembers (ordered_channel c) = Some (tcMembers c)"
  "\<not> ciIsDefaultBranchFallback (ordered_channel c)"
  "ciName (pointer_channel t b) = t" "ciKind (pointer_channel t b) = ''pointer''"
  "ciLatest (pointer_channel t b) = t" "ciIsDefaultBranchFallback (pointer_channel t b) = b"
  by (simp_all add: ordered_channel_def pointer_channel_def)

lemma classifyAll_tag: "c \<in> set (classifyAll tags) \<Longrightarrow> ct_tag c \<in> set tags"
  by (metis filter_is_subset image_eqI map_ct_tag_classifyAll set_map subsetD)

lemma GroupChannels_members:
  "c \<in> set (GroupChannels tags) \<Longrightarrow> tcMembers c \<noteq> [] \<and> set (tcMembers c) \<subseteq> set tags"
  unfolding GroupChannels_def Let_def channel_members_def tierAgainstDates_map
  by (force simp: filter_empty_conv dest: classifyAll_tag)

lemma ChannelsOf_cases:
  assumes "c \<in> set (ChannelsOf snap)"
  obtains (ordered) g where "c = ordered_channel g" "g \<in> set (GroupChannels (SortedTags snap))"
      "ciLatest c \<in> set (elems (ciMembers c))" "set (elems (ciMembers c)) \<subseteq> set (keys (Tags snap))"
  | (pointer) t where "c = pointer_channel t False" "t \<in> set (keys (Tags snap))"
  | (fallback) "c = pointer_channel (Head snap) True" "Tags snap = []" "Head snap \<noteq> []"
proof -
  have "SortedTags snap = [] \<longleftrightarrow> Tags snap = []"
    by (simp add: SortedTags_def sort_Strings_def)
  then consider g where "c = ordered_channel g" "g \<in> set (GroupChannels (SortedTags snap))"
    | t where "c = pointer_channel t False" "t \<in> set (keys (Tags snap))"
    | "c = pointer_channel (Head snap) True" "Tags snap = []" "Head snap \<noteq> []"
    using assms unfolding set_ChannelsOf listed_channels_def Let_def by (auto split: if_splits)
  then show thesis
  proof cases
    case (1 g)
    then show thesis
      using GroupChannels_members [OF 1(2)] by (intro ordered [OF 1]) auto
  next
    case (2 t)
    then show thesis by (rule pointer)
  next
    case 3
    then show thesis by (rule fallback)
  qed
qed

lemma find_channel_None: "find_channel sel acc cs = None \<longleftrightarrow> acc = None \<and> (\<forall>c \<in> set cs. ciName c \<noteq> sel)"
  by (induction cs arbitrary: acc) auto

lemma find_channel_Some:
  "find_channel sel acc cs = Some c \<Longrightarrow> acc = Some c \<or> c \<in> set cs \<and> ciName c = sel"
  by (induction cs arbitrary: acc) (auto split: if_splits)

lemma find_channel_ordered:
  "find (\<lambda>c. ciName c = sel \<and> ciKind c = ''ordered'') cs = Some c \<Longrightarrow> find_channel sel acc cs = Some c"
  by (induction cs arbitrary: acc) (auto split: if_splits)

lemma find_channel_unordered:
  "find (\<lambda>c. ciName c = sel \<and> ciKind c = ''ordered'') cs = None \<Longrightarrow> find_channel sel acc cs = Some c \<Longrightarrow>
   acc = Some c \<or> ciKind c \<noteq> ''ordered''"
  by (induction cs arbitrary: acc) (auto split: if_splits)

lemma FindChannel_Some: "FindChannel sel snap = Some c \<Longrightarrow> c \<in> set (ChannelsOf snap) \<and> ciName c = sel"
  by (auto simp: FindChannel_def dest: find_channel_Some)

lemma FindChannel_None: "FindChannel sel snap = None \<longleftrightarrow> (\<forall>c \<in> set (ChannelsOf snap). ciName c \<noteq> sel)"
  by (simp add: FindChannel_def find_channel_None)

text \<open>The ordered channel \<open>orderedTarget\<close> picks is the one \<open>FindChannel\<close> finds.\<close>

lemma FindChannel_ordered:
  "find (\<lambda>c. ciName c = sel \<and> ciKind c = ''ordered'') (ChannelsOf snap) = Some c \<longleftrightarrow>
   FindChannel sel snap = Some c \<and> ciKind c = ''ordered''"
proof
  assume L: "find (\<lambda>c. ciName c = sel \<and> ciKind c = ''ordered'') (ChannelsOf snap) = Some c"
  then have "ciKind c = ''ordered''" by (auto simp: find_Some_iff)
  with find_channel_ordered [OF L] show "FindChannel sel snap = Some c \<and> ciKind c = ''ordered''"
    by (simp add: FindChannel_def)
next
  assume R: "FindChannel sel snap = Some c \<and> ciKind c = ''ordered''"
  show "find (\<lambda>c. ciName c = sel \<and> ciKind c = ''ordered'') (ChannelsOf snap) = Some c"
  proof (cases "find (\<lambda>c. ciName c = sel \<and> ciKind c = ''ordered'') (ChannelsOf snap)")
    case None
    with R show ?thesis using find_channel_unordered [OF None, of None c] by (simp add: FindChannel_def)
  next
    case (Some d)
    with R find_channel_ordered [OF Some, of None] show ?thesis by (simp add: FindChannel_def)
  qed
qed

text \<open>A member belongs to one ordered channel.\<close>

lemma GroupChannels_member_unique:
  assumes "distinct tags" "g \<in> set (GroupChannels tags)" "h \<in> set (GroupChannels tags)"
    and "t \<in> set (tcMembers g)" "t \<in> set (tcMembers h)"
  shows "g = h"
proof -
  let ?cs = "classifyAll tags"
  have mem: "\<exists>c \<in> set ?cs. ct_tag c = t \<and> ct_channel c = tcName k \<and>
      k = \<lparr>tcName = tcName k, tcMembers = map ct_tag (channel_members ?cs (tcName k))\<rparr>"
    if "k \<in> set (GroupChannels tags)" "t \<in> set (tcMembers k)" for k
    using that unfolding GroupChannels_def Let_def channel_members_def tierAgainstDates_map by force
  obtain c d where "c \<in> set ?cs" "ct_tag c = t" "ct_channel c = tcName g"
    "d \<in> set ?cs" "ct_tag d = t" "ct_channel d = tcName h"
    using mem [OF assms(2,4)] mem [OF assms(3,5)] by blast
  then have "tcName g = tcName h" using inj_ct_tag_classifyAll [of tags] by (metis inj_onD)
  then show ?thesis using mem [OF assms(2,4)] mem [OF assms(3,5)] by metis
qed

section \<open>Well-formed snapshots\<close>

text \<open>
  A well-formed snapshot.  \<open>snapshotOf\<close> gives one commit per ref and a HEAD that names an advertised
  branch; that no short name of a tag or of HEAD starts with an escape prefix is an assumption on the
  repository, which git does not enforce: it accepts the branch refs/heads/refs/tags/x, and neither
  \<open>snapshotOf\<close> nor the selectors refuse it.  \<open>snapshot_same\<close> says when two association lists stand
  for one snapshot.
\<close>

definition plain_ref :: "string \<Rightarrow> bool" where
  "plain_ref r \<longleftrightarrow> \<not> HasPrefix r tagRefPrefix \<and> \<not> HasPrefix r branchRefPrefix"

definition wf_snapshot :: "RefSnapshot \<Rightarrow> bool" where
  "wf_snapshot snap \<longleftrightarrow> distinct (keys (Tags snap)) \<and> distinct (keys (Branches snap)) \<and>
     list_all plain_ref (keys (Tags snap)) \<and> (Head snap = [] \<or> has_key (Branches snap) (Head snap) \<and> plain_ref (Head snap))"

definition snapshot_same :: "RefSnapshot \<Rightarrow> RefSnapshot \<Rightarrow> bool" where
  "snapshot_same s t \<longleftrightarrow> mset (Tags s) = mset (Tags t) \<and> mset (Branches s) = mset (Branches t) \<and>
     Head s = Head t \<and> distinct (keys (Tags s)) \<and> distinct (keys (Branches s))"

lemma snapshot_same_lookup:
  assumes "snapshot_same s t"
  shows "map_of (Tags s) = map_of (Tags t)" "map_of (Branches s) = map_of (Branches t)"
    "SortedTags s = SortedTags t" "Head s = Head t" "set (keys (Tags s)) = set (keys (Tags t))"
    "set (keys (Branches s)) = set (keys (Branches t))"
proof -
  have lk: "map_of xs = map_of ys" if "mset xs = mset ys" "distinct (keys xs)" for xs ys :: "(string \<times> string) list"
  proof -
    have "mset (keys xs) = mset (keys ys)" using that(1) by simp
    then have "distinct (keys ys)" using that(2) by (metis mset_eq_imp_distinct_iff)
    with that show ?thesis by (metis map_of_eqI map_of_inject_set set_mset_mset)
  qed
  show "map_of (Tags s) = map_of (Tags t)" "map_of (Branches s) = map_of (Branches t)"
    using assms lk by (simp_all add: snapshot_same_def)
  have "mset (keys (Tags s)) = mset (keys (Tags t))" "mset (keys (Branches s)) = mset (keys (Branches t))"
    using assms by (simp_all add: snapshot_same_def)
  then show "SortedTags s = SortedTags t" "set (keys (Tags s)) = set (keys (Tags t))"
    "set (keys (Branches s)) = set (keys (Branches t))"
    unfolding SortedTags_def by (metis sort_Strings_cong, metis set_mset_mset, metis set_mset_mset)
  show "Head s = Head t" using assms by (simp add: snapshot_same_def)
qed

lemma Snapshot_Commit_tag: "map_of (Tags snap) ref = Some c \<Longrightarrow> Snapshot_Commit snap ref = Some c"
  by (simp add: Snapshot_Commit_def)

lemma lookup_commit: "lookup src name snap = Some c \<Longrightarrow> Snapshot_Commit snap name \<noteq> None"
  by (cases src) (auto simp: Snapshot_Commit_def split: option.splits)

lemma map_get_tag: "t \<in> set (keys m) \<Longrightarrow> map_of m t = Some (map_get m t)"
  by (auto simp: map_get_def map_of_eq_None_iff split: option.splits)

lemma FollowedRef_plain:
  "plain_ref sel \<Longrightarrow> fst (FollowedRef kind sel) = sel"
  "plain_ref sel \<Longrightarrow> snd (FollowedRef SelectorChannel sel) = refEither"
  "plain_ref sel \<Longrightarrow> FollowedRef SelectorPointerChannel sel = (sel, refTag)"
  "plain_ref sel \<Longrightarrow> FollowedRef SelectorBranchChannel sel = (sel, refBranch)"
  by (cases kind; simp add: plain_ref_def FollowedRef_def CutPrefix_None [symmetric])
    (simp_all add: plain_ref_def FollowedRef_def flip: CutPrefix_None)

lemma ChannelsOf_plain:
  assumes "wf_snapshot snap" "c \<in> set (ChannelsOf snap)" "ciKind c \<noteq> ''ordered''"
  shows "plain_ref (ciName c) \<and> ciLatest c = ciName c"
  using assms(2)
proof (cases rule: ChannelsOf_cases)
  case (pointer t)
  with assms(1) show ?thesis by (auto simp: wf_snapshot_def list_all_iff)
next
  case fallback
  with assms(1) show ?thesis by (auto simp: wf_snapshot_def)
qed (use assms in auto)

lemma ordered_latest:
  assumes "c \<in> set (ChannelsOf snap)" "ciKind c = ''ordered''"
  shows "ciLatest c \<in> set (elems (ciMembers c))" "ciLatest c \<in> set (keys (Tags snap))"
  using assms(1) by (cases rule: ChannelsOf_cases; use assms(2) in auto)+

lemma orderedTarget_Inr:
  "orderedTarget sel snap = Inr a \<longleftrightarrow> (\<exists>c. FindChannel sel snap = Some c \<and> ciKind c = ''ordered'' \<and>
     a = \<lparr>avRef = ciLatest c, avCommit = map_get (Tags snap) (ciLatest c)\<rparr>)"
proof -
  have "orderedTarget sel snap = Inr a \<longleftrightarrow>
      (\<exists>c. find (\<lambda>c. ciName c = sel \<and> ciKind c = ''ordered'') (ChannelsOf snap) = Some c \<and>
        a = \<lparr>avRef = ciLatest c, avCommit = map_get (Tags snap) (ciLatest c)\<rparr>)"
    by (auto simp: orderedTarget_def split: option.splits)
  then show ?thesis by (simp only: FindChannel_ordered conj_assoc)
qed

lemma highest_match_tag:
  assumes "HighestMatch tags pattern = Inr (Some t)"
  shows "t \<in> set tags" "path_Match pattern t = Some True"
proof -
  obtain ms where ms: "matching_tags pattern tags = Some ms" "ms \<noteq> []" "t = hd (sortTagsDesc ms)"
    using assms by (auto simp: HighestMatch_def split: option.splits if_splits)
  then have "sortTagsDesc ms \<noteq> []" using mset_sortTagsDesc [of ms] by auto
  then have "t \<in> set ms" using mset_sortTagsDesc [of ms] ms(3) by (metis hd_in_set set_mset_mset)
  with ms(1) show "t \<in> set tags" "path_Match pattern t = Some True" by (auto simp: matching_tags_Some)
qed

lemma admit_tag:
  assumes "map_of (Tags snap) r = Some c" "RefCommit kind sel r snap = Some c'" "admits kind sel r c' snap"
    "kind \<noteq> SelectorCommit"
  shows "Admit kind sel r snap = Inr \<lparr>avRef = r, avCommit = c'\<rparr>"
  using assms by (simp add: Admit_def Snapshot_Commit_def)

lemma FollowedRef_cases:
  obtains (tag) name where "\<And>kind. FollowedRef kind sel = (name, refTag)"
  | (branch) name where "\<And>kind. FollowedRef kind sel = (name, refBranch)"
  | (plain) "plain_ref sel" "FollowedRef SelectorPin sel = (sel, refEither)"
      "FollowedRef SelectorTagPin sel = (sel, refTag)" "FollowedRef SelectorBranchPin sel = (sel, refBranch)"
proof (cases "CutPrefix sel tagRefPrefix")
  case (Some name)
  then have "FollowedRef kind sel = (name, refTag)" for kind
    by (simp add: FollowedRef_def del: CutPrefix_Some)
  then show thesis by (rule tag)
next
  case nt: None
  show thesis
  proof (cases "CutPrefix sel branchRefPrefix")
    case (Some name)
    with nt have "FollowedRef kind sel = (name, refBranch)" for kind
      by (simp add: FollowedRef_def del: CutPrefix_Some)
    then show thesis by (rule branch)
  next
    case None
    with nt show thesis by (intro plain) (simp_all add: FollowedRef_def plain_ref_def flip: CutPrefix_None)
  qed
qed

lemma classified_resolves:
  assumes wf: "wf_snapshot snap" and k: "ClassifySelector sel snap = Inr kind"
  shows "kind \<notin> {SelectorPin, SelectorChannel} \<and>
    (kind = SelectorConstraint \<or> (\<exists>a. Target_of kind sel snap = Inr a))"
proof (cases "FindChannel sel snap")
  case (Some c)
  then have cs: "c \<in> set (ChannelsOf snap)" "ciName c = sel" using FindChannel_Some by auto
  have kind: "kind = channelKind c" using k Some by (simp add: ClassifySelector_def split: if_splits)
  from cs(1) show ?thesis
  proof (cases rule: ChannelsOf_cases)
    case (ordered g)
    then have "kind = SelectorOrderedChannel" using kind by (simp add: channelKind_def)
    moreover have "\<exists>a. orderedTarget sel snap = Inr a" using Some ordered by (simp add: orderedTarget_Inr)
    ultimately show ?thesis by (simp add: Target_of_def)
  next
    case (pointer t)
    then have "plain_ref sel" "sel = t" using wf cs(2) by (auto simp: wf_snapshot_def list_all_iff)
    with pointer kind show ?thesis
      using map_get_tag [of t "Tags snap"]
      by (simp add: channelKind_def Target_of_def pinned_target_def PinnedRef_def FollowedRef_plain(3))
  next
    case fallback
    then have "plain_ref sel" "sel = Head snap" "has_key (Branches snap) sel"
      using wf cs(2) by (auto simp: wf_snapshot_def)
    with fallback kind show ?thesis
      using map_get_tag [of sel "Branches snap"]
      by (simp add: channelKind_def Target_of_def pinned_target_def PinnedRef_def FollowedRef_plain(4))
  qed
next
  case None
  obtain pk ok where p: "pinKind sel snap = (pk, ok)" by fastforce
  show ?thesis
  proof (cases ok)
    case False
    then have "kind = SelectorConstraint \<or> kind = SelectorCommit"
      using k None p by (auto simp: ClassifySelector_def split: if_splits option.splits)
    then show ?thesis by (auto simp: Target_of_def)
  next
    case True
    then have kind: "kind = pk" using k None p by (simp add: ClassifySelector_def split: if_splits)
    from p True have "pk \<in> {SelectorTagPin, SelectorBranchPin} \<and> (\<exists>a. pinned_target pk sel snap = Inr a)"
      by (cases sel rule: FollowedRef_cases)
        (auto simp: pinKind_def pinned_target_def PinnedRef_def source_pinKind_def has_key_def
          simp del: has_key_iff split: if_splits)
    then show ?thesis by (auto simp: kind Target_of_def)
  qed
qed

lemma ChannelsOf_ordered:
  assumes "c \<in> set (ChannelsOf snap)" "ciKind c = ''ordered''"
  shows "\<exists>g \<in> set (GroupChannels (SortedTags snap)). c = ordered_channel g"
  using assms(1) by (cases rule: ChannelsOf_cases) (use assms(2) in auto)

lemma find_unique:
  "find P xs = Some x \<Longrightarrow> P y \<Longrightarrow> y \<in> set xs \<Longrightarrow> (\<And>z. z \<in> set xs \<Longrightarrow> P z \<Longrightarrow> z = y) \<Longrightarrow> x = y"
  by (metis (mono_tags, lifting) find_Some_iff nth_mem)

lemma formerChannelTarget_fix:
  assumes wf: "wf_snapshot snap" and f: "formerChannelTarget r snap = Some a" and r': "rRef r' = avRef a"
  shows "avRef a = [] \<or> formerChannelTarget r' snap = Some a"
proof -
  let ?P = "\<lambda>r c. ciKind c = ''ordered'' \<and> rRef r \<in> set (elems (ciMembers c))"
  obtain c where c: "find (?P r) (ChannelsOf snap) = Some c"
    and a: "a = \<lparr>avRef = ciLatest c, avCommit = map_get (Tags snap) (ciLatest c)\<rparr>"
    using f by (auto simp: formerChannelTarget_def split: if_splits)
  then have cs: "c \<in> set (ChannelsOf snap)" "ciKind c = ''ordered''"
    by (auto simp: find_Some_iff)
  have l: "?P r' c" using ordered_latest(1) [OF cs] cs(2) r' a by simp
  then obtain d where d: "find (?P r') (ChannelsOf snap) = Some d"
    using cs(1) by (cases "find (?P r') (ChannelsOf snap)") (auto simp: find_None_iff)
  have "d = c"
  proof (rule find_unique [OF d l cs(1)])
    fix z assume z: "z \<in> set (ChannelsOf snap)" "?P r' z"
    obtain g h where g: "z = ordered_channel g" "g \<in> set (GroupChannels (SortedTags snap))"
      and h: "c = ordered_channel h" "h \<in> set (GroupChannels (SortedTags snap))"
      using ChannelsOf_ordered [OF z(1)] ChannelsOf_ordered [OF cs] z(2) by auto
    moreover have "distinct (SortedTags snap)"
      using wf by (simp add: SortedTags_def wf_snapshot_def)
    ultimately have "g = h"
      using GroupChannels_member_unique [of "SortedTags snap" g h "rRef r'"] z(2) l by simp
    then show "z = c" using g h by simp
  qed
  with d a show ?thesis by (auto simp: formerChannelTarget_def r')
qed

lemma Drift_Some:
  assumes "Drift kind sel r snap = Inr (Some a)"
  shows "kind \<noteq> SelectorCommit" "\<not> isDowngrade kind r a snap" "avRef a \<noteq> rRef r \<or> avCommit a \<noteq> rCommit r"
    "Target_of kind sel snap = Inr a \<or>
     (\<exists>e. Target_of kind sel snap = Inl e \<and> fallbackTarget kind sel r snap e = Inr a)"
  using assms by (auto simp: Drift_def split: if_splits sum.splits)

lemma DefaultChannel_listed:
  assumes "DefaultChannel snap = Inr name"
  shows "\<exists>c \<in> set (ChannelsOf snap). ciName c = name"
proof -
  let ?cs = "ChannelsOf snap"
  have ne: "?cs \<noteq> []" using assms by (auto simp: DefaultChannel_def Let_def)
  have "?cs ! 0 \<in> set ?cs" using ne by simp
  moreover have "NewestFirst ?cs ! 0 \<in> set ?cs"
    using nf.hd_sort_in [OF ne] ne by (simp add: NewestFirst_def hd_conv_nth)
  moreover have "name = ciName (?cs ! 0) \<or> name = ciName (NewestFirst ?cs ! 0)"
    using assms by (auto simp: DefaultChannel_def Let_def split: if_splits)
  ultimately show ?thesis by blast
qed

lemma channelKind_family: "Family (channelKind c) = SelectorChannel \<and> channelKind c \<notin> {SelectorConstraint, SelectorCommit}"
  by (simp add: channelKind_def Family_def)

definition cache_ok :: "snap_call list \<Rightarrow> snap_cache \<Rightarrow> bool" where
  "cache_ok before cache \<longleftrightarrow> (\<forall>ns e. cache ns = Some e \<longrightarrow>
     (\<exists>d \<in> set before. BareNamespace (sc_ns d) = ns \<and> sc_remote d = Inr (se_snap e) \<and> sc_stored d = se_cachedAt e))"

lemma snapshot_call_ok:
  assumes "cache_ok before cache"
  shows "cache_ok (before @ [c]) (snd (snapshot_call ttl c cache))"
  using assms
  by (auto simp: cache_ok_def snapshot_call_def liveSnapshot_def Let_def split: option.splits sum.splits)

lemma snapshot_run_ok:
  "cache_ok before cache \<Longrightarrow> cache_ok (before @ cs) (snd (snapshot_run ttl cs cache))"
proof (induction cs arbitrary: before cache)
  case (Cons c cs)
  from snapshot_call_ok [OF Cons.prems, of c ttl]
  have "cache_ok ((before @ [c]) @ cs) (snd (snapshot_run ttl cs (snd (snapshot_call ttl c cache))))"
    by (rule Cons.IH)
  then show ?case by (simp add: Let_def split_beta)
qed simp

section \<open>Properties\<close>

text \<open>
  What a selector points at is always state it admits: on any well-formed snapshot the
  target of a selector of any kind passes \<open>Admit\<close> unchanged, so a row can never be offered a
  ref that an adoption of the same row would refuse.  (A row of the unrefined kind is taken
  under a selector that is no \<open>refs/\<close> escape.)
\<close>

theorem target_admitted:
  assumes wf: "wf_snapshot snap" and t: "Target_of kind sel snap = Inr a"
    and e: "kind = SelectorChannel \<longrightarrow> plain_ref sel"
  shows "Admit kind sel (avRef a) snap = Inr a"
proof -
  have pinned: "Admit kind sel (avRef a) snap = Inr a"
    if k: "kind \<in> {SelectorPin, SelectorTagPin, SelectorBranchPin, SelectorPointerChannel, SelectorBranchChannel}"
  proof -
    obtain name src where f: "FollowedRef kind sel = (name, src)" by fastforce
    have "pinned_target kind sel snap = Inr a" using t k by (auto simp: Target_of_def)
    then obtain commit where "lookup src name snap = Some commit" "a = \<lparr>avRef = name, avCommit = commit\<rparr>"
      by (auto simp: pinned_target_def PinnedRef_def f split: option.splits)
    moreover have "Snapshot_Commit snap name \<noteq> None" using lookup_commit calculation(1) .
    moreover have "admits kind sel name commit snap" using k f by (auto simp: admits_def)
    moreover have "RefCommit kind sel name snap = lookup src name snap" using k f by (auto simp: RefCommit_def)
    ultimately show ?thesis using k by (auto simp: Admit_def)
  qed
  show ?thesis
  proof (cases kind)
    case SelectorOrderedChannel
    then obtain c where c: "FindChannel sel snap = Some c" "ciKind c = ''ordered''"
      and a: "a = \<lparr>avRef = ciLatest c, avCommit = map_get (Tags snap) (ciLatest c)\<rparr>"
      using t by (auto simp: Target_of_def orderedTarget_Inr)
    have "c \<in> set (ChannelsOf snap)" using FindChannel_Some [OF c(1)] by simp
    note l = ordered_latest [OF this c(2)]
    have "map_of (Tags snap) (ciLatest c) = Some (avCommit a)" using map_get_tag [OF l(2)] a by simp
    then show ?thesis
      using SelectorOrderedChannel c l(1) a admit_tag [of snap "ciLatest c" "avCommit a" kind sel "avCommit a"]
      by (simp add: RefCommit_def admits_def)
  next
    case SelectorChannel
    then obtain c where c: "FindChannel sel snap = Some c" "Snapshot_Commit snap (ciLatest c) = Some (avCommit a)"
      "avRef a = ciLatest c"
      using t by (auto simp: Target_of_def channelTarget_def split: option.splits)
    have cs: "c \<in> set (ChannelsOf snap)" "ciName c = sel" using FindChannel_Some [OF c(1)] by simp_all
    have "RefCommit kind sel (avRef a) snap = Some (avCommit a)"
      using FollowedRef_plain(2) [of sel] e c SelectorChannel by (auto simp: RefCommit_def split: prod.splits)
    moreover have "channelAdmits sel (avRef a) snap"
      using c ordered_latest(1) [OF cs(1)] by (simp add: channelAdmits_def)
    ultimately show ?thesis using SelectorChannel c
      by (simp add: Admit_def admits_def)
  next
    case SelectorConstraint
    then obtain r where h: "HighestMatch (SortedTags snap) sel = Inr (Some r)"
      and a: "a = \<lparr>avRef = r, avCommit = map_get (Tags snap) r\<rparr>"
      using t by (auto simp: Target_of_def constraintTarget_def split: sum.splits option.splits)
    have r: "r \<in> set (keys (Tags snap))" using highest_match_tag(1) [OF h] by simp
    have "map_of (Tags snap) r = Some (avCommit a)" using map_get_tag [OF r] a by simp
    then show ?thesis
      using SelectorConstraint highest_match_tag(2) [OF h] a admit_tag [of snap r "avCommit a" kind sel "avCommit a"]
      by (simp add: RefCommit_def admits_def)
  next
    case SelectorCommit
    then show ?thesis using t by (auto simp: Target_of_def Admit_def EqualFold_def)
  qed (use pinned t in \<open>auto simp: Target_of_def\<close>)
qed

text \<open>A repository with releases, a rolling tag and two branches.\<close>

definition sample_snapshot :: RefSnapshot where
  "sample_snapshot = \<lparr>Tags = [(''v1.9.0'', ''c9''), (''v1.10.0'', ''c10''), (''v2.0.0-rc.1'', ''rc''), (''nightly'', ''n'')],
     Branches = [(''main'', ''m''), (''v1.9.0'', ''b9'')], Head = ''main''\<rparr>"

lemma wf_sample [simp]: "wf_snapshot sample_snapshot"
  by code_simp

theorem target_admitted_witness:
  "Target_of SelectorOrderedChannel ''stable'' sample_snapshot = Inr \<lparr>avRef = ''v1.10.0'', avCommit = ''c10''\<rparr> \<and>
   Admit SelectorOrderedChannel ''stable'' ''v1.10.0'' sample_snapshot = Inr \<lparr>avRef = ''v1.10.0'', avCommit = ''c10''\<rparr>"
proof -
  have t: "Target_of SelectorOrderedChannel ''stable'' sample_snapshot = Inr \<lparr>avRef = ''v1.10.0'', avCommit = ''c10''\<rparr>"
    by code_simp
  with target_admitted [OF wf_sample t] show ?thesis by simp
qed

text \<open>
  An identity that was classified resolves right away: unless it is a constraint, whose
  pattern no tag may match yet, the selector has a target in the snapshot it was classified on,
  and its kind is refined (never the bare pin or channel of older rows).
\<close>

theorem classified_selector_resolves:
  assumes wf: "wf_snapshot snap" and k: "ClassifySelector sel snap = Inr kind"
  shows "kind \<notin> {SelectorPin, SelectorChannel} \<and>
    (kind = SelectorConstraint \<or> (\<exists>a. Target_of kind sel snap = Inr a))"
  by (rule classified_resolves [OF assms])

text \<open>
  C6. Moving a row to the target drift offers settles it: checked again against the same
  snapshot it is up to date.  (Unless it is a channel row of the unrefined kind whose selector
  is no longer listed, which may then follow the default branch.)
\<close>

theorem drift_converges:
  assumes wf: "wf_snapshot snap" and d: "Drift kind sel r snap = Inr (Some a)" and n: "avRef a \<noteq> []"
    and k: "kind \<noteq> SelectorChannel \<or> (\<exists>b. Target_of kind sel snap = Inr b)"
  shows "Drift kind sel (resolvedAt a) snap = Inr None"
proof (cases "Target_of kind sel snap")
  case (Inr b)
  with Drift_Some(4) [OF d] have "b = a" by simp
  with Inr show ?thesis by (simp add: Drift_def resolvedAt_def)
next
  case (Inl e)
  with k Drift_Some(1,4) [OF d] have f: "kind = SelectorOrderedChannel" "formerChannelTarget r snap = Some a"
    by (auto simp: fallbackTarget_def Let_def split: SelectorKind.splits option.splits)
  then have "formerChannelTarget (resolvedAt a) snap = Some a"
    using formerChannelTarget_fix [OF wf f(2), of "resolvedAt a"] n by (simp add: resolvedAt_def)
  with Inl f(1) show ?thesis
    by (simp add: Drift_def fallbackTarget_def resolvedAt_def)
qed

theorem drift_converges_witness:
  "Drift SelectorOrderedChannel ''stable'' \<lparr>rRef = ''v1.9.0'', rCommit = ''c9'', rFingerprint = ''c9''\<rparr> sample_snapshot
     = Inr (Some \<lparr>avRef = ''v1.10.0'', avCommit = ''c10''\<rparr>) \<and>
   Drift SelectorOrderedChannel ''stable'' (resolvedAt \<lparr>avRef = ''v1.10.0'', avCommit = ''c10''\<rparr>) sample_snapshot = Inr None"
proof -
  have d: "Drift SelectorOrderedChannel ''stable'' \<lparr>rRef = ''v1.9.0'', rCommit = ''c9'', rFingerprint = ''c9''\<rparr> sample_snapshot
     = Inr (Some \<lparr>avRef = ''v1.10.0'', avCommit = ''c10''\<rparr>)" by code_simp
  with drift_converges [OF wf_sample d] show ?thesis by simp
qed

text \<open>
  C7. An ordered channel never moves a row backwards: the offered tag exists, is the first
  member of an ordered channel of the snapshot, and an installed tag the snapshot still holds
  does not outrank it.  A row following a commit is never offered anything.
\<close>

theorem drift_never_downgrades:
  assumes "Drift kind sel r snap = Inr (Some a)"
  shows "kind \<noteq> SelectorCommit \<and>
    (kind = SelectorOrderedChannel \<longrightarrow>
       has_key (Tags snap) (avRef a) \<and> list_ex (\<lambda>c. ciKind c = ''ordered'' \<and> ciLatest c = avRef a) (ChannelsOf snap) \<and>
       (avRef a = rRef r \<or> \<not> has_key (Tags snap) (rRef r) \<or> \<not> Outranks (rRef r) (avRef a)))"
proof (intro conjI impI)
  show "kind \<noteq> SelectorCommit" using Drift_Some(1) [OF assms] .
next
  assume k: "kind = SelectorOrderedChannel"
  then have "orderedTarget sel snap = Inr a \<or> formerChannelTarget r snap = Some a"
    using Drift_Some(4) [OF assms]
    by (auto simp: Target_of_def fallbackTarget_def Let_def split: option.splits)
  then obtain c where c: "c \<in> set (ChannelsOf snap)" "ciKind c = ''ordered''" "avRef a = ciLatest c"
    by (auto simp: orderedTarget_Inr formerChannelTarget_def dest: FindChannel_Some find_SomeD split: if_splits)
  then show "has_key (Tags snap) (avRef a)" using ordered_latest(2) by simp
  show "list_ex (\<lambda>c. ciKind c = ''ordered'' \<and> ciLatest c = avRef a) (ChannelsOf snap)"
    using c by (auto simp: list_ex_iff)
  show "avRef a = rRef r \<or> \<not> has_key (Tags snap) (rRef r) \<or> \<not> Outranks (rRef r) (avRef a)"
    using Drift_Some(2) [OF assms] k by (auto simp: isDowngrade_def split: if_splits)
qed

theorem drift_never_downgrades_witness:
  "Drift SelectorOrderedChannel ''stable'' \<lparr>rRef = ''v1.9.0'', rCommit = ''c9'', rFingerprint = ''c9''\<rparr> sample_snapshot
     = Inr (Some \<lparr>avRef = ''v1.10.0'', avCommit = ''c10''\<rparr>) \<and> \<not> Outranks ''v1.9.0'' ''v1.10.0''"
proof -
  have d: "Drift SelectorOrderedChannel ''stable'' \<lparr>rRef = ''v1.9.0'', rCommit = ''c9'', rFingerprint = ''c9''\<rparr> sample_snapshot
     = Inr (Some \<lparr>avRef = ''v1.10.0'', avCommit = ''c10''\<rparr>)" by code_simp
  have "has_key (Tags sample_snapshot) ''v1.9.0''" by (simp add: sample_snapshot_def)
  with drift_never_downgrades [OF d] d show ?thesis by simp
qed

definition mixed_snapshot :: RefSnapshot where
  "mixed_snapshot = \<lparr>Tags = [(''v2.0.0'', ''c1''), (''v26.8'', ''c2''), (''stable-2026-09-27'', ''c3'')],
     Branches = [(''main'', ''m'')], Head = ''main''\<rparr>"

text \<open>
  Where the order inside a pair of tags disagrees with the order of their channel, drift
  stalls: the channel's latest tag is the stable release of 2026-09-27 and the installed v2.0.0
  is its last member, yet no update is ever offered.
\<close>

theorem drift_stalls_on_mixed_channel:
  "SortInChannel (SortedTags mixed_snapshot) StableChannel = [''stable-2026-09-27'', ''v26.8'', ''v2.0.0''] \<and>
   Target_of SelectorOrderedChannel StableChannel mixed_snapshot
     = Inr \<lparr>avRef = ''stable-2026-09-27'', avCommit = ''c3''\<rparr> \<and>
   Drift SelectorOrderedChannel StableChannel \<lparr>rRef = ''v2.0.0'', rCommit = ''c1'', rFingerprint = ''c1''\<rparr> mixed_snapshot
     = Inr None"
  by code_simp

text \<open>
  Nothing here depends on the order a snapshot's maps are iterated in: two listings of one
  snapshot give the same channels, selector kind, target, drift and admission.
\<close>

theorem versioning_map_order_independent:
  assumes "snapshot_same s t"
  shows "ChannelsOf s = ChannelsOf t \<and> ClassifySelector sel s = ClassifySelector sel t \<and>
    Target_of kind sel s = Target_of kind sel t \<and> Drift kind sel r s = Drift kind sel r t \<and>
    Admit kind sel ref s = Admit kind sel ref t \<and> classifyInstall ns s = classifyInstall ns t"
proof -
  note m = snapshot_same_lookup [OF assms]
  have ch: "ChannelsOf s = ChannelsOf t" by (simp add: ChannelsOf_def m)
  have fc: "FindChannel x s = FindChannel x t" for x by (simp add: FindChannel_def ch)
  have co: "Snapshot_Commit s = Snapshot_Commit t" by (rule ext) (simp add: Snapshot_Commit_def m split: option.split)
  have lk: "lookup src x s = lookup src x t" for src x by (cases src) (simp_all add: co m)
  have hk: "has_key (Tags s) x = has_key (Tags t) x" "has_key (Branches s) x = has_key (Branches t) x" for x
    by (simp_all only: has_key_def m)
  have mg: "map_get (Tags s) = map_get (Tags t)" by (simp add: map_get_def fun_eq_iff m)
  have pk: "pinKind x s = pinKind x t" for x by (simp only: pinKind_def lk hk)
  have cl: "ClassifySelector x s = ClassifySelector x t" for x by (simp only: ClassifySelector_def fc pk)
  have tg: "Target_of kind sel s = Target_of kind sel t"
    by (simp only: Target_of_def channelTarget_def orderedTarget_def constraintTarget_def pinned_target_def
        PinnedRef_def fc co ch mg lk m)
  have fb: "fallbackTarget kind sel r s e = fallbackTarget kind sel r t e" for e
    by (simp only: fallbackTarget_def defaultBranchTarget_def formerChannelTarget_def ch mg m)
  have dg: "isDowngrade kind r a s = isDowngrade kind r a t" for a by (simp only: isDowngrade_def hk)
  have "Drift kind sel r s = Drift kind sel r t" by (simp only: Drift_def tg fb dg)
  moreover have "Admit kind sel ref s = Admit kind sel ref t"
    by (simp only: Admit_def RefCommit_def admits_def channelAdmits_def co fc lk m)
  moreover have "classifyInstall ns s = classifyInstall ns t"
    by (simp only: classifyInstall_def DefaultChannel_def ch cl)
  ultimately show ?thesis using ch cl tg by simp
qed

theorem versioning_map_order_independent_witness:
  "ChannelsOf sample_snapshot = ChannelsOf (sample_snapshot\<lparr>Tags := rev (Tags sample_snapshot)\<rparr>) \<and>
   length (ChannelsOf sample_snapshot) = 3"
proof
  have "snapshot_same sample_snapshot (sample_snapshot\<lparr>Tags := rev (Tags sample_snapshot)\<rparr>)"
    by (simp add: snapshot_same_def sample_snapshot_def)
  from versioning_map_order_independent [OF this]
  show "ChannelsOf sample_snapshot = ChannelsOf (sample_snapshot\<lparr>Tags := rev (Tags sample_snapshot)\<rparr>)" by blast
  show "length (ChannelsOf sample_snapshot) = 3" by code_simp
qed

text \<open>
  A refless install follows a channel the repository lists, provided its name has no empty
  ref component; where it has one (a tag prefix that ends in a slash), the name
  \<open>DefaultChannel\<close> picks is one \<open>ClassifySelector\<close> refuses and the install fails as an
  invalid namespace.
\<close>

theorem refless_install_identity:
  assumes wf: "wf_snapshot snap" and r: "Ref ns = []" and d: "DefaultChannel snap = Inr name"
  shows "if HasEmptyComponent name then classifyInstall ns snap = Inl (ErrInvalidNamespace ErrUnknownSelector)
    else \<exists>kind a. classifyInstall ns snap = Inr (WithRef ns name, kind) \<and> Family kind = SelectorChannel \<and>
           Target_of kind name snap = Inr a"
proof (cases "HasEmptyComponent name")
  case True
  then show ?thesis using r d by (simp add: classifyInstall_def ClassifySelector_def)
next
  case False
  obtain c where c: "FindChannel name snap = Some c"
    using DefaultChannel_listed [OF d] FindChannel_None [of name snap] by (cases "FindChannel name snap") auto
  have k: "ClassifySelector name snap = Inr (channelKind c)" using False c by (simp add: ClassifySelector_def)
  have t: "\<exists>a. Target_of (channelKind c) name snap = Inr a"
    using channelKind_family [of c] classified_resolves [OF wf k] by auto
  have "classifyInstall ns snap = Inr (WithRef ns name, channelKind c)"
    using r d k channelKind_family [of c] by (simp add: classifyInstall_def)
  with False t channelKind_family show ?thesis by auto
qed

theorem refless_install_identity_witness:
  "\<exists>kind a. classifyInstall ''github.com/u/r'' sample_snapshot = Inr (''github.com/u/r@stable'', kind) \<and>
     Target_of kind ''stable'' sample_snapshot = Inr a"
proof -
  have d: "DefaultChannel sample_snapshot = Inr ''stable''" and r: "Ref ''github.com/u/r'' = []"
    and e: "\<not> HasEmptyComponent ''stable''" and w: "WithRef ''github.com/u/r'' ''stable'' = ''github.com/u/r@stable''"
    by code_simp+
  from refless_install_identity [OF wf_sample r d] e w show ?thesis by auto
qed

definition monorepo_snapshot :: RefSnapshot where
  "monorepo_snapshot = \<lparr>Tags = [(''api/1.0.0'', ''c1''), (''web/1.2.0'', ''c2'')], Branches = [(''main'', ''m'')], Head = ''main''\<rparr>"

text \<open>
  Such repositories exist: with the tags api/1.0.0 and web/1.2.0 alone, the default channel
  is \<open>web/\<close>, which names nothing, so no refless install of the repository succeeds although
  every release is listed.
\<close>

theorem refless_install_refused:
  "map ciName (ChannelsOf monorepo_snapshot) = [''api/'', ''web/''] \<and>
   DefaultChannel monorepo_snapshot = Inr ''web/'' \<and>
   classifyInstall ''github.com/u/mono'' monorepo_snapshot = Inl (ErrInvalidNamespace ErrUnknownSelector)"
  by code_simp

text \<open>
  The snapshot cache is sound: after any sequence of calls, a snapshot that is served is
  the remote's answer to this call, or, when a fresh one was not asked for, its answer to an
  earlier call for the same repository stored at most a TTL ago; an error is always the
  remote's answer to this call, and never replaces what is cached.
\<close>

theorem snapshot_cache_sound:
  "let cache = snd (snapshot_run ttl before (\<lambda>_. None)); (r, cache') = snapshot_call ttl c cache
   in case r of
        Inl e \<Rightarrow> sc_remote c = Inl e \<and> cache' = cache
      | Inr snap \<Rightarrow> sc_remote c = Inr snap \<or>
          sc_fresh c = False \<and> (\<exists>d \<in> set before. BareNamespace (sc_ns d) = BareNamespace (sc_ns c) \<and>
            sc_remote d = Inr snap \<and> sc_checked c - sc_stored d \<le> ttl)"
proof -
  let ?cache = "snd (snapshot_run ttl before (\<lambda>_. None))"
  have ok: "cache_ok before ?cache"
    using snapshot_run_ok [of "[]" "\<lambda>_. None" before ttl] by (simp add: cache_ok_def)
  show ?thesis
  proof (cases "sc_fresh c")
    case True
    then show ?thesis by (auto simp: snapshot_call_def liveSnapshot_def Let_def split: sum.splits)
  next
    case fresh: False
    show ?thesis
    proof (cases "cachedSnapshot ttl (sc_checked c) (BareNamespace (sc_ns c)) ?cache")
      case None
      with fresh show ?thesis by (auto simp: snapshot_call_def liveSnapshot_def Let_def split: sum.splits)
    next
      case (Some snap)
      then obtain e where "?cache (BareNamespace (sc_ns c)) = Some e" "se_snap e = snap"
        "sc_checked c - se_cachedAt e \<le> ttl"
        by (auto simp: cachedSnapshot_def split: option.splits if_splits)
      with ok fresh Some show ?thesis by (force simp: snapshot_call_def Let_def cache_ok_def)
    qed
  qed
qed

end
