(* ===== verification/Vault.thy ===== *)
theory Vault
  imports Domain
begin

text \<open>
  The vault (internal/engine/vault): the names identities are filed under on disk (pathsafe.go)
  and the manifest cache (manifest.go, store.go, sweep.go).  SHA-256, written in hexadecimal, is
  the parameter \<open>digest\<close>.
\<close>

section \<open>Percent encoding\<close>

text \<open>\<open>fmt.Fprintf("%%%02X")\<close>, and \<open>url.PathEscape\<close> and \<open>url.PathUnescape\<close> of the standard library.\<close>

definition upper_hex :: "nat \<Rightarrow> char" where
  "upper_hex n = ''0123456789ABCDEF'' ! n"

definition pct :: "char \<Rightarrow> string" where
  "pct c = [CHR ''%'', upper_hex (of_char c div 16), upper_hex (of_char c mod 16)]"

definition ishex :: "char \<Rightarrow> bool" where
  "ishex c \<longleftrightarrow> is_digit c \<or> (CHR ''a'' \<le> c \<and> c \<le> CHR ''f'') \<or> (CHR ''A'' \<le> c \<and> c \<le> CHR ''F'')"

definition unhex :: "char \<Rightarrow> nat" where
  "unhex c =
     (if is_digit c then of_char c - 48
      else if CHR ''a'' \<le> c \<and> c \<le> CHR ''f'' then of_char c - 87
      else if CHR ''A'' \<le> c \<and> c \<le> CHR ''F'' then of_char c - 55 else 0)"

definition path_unreserved :: "char \<Rightarrow> bool" where
  "path_unreserved c \<longleftrightarrow> is_letter c \<or> is_digit c \<or> c \<in> set ''-_.~$&+:=@''"

definition PathEscape :: "string \<Rightarrow> string" where
  "PathEscape s = concat (map (\<lambda>c. if path_unreserved c then [c] else pct c) s)"

fun PathUnescape :: "string \<Rightarrow> string option" where
  "PathUnescape [] = Some []"
| "PathUnescape (c # s) =
     (if c = CHR ''%'' then
        (case s of
           a # b # r \<Rightarrow>
             if ishex a \<and> ishex b
             then map_option ((#) (char_of (16 * unhex a + unhex b))) (PathUnescape r) else None
         | _ \<Rightarrow> None)
      else map_option ((#) c) (PathUnescape s))"

section \<open>Names\<close>

definition windowsReserved :: string where
  "windowsReserved = ''<>:'' @ [CHR 0x22] @ ''|?*'' @ [CHR 0x5C] @ ''%''"

definition identityReserved :: string where
  "identityReserved = windowsReserved @ ''/~''"

definition maxNameLen :: nat where "maxNameLen = 96"
definition maxComponentLen :: nat where "maxComponentLen = 255"
definition hashedMarker :: string where "hashedMarker = ''~''"
definition hashLen :: nat where "hashLen = 32"
definition metaSuffix :: string where "metaSuffix = ''.meta.json''"

definition mustEscapeIdentity :: "char \<Rightarrow> bool \<Rightarrow> bool" where
  "mustEscapeIdentity c final =
     (if (of_char c :: nat) < 0x20 \<or> (of_char c :: nat) \<ge> 0x7F \<or> is_upper c \<or> c \<in> set identityReserved then True
      else final \<and> (c = CHR ''.'' \<or> c = CHR '' ''))"

fun encodeRefSegment :: "string \<Rightarrow> string" where
  "encodeRefSegment [] = []"
| "encodeRefSegment (c # ref) =
     (if mustEscapeIdentity c (ref = []) then pct c else [c]) @ encodeRefSegment ref"

definition last_index :: "char \<Rightarrow> string \<Rightarrow> int" where
  "last_index b s = (if b \<in> set s then int (length s) - 1 - int (length (takeWhile (\<lambda>c. c \<noteq> b) (rev s))) else -1)"

definition capName :: "(Namespace \<Rightarrow> string) \<Rightarrow> string \<Rightarrow> Namespace \<Rightarrow> string" where
  "capName digest name ns =
     (if length name \<le> maxNameLen then name
      else (let cut = maxNameLen - length hashedMarker - hashLen;
                i = last_index CHR ''%'' (take cut name);
                cut' = (if i \<ge> int cut - 2 then nat i else cut)
            in take cut' name @ hashedMarker @ take hashLen (digest ns)))"

definition isHashed :: "string \<Rightarrow> bool" where
  "isHashed name \<longleftrightarrow> Contains name hashedMarker"

definition encodeNS :: "(Namespace \<Rightarrow> string) \<Rightarrow> Namespace \<Rightarrow> string" where
  "encodeNS digest ns =
     (case cut_byte CHR ''@'' ns of
        None \<Rightarrow> capName digest (PathEscape ns) ns
      | Some (bare, ref) \<Rightarrow> capName digest (PathEscape bare @ ''@'' @ encodeRefSegment ref) ns)"

definition legacyEncodeNS :: "Namespace \<Rightarrow> string" where
  "legacyEncodeNS ns =
     (case cut_byte CHR ''@'' ns of
        None \<Rightarrow> PathEscape ns
      | Some (bare, ref) \<Rightarrow>
          PathEscape bare @ ''@'' @ concat (map (\<lambda>c. if c = CHR '':'' then ''%3A'' else [c]) (PathEscape ref)))"

definition cacheNames :: "(Namespace \<Rightarrow> string) \<Rightarrow> Namespace \<Rightarrow> string list" where
  "cacheNames digest ns =
     (let current = encodeNS digest ns; legacy = legacyEncodeNS ns
      in if current = legacy \<or> length (legacy @ metaSuffix) > maxComponentLen then [current]
         else [current, legacy])"

subsection \<open>Workdir names\<close>

definition isWindowsDeviceName :: "string \<Rightarrow> bool" where
  "isWindowsDeviceName component =
     (let stem = ToUpper (case cut_byte CHR ''.'' component of Some (u, v) \<Rightarrow> u | None \<Rightarrow> component)
      in if stem \<in> set [''CON'', ''PRN'', ''AUX'', ''NUL''] then True
         else if length stem \<noteq> 4 \<or> (take 3 stem \<noteq> ''COM'' \<and> take 3 stem \<noteq> ''LPT'') then False
         else CHR ''1'' \<le> stem ! 3 \<and> stem ! 3 \<le> CHR ''9'')"

definition mustEscape :: "string \<Rightarrow> nat \<Rightarrow> bool \<Rightarrow> bool" where
  "mustEscape component i standalone =
     (let c = component ! i
      in if (of_char c :: nat) < 0x20 \<or> c \<in> set windowsReserved then True
         else if i = length component - 1 \<and> (c = CHR ''.'' \<or> c = CHR '' '') then True
         else i = 0 \<and> standalone \<and> isWindowsDeviceName component)"

definition escapeComponent :: "string \<Rightarrow> bool \<Rightarrow> string" where
  "escapeComponent component standalone =
     concat (map (\<lambda>(i, c). if mustEscape component i standalone then pct c else [c]) (enum component))"

definition escapeRefDir :: "string \<Rightarrow> string" where
  "escapeRefDir ref = Join (map (\<lambda>(i, c). escapeComponent c (i > 0)) (enum (Split ref CHR ''/''))) ''/''"

definition path_Split :: "string \<Rightarrow> string \<times> string" where
  "path_Split p = (rev (dropWhile (\<lambda>c. c \<noteq> CHR ''/'') (rev p)), rev (takeWhile (\<lambda>c. c \<noteq> CHR ''/'') (rev p)))"

definition identityDir :: "(Namespace \<Rightarrow> string) \<Rightarrow> Namespace \<Rightarrow> string" where
  "identityDir digest ns =
     (case cut_byte CHR ''@'' ns of
        None \<Rightarrow> ns
      | Some (bare, ref) \<Rightarrow>
          (let (parent, repo) = path_Split bare
           in parent @ capName digest (repo @ ''@'' @ encodeRefSegment ref) ns))"

definition legacyIdentityDir :: "Namespace \<Rightarrow> string" where
  "legacyIdentityDir ns =
     (case cut_byte CHR ''@'' ns of None \<Rightarrow> ns | Some (bare, ref) \<Rightarrow> bare @ ''@'' @ escapeRefDir ref)"

definition legacyIdentityDirs :: "(Namespace \<Rightarrow> string) \<Rightarrow> Namespace \<Rightarrow> string list" where
  "legacyIdentityDirs digest ns =
     foldl (\<lambda>dirs rel. if rel \<noteq> identityDir digest ns \<and> rel \<notin> set dirs then dirs @ [rel] else dirs) []
       [legacyIdentityDir ns, ns]"

definition decodeNSDir :: "string \<Rightarrow> Namespace" where
  "decodeNSDir rel =
     (case cut_byte CHR ''@'' rel of
        None \<Rightarrow> rel
      | Some (bare, ref) \<Rightarrow>
          (case try_map (\<lambda>c. case PathUnescape c of None \<Rightarrow> Inl () | Some d \<Rightarrow> Inr d) (Split ref CHR ''/'') of
             Inl e \<Rightarrow> rel
           | Inr components \<Rightarrow> bare @ ''@'' @ Join components ''/''))"

subsection \<open>Laws of the encodings\<close>

lemma ToLower_simps [simp]: "ToLower [] = []" "ToLower (c # s) = lower_char c # ToLower s"
  by (simp_all add: ToLower_def)

lemma hex_table:
  "list_all (\<lambda>n. ishex (upper_hex n) \<and> unhex (upper_hex n) = n \<and> ishex (lower_char (upper_hex n)) \<and>
     unhex (lower_char (upper_hex n)) = n) [0..<16]"
  by code_simp

lemma upper_hex [simp]:
  assumes "n < 16"
  shows "ishex (upper_hex n)" "unhex (upper_hex n) = n"
    "ishex (lower_char (upper_hex n))" "unhex (lower_char (upper_hex n)) = n"
  using hex_table assms by (auto simp: list_all_iff)

lemma nibbles [simp]: "(of_char c :: nat) div 16 < 16" "(of_char c :: nat) mod 16 < 16"
proof -
  have "(of_char c :: nat) < 256" by simp
  then show "(of_char c :: nat) div 16 < 16" by (intro less_mult_imp_div_less) simp
  show "(of_char c :: nat) mod 16 < 16" by simp
qed

lemma char_of_nibbles [simp]: "char_of (16 * ((of_char c :: nat) div 16) + of_char c mod 16) = c"
  by (simp add: mult_div_mod_eq)

lemma percent_not_upper [simp]: "lower_char CHR ''%'' = CHR ''%''"
  by code_simp

lemma unescape_pct [simp]:
  "PathUnescape (pct c @ s) = map_option ((#) c) (PathUnescape s)"
  "PathUnescape (ToLower (pct c) @ s) = map_option ((#) c) (PathUnescape s)"
  by (simp_all add: pct_def ToLower_def)

lemma unescape_PathEscape [simp]: "PathUnescape (PathEscape s @ t) = map_option ((@) s) (PathUnescape t)"
proof (induction s)
  case (Cons c s)
  have "path_unreserved c \<Longrightarrow> c \<noteq> CHR ''%''" by (auto simp: path_unreserved_def is_letter_def is_digit_def is_lower_def is_upper_def)
  with Cons show ?case by (cases "PathUnescape t") (auto simp: PathEscape_def)
qed (simp add: PathEscape_def option.map_ident)

lemma unescape_encodeRefSegment [simp]: "PathUnescape (encodeRefSegment r) = Some r"
proof (induction r)
  case (Cons c r)
  have "\<not> mustEscapeIdentity c (r = []) \<Longrightarrow> c \<noteq> CHR ''%''"
    by (auto simp: mustEscapeIdentity_def identityReserved_def windowsReserved_def split: if_splits)
  with Cons show ?case by auto
qed simp

text \<open>The encoding survives a file system that ignores case.\<close>

lemma unescape_lower_encodeRefSegment [simp]: "PathUnescape (ToLower (encodeRefSegment r)) = Some r"
proof (induction r)
  case (Cons c r)
  have "\<not> mustEscapeIdentity c (r = []) \<Longrightarrow> c \<noteq> CHR ''%'' \<and> lower_char c = c"
    by (auto simp: mustEscapeIdentity_def identityReserved_def windowsReserved_def lower_char_def split: if_splits)
  with Cons show ?case by auto
qed simp

lemma encodeRefSegment_fold_inj: "EqualFold (encodeRefSegment r) (encodeRefSegment s) \<longleftrightarrow> r = s"
proof
  assume "EqualFold (encodeRefSegment r) (encodeRefSegment s)"
  then have "Some r = Some s"
    unfolding EqualFold_def by (simp flip: unescape_lower_encodeRefSegment)
  then show "r = s" by simp
qed (simp add: EqualFold_def)

section \<open>Workdirs\<close>

text \<open>
  A directory below \<open>namespacesPath\<close> is the list of its components; \<open>dirs\<close> are the ones that
  exist, with the spelling they were created with.  \<open>veFold\<close> says that the file system ignores
  case.  \<open>veBase\<close> are the components of \<open>namespacesPath\<close>.
\<close>

datatype vault_error = ErrNotCached | ErrStale | ErrVaultNamespace | ErrWorkDirCollision | ErrConfirmedAbsent

record vault_env =
  veDigest :: "Namespace \<Rightarrow> string"
  veBase :: "string list"
  veFold :: bool
  veTTL :: go_time

text \<open>\<open>filepath.Join\<close> cleans what it joins.\<close>

fun path_clean :: "string list \<Rightarrow> string list \<Rightarrow> string list" where
  "path_clean acc [] = rev acc"
| "path_clean acc (p # ps) =
     (if p = [] \<or> p = ''.'' then path_clean acc ps
      else if p = ''..'' then path_clean (tl acc) ps
      else path_clean (p # acc) ps)"

definition underNamespaces :: "vault_env \<Rightarrow> string \<Rightarrow> string list option" where
  "underNamespaces env rel =
     (let base = veBase env; resolved = path_clean [] (base @ Split rel CHR ''/'')
      in if length base < length resolved \<and> take (length base) resolved = base
         then Some (drop (length base) resolved) else None)"

definition same_name :: "vault_env \<Rightarrow> string \<Rightarrow> string \<Rightarrow> bool" where
  "same_name env a b = (if veFold env then EqualFold a b else a = b)"

definition dir_exists :: "vault_env \<Rightarrow> string list list \<Rightarrow> string list \<Rightarrow> bool" where
  "dir_exists env dirs p \<longleftrightarrow> list_ex (\<lambda>d. list_all2 (same_name env) d p) dirs"

definition hasExactEntry :: "vault_env \<Rightarrow> string list list \<Rightarrow> string list \<Rightarrow> bool" where
  "hasExactEntry env dirs p \<longleftrightarrow>
     p \<noteq> [] \<and> list_ex (\<lambda>d. d \<noteq> [] \<and> last d = last p \<and> list_all2 (same_name env) (butlast d) (butlast p)) dirs"

fun exists_exactly :: "vault_env \<Rightarrow> string list list \<Rightarrow> string list \<Rightarrow> string list \<Rightarrow> bool" where
  "exists_exactly env dirs dir [] = True"
| "exists_exactly env dirs dir (c # cs) =
     (hasExactEntry env dirs (dir @ [c]) \<and> exists_exactly env dirs (dir @ [c]) cs)"

definition existsExactly :: "vault_env \<Rightarrow> string list list \<Rightarrow> string \<Rightarrow> bool" where
  "existsExactly env dirs rel = exists_exactly env dirs [] (Split rel CHR ''/'')"

definition namespacePath :: "vault_env \<Rightarrow> string list list \<Rightarrow> Namespace \<Rightarrow> vault_error + string list" where
  "namespacePath env dirs ns =
     (case underNamespaces env (identityDir (veDigest env) ns) of
        None \<Rightarrow> Inl ErrVaultNamespace
      | Some current \<Rightarrow>
          if hasExactEntry env dirs current then Inr current
          else (case find (\<lambda>rel. underNamespaces env rel \<noteq> None \<and> existsExactly env dirs rel)
                       (legacyIdentityDirs (veDigest env) ns) of
              Some rel \<Rightarrow> Inr (the (underNamespaces env rel))
            | None \<Rightarrow> if dir_exists env dirs current then Inl ErrWorkDirCollision else Inr current))"

text \<open>\<open>os.MkdirAll\<close>: the directory and its missing parents.\<close>

fun mkdir_all :: "vault_env \<Rightarrow> string list \<Rightarrow> string list \<Rightarrow> string list list \<Rightarrow> string list list" where
  "mkdir_all env pre [] dirs = dirs"
| "mkdir_all env pre (c # cs) dirs =
     mkdir_all env (pre @ [c]) cs (if dir_exists env dirs (pre @ [c]) then dirs else dirs @ [pre @ [c]])"

section \<open>The manifest cache\<close>

record ManifestFile =
  mvContent :: string
  mvFilename :: string
  mvMeta :: "(ArrowMeta \<times> OS list) option"
  mvRef :: string
  mvCommit :: string
  mvDefault :: bool
  mvChannels :: string
  mvDefaultAt :: go_time

record VaultMetadata =
  vmCachedAt :: go_time
  vmFilename :: string
  vmNamespace :: Namespace
  vmNotFound :: bool
  vmRef :: string
  vmCommit :: string
  vmDefault :: bool
  vmDefaultAt :: go_time
  vmChannels :: string

definition no_file :: ManifestFile where
  "no_file = \<lparr>mvContent = [], mvFilename = [], mvMeta = None, mvRef = [], mvCommit = [],
     mvDefault = False, mvChannels = [], mvDefaultAt = zero_time\<rparr>"

definition TrimSuffix :: "string \<Rightarrow> string \<Rightarrow> string" where
  "TrimSuffix p s = (if HasSuffix s p then take (length s - length p) s else s)"

text \<open>
  The cache directory: the meta sidecars by entry name (the file name less \<open>metaSuffix\<close>), the
  manifests by file name; and the workdirs.  A file is found under any spelling the file system
  takes for its name; a rename over it leaves the spelling it was renamed to.
\<close>

record vault_disk =
  vdMetas :: "(string \<times> VaultMetadata) list"
  vdFiles :: "(string \<times> string) list"
  vdDirs :: "string list list"

fun file_get :: "vault_env \<Rightarrow> (string \<times> 'v) list \<Rightarrow> string \<Rightarrow> 'v option" where
  "file_get env [] name = None"
| "file_get env ((k, v) # fs) name = (if same_name env k name then Some v else file_get env fs name)"

fun file_put :: "vault_env \<Rightarrow> (string \<times> 'v) list \<Rightarrow> string \<Rightarrow> 'v \<Rightarrow> (string \<times> 'v) list" where
  "file_put env [] name v = [(name, v)]"
| "file_put env ((k, x) # fs) name v =
     (if same_name env k name then (name, v) # fs else (k, x) # file_put env fs name v)"

definition file_del :: "vault_env \<Rightarrow> (string \<times> 'v) list \<Rightarrow> string \<Rightarrow> (string \<times> 'v) list" where
  "file_del env fs name = filter (\<lambda>p. \<not> same_name env (fst p) name) fs"

text \<open>\<open>os.Remove\<close> of any file of the cache directory, a meta sidecar or a manifest.\<close>

definition remove_file :: "vault_env \<Rightarrow> vault_disk \<Rightarrow> string \<Rightarrow> vault_disk" where
  "remove_file env s f =
     s\<lparr>vdFiles := file_del env (vdFiles s) f,
       vdMetas := filter (\<lambda>p. \<not> same_name env (fst p @ metaSuffix) f) (vdMetas s)\<rparr>"

text \<open>\<open>filepath.Ext\<close>.\<close>

definition path_Ext :: "string \<Rightarrow> string" where
  "path_Ext p =
     (let f = rev (takeWhile (\<lambda>c. c \<noteq> CHR ''/'') (rev p))
      in if CHR ''.'' \<in> set f then CHR ''.'' # rev (takeWhile (\<lambda>c. c \<noteq> CHR ''.'') (rev f)) else [])"


text \<open>\<open>os.ReadDir\<close> lists a directory by file name, whatever order it was written in.\<close>

definition meta_entries :: "vault_disk \<Rightarrow> string list" where
  "meta_entries s = map (TrimSuffix metaSuffix) (sort_Strings (map (\<lambda>n. n @ metaSuffix) (keys (vdMetas s))))"

definition readCachedMeta :: "vault_env \<Rightarrow> vault_disk \<Rightarrow> Namespace \<Rightarrow> (VaultMetadata \<times> string) option" where
  "readCachedMeta env s ns =
     (case find (\<lambda>name. file_get env (vdMetas s) name \<noteq> None) (cacheNames (veDigest env) ns) of
        None \<Rightarrow> None
      | Some name \<Rightarrow> map_option (\<lambda>m. (m, name)) (file_get env (vdMetas s) name))"

definition getArrow :: "vault_env \<Rightarrow> go_time \<Rightarrow> vault_disk \<Rightarrow> Namespace \<Rightarrow> ManifestFile \<times> vault_error option" where
  "getArrow env now s ns =
     (case readCachedMeta env s ns of
        None \<Rightarrow> (no_file, Some ErrNotCached)
      | Some (meta, name) \<Rightarrow>
          if vmNotFound meta then
            (if now - vmCachedAt meta > veTTL env then (no_file, Some ErrNotCached)
             else (no_file\<lparr>mvCommit := vmCommit meta\<rparr>, Some ErrConfirmedAbsent))
          else (case file_get env (vdFiles s) (name @ path_Ext (vmFilename meta)) of
              None \<Rightarrow> (no_file, Some ErrNotCached)
            | Some content \<Rightarrow>
                (\<lparr>mvContent = content, mvFilename = vmFilename meta, mvMeta = None, mvRef = vmRef meta,
                   mvCommit = vmCommit meta, mvDefault = vmDefault meta, mvChannels = vmChannels meta,
                   mvDefaultAt = vmDefaultAt meta\<rparr>,
                 if now - vmCachedAt meta > veTTL env then Some ErrStale else None)))"

definition putArrowNotFound :: "vault_env \<Rightarrow> go_time \<Rightarrow> vault_disk \<Rightarrow> Namespace \<Rightarrow> string \<Rightarrow> vault_disk" where
  "putArrowNotFound env now s ns commit =
     s\<lparr>vdMetas := file_put env (vdMetas s) (encodeNS (veDigest env) ns)
         \<lparr>vmCachedAt = now, vmFilename = [], vmNamespace = ns, vmNotFound = True, vmRef = [],
          vmCommit = commit, vmDefault = False, vmDefaultAt = zero_time, vmChannels = []\<rparr>\<rparr>"

definition keepPrevious :: "vault_env \<Rightarrow> go_time \<Rightarrow> vault_disk \<Rightarrow> Namespace \<Rightarrow> ManifestFile \<Rightarrow> ManifestFile \<times> go_time" where
  "keepPrevious env now s ns file =
     (let defaultAt = (if mvDefault file then now else zero_time)
      in case readCachedMeta env s ns of
           None \<Rightarrow> (file, defaultAt)
         | Some (prev, name) \<Rightarrow>
             (let (file', defaultAt') =
                (if \<not> mvDefault file \<and> vmDefault prev then (file\<lparr>mvDefault := True\<rparr>, vmDefaultAt prev)
                 else (file, defaultAt))
              in (if mvChannels file' = [] then file'\<lparr>mvChannels := vmChannels prev\<rparr> else file', defaultAt')))"

text \<open>The index the vault keeps beside the cache is not modelled: \<open>mvMeta\<close> is not stored.\<close>

definition putArrow :: "vault_env \<Rightarrow> go_time \<Rightarrow> vault_disk \<Rightarrow> Namespace \<Rightarrow> ManifestFile \<Rightarrow> vault_error option \<times> vault_disk" where
  "putArrow env now s ns file =
     (case namespacePath env (vdDirs s) ns of
        Inl e \<Rightarrow> (Some e, s)
      | Inr workdir \<Rightarrow>
          (let name = encodeNS (veDigest env) ns;
               (file', defaultAt) = keepPrevious env now s ns file
           in (None,
               \<lparr>vdMetas = file_put env (vdMetas s) name
                  \<lparr>vmCachedAt = now, vmFilename = mvFilename file', vmNamespace = ns, vmNotFound = False,
                   vmRef = mvRef file', vmCommit = mvCommit file', vmDefault = mvDefault file',
                   vmDefaultAt = defaultAt, vmChannels = mvChannels file'\<rparr>,
                vdFiles = file_put env (vdFiles s) (name @ path_Ext (mvFilename file)) (mvContent file),
                vdDirs = mkdir_all env [] workdir (vdDirs s)\<rparr>)))"

definition deleteCacheEntry :: "vault_env \<Rightarrow> vault_disk \<Rightarrow> string \<Rightarrow> vault_disk" where
  "deleteCacheEntry env s name =
     (case file_get env (vdMetas s) name of
        None \<Rightarrow> s
      | Some meta \<Rightarrow> remove_file env (remove_file env s (name @ path_Ext (vmFilename meta))) (name @ metaSuffix))"

definition deleteArrow :: "vault_env \<Rightarrow> vault_disk \<Rightarrow> Namespace \<Rightarrow> vault_disk" where
  "deleteArrow env s ns = foldl (deleteCacheEntry env) s (cacheNames (veDigest env) ns)"

definition cachedNamespace :: "vault_env \<Rightarrow> vault_disk \<Rightarrow> string \<Rightarrow> Namespace option" where
  "cachedNamespace env s encoded =
     (if isHashed encoded then
        (case file_get env (vdMetas s) encoded of
           None \<Rightarrow> None
         | Some meta \<Rightarrow> if vmNamespace meta \<noteq> [] then Some (vmNamespace meta) else None)
      else PathUnescape encoded)"

definition listVersions :: "vault_env \<Rightarrow> vault_disk \<Rightarrow> Namespace \<Rightarrow> string list" where
  "listVersions env s ns =
     concat (map (\<lambda>name. case cachedNamespace env s name of
         None \<Rightarrow> []
       | Some candidate \<Rightarrow>
           if BareNamespace candidate \<noteq> BareNamespace ns then []
           else if Ref candidate \<noteq> [] then [Ref candidate] else [])
       (meta_entries s))"

definition sweepCacheEntry :: "vault_env \<Rightarrow> vault_disk \<Rightarrow> string \<Rightarrow> vault_disk" where
  "sweepCacheEntry env s name = (if cachedNamespace env s name = None then s else deleteCacheEntry env s name)"

definition sweepArrows :: "vault_env \<Rightarrow> go_time \<Rightarrow> vault_disk \<Rightarrow> vault_disk" where
  "sweepArrows env now s =
     foldl (\<lambda>d name. case file_get env (vdMetas d) name of
         None \<Rightarrow> d
       | Some meta \<Rightarrow> if now - vmCachedAt meta \<le> veTTL env then d else sweepCacheEntry env d name)
       s (meta_entries s)"

text \<open>The methods of the \<open>Vault\<close> interface refuse an invalid namespace first.\<close>

definition GetArrow :: "vault_env \<Rightarrow> go_time \<Rightarrow> vault_disk \<Rightarrow> Namespace \<Rightarrow> ManifestFile \<times> vault_error option" where
  "GetArrow env now s ns =
     (if Namespace_Validate ns \<noteq> None then (no_file, Some ErrVaultNamespace) else getArrow env now s ns)"

definition PutArrow :: "vault_env \<Rightarrow> go_time \<Rightarrow> vault_disk \<Rightarrow> Namespace \<Rightarrow> ManifestFile \<Rightarrow> vault_error option \<times> vault_disk" where
  "PutArrow env now s ns file =
     (if Namespace_Validate ns \<noteq> None then (Some ErrVaultNamespace, s) else putArrow env now s ns file)"

definition PutArrowNotFound :: "vault_env \<Rightarrow> go_time \<Rightarrow> vault_disk \<Rightarrow> Namespace \<Rightarrow> string \<Rightarrow> vault_error option \<times> vault_disk" where
  "PutArrowNotFound env now s ns commit =
     (if Namespace_Validate ns \<noteq> None then (Some ErrVaultNamespace, s)
      else (None, putArrowNotFound env now s ns commit))"

definition DeleteArrow :: "vault_env \<Rightarrow> vault_disk \<Rightarrow> Namespace \<Rightarrow> vault_error option \<times> vault_disk" where
  "DeleteArrow env s ns =
     (if Namespace_Validate ns \<noteq> None then (Some ErrVaultNamespace, s) else (None, deleteArrow env s ns))"

definition ListVersions :: "vault_env \<Rightarrow> vault_disk \<Rightarrow> Namespace \<Rightarrow> string list" where
  "ListVersions env s ns = (if Namespace_Validate (BareNamespace ns) \<noteq> None then [] else listVersions env s ns)"

definition WorkDir :: "vault_env \<Rightarrow> vault_disk \<Rightarrow> Namespace \<Rightarrow> (vault_error + string list) \<times> vault_disk" where
  "WorkDir env s ns =
     (if Namespace_Validate ns \<noteq> None then (Inl ErrVaultNamespace, s)
      else (case namespacePath env (vdDirs s) ns of
          Inl e \<Rightarrow> (Inl e, s)
        | Inr dir \<Rightarrow> (Inr dir, s\<lparr>vdDirs := mkdir_all env [] dir (vdDirs s)\<rparr>)))"

section \<open>Names of distinct identities\<close>

text \<open>
  An identity is a bare namespace and a selector.  Git allows no \<open>~\<close> in a ref, and two identities
  whose SHA-256 digests agree in their first 128 bits are taken not to occur.
\<close>

definition hex_digest :: "string \<Rightarrow> bool" where
  "hex_digest d \<longleftrightarrow> length d = 64 \<and> list_all (\<lambda>c. is_digit c \<or> (CHR ''a'' \<le> c \<and> c \<le> CHR ''f'')) d"

definition identity :: "Namespace \<Rightarrow> bool" where
  "identity ns \<longleftrightarrow> Ref ns \<noteq> [] \<and> CHR ''~'' \<notin> set (Ref ns)"

definition digests_apart :: "(Namespace \<Rightarrow> string) \<Rightarrow> Namespace \<Rightarrow> Namespace \<Rightarrow> bool" where
  "digests_apart digest m n \<longleftrightarrow> hex_digest (digest m) \<and> hex_digest (digest n) \<and>
     take hashLen (digest m) \<noteq> take hashLen (digest n)"

definition name_body :: "Namespace \<Rightarrow> string \<Rightarrow> bool" where
  "name_body ns name \<longleftrightarrow> PathUnescape name = Some ns \<and> (\<exists>p e. name = p @ ''@'' @ e \<and> CHR ''~'' \<notin> set e)"

definition name_capped :: "(Namespace \<Rightarrow> string) \<Rightarrow> Namespace \<Rightarrow> string \<Rightarrow> bool" where
  "name_capped digest ns name \<longleftrightarrow> (\<exists>pre. name = pre @ ''~'' @ take hashLen (digest ns))"

lemma capName_cases:
  "capName digest name ns = name \<or> name_capped digest ns (capName digest name ns)"
  by (auto simp: capName_def name_capped_def hashedMarker_def Let_def)

lemma ns_cut: "Ref ns \<noteq> [] \<Longrightarrow> cut_byte CHR ''@'' ns = Some (BareNamespace ns, Ref ns)"
  by (auto simp: Ref_def BareNamespace_def split: option.splits)

lemma ns_parts: "Ref ns \<noteq> [] \<Longrightarrow> ns = BareNamespace ns @ ''@'' @ Ref ns"
  using ns_cut [of ns] by (simp add: cut_byte_Some)

lemma tilde_pct [simp]: "CHR ''~'' \<notin> set (pct c)"
proof -
  have "list_all (\<lambda>n. upper_hex n \<noteq> CHR ''~'') [0..<16]" by code_simp
  then show ?thesis by (auto simp: pct_def list_all_iff)
qed

lemma tilde_encodeRefSegment [simp]: "CHR ''~'' \<notin> set (encodeRefSegment r)"
  by (induction r) (auto simp: mustEscapeIdentity_def identityReserved_def windowsReserved_def)

lemma tilde_PathEscape: "CHR ''~'' \<notin> set r \<Longrightarrow> CHR ''~'' \<notin> set (PathEscape r)"
  by (auto simp: PathEscape_def split: if_splits)

definition colon_pct :: "string \<Rightarrow> string" where
  "colon_pct s = concat (map (\<lambda>c. if c = CHR '':'' then ''%3A'' else [c]) s)"

lemma colon_pct_simps [simp]:
  "colon_pct [] = []" "colon_pct (s @ t) = colon_pct s @ colon_pct t"
  "colon_pct (c # s) = (if c = CHR '':'' then ''%3A'' else [c]) @ colon_pct s"
  by (simp_all add: colon_pct_def)

lemma colon_pct_pct [simp]: "colon_pct (pct c) = pct c"
proof -
  have "list_all (\<lambda>n. upper_hex n \<noteq> CHR '':'') [0..<16]" by code_simp
  then show ?thesis by (simp add: pct_def list_all_iff)
qed

lemma PathEscape_simps [simp]:
  "PathEscape [] = []" "PathEscape (c # r) = (if path_unreserved c then [c] else pct c) @ PathEscape r"
  by (simp_all add: PathEscape_def)

lemma unescape_colon_pct [simp]: "PathUnescape (colon_pct (PathEscape r)) = Some r"
proof (induction r)
  case (Cons c r)
  have "path_unreserved c \<Longrightarrow> c \<noteq> CHR ''%''" by (auto simp: path_unreserved_def is_letter_def is_digit_def is_lower_def is_upper_def)
  moreover have "ishex CHR ''3''" "ishex CHR ''A''" "char_of (16 * unhex CHR ''3'' + unhex CHR ''A'') = CHR '':''"
    by code_simp+
  ultimately show ?case using Cons by (cases "c = CHR '':''") auto
qed simp

lemma tilde_colon_pct: "CHR ''~'' \<notin> set s \<Longrightarrow> CHR ''~'' \<notin> set (colon_pct s)"
  by (auto simp: colon_pct_def split: if_splits)

lemma unescape_at [simp]: "PathUnescape (''@'' @ s) = map_option ((#) CHR ''@'') (PathUnescape s)"
  by simp

lemma name_bodyI:
  assumes "ns = b @ ''@'' @ r" "PathUnescape e = Some r" "CHR ''~'' \<notin> set e"
  shows "name_body ns (PathEscape b @ ''@'' @ e)"
  using assms unfolding name_body_def by (intro conjI exI [of _ "PathEscape b"] exI [of _ e]) simp_all

lemma legacyEncodeNS_body:
  assumes "identity ns"
  shows "name_body ns (legacyEncodeNS ns)"
proof -
  have r: "Ref ns \<noteq> []" "CHR ''~'' \<notin> set (Ref ns)" using assms by (auto simp: identity_def)
  have "legacyEncodeNS ns = PathEscape (BareNamespace ns) @ ''@'' @ colon_pct (PathEscape (Ref ns))"
    by (simp add: legacyEncodeNS_def ns_cut [OF r(1)] colon_pct_def)
  then show ?thesis
    using name_bodyI [OF ns_parts [OF r(1)] unescape_colon_pct tilde_colon_pct [OF tilde_PathEscape [OF r(2)]]] by simp
qed

lemma encodeNS_body:
  assumes "identity ns"
  shows "name_body ns (encodeNS digest ns) \<or> name_capped digest ns (encodeNS digest ns)"
proof -
  have r: "Ref ns \<noteq> []" using assms by (auto simp: identity_def)
  let ?n = "PathEscape (BareNamespace ns) @ ''@'' @ encodeRefSegment (Ref ns)"
  have "name_body ns ?n"
    by (rule name_bodyI [OF ns_parts [OF r]]) simp_all
  moreover have "encodeNS digest ns = capName digest ?n ns"
    by (simp add: encodeNS_def ns_cut [OF r])
  ultimately show ?thesis using capName_cases [of digest ?n ns] by metis
qed

lemma cacheNames_sub: "set (cacheNames digest ns) \<subseteq> {encodeNS digest ns, legacyEncodeNS ns}"
  by (auto simp: cacheNames_def Let_def)

lemma cacheNames_hd: "encodeNS digest ns \<in> set (cacheNames digest ns)"
  by (auto simp: cacheNames_def Let_def)

lemma split_apart: "xs @ a # ys = us @ b # vs \<Longrightarrow> a \<noteq> b \<Longrightarrow> a \<in> set vs \<or> b \<in> set ys"
  by (auto simp: append_eq_append_conv2 Cons_eq_append_conv append_eq_Cons_conv)

lemma hex_digest_at: "hex_digest d \<Longrightarrow> CHR ''@'' \<notin> set (take n d)"
  by (auto simp: hex_digest_def list_all_iff is_digit_def dest!: in_set_takeD)

lemma cacheNames_apart:
  assumes m: "identity m" and n: "identity n" and ne: "m \<noteq> n" and d: "digests_apart digest m n"
  shows "set (cacheNames digest m) \<inter> set (cacheNames digest n) = {}"
proof -
  have k: "name_body k x \<or> name_capped digest k x" if "x \<in> set (cacheNames digest k)" "identity k" for k x
    using that cacheNames_sub [of digest k] legacyEncodeNS_body [of k] encodeNS_body [of k digest] by auto
  have mixed: False if b: "name_body k x" and c: "name_capped digest l x" and h: "hex_digest (digest l)" for k l x
  proof -
    from b c obtain p e pre where "x = p @ CHR ''@'' # e" "CHR ''~'' \<notin> set e"
      "x = pre @ CHR ''~'' # take hashLen (digest l)"
      by (auto simp: name_body_def name_capped_def)
    with split_apart [of p "CHR ''@''" e pre "CHR ''~''" "take hashLen (digest l)"] hex_digest_at [OF h]
    show False by auto
  qed
  have len: "length (take hashLen (digest m)) = length (take hashLen (digest n))"
    using d by (simp add: digests_apart_def hex_digest_def)
  have False if "x \<in> set (cacheNames digest m)" "x \<in> set (cacheNames digest n)" for x
    using k [OF that(1) m] k [OF that(2) n] mixed [of m x n] mixed [of n x m] d ne len
    by (auto simp: name_body_def name_capped_def digests_apart_def append_eq_append_conv)
  then show ?thesis by blast
qed

lemma lower_hex [simp]: "hex_digest d \<Longrightarrow> ToLower (take k d) = take k d"
proof -
  assume "hex_digest d"
  then have "\<forall>c \<in> set (take k d). \<not> is_upper c"
    by (auto simp: hex_digest_def list_all_iff is_digit_def is_upper_def less_eq_char_def dest!: in_set_takeD)
  then show ?thesis by (auto simp: ToLower_def lower_char_def intro!: map_idI)
qed

lemma of_char_lower: "is_upper c \<Longrightarrow> (of_char (lower_char c) :: nat) = of_char c + 32"
proof -
  assume u: "is_upper c"
  then have "of_char c + (32 :: nat) < 256" by (simp add: is_upper_def)
  with u show ?thesis by (simp add: lower_char_def)
qed

lemma lower_char_eq: "lower_char c = d \<Longrightarrow> \<not> is_lower d \<Longrightarrow> c = d"
proof (cases "is_upper c")
  case True
  assume "lower_char c = d" "\<not> is_lower d"
  with of_char_lower [OF True] True show "c = d" by (auto simp: is_upper_def is_lower_def)
qed (simp add: lower_char_def)

lemma in_ToLower: "d \<in> set (ToLower s) \<Longrightarrow> \<not> is_lower d \<Longrightarrow> d \<in> set s"
  unfolding ToLower_def using lower_char_eq by (metis imageE set_map)

lemma special_not_lower [simp]:
  "\<not> is_lower CHR ''@''" "\<not> is_lower CHR ''~''" "\<not> is_lower CHR ''/''"
  "lower_char CHR ''@'' = CHR ''@''" "lower_char CHR ''~'' = CHR ''~''"
  by code_simp+

definition file_name :: "(Namespace \<Rightarrow> string) \<Rightarrow> string \<Rightarrow> Namespace \<Rightarrow> string" where
  "file_name digest stem ns = capName digest (stem @ ''@'' @ encodeRefSegment (Ref ns)) ns"

lemma file_name_cases:
  obtains "file_name digest stem ns = stem @ ''@'' @ encodeRefSegment (Ref ns)"
  | pre where "file_name digest stem ns = pre @ ''~'' @ take hashLen (digest ns)"
  using capName_cases [of digest "stem @ ''@'' @ encodeRefSegment (Ref ns)" ns]
  by (auto simp: file_name_def name_capped_def)

lemma file_name_fold_apart:
  assumes d: "digests_apart digest m n" and r: "Ref m \<noteq> Ref n"
  shows "ToLower (file_name digest x m) \<noteq> ToLower (file_name digest x n)"
proof
  assume eq: "ToLower (file_name digest x m) = ToLower (file_name digest x n)"
  have h: "hex_digest (digest m)" "hex_digest (digest n)" "length (digest m) = 64" "length (digest n) = 64"
    using d by (auto simp: digests_apart_def hex_digest_def)
  have mixed: False
    if e: "ToLower (y @ ''@'' @ encodeRefSegment r) = ToLower (pre @ ''~'' @ take hashLen dg)"
      and g: "hex_digest dg" for y r pre dg
  proof -
    have "ToLower y @ CHR ''@'' # ToLower (encodeRefSegment r) = ToLower pre @ CHR ''~'' # take hashLen dg"
      using e g by simp
    with split_apart [OF this] hex_digest_at [OF g] in_ToLower [of "CHR ''~''" "encodeRefSegment r"]
    show False by auto
  qed
  show False
  proof (cases rule: file_name_cases [where digest = digest and ns = m and stem = x])
    case 1
    show False
    proof (cases rule: file_name_cases [where digest = digest and ns = n and stem = x])
      case 1
      with \<open>file_name digest x m = _\<close> eq r show False
        using encodeRefSegment_fold_inj [of "Ref m" "Ref n"] by (simp add: EqualFold_def)
    next
      case (2 pre)
      with \<open>file_name digest x m = _\<close> eq mixed [of x "Ref m" pre "digest n"] h show False by simp
    qed
  next
    case (2 pre)
    show False
    proof (cases rule: file_name_cases [where digest = digest and ns = n and stem = x])
      case 1
      with 2 eq mixed [of x "Ref n" pre "digest m"] h show False by simp
    next
      case (2 pre')
      with \<open>file_name digest x m = _\<close> eq d h show False
        by (auto simp: digests_apart_def append_eq_append_conv hex_digest_def)
    qed
  qed
qed

lemma encodeNS_file_name: "Ref ns \<noteq> [] \<Longrightarrow> encodeNS digest ns = file_name digest (PathEscape (BareNamespace ns)) ns"
  by (simp add: encodeNS_def ns_cut file_name_def)

lemma identityDir_file_name:
  "Ref ns \<noteq> [] \<Longrightarrow> identityDir digest ns =
     fst (path_Split (BareNamespace ns)) @ file_name digest (snd (path_Split (BareNamespace ns))) ns"
  by (simp add: identityDir_def ns_cut file_name_def split: prod.split)

lemma identity_ref_neq: "identity m \<Longrightarrow> identity n \<Longrightarrow> BareNamespace m = BareNamespace n \<Longrightarrow> m \<noteq> n \<Longrightarrow> Ref m \<noteq> Ref n"
  by (metis identity_def ns_parts)

lemma vault_names_fold:
  assumes "identity m" "identity n" "BareNamespace m = BareNamespace n" "m \<noteq> n" "digests_apart digest m n"
  shows "\<not> EqualFold (encodeNS digest m) (encodeNS digest n) \<and> \<not> EqualFold (identityDir digest m) (identityDir digest n)"
  using assms file_name_fold_apart [OF assms(5) identity_ref_neq [OF assms(1-4)]]
  by (auto simp: EqualFold_def identity_def encodeNS_file_name identityDir_file_name)

section \<open>Workdirs never nest\<close>

definition plain_component :: "string \<Rightarrow> bool" where
  "plain_component p \<longleftrightarrow> p \<noteq> [] \<and> p \<noteq> ''.'' \<and> p \<noteq> ''..'' \<and> CHR ''/'' \<notin> set p"

lemma path_clean_plain: "list_all plain_component ps \<Longrightarrow> path_clean acc ps = rev acc @ ps"
  by (induction ps arbitrary: acc) (auto simp: plain_component_def)

lemma slash_pct [simp]: "CHR ''/'' \<notin> set (pct c)"
proof -
  have "list_all (\<lambda>n. upper_hex n \<noteq> CHR ''/'') [0..<16]" by code_simp
  then show ?thesis by (auto simp: pct_def list_all_iff)
qed

lemma slash_encodeRefSegment [simp]: "CHR ''/'' \<notin> set (encodeRefSegment r)"
  by (induction r) (auto simp: mustEscapeIdentity_def identityReserved_def windowsReserved_def)

lemma slash_file_name:
  assumes "CHR ''/'' \<notin> set x" "hex_digest (digest ns)"
  shows "CHR ''/'' \<notin> set (file_name digest x ns)"
  using assms
  by (auto simp: file_name_def capName_def hashedMarker_def Let_def hex_digest_def list_all_iff is_digit_def less_eq_char_def
      dest!: in_set_takeD)

lemma path_Split_parts:
  obtains (root) "path_Split s = ([], s)" "CHR ''/'' \<notin> set s"
  | (dir) u v where "path_Split s = (u @ ''/'', v)" "s = u @ CHR ''/'' # v" "CHR ''/'' \<notin> set v"
proof (cases "CHR ''/'' \<in> set s")
  case True
  then obtain u v where s: "s = u @ CHR ''/'' # v" "CHR ''/'' \<notin> set v" by (meson split_list_last)
  then have t: "takeWhile (\<lambda>c. c \<noteq> CHR ''/'') (rev v @ CHR ''/'' # w) = rev v"
    "dropWhile (\<lambda>c. c \<noteq> CHR ''/'') (rev v @ CHR ''/'' # w) = CHR ''/'' # w" for w
    by (simp_all add: takeWhile_append dropWhile_append)
  have "path_Split s = (u @ ''/'', v)"
    using s(1) by (simp add: path_Split_def t)
  with s dir show ?thesis by blast
next
  case False
  then have "\<forall>c \<in> set (rev s). c \<noteq> CHR ''/''" by auto
  then have "takeWhile (\<lambda>c. c \<noteq> CHR ''/'') (rev s) = rev s" "dropWhile (\<lambda>c. c \<noteq> CHR ''/'') (rev s) = []"
    by (simp_all only: takeWhile_eq_all_conv dropWhile_eq_Nil_conv)
  then have "path_Split s = ([], s)" unfolding path_Split_def by (simp only: rev_rev_ident rev.simps)
  with False root show ?thesis by blast
qed

lemma Split_identityDir:
  assumes "CHR ''/'' \<notin> set f"
  shows "Split (fst (path_Split s) @ f) CHR ''/'' = butlast (Split s CHR ''/'') @ [f]"
  by (cases s rule: path_Split_parts; simp add: Split_no_sep Split_snoc assms)

lemma snd_path_Split [simp]: "snd (path_Split s) = last (Split s CHR ''/'')"
  by (cases s rule: path_Split_parts; simp add: Split_no_sep Split_snoc)


text \<open>
  The directory an identity is given resolves to the components of its namespace and one more,
  which holds a character no namespace segment has.
\<close>

definition plain_namespace :: "Namespace \<Rightarrow> bool" where
  "plain_namespace ns \<longleftrightarrow> list_all plain_component (segments ns) \<and> identity ns"

lemma file_name_plain:
  assumes "CHR ''/'' \<notin> set x" "hex_digest (digest ns)"
  shows "plain_component (file_name digest x ns)"
proof -
  have "CHR ''@'' \<in> set (file_name digest x ns) \<or> CHR ''~'' \<in> set (file_name digest x ns)"
    by (cases rule: file_name_cases [where digest = digest and ns = ns and stem = x]) auto
  then show ?thesis
    using slash_file_name [of x digest ns] assms by (auto simp: plain_component_def)
qed

lemma identity_workdir:
  assumes b: "list_all plain_component (veBase env)" and m: "plain_namespace m" and h: "hex_digest (veDigest env m)"
  shows "underNamespaces env (identityDir (veDigest env) m) =
     Some (butlast (segments m) @ [file_name (veDigest env) (last (segments m)) m])"
proof -
  have s: "list_all plain_component (segments m)" "Ref m \<noteq> []" using m by (auto simp: plain_namespace_def identity_def)
  have l: "CHR ''/'' \<notin> set (last (segments m))" using Split_parts by (metis Split_neq_Nil last_in_set)
  let ?f = "file_name (veDigest env) (last (segments m)) m"
  have f: "plain_component ?f" by (rule file_name_plain) fact+
  have "Split (identityDir (veDigest env) m) CHR ''/'' = butlast (segments m) @ [?f]"
    unfolding identityDir_file_name [OF s(2)] snd_path_Split
    by (rule Split_identityDir) (rule slash_file_name; fact)
  moreover have "list_all plain_component (butlast (segments m))"
    using s(1) by (auto simp: list_all_iff dest: in_set_butlastD)
  ultimately show ?thesis
    using b f by (simp add: underNamespaces_def path_clean_plain)
qed

lemma last_neq: "xs @ [a] = ys @ [b] \<Longrightarrow> a = b \<and> xs = ys"
  by simp

lemma file_name_inj:
  assumes d: "digests_apart digest m n" and x: "CHR ''@'' \<notin> set x" "CHR ''@'' \<notin> set y"
    and eq: "file_name digest x m = file_name digest y n"
  shows "x = y \<and> Ref m = Ref n"
proof -
  have h: "hex_digest (digest m)" "hex_digest (digest n)"
    using d by (auto simp: digests_apart_def)
  have mixed: False
    if "z @ ''@'' @ encodeRefSegment r = pre @ ''~'' @ take hashLen dg" "hex_digest dg" for z r pre dg
    using split_apart [of z "CHR ''@''" _ pre "CHR ''~''"] that hex_digest_at by fastforce
  show ?thesis
  proof (cases rule: file_name_cases [where digest = digest and ns = m and stem = x])
    case m: 1
    show ?thesis
    proof (cases rule: file_name_cases [where digest = digest and ns = n and stem = y])
      case 1
      with m eq have e: "x @ CHR ''@'' # encodeRefSegment (Ref m) = y @ CHR ''@'' # encodeRefSegment (Ref n)"
        by simp
      then have "cut_byte CHR ''@'' (x @ CHR ''@'' # encodeRefSegment (Ref m)) = Some (y, encodeRefSegment (Ref n))"
        using x(2) by simp
      with x have "x = y" "encodeRefSegment (Ref m) = encodeRefSegment (Ref n)" by auto
      then show ?thesis by (metis option.inject unescape_encodeRefSegment)
    next
      case (2 pre)
      with m eq mixed [of x "Ref m" pre "digest n"] h show ?thesis by simp
    qed
  next
    case m: (2 pre)
    show ?thesis
    proof (cases rule: file_name_cases [where digest = digest and ns = n and stem = y])
      case 1
      with m eq mixed [of y "Ref n" pre "digest m"] h show ?thesis by simp
    next
      case (2 pre')
      with m eq d h show ?thesis
        by (auto simp: digests_apart_def append_eq_append_conv hex_digest_def)
    qed
  qed
qed


lemma at_file_name: "CHR ''@'' \<in> set (file_name digest x ns) \<or> CHR ''~'' \<in> set (file_name digest x ns)"
  by (cases rule: file_name_cases [where digest = digest and ns = ns and stem = x]) auto

lemma segments_no_at: "p \<in> set (segments ns) \<Longrightarrow> CHR ''@'' \<notin> set p"
  using Split_sub BareNamespace_no_at by blast

lemma segments_inj: "segments m = segments n \<Longrightarrow> BareNamespace m = BareNamespace n"
  by (metis Join_Split)

section \<open>On a file system that ignores case\<close>

text \<open>How the file system sees a name.\<close>

definition fold_case :: "vault_env \<Rightarrow> string \<Rightarrow> string" where
  "fold_case env s = (if veFold env then ToLower s else s)"

lemma same_name_fold: "same_name env a b \<longleftrightarrow> fold_case env a = fold_case env b"
  by (simp add: same_name_def fold_case_def EqualFold_def)

lemma same_path: "list_all2 (same_name env) p q \<longleftrightarrow> map (fold_case env) p = map (fold_case env) q"
  by (auto simp: list_all2_conv_all_nth list_eq_iff_nth_eq same_name_fold)

lemma fold_case_append [simp]: "fold_case env (s @ t) = fold_case env s @ fold_case env t"
  by (simp add: fold_case_def)

lemma length_fold_case [simp]: "length (fold_case env s) = length s"
  by (simp add: fold_case_def)

lemma fold_case_simps [simp]:
  "fold_case env [] = []" "fold_case env (c # s) = (if veFold env then lower_char c else c) # fold_case env s"
  by (simp_all add: fold_case_def)

lemma in_fold_case: "d \<in> set (fold_case env s) \<Longrightarrow> \<not> is_lower d \<Longrightarrow> d \<in> set s"
  by (auto simp: fold_case_def in_ToLower split: if_splits)

text \<open>What is left of an escaped string when its name was folded.\<close>

definition soft :: "string \<Rightarrow> string" where
  "soft s = map (\<lambda>c. if path_unreserved c then lower_char c else c) s"

lemma soft_simps [simp]:
  "soft [] = []" "soft (c # s) = (if path_unreserved c then lower_char c else c) # soft s"
  by (simp_all add: soft_def)

lemma lower_char_idem [simp]: "lower_char (lower_char c) = lower_char c"
proof (cases "is_upper c")
  case True
  with of_char_lower [OF True] have "\<not> is_upper (lower_char c)" by (auto simp: is_upper_def)
  then show ?thesis by (simp add: lower_char_def)
qed (simp add: lower_char_def)

lemma ToLower_soft [simp]: "ToLower (soft s) = ToLower s"
  by (induction s) auto

lemma lower_not_percent: "path_unreserved c \<Longrightarrow> lower_char c \<noteq> CHR ''%''"
  using lower_char_eq [of c "CHR ''%''"]
  by (auto simp: path_unreserved_def is_letter_def is_digit_def is_lower_def is_upper_def)

lemma unescape_lower_PathEscape [simp]:
  "PathUnescape (ToLower (PathEscape s) @ t) = map_option ((@) (soft s)) (PathUnescape t)"
proof (induction s)
  case (Cons c s)
  then show ?case using lower_not_percent [of c] by (cases "PathUnescape t") auto
qed (simp add: option.map_ident)

lemma unescape_lower_colon_pct [simp]: "PathUnescape (ToLower (colon_pct (PathEscape r))) = Some (soft r)"
proof (induction r)
  case (Cons c r)
  have "PathUnescape (ToLower ''%3A'' @ t) = map_option ((#) CHR '':'') (PathUnescape t)" for t
  proof -
    have "pct CHR '':'' = ''%3A''" by code_simp
    then show ?thesis using unescape_pct(2) [of "CHR '':''" t] by simp
  qed
  moreover have "path_unreserved CHR '':''" "lower_char CHR '':'' = CHR '':''" by code_simp+
  ultimately show ?case
    using Cons lower_not_percent [of c] by (cases "c = CHR '':''") auto
qed simp

definition fold_body :: "Namespace \<Rightarrow> string \<Rightarrow> bool" where
  "fold_body ns x \<longleftrightarrow>
     (\<exists>k p e. PathUnescape x = Some k \<and> ToLower k = ToLower ns \<and> x = p @ ''@'' @ e \<and> CHR ''~'' \<notin> set e)"

lemma fold_bodyI:
  assumes "ns = b @ ''@'' @ r" "PathUnescape (ToLower e) = Some k" "ToLower k = ToLower r" "CHR ''~'' \<notin> set e"
  shows "fold_body ns (ToLower (PathEscape b @ ''@'' @ e))"
proof -
  have "PathUnescape (ToLower (PathEscape b @ ''@'' @ e)) = Some (soft b @ ''@'' @ k)"
    using assms(2) by simp
  moreover have "ToLower (soft b @ ''@'' @ k) = ToLower ns" using assms(1,3) by simp
  moreover have "ToLower (PathEscape b @ ''@'' @ e) = ToLower (PathEscape b) @ ''@'' @ ToLower e" by simp
  moreover have "CHR ''~'' \<notin> set (ToLower e)" using assms(4) in_ToLower [of "CHR ''~''" e] by auto
  ultimately show ?thesis unfolding fold_body_def by blast
qed

lemma cacheNames_fold:
  assumes "identity ns" "x \<in> set (cacheNames digest ns)" "hex_digest (digest ns)"
  shows "fold_body ns (ToLower x) \<or> name_capped digest ns (ToLower x)"
proof -
  have r: "Ref ns \<noteq> []" "CHR ''~'' \<notin> set (Ref ns)" using assms(1) by (auto simp: identity_def)
  let ?b = "BareNamespace ns" and ?r = "Ref ns"
  have l: "fold_body ns (ToLower (PathEscape ?b @ ''@'' @ colon_pct (PathEscape ?r)))"
    by (rule fold_bodyI [OF ns_parts [OF r(1)], of _ "soft ?r"]) (simp_all add: tilde_colon_pct tilde_PathEscape r)
  have c: "fold_body ns (ToLower (PathEscape ?b @ ''@'' @ encodeRefSegment ?r))"
    by (rule fold_bodyI [OF ns_parts [OF r(1)], of _ ?r]) simp_all
  have capped: "name_capped digest ns (ToLower y)" if n: "name_capped digest ns y" for y
  proof -
    from n obtain pre where "y = pre @ ''~'' @ take hashLen (digest ns)" by (auto simp: name_capped_def)
    then have "ToLower y = ToLower pre @ ''~'' @ take hashLen (digest ns)"
      using lower_hex [OF assms(3)] by simp
    then show ?thesis unfolding name_capped_def by blast
  qed
  have "legacyEncodeNS ns = PathEscape ?b @ ''@'' @ colon_pct (PathEscape ?r)"
    by (simp add: legacyEncodeNS_def ns_cut [OF r(1)] colon_pct_def)
  moreover have "encodeNS digest ns = capName digest (PathEscape ?b @ ''@'' @ encodeRefSegment ?r) ns"
    by (simp add: encodeNS_def ns_cut [OF r(1)])
  moreover have "x = encodeNS digest ns \<or> x = legacyEncodeNS ns"
    using assms(2) cacheNames_sub [of digest ns] by auto
  ultimately show ?thesis
    using l c capped capName_cases [of digest "PathEscape ?b @ ''@'' @ encodeRefSegment ?r" ns] by metis
qed

text \<open>Names of identities that differ other than by case never fold together, legacy ones included.\<close>

lemma cacheNames_fold_apart:
  assumes m: "identity m" and n: "identity n" and ne: "\<not> EqualFold m n" and d: "digests_apart digest m n"
    and x: "x \<in> set (cacheNames digest m)" and y: "y \<in> set (cacheNames digest n)"
  shows "\<not> EqualFold x y"
proof
  assume "EqualFold x y"
  then have xy: "ToLower x = ToLower y" by (simp add: EqualFold_def)
  have h: "hex_digest (digest m)" "hex_digest (digest n)" using d by (auto simp: digests_apart_def)
  have mixed: False if b: "fold_body k z" and c: "name_capped digest l z" and h: "hex_digest (digest l)" for k l z
  proof -
    from b c obtain p e pre where "z = p @ CHR ''@'' # e" "CHR ''~'' \<notin> set e"
      "z = pre @ CHR ''~'' # take hashLen (digest l)"
      by (auto simp: fold_body_def name_capped_def)
    with split_apart [of p "CHR ''@''" e pre "CHR ''~''" "take hashLen (digest l)"] hex_digest_at [OF h]
    show False by auto
  qed
  have len: "length (take hashLen (digest m)) = length (take hashLen (digest n))"
    using d by (simp add: digests_apart_def hex_digest_def)
  have bodies: False if "fold_body m z" "fold_body n z" for z
    using that ne by (auto simp: fold_body_def EqualFold_def)
  have caps: False if "name_capped digest m z" "name_capped digest n z" for z
    using that d len by (auto simp: name_capped_def digests_apart_def append_eq_append_conv)
  show False
    using cacheNames_fold [OF m x h(1)] cacheNames_fold [OF n y h(2)] bodies caps
      mixed [of m "ToLower x" n] mixed [of n "ToLower x" m] h unfolding xy by blast
qed

lemma file_name_fold_inj:
  assumes d: "digests_apart digest m n" and x: "CHR ''@'' \<notin> set x" "CHR ''@'' \<notin> set y"
    and eq: "fold_case env (file_name digest x m) = fold_case env (file_name digest y n)"
  shows "fold_case env x = fold_case env y \<and> Ref m = Ref n"
proof (cases "veFold env")
  case False
  with file_name_inj [OF d x] eq show ?thesis by (simp add: fold_case_def)
next
  case True
  with eq have e: "ToLower (file_name digest x m) = ToLower (file_name digest y n)" by (simp add: fold_case_def)
  have h: "hex_digest (digest m)" "hex_digest (digest n)" using d by (auto simp: digests_apart_def)
  have mixed: False
    if "ToLower (z @ ''@'' @ encodeRefSegment r) = ToLower (pre @ ''~'' @ take hashLen dg)" "hex_digest dg" for z r pre dg
  proof -
    have "ToLower z @ CHR ''@'' # ToLower (encodeRefSegment r) = ToLower pre @ CHR ''~'' # take hashLen dg"
      using that by simp
    with split_apart [OF this] hex_digest_at [OF that(2)] in_ToLower [of "CHR ''~''" "encodeRefSegment r"]
    show False by auto
  qed
  show ?thesis
  proof (cases rule: file_name_cases [where digest = digest and ns = m and stem = x])
    case m: 1
    show ?thesis
    proof (cases rule: file_name_cases [where digest = digest and ns = n and stem = y])
      case 1
      with m e have e: "ToLower x @ CHR ''@'' # ToLower (encodeRefSegment (Ref m)) =
          ToLower y @ CHR ''@'' # ToLower (encodeRefSegment (Ref n))"
        by simp
      have at: "CHR ''@'' \<notin> set (ToLower x)" "CHR ''@'' \<notin> set (ToLower y)"
        using x in_ToLower [of "CHR ''@''" x] in_ToLower [of "CHR ''@''" y] by auto
      have "cut_byte CHR ''@'' (ToLower x @ CHR ''@'' # ToLower (encodeRefSegment (Ref m))) =
        Some (ToLower y, ToLower (encodeRefSegment (Ref n)))"
        unfolding e using at(2) by simp
      with at have "ToLower x = ToLower y" "ToLower (encodeRefSegment (Ref m)) = ToLower (encodeRefSegment (Ref n))"
        by auto
      then show ?thesis
        using True encodeRefSegment_fold_inj [of "Ref m" "Ref n"] by (simp add: fold_case_def EqualFold_def)
    next
      case (2 pre)
      with m e mixed [of x "Ref m" pre "digest n"] h show ?thesis by simp
    qed
  next
    case m: (2 pre)
    show ?thesis
    proof (cases rule: file_name_cases [where digest = digest and ns = n and stem = y])
      case 1
      with m e mixed [of y "Ref n" pre "digest m"] h show ?thesis by simp
    next
      case (2 pre')
      with m e d h show ?thesis
        by (auto simp: digests_apart_def append_eq_append_conv hex_digest_def)
    qed
  qed
qed

lemma map_butlast_last:
  assumes "xs \<noteq> []" "ys \<noteq> []" "map f (butlast xs) = map f (butlast ys)" "f (last xs) = f (last ys)"
  shows "map f xs = map f ys"
proof -
  have "map f xs = map f (butlast xs) @ [f (last xs)]"
    using append_butlast_last_id [OF assms(1)] by (metis list.simps(8,9) map_append)
  also have "\<dots> = map f (butlast ys) @ [f (last ys)]" using assms(3,4) by simp
  also have "\<dots> = map f ys"
    using append_butlast_last_id [OF assms(2)] by (metis list.simps(8,9) map_append)
  finally show ?thesis .
qed

lemma fold_case_Join: "fold_case env (Join xs ''/'') = Join (map (fold_case env) xs) ''/''"
proof -
  have "lower_char CHR ''/'' = CHR ''/''" by code_simp
  then show ?thesis by (induction xs rule: induct_list012) simp_all
qed

lemma fold_case_segments:
  "map (fold_case env) (segments m) = map (fold_case env) (segments n) \<Longrightarrow>
   fold_case env (BareNamespace m) = fold_case env (BareNamespace n)"
  using fold_case_Join [of env "segments m"] fold_case_Join [of env "segments n"] by simp

lemma identity_workdirs_fold_apart:
  assumes v: "Namespace_Validate m = None" "Namespace_Validate n = None"
    and p: "plain_namespace m" "plain_namespace n" and r: "CHR ''~'' \<notin> set (segments n ! 2)"
    and d: "digests_apart digest m n" and ne: "m \<noteq> n"
    and f: "same_name env (BareNamespace m) (BareNamespace n) \<longrightarrow> BareNamespace m = BareNamespace n"
  shows "\<not> list_all2 (same_name env) (butlast (segments m) @ [file_name digest (last (segments m)) m])
    (take (length (segments m)) (butlast (segments n) @ [file_name digest (last (segments n)) n]))"
proof
  let ?F = "fold_case env" and ?M = "file_name digest (last (segments m)) m" and ?N = "file_name digest (last (segments n)) n"
  assume "list_all2 (same_name env) (butlast (segments m) @ [?M]) (take (length (segments m)) (butlast (segments n) @ [?N]))"
  then have eq: "map ?F (butlast (segments m) @ [?M]) = map ?F (take (length (segments m)) (butlast (segments n) @ [?N]))"
    by (simp only: same_path)
  have l: "length (segments m) \<in> {3, 4}" "length (segments n) \<in> {3, 4}"
    using v by (auto simp: Namespace_Validate_def split: if_splits)
  have id: "identity m" "identity n" using p by (auto simp: plain_namespace_def)
  from arg_cong [OF eq, of length] have "length (segments m) \<le> length (segments n)" using l by auto
  then consider "length (segments m) = length (segments n)" | "length (segments m) = 3" "length (segments n) = 4"
    using l by auto
  then show False
  proof cases
    case 1
    with eq have e: "map ?F (butlast (segments m)) = map ?F (butlast (segments n))" "?F ?M = ?F ?N"
      using l by auto
    from file_name_fold_inj [of digest m n "last (segments m)" "last (segments n)" env] e(2) d
      segments_no_at [of "last (segments m)" m] segments_no_at [of "last (segments n)" n]
    have s: "?F (last (segments m)) = ?F (last (segments n))" "Ref m = Ref n" by auto
    have "map ?F (segments m) = map ?F (segments n)"
      by (rule map_butlast_last [OF Split_neq_Nil Split_neq_Nil e(1) s(1)])
    then have "same_name env (BareNamespace m) (BareNamespace n)"
      unfolding same_name_fold by (rule fold_case_segments)
    with f s(2) identity_ref_neq [OF id] ne show False by blast
  next
    case 2
    then have "take 3 (segments n) = butlast (segments n)" by (simp add: butlast_conv_take)
    with 2 eq have "map ?F (butlast (segments m) @ [?M]) = map ?F (butlast (segments n))" by simp
    then have "map ?F (butlast (segments m) @ [?M]) ! 2 = map ?F (butlast (segments n)) ! 2" by simp
    then have "?F (segments n ! 2) = ?F ?M"
      using 2 by (simp add: nth_append nth_butlast)
    moreover have "segments n ! 2 \<in> set (segments n)" using 2 by (simp add: nth_mem)
    then have "CHR ''@'' \<notin> set (?F (segments n ! 2))" "CHR ''~'' \<notin> set (?F (segments n ! 2))"
      using r segments_no_at in_fold_case [of "CHR ''@''" env] in_fold_case [of "CHR ''~''" env] by auto
    moreover have "CHR ''@'' \<in> set (?F ?M) \<or> CHR ''~'' \<in> set (?F ?M)"
    proof -
      have "c \<in> set (?F s)" if "c \<in> set s" "lower_char c = c" for c s
        using that by (auto simp: fold_case_def ToLower_def image_iff intro!: bexI [of _ c])
      then show ?thesis using at_file_name [of digest "last (segments m)" m] special_not_lower by blast
    qed
    ultimately show False by simp
  qed
qed

section \<open>The cache as a map from identities\<close>

text \<open>
  What the cache holds for an identity: its metadata and, unless it is a mark that there is no
  manifest, the manifest's bytes.
\<close>

type_synonym cache_entry = "VaultMetadata \<times> string option"

definition entry_of :: "vault_env \<Rightarrow> vault_disk \<Rightarrow> Namespace \<Rightarrow> cache_entry option" where
  "entry_of env s ns =
     map_option (\<lambda>(meta, name). (meta,
         if vmNotFound meta then None else file_get env (vdFiles s) (name @ path_Ext (vmFilename meta))))
       (readCachedMeta env s ns)"

text \<open>\<open>getArrow\<close> reads nothing else.\<close>

definition read_entry :: "go_time \<Rightarrow> go_time \<Rightarrow> cache_entry option \<Rightarrow> ManifestFile \<times> vault_error option" where
  "read_entry ttl now e =
     (case e of
        None \<Rightarrow> (no_file, Some ErrNotCached)
      | Some (meta, content) \<Rightarrow>
          if vmNotFound meta then
            (if now - vmCachedAt meta > ttl then (no_file, Some ErrNotCached)
             else (no_file\<lparr>mvCommit := vmCommit meta\<rparr>, Some ErrConfirmedAbsent))
          else (case content of
              None \<Rightarrow> (no_file, Some ErrNotCached)
            | Some bytes \<Rightarrow>
                (\<lparr>mvContent = bytes, mvFilename = vmFilename meta, mvMeta = None, mvRef = vmRef meta,
                   mvCommit = vmCommit meta, mvDefault = vmDefault meta, mvChannels = vmChannels meta,
                   mvDefaultAt = vmDefaultAt meta\<rparr>,
                 if now - vmCachedAt meta > ttl then Some ErrStale else None)))"

text \<open>What a write leaves in the entry, given the entry's previous metadata.\<close>

definition written_meta :: "go_time \<Rightarrow> Namespace \<Rightarrow> ManifestFile \<Rightarrow> VaultMetadata option \<Rightarrow> VaultMetadata" where
  "written_meta now ns file prev =
     (let kept = (case prev of Some p \<Rightarrow> \<not> mvDefault file \<and> vmDefault p | None \<Rightarrow> False)
      in \<lparr>vmCachedAt = now, vmFilename = mvFilename file, vmNamespace = ns, vmNotFound = False,
          vmRef = mvRef file, vmCommit = mvCommit file, vmDefault = mvDefault file \<or> kept,
          vmDefaultAt = (if mvDefault file then now else if kept then vmDefaultAt (the prev) else zero_time),
          vmChannels = (if mvChannels file = [] then (case prev of Some p \<Rightarrow> vmChannels p | None \<Rightarrow> []) else mvChannels file)\<rparr>)"

definition absent_meta :: "go_time \<Rightarrow> Namespace \<Rightarrow> string \<Rightarrow> VaultMetadata" where
  "absent_meta now ns commit =
     \<lparr>vmCachedAt = now, vmFilename = [], vmNamespace = ns, vmNotFound = True, vmRef = [],
      vmCommit = commit, vmDefault = False, vmDefaultAt = zero_time, vmChannels = []\<rparr>"

datatype vault_op =
    VPut go_time Namespace ManifestFile
  | VAbsent go_time Namespace string
  | VDelete Namespace

fun vault_step :: "vault_env \<Rightarrow> vault_op \<Rightarrow> vault_disk \<Rightarrow> vault_error option \<times> vault_disk" where
  "vault_step env (VPut now ns file) s = PutArrow env now s ns file"
| "vault_step env (VAbsent now ns commit) s = PutArrowNotFound env now s ns commit"
| "vault_step env (VDelete ns) s = DeleteArrow env s ns"

fun entry_step :: "vault_op \<Rightarrow> (Namespace \<rightharpoonup> cache_entry) \<Rightarrow> (Namespace \<rightharpoonup> cache_entry)" where
  "entry_step (VPut now ns file) E =
     E(ns \<mapsto> (written_meta now ns file (map_option fst (E ns)), Some (mvContent file)))"
| "entry_step (VAbsent now ns commit) E = E(ns \<mapsto> (absent_meta now ns commit, None))"
| "entry_step (VDelete ns) E = E(ns := None)"

definition manifest_names :: "string list" where
  "manifest_names = [''ARROW.md'', ''arrow.yaml'']"

text \<open>
  The identities an entry can be told apart from.  Besides having distinct digests, none may be
  filed under a name that ends like another file of the cache does, since the file removed with a
  mark of absence is its entry name alone; and on a file system that ignores case they differ
  other than by case, since the names of earlier layouts do not keep such identities apart.
\<close>

definition file_endings :: "string list" where
  "file_endings = [''.md'', ''.yaml'', metaSuffix]"

definition plain_entry :: "vault_env \<Rightarrow> string \<Rightarrow> bool" where
  "plain_entry env x \<longleftrightarrow> list_all (\<lambda>e. \<not> HasSuffix (fold_case env x) e) file_endings"

definition vault_ident :: "vault_env \<Rightarrow> Namespace \<Rightarrow> bool" where
  "vault_ident env ns \<longleftrightarrow> identity ns \<and> list_all (plain_entry env) (cacheNames (veDigest env) ns)"

definition told_apart :: "vault_env \<Rightarrow> Namespace \<Rightarrow> Namespace \<Rightarrow> bool" where
  "told_apart env m n \<longleftrightarrow> vault_ident env m \<and> vault_ident env n \<and>
     (m = n \<or> digests_apart (veDigest env) m n \<and> (veFold env \<longrightarrow> \<not> EqualFold m n))"

definition vault_inv :: "vault_disk \<Rightarrow> bool" where
  "vault_inv s \<longleftrightarrow> list_all (\<lambda>(name, m). if vmNotFound m then vmFilename m = [] else vmFilename m \<in> set manifest_names) (vdMetas s)"

fun op_ns :: "vault_op \<Rightarrow> Namespace" where
  "op_ns (VPut now ns file) = ns"
| "op_ns (VAbsent now ns commit) = ns"
| "op_ns (VDelete ns) = ns"

fun op_ok :: "vault_op \<Rightarrow> bool" where
  "op_ok (VPut now ns file) = (mvFilename file \<in> set manifest_names)"
| "op_ok (VAbsent now ns commit) = True"
| "op_ok (VDelete ns) = True"

lemma getArrow_entry: "getArrow env now s ns = read_entry (veTTL env) now (entry_of env s ns)"
  by (auto simp: getArrow_def read_entry_def entry_of_def split: option.splits prod.splits)

lemma file_get_put [simp]:
  "file_get env (file_put env fs k v) x = (if same_name env k x then Some v else file_get env fs x)"
  by (induction fs) (auto simp: same_name_fold)

lemma file_get_del [simp]:
  "file_get env (file_del env fs k) x = (if same_name env k x then None else file_get env fs x)"
  by (induction fs) (auto simp: file_del_def same_name_fold)

lemma file_get_SomeD: "file_get env fs k = Some v \<Longrightarrow> v \<in> snd ` set fs"
  by (induction fs) (auto simp: image_iff split: if_splits)

lemma file_get_cong: "same_name env x y \<Longrightarrow> file_get env fs x = file_get env fs y"
  by (induction fs) (auto simp: same_name_fold)

lemma cacheNames_Cons: "\<exists>rest. cacheNames digest ns = encodeNS digest ns # rest"
  by (auto simp: cacheNames_def Let_def)

lemma manifest_exts: "f \<in> set manifest_names \<Longrightarrow> path_Ext f \<in> {''.md'', ''.yaml''}"
proof -
  have "path_Ext ''ARROW.md'' = ''.md''" "path_Ext ''arrow.yaml'' = ''.yaml''" by code_simp+
  then show "f \<in> set manifest_names \<Longrightarrow> path_Ext f \<in> {''.md'', ''.yaml''}" by (auto simp: manifest_names_def)
qed

lemma endings_folded [simp]:
  "fold_case env ''.md'' = ''.md''" "fold_case env ''.yaml'' = ''.yaml''"
  "fold_case env metaSuffix = metaSuffix"
proof -
  have "ToLower ''.md'' = ''.md''" "ToLower ''.yaml'' = ''.yaml''" "ToLower metaSuffix = metaSuffix"
    by code_simp+
  then show "fold_case env ''.md'' = ''.md''" "fold_case env ''.yaml'' = ''.yaml''"
    "fold_case env metaSuffix = metaSuffix"
    by (simp_all only: fold_case_def if_cancel)
qed

lemma endings_apart:
  assumes "e \<in> set file_endings" "e' \<in> set file_endings" "x @ e = y @ e'"
  shows "x = y \<and> e = e'"
proof -
  have d: "x @ ''.md'' \<noteq> y @ ''.yaml''" "x @ ''.md'' \<noteq> y @ metaSuffix" "x @ ''.yaml'' \<noteq> y @ metaSuffix" for x y
    by (auto simp: metaSuffix_def dest: arg_cong [of _ _ last])
  have "e = ''.md'' \<or> e = ''.yaml'' \<or> e = metaSuffix" "e' = ''.md'' \<or> e' = ''.yaml'' \<or> e' = metaSuffix"
    using assms(1,2) by (auto simp: file_endings_def)
  then have "e = e'"
    by (elim disjE; metis assms(3) d)
  with assms(3) show ?thesis by simp
qed

lemma fold_endings: "e \<in> set file_endings \<Longrightarrow> fold_case env e = e"
  by (auto simp: file_endings_def simp del: fold_case_simps)

lemma same_name_ending:
  assumes "e \<in> set file_endings" "e' \<in> set file_endings"
  shows "same_name env (x @ e) (y @ e') \<longleftrightarrow> same_name env x y \<and> e = e'"
  using endings_apart [OF assms, of "fold_case env x" "fold_case env y"] assms
  by (auto simp: same_name_fold fold_endings)

lemma plain_entry_ending: "plain_entry env x \<Longrightarrow> e \<in> set file_endings \<Longrightarrow> \<not> same_name env x (y @ e)"
  by (auto simp: plain_entry_def list_all_iff same_name_fold fold_endings HasSuffix_def)

lemma HasSuffix_append [simp]: "HasSuffix (x @ p) p"
  by (simp add: HasSuffix_def)

lemma manifest_ending: "f \<in> set manifest_names \<Longrightarrow> path_Ext f \<in> set file_endings"
  using manifest_exts [of f] by (auto simp: file_endings_def)

lemma readCachedMeta_name:
  "readCachedMeta env s ns = Some (m, name) \<Longrightarrow>
   name \<in> set (cacheNames (veDigest env) ns) \<and> file_get env (vdMetas s) name = Some m"
  by (auto simp: readCachedMeta_def dest!: find_SomeD split: option.splits)

lemma entry_of_cong:
  assumes m: "\<And>x. x \<in> set (cacheNames (veDigest env) n) \<Longrightarrow> file_get env (vdMetas t) x = file_get env (vdMetas s) x"
    and f: "\<And>x m. x \<in> set (cacheNames (veDigest env) n) \<Longrightarrow> file_get env (vdMetas s) x = Some m \<Longrightarrow> \<not> vmNotFound m \<Longrightarrow>
      file_get env (vdFiles t) (x @ path_Ext (vmFilename m)) = file_get env (vdFiles s) (x @ path_Ext (vmFilename m))"
  shows "entry_of env t n = entry_of env s n"
proof -
  have "find (\<lambda>x. file_get env (vdMetas t) x \<noteq> None) xs = find (\<lambda>x. file_get env (vdMetas s) x \<noteq> None) xs"
    if "set xs \<subseteq> set (cacheNames (veDigest env) n)" for xs
    using that by (induction xs) (auto simp: m)
  then have r: "readCachedMeta env t n = readCachedMeta env s n"
    by (auto simp: readCachedMeta_def m split: option.split dest!: find_SomeD)
  show ?thesis
  proof (cases "readCachedMeta env s n")
    case None
    then show ?thesis by (simp add: entry_of_def r)
  next
    case (Some p)
    then show ?thesis
      using f readCachedMeta_name [of env s n] by (cases p) (auto simp: entry_of_def r)
  qed
qed

lemma told_apart_names:
  assumes a: "told_apart env m n" and ne: "m \<noteq> n"
    and x: "x \<in> set (cacheNames (veDigest env) m)" and y: "y \<in> set (cacheNames (veDigest env) n)"
  shows "\<not> same_name env x y"
proof -
  have d: "identity m" "identity n" "digests_apart (veDigest env) m n" "veFold env \<longrightarrow> \<not> EqualFold m n"
    using a ne by (auto simp: told_apart_def vault_ident_def)
  show ?thesis
  proof (cases "veFold env")
    case True
    with cacheNames_fold_apart [OF d(1,2) _ d(3) x y] d(4) show ?thesis by (simp add: same_name_def)
  next
    case False
    with cacheNames_apart [OF d(1,2) ne d(3)] x y show ?thesis by (auto simp: same_name_def)
  qed
qed

lemma vault_inv_get:
  assumes "vault_inv s" "file_get env (vdMetas s) x = Some m"
  shows "if vmNotFound m then vmFilename m = [] else vmFilename m \<in> set manifest_names"
  using assms(1) file_get_SomeD [OF assms(2)] by (auto simp: vault_inv_def list_all_iff)

lemma vault_inv_ext:
  assumes "vault_inv s" "file_get env (vdMetas s) x = Some m" "\<not> vmNotFound m"
  shows "path_Ext (vmFilename m) \<in> {''.md'', ''.yaml''}"
  using vault_inv_get [OF assms(1,2)] assms(3) manifest_exts by simp

lemma path_Ext_Nil [simp]: "path_Ext [] = []"
  by (simp add: path_Ext_def)

lemma vault_ident_plain: "vault_ident env n \<Longrightarrow> x \<in> set (cacheNames (veDigest env) n) \<Longrightarrow> plain_entry env x"
  by (auto simp: vault_ident_def list_all_iff)

subsection \<open>Deleting\<close>

lemma remove_file_gets [simp]:
  "file_get env (vdFiles (remove_file env s f)) x =
     (if same_name env f x then None else file_get env (vdFiles s) x)"
  "file_get env (vdMetas (remove_file env s f)) x =
     (if same_name env f (x @ metaSuffix) then None else file_get env (vdMetas s) x)"
proof -
  show "file_get env (vdFiles (remove_file env s f)) x =
     (if same_name env f x then None else file_get env (vdFiles s) x)"
    by (simp add: remove_file_def)
  have "file_get env (filter (\<lambda>p. \<not> same_name env (fst p @ metaSuffix) f) fs) x =
     (if same_name env f (x @ metaSuffix) then None else file_get env fs x)" for fs :: "(string \<times> VaultMetadata) list"
    by (induction fs) (auto simp: same_name_fold)
  then show "file_get env (vdMetas (remove_file env s f)) x =
     (if same_name env f (x @ metaSuffix) then None else file_get env (vdMetas s) x)"
    by (simp add: remove_file_def)
qed

lemma manifest_not_meta:
  assumes "e \<in> {''.md'', ''.yaml''}"
  shows "\<not> same_name env (x @ e) (y @ metaSuffix)" "\<not> same_name env (x @ metaSuffix) (y @ e)"
proof -
  have "e \<in> set file_endings" "metaSuffix \<in> set file_endings" "e \<noteq> metaSuffix"
    using assms by (auto simp: file_endings_def metaSuffix_def)
  then show "\<not> same_name env (x @ e) (y @ metaSuffix)" "\<not> same_name env (x @ metaSuffix) (y @ e)"
    by (simp_all add: same_name_ending)
qed

lemma meta_names_same: "same_name env (x @ metaSuffix) (y @ metaSuffix) \<longleftrightarrow> same_name env x y"
  by (simp add: same_name_fold)

text \<open>Deleting an entry with a plain name removes its own two files and nothing else.\<close>

lemma deleteCacheEntry_gets:
  assumes i: "vault_inv s" and x: "plain_entry env x"
  shows "file_get env (vdMetas (deleteCacheEntry env s x)) y =
      (if same_name env x y then None else file_get env (vdMetas s) y)"
    and "e \<in> {''.md'', ''.yaml''} \<Longrightarrow> \<not> same_name env x y \<Longrightarrow>
      file_get env (vdFiles (deleteCacheEntry env s x)) (y @ e) = file_get env (vdFiles s) (y @ e)"
proof -
  have mark: "\<not> same_name env x (y @ e)" if "e \<in> set file_endings" for y e
    using plain_entry_ending [OF x that] .
  have meta: "\<not> same_name env x (y @ metaSuffix)" for y
    by (rule mark) (simp add: file_endings_def)
  show "file_get env (vdMetas (deleteCacheEntry env s x)) y =
      (if same_name env x y then None else file_get env (vdMetas s) y)"
  proof (cases "file_get env (vdMetas s) x")
    case None
    then show ?thesis using file_get_cong [of env x y "vdMetas s"] by (simp add: deleteCacheEntry_def)
  next
    case (Some m)
    then show ?thesis
      using vault_inv_get [OF i Some] vault_inv_ext [OF i Some] manifest_not_meta(1) meta
      by (cases "vmNotFound m") (auto simp: deleteCacheEntry_def meta_names_same)
  qed
  show "file_get env (vdFiles (deleteCacheEntry env s x)) (y @ e) = file_get env (vdFiles s) (y @ e)"
    if e: "e \<in> {''.md'', ''.yaml''}" and ne: "\<not> same_name env x y"
  proof (cases "file_get env (vdMetas s) x")
    case None
    then show ?thesis by (simp add: deleteCacheEntry_def)
  next
    case (Some m)
    have e': "e \<in> set file_endings" using e by (auto simp: file_endings_def)
    have "\<not> same_name env (x @ path_Ext (vmFilename m)) (y @ e)"
    proof (cases "vmNotFound m")
      case True
      with vault_inv_get [OF i Some] mark [OF e', of y] show ?thesis by simp
    next
      case False
      then have "path_Ext (vmFilename m) \<in> set file_endings"
        using vault_inv_get [OF i Some] manifest_ending by simp
      with ne e' show ?thesis by (simp add: same_name_ending)
    qed
    with Some manifest_not_meta(2) [OF e] show ?thesis by (simp add: deleteCacheEntry_def)
  qed
qed

lemma vault_inv_remove [simp]: "vault_inv s \<Longrightarrow> vault_inv (remove_file env s f)"
  by (auto simp: vault_inv_def remove_file_def list_all_iff)

lemma vault_inv_delete [simp]: "vault_inv s \<Longrightarrow> vault_inv (deleteCacheEntry env s x)"
  by (auto simp: deleteCacheEntry_def split: option.split)

lemma foldl_delete:
  assumes "vault_inv s" "\<forall>x \<in> set xs. plain_entry env x"
  shows "vault_inv (foldl (deleteCacheEntry env) s xs) \<and>
    file_get env (vdMetas (foldl (deleteCacheEntry env) s xs)) y =
      (if \<exists>x \<in> set xs. same_name env x y then None else file_get env (vdMetas s) y) \<and>
    (e \<in> {''.md'', ''.yaml''} \<longrightarrow> (\<forall>x \<in> set xs. \<not> same_name env x y) \<longrightarrow>
      file_get env (vdFiles (foldl (deleteCacheEntry env) s xs)) (y @ e) = file_get env (vdFiles s) (y @ e))"
  using assms
proof (induction xs arbitrary: s)
  case (Cons x xs)
  then have "plain_entry env x" by simp
  with Cons.IH [of "deleteCacheEntry env s x"] Cons.prems deleteCacheEntry_gets [OF Cons.prems(1), of env x]
  show ?case by auto
qed simp

lemma foldl_delete_inv: "vault_inv s \<Longrightarrow> vault_inv (foldl (deleteCacheEntry env) s xs)"
  by (induction xs arbitrary: s) auto

lemma deleteArrow_entry:
  assumes i: "vault_inv s" and t: "told_apart env ns n"
  shows "entry_of env (deleteArrow env s ns) n = (if n = ns then None else entry_of env s n)"
proof -
  have "vault_ident env ns" using t by (simp add: told_apart_def)
  then have p: "\<forall>x \<in> set (cacheNames (veDigest env) ns). plain_entry env x" by (auto simp: vault_ident_plain)
  note d = foldl_delete [OF i p]
  show ?thesis
  proof (cases "n = ns")
    case True
    have "find (\<lambda>x. file_get env (vdMetas (deleteArrow env s ns)) x \<noteq> None) (cacheNames (veDigest env) ns) = None"
      using d by (auto simp: find_None_iff deleteArrow_def same_name_fold)
    with True show ?thesis by (simp add: entry_of_def readCachedMeta_def)
  next
    case False
    have apart: "\<forall>x \<in> set (cacheNames (veDigest env) ns). \<not> same_name env x y"
      if "y \<in> set (cacheNames (veDigest env) n)" for y
      using told_apart_names [OF t] False that by blast
    have "entry_of env (deleteArrow env s ns) n = entry_of env s n"
    proof (rule entry_of_cong)
      show "file_get env (vdMetas (deleteArrow env s ns)) x = file_get env (vdMetas s) x"
        if "x \<in> set (cacheNames (veDigest env) n)" for x
        using d apart [OF that] by (auto simp: deleteArrow_def)
      show "file_get env (vdFiles (deleteArrow env s ns)) (x @ path_Ext (vmFilename m)) =
          file_get env (vdFiles s) (x @ path_Ext (vmFilename m))"
        if x: "x \<in> set (cacheNames (veDigest env) n)" and m: "file_get env (vdMetas s) x = Some m" "\<not> vmNotFound m" for x m
        using d apart [OF x] vault_inv_ext [OF i m] unfolding deleteArrow_def by blast
    qed
    with False show ?thesis by simp
  qed
qed

subsection \<open>Writing\<close>

lemma entry_of_current:
  assumes "file_get env (vdMetas s) (encodeNS (veDigest env) ns) = Some m"
  shows "entry_of env s ns = Some (m, if vmNotFound m then None
     else file_get env (vdFiles s) (encodeNS (veDigest env) ns @ path_Ext (vmFilename m)))"
proof -
  obtain rest where "cacheNames (veDigest env) ns = encodeNS (veDigest env) ns # rest" using cacheNames_Cons by blast
  with assms show ?thesis by (auto simp: entry_of_def readCachedMeta_def)
qed

lemma written_meta_keepPrevious:
  "keepPrevious env now s ns file = (file', at) \<Longrightarrow>
   written_meta now ns file (map_option fst (entry_of env s ns)) =
     \<lparr>vmCachedAt = now, vmFilename = mvFilename file', vmNamespace = ns, vmNotFound = False,
      vmRef = mvRef file', vmCommit = mvCommit file', vmDefault = mvDefault file',
      vmDefaultAt = at, vmChannels = mvChannels file'\<rparr> \<and> mvFilename file' = mvFilename file"
  by (auto simp: keepPrevious_def written_meta_def entry_of_def Let_def split: option.splits prod.splits if_splits)

lemma putArrow_disk:
  assumes "putArrow env now s ns file = (None, t)"
  shows "vdMetas t = file_put env (vdMetas s) (encodeNS (veDigest env) ns) (written_meta now ns file (map_option fst (entry_of env s ns)))"
    "vdFiles t = file_put env (vdFiles s) (encodeNS (veDigest env) ns @ path_Ext (mvFilename file)) (mvContent file)"
  using assms by (auto simp: putArrow_def Let_def dest!: written_meta_keepPrevious split: sum.splits prod.splits)

lemma written_meta_fields [simp]:
  "vmNotFound (written_meta now ns file prev) = False" "vmFilename (written_meta now ns file prev) = mvFilename file"
  by (auto simp: written_meta_def Let_def)

definition meta_ok :: "VaultMetadata \<Rightarrow> bool" where
  "meta_ok m \<longleftrightarrow> (if vmNotFound m then vmFilename m = [] else vmFilename m \<in> set manifest_names)"

lemma vault_inv_meta_ok: "vault_inv s \<longleftrightarrow> (\<forall>p \<in> set (vdMetas s). meta_ok (snd p))"
  by (auto simp: vault_inv_def list_all_iff meta_ok_def)

lemma set_file_put: "set (file_put env xs k m) \<subseteq> insert (k, m) (set xs)"
  by (induction xs) (auto split: if_splits)

lemma vault_inv_file_put:
  "vault_inv s \<Longrightarrow> meta_ok m \<Longrightarrow> vdMetas t = file_put env (vdMetas s) k m \<Longrightarrow> vault_inv t"
  using set_file_put [of env "vdMetas s" k m] by (auto simp: vault_inv_meta_ok)

lemma same_name_refl [simp]: "same_name env x x"
  by (simp add: same_name_fold)

lemma putArrow_entry:
  assumes p: "putArrow env now s ns file = (None, t)" and i: "vault_inv s" and f: "mvFilename file \<in> set manifest_names"
    and a: "told_apart env ns n"
  shows "entry_of env t n = (if n = ns then Some (written_meta now ns file (map_option fst (entry_of env s ns)), Some (mvContent file))
     else entry_of env s n)"
proof (cases "n = ns")
  case True
  with entry_of_current [of env t ns] show ?thesis by (simp add: putArrow_disk [OF p])
next
  case False
  have c: "\<not> same_name env (encodeNS (veDigest env) ns) x" if "x \<in> set (cacheNames (veDigest env) n)" for x
    using told_apart_names [OF a _ cacheNames_hd that] False by blast
  have "entry_of env t n = entry_of env s n"
  proof (rule entry_of_cong)
    show "file_get env (vdMetas t) x = file_get env (vdMetas s) x" if "x \<in> set (cacheNames (veDigest env) n)" for x
      using c [OF that] by (simp add: putArrow_disk [OF p])
    show "file_get env (vdFiles t) (x @ path_Ext (vmFilename m)) = file_get env (vdFiles s) (x @ path_Ext (vmFilename m))"
      if x: "x \<in> set (cacheNames (veDigest env) n)" and m: "file_get env (vdMetas s) x = Some m" "\<not> vmNotFound m" for x m
    proof -
      have "path_Ext (vmFilename m) \<in> set file_endings"
        using vault_inv_get [OF i m(1)] m(2) manifest_ending by simp
      with c [OF x] manifest_ending [OF f] show ?thesis by (simp add: putArrow_disk [OF p] same_name_ending)
    qed
  qed
  with False show ?thesis by simp
qed

lemma putArrowNotFound_entry:
  assumes a: "told_apart env ns n"
  shows "entry_of env (putArrowNotFound env now s ns commit) n =
    (if n = ns then Some (absent_meta now ns commit, None) else entry_of env s n)"
proof (cases "n = ns")
  case True
  have "file_get env (vdMetas (putArrowNotFound env now s ns commit)) (encodeNS (veDigest env) ns) = Some (absent_meta now ns commit)"
    by (simp add: putArrowNotFound_def absent_meta_def)
  from entry_of_current [OF this] True show ?thesis by (simp add: absent_meta_def)
next
  case False
  have c: "\<not> same_name env (encodeNS (veDigest env) ns) x" if "x \<in> set (cacheNames (veDigest env) n)" for x
    using told_apart_names [OF a _ cacheNames_hd that] False by blast
  have "entry_of env (putArrowNotFound env now s ns commit) n = entry_of env s n"
    by (rule entry_of_cong) (use c in \<open>auto simp: putArrowNotFound_def\<close>)
  with False show ?thesis by simp
qed

lemma vault_step_refines:
  assumes i: "vault_inv s" and o: "op_ok op" and a: "told_apart env (op_ns op) n"
    and st: "vault_step env op s = (err, t)"
  shows "vault_inv t \<and> entry_of env t n = (if err = None then entry_step op (entry_of env s) n else entry_of env s n)"
proof (cases op)
  case (VPut now ns f)
  show ?thesis
  proof (cases err)
    case None
    with st VPut have p: "putArrow env now s ns f = (None, t)" by (auto simp: PutArrow_def split: if_splits)
    moreover have "vault_inv t"
      by (rule vault_inv_file_put [OF i _ putArrow_disk(1) [OF p]]) (use o VPut in \<open>simp add: meta_ok_def\<close>)
    ultimately show ?thesis using putArrow_entry [OF p i] o a VPut None by auto
  next
    case (Some e)
    with st VPut have "t = s" by (auto simp: PutArrow_def putArrow_def Let_def split: if_splits sum.splits prod.splits)
    with Some i show ?thesis by simp
  qed
next
  case (VAbsent now ns commit)
  have "vault_inv (putArrowNotFound env now s ns commit)"
    by (rule vault_inv_file_put [OF i]) (auto simp: putArrowNotFound_def meta_ok_def)
  with VAbsent st i a show ?thesis
    by (auto simp: PutArrowNotFound_def putArrowNotFound_entry split: if_splits)
next
  case (VDelete ns)
  with st i a show ?thesis
    by (auto simp: DeleteArrow_def deleteArrow_entry foldl_delete_inv deleteArrow_def [symmetric] split: if_splits)
      (auto simp: deleteArrow_def foldl_delete_inv)
qed

section \<open>The contract of the cache\<close>

text \<open>
  What the catalog relies on: an operation that succeeds changes the entry of its own identity as
  \<open>entry_step\<close> says, one that fails changes nothing, and neither touches another identity.
\<close>

fun ops_run :: "(vault_op \<Rightarrow> 'v \<Rightarrow> vault_error option \<times> 'v) \<Rightarrow> vault_op list \<Rightarrow> 'v \<Rightarrow> vault_op list \<times> 'v" where
  "ops_run step [] v = ([], v)"
| "ops_run step (op # ops) v =
     (let (err, w) = step op v; (oks, u) = ops_run step ops w
      in (if err = None then op # oks else oks, u))"

lemma entry_step_local: "E n = F n \<Longrightarrow> entry_step op E n = entry_step op F n"
  by (cases op) auto

lemma fold_entry_local: "E n = F n \<Longrightarrow> fold entry_step ops E n = fold entry_step ops F n"
proof (induction ops arbitrary: E F)
  case (Cons op ops)
  have "entry_step op E n = entry_step op F n" by (rule entry_step_local) (rule Cons.prems)
  then show ?case using Cons.IH [of "entry_step op E" "entry_step op F"] by simp
qed simp

locale manifest_cache =
  fixes step :: "vault_op \<Rightarrow> 'v \<Rightarrow> vault_error option \<times> 'v"
    and entry :: "'v \<Rightarrow> Namespace \<Rightarrow> cache_entry option"
    and ok :: "'v \<Rightarrow> bool"
    and apart :: "Namespace \<Rightarrow> Namespace \<Rightarrow> bool"
  assumes step_entry:
    "ok v \<Longrightarrow> op_ok op \<Longrightarrow> apart (op_ns op) n \<Longrightarrow> step op v = (err, w) \<Longrightarrow>
     ok w \<and> entry w n = (if err = None then entry_step op (entry v) n else entry v n)"
begin

lemma run_entry:
  "ok v \<Longrightarrow> list_all op_ok ops \<Longrightarrow> list_all (\<lambda>op. apart (op_ns op) n) ops \<Longrightarrow> ops_run step ops v = (oks, w) \<Longrightarrow>
   ok w \<and> entry w n = fold entry_step oks (entry v) n"
proof (induction ops arbitrary: v oks)
  case (Cons op ops)
  obtain err u where s: "step op v = (err, u)" by fastforce
  obtain oks' where r: "ops_run step ops u = (oks', w)" and oks: "oks = (if err = None then op # oks' else oks')"
    using Cons.prems(4) s by (auto split: prod.splits)
  have e: "ok u" "entry u n = (if err = None then entry_step op (entry v) n else entry v n)"
    using step_entry [OF Cons.prems(1) _ _ s] Cons.prems(2,3) by auto
  have "ok w \<and> entry w n = fold entry_step oks' (entry u) n"
    using Cons.IH [OF e(1) _ _ r] Cons.prems(2,3) by auto
  moreover have "fold entry_step oks' (entry u) n = fold entry_step oks (entry v) n"
    using fold_entry_local [of "entry u" n "entry_step op (entry v)" oks'] fold_entry_local [of "entry u" n "entry v" oks']
      oks e(2) by (cases err) simp_all
  ultimately show ?case by simp
qed auto

lemma replaced_entry:
  assumes "ok v" "apart n n" "mvFilename f \<in> set manifest_names"
    and "step (VDelete n) v = (None, u)" "step (VPut now n f) u = (None, w)"
  shows "ok w \<and> entry w n = Some (written_meta now n f None, Some (mvContent f))"
  using step_entry [of v "VDelete n" n None u] step_entry [of u "VPut now n f" n None w] assms by simp

end

interpretation disk: manifest_cache "vault_step env" "entry_of env" vault_inv "told_apart env" for env
proof unfold_locales
  fix v op n err w
  assume "vault_inv v" "op_ok op" "told_apart env (op_ns op) n" "vault_step env op v = (err, w)"
  then show "vault_inv w \<and> entry_of env w n = (if err = None then entry_step op (entry_of env v) n else entry_of env v n)"
    by (rule vault_step_refines)
qed

section \<open>Properties\<close>

text \<open>An environment for the witnesses, whose digest tells any two of its identities apart.\<close>

definition sample_vault :: "bool \<Rightarrow> vault_env" where
  "sample_vault b =
     \<lparr>veDigest = (\<lambda>ns. (if ns = ''github.com/u/r@V1'' then CHR ''1'' else if ns = ''github.com/u/r@v1'' then CHR ''2''
        else CHR ''3'') # replicate 63 CHR ''0''),
      veBase = [''home'', ''namespaces''], veFold = b, veTTL = 100\<rparr>"

definition empty_disk :: vault_disk where
  "empty_disk = \<lparr>vdMetas = [], vdFiles = [], vdDirs = []\<rparr>"

text \<open>
  C11. The names the vault files identities under tell them apart.  No name of one identity's
  cache entry, the current one or the one earlier layouts wrote, is a name of another identity's.
  The current names of two identities of one repository stay distinct when folded, as do their
  workdirs, so a file system that ignores case keeps apart even selectors that differ by case
  alone; and all the names of two identities that differ other than by case stay distinct when
  folded, the earlier ones included.  A name that was not cut to length decodes back to the
  identity it was made from.  The identities have a selector without \<open>~\<close>, and their digests
  differ in the characters a cut name keeps.  What is not so: the names earlier layouts wrote for
  selectors that differ by case alone do fold together (\<open>legacy_names_fold\<close>).
\<close>

theorem vault_names_case_distinct:
  assumes "identity m" "identity n" "m \<noteq> n" "digests_apart digest m n"
  shows "set (cacheNames digest m) \<inter> set (cacheNames digest n) = {} \<and>
    (BareNamespace m = BareNamespace n \<longrightarrow>
       \<not> EqualFold (encodeNS digest m) (encodeNS digest n) \<and>
       \<not> EqualFold (identityDir digest m) (identityDir digest n)) \<and>
    (\<not> EqualFold m n \<longrightarrow>
       (\<forall>x \<in> set (cacheNames digest m). \<forall>y \<in> set (cacheNames digest n). \<not> EqualFold x y)) \<and>
    (\<forall>name \<in> set (cacheNames digest m). PathUnescape name = Some m \<or> (\<exists>pre. name = pre @ ''~'' @ take hashLen (digest m)))"
  using vault_names_fold [OF assms(1,2) _ assms(3,4)] legacyEncodeNS_body [OF assms(1)] encodeNS_body [OF assms(1), of digest]
    cacheNames_sub [of digest m] cacheNames_apart [OF assms] cacheNames_fold_apart [OF assms(1,2) _ assms(4)]
  by (auto simp: name_body_def name_capped_def)

theorem vault_names_case_distinct_witness:
  "\<not> EqualFold (encodeNS (veDigest (sample_vault True)) ''github.com/u/r@V1'')
     (encodeNS (veDigest (sample_vault True)) ''github.com/u/r@v1'') \<and>
   \<not> EqualFold (legacyEncodeNS ''github.com/u/r@V2'') (encodeNS (veDigest (sample_vault True)) ''github.com/u/r@v1'')"
proof -
  have "identity ''github.com/u/r@V1''" "identity ''github.com/u/r@v1''"
    "''github.com/u/r@V1'' \<noteq> ''github.com/u/r@v1''"
    "digests_apart (veDigest (sample_vault True)) ''github.com/u/r@V1'' ''github.com/u/r@v1''"
    and b: "BareNamespace ''github.com/u/r@V1'' = BareNamespace ''github.com/u/r@v1''"
    by code_simp+
  from vault_names_case_distinct [OF this(1-4)] b
  have "\<not> EqualFold (encodeNS (veDigest (sample_vault True)) ''github.com/u/r@V1'')
     (encodeNS (veDigest (sample_vault True)) ''github.com/u/r@v1'')" by blast
  moreover have "identity ''github.com/u/r@V2''" "identity ''github.com/u/r@v1''"
    "''github.com/u/r@V2'' \<noteq> ''github.com/u/r@v1''"
    "digests_apart (veDigest (sample_vault True)) ''github.com/u/r@V2'' ''github.com/u/r@v1''"
    and c: "\<not> EqualFold ''github.com/u/r@V2'' ''github.com/u/r@v1''"
      "legacyEncodeNS ''github.com/u/r@V2'' \<in> set (cacheNames (veDigest (sample_vault True)) ''github.com/u/r@V2'')"
      "encodeNS (veDigest (sample_vault True)) ''github.com/u/r@v1'' \<in> set (cacheNames (veDigest (sample_vault True)) ''github.com/u/r@v1'')"
    by code_simp+
  from vault_names_case_distinct [OF this(1-4)] c
  have "\<not> EqualFold (legacyEncodeNS ''github.com/u/r@V2'') (encodeNS (veDigest (sample_vault True)) ''github.com/u/r@v1'')"
    by blast
  ultimately show ?thesis by simp
qed

text \<open>
  The name an earlier layout gave \<open>V1\<close> is still read and deleted, and it folds onto the current
  name of \<open>v1\<close>: on a file system that ignores case, \<open>V1\<close> without an entry of its own reads the
  entry of \<open>v1\<close>, and deleting \<open>V1\<close> deletes it.
\<close>

lemma legacy_names_fold:
  "(let env = sample_vault True; file = no_file\<lparr>mvContent := ''a'', mvFilename := ''ARROW.md''\<rparr>;
        s = snd (PutArrow env 1 empty_disk ''github.com/u/r@v1'' file)
    in mvContent (fst (GetArrow env 2 s ''github.com/u/r@V1'')) = ''a'' \<and>
       snd (GetArrow env 3 (snd (DeleteArrow env s ''github.com/u/r@V1'')) ''github.com/u/r@v1'') = Some ErrNotCached)"
  by code_simp

text \<open>
  C12. The manifest cache is a map from identities to entries: after any sequence of writes, marks
  of absence and deletions, reading an identity gives what the operations that succeeded on that
  identity left, and no operation on one identity is seen by another, however both are filed,
  current or earlier name, and on a file system that ignores case or not.  The identities are told
  apart: they have a selector without \<open>~\<close> and digests that differ in the characters a cut name
  keeps; none is filed under a name that ends in \<open>.md\<close>, \<open>.yaml\<close> or \<open>.meta.json\<close>, where deleting
  a mark of absence deletes another entry's file (\<open>absence_mark_deletes_manifest\<close>,
  \<open>absence_mark_deletes_meta\<close>); and on a file system that ignores case they differ other than by
  case, without which the claim fails (\<open>legacy_names_fold\<close>).  The manifests written are named
  \<open>ARROW.md\<close> or \<open>arrow.yaml\<close>.
\<close>

theorem vault_refines_map:
  assumes "vault_inv s" "list_all op_ok ops" "list_all (\<lambda>op. told_apart env (op_ns op) n) ops"
    and "ops_run (vault_step env) ops s = (oks, t)"
  shows "getArrow env now t n = read_entry (veTTL env) now (fold entry_step oks (entry_of env s) n)"
  using disk.run_entry [OF assms] by (simp add: getArrow_entry)

theorem vault_refines_map_witness:
  "\<exists>oks t. ops_run (vault_step (sample_vault True))
      [VPut 1 ''github.com/u/r@V1'' (no_file\<lparr>mvContent := ''a'', mvFilename := ''ARROW.md''\<rparr>),
       VAbsent 2 ''github.com/u/r@v2'' ''c1'', VDelete ''github.com/u/r@v3''] empty_disk = (oks, t) \<and>
     mvContent (fst (getArrow (sample_vault True) 3 t ''github.com/u/r@V1'')) = ''a''"
proof -
  let ?ops = "[VPut 1 ''github.com/u/r@V1'' (no_file\<lparr>mvContent := ''a'', mvFilename := ''ARROW.md''\<rparr>),
       VAbsent 2 ''github.com/u/r@v2'' ''c1'', VDelete ''github.com/u/r@v3'']"
  let ?r = "ops_run (vault_step (sample_vault True)) ?ops empty_disk"
  have i: "vault_inv empty_disk" "list_all op_ok ?ops"
    "list_all (\<lambda>op. told_apart (sample_vault True) (op_ns op) ''github.com/u/r@V1'') ?ops"
    by code_simp+
  have r: "?r = (fst ?r, snd ?r)" by simp
  have o: "fst ?r = ?ops" by code_simp
  have "entry_of (sample_vault True) empty_disk ''github.com/u/r@V1'' = None" by code_simp
  with vault_refines_map [OF i r, of 3] o
  have "mvContent (fst (getArrow (sample_vault True) 3 (snd ?r) ''github.com/u/r@V1'')) = ''a''"
    by (simp add: read_entry_def no_file_def)
  with r show ?thesis by blast
qed

lemma namespacePath_current:
  assumes "list_all (\<lambda>rel. \<not> existsExactly env dirs rel) (legacyIdentityDirs (veDigest env) ns)"
    and "namespacePath env dirs ns = Inr p"
  shows "underNamespaces env (identityDir (veDigest env) ns) = Some p"
proof -
  have "find (\<lambda>rel. underNamespaces env rel \<noteq> None \<and> existsExactly env dirs rel)
     (legacyIdentityDirs (veDigest env) ns) = None"
    using assms(1) by (auto simp: find_None_iff list_all_iff)
  with assms(2) show ?thesis by (auto simp: namespacePath_def split: option.splits if_splits)
qed

text \<open>
  C13. The workdir of an identity never is or contains the workdir of another one: with no
  directory of an earlier layout left, the two paths the vault hands out for distinct identities
  are not prefixes of each other, nor are they to a file system that ignores case, so deleting one
  workdir cannot touch the other.  The namespaces are valid, their segments and the components of
  \<open>namespacesPath\<close> are plain names, without \<open>.\<close> or \<open>..\<close>, the selectors and the repository of the second
  have no \<open>~\<close>, and the digests differ in the characters a cut name keeps.  Where the file system ignores
  case, the repositories must not be spelled alike but for case: only the last directory of a path
  is looked up with its exact spelling (\<open>spelled_repositories_share\<close>).
\<close>

theorem workdirs_never_nest:
  assumes "Namespace_Validate m = None" "Namespace_Validate n = None" "plain_namespace m" "plain_namespace n"
    and "CHR ''~'' \<notin> set (segments n ! 2)" "digests_apart (veDigest env) m n" "m \<noteq> n"
    and "same_name env (BareNamespace m) (BareNamespace n) \<longrightarrow> BareNamespace m = BareNamespace n"
    and "list_all plain_component (veBase env)"
    and "list_all (\<lambda>rel. \<not> existsExactly env dirs rel) (legacyIdentityDirs (veDigest env) m)"
    and "list_all (\<lambda>rel. \<not> existsExactly env dirs rel) (legacyIdentityDirs (veDigest env) n)"
    and "namespacePath env dirs m = Inr p" "namespacePath env dirs n = Inr q"
  shows "\<not> list_all2 (same_name env) p (take (length p) q)"
proof -
  have h: "hex_digest (veDigest env m)" "hex_digest (veDigest env n)" using assms(6) by (auto simp: digests_apart_def)
  have p: "p = butlast (segments m) @ [file_name (veDigest env) (last (segments m)) m]"
    and q: "q = butlast (segments n) @ [file_name (veDigest env) (last (segments n)) n]"
    using namespacePath_current [OF assms(10,12)] namespacePath_current [OF assms(11,13)]
      identity_workdir [OF assms(9,3) h(1)] identity_workdir [OF assms(9,4) h(2)] by simp_all
  have "length p = length (segments m)" unfolding p by simp
  then show ?thesis using identity_workdirs_fold_apart [OF assms(1-8)] p q by simp
qed

theorem workdirs_never_nest_witness:
  "\<exists>p q. namespacePath (sample_vault True) [[''github.com'']] ''github.com/u/r@V1'' = Inr p \<and>
     namespacePath (sample_vault True) [[''github.com'']] ''github.com/u/R/a@V1/x'' = Inr q \<and>
     \<not> list_all2 (same_name (sample_vault True)) p (take (length p) q)"
proof -
  let ?e = "sample_vault True" and ?d = "[[''github.com'']]"
  let ?m = "''github.com/u/r@V1''" and ?n = "''github.com/u/R/a@V1/x''"
  have p: "namespacePath ?e ?d ?m = Inr [''github.com'', ''u'', ''r@%561'']" by code_simp
  have q: "namespacePath ?e ?d ?n = Inr [''github.com'', ''u'', ''R'', ''a@%561%2Fx'']" by code_simp
  have "Namespace_Validate ?m = None" "Namespace_Validate ?n = None" "plain_namespace ?m" "plain_namespace ?n"
    "CHR ''~'' \<notin> set (segments ?n ! 2)" "digests_apart (veDigest ?e) ?m ?n" "?m \<noteq> ?n"
    "same_name ?e (BareNamespace ?m) (BareNamespace ?n) \<longrightarrow> BareNamespace ?m = BareNamespace ?n"
    "list_all plain_component (veBase ?e)"
    "list_all (\<lambda>rel. \<not> existsExactly ?e ?d rel) (legacyIdentityDirs (veDigest ?e) ?m)"
    "list_all (\<lambda>rel. \<not> existsExactly ?e ?d rel) (legacyIdentityDirs (veDigest ?e) ?n)"
    by code_simp+
  from workdirs_never_nest [OF this p q] p q show ?thesis by blast
qed

text \<open>
  Two spellings of one repository are handed the same directory on a file system that ignores case:
  the parent is found by folding, and the last directory has the spelling that is looked for.
\<close>

lemma spelled_repositories_share:
  "(let env = sample_vault True; s = snd (WorkDir env empty_disk ''github.com/U/r@v1'')
    in fst (WorkDir env s ''github.com/u/r@v1'') = Inr [''github.com'', ''u'', ''r@v1''] \<and>
       vdDirs (snd (WorkDir env s ''github.com/u/r@v1'')) = vdDirs s)"
  by code_simp

text \<open>
  The lookup of earlier layouts undoes this: when the arrow at \<open>stable\<close> keeps a directory
  \<open>data\<close> in its workdir, the identity \<open>stable/data\<close> of the same repository is handed that
  very directory, inside the other identity's workdir.
\<close>

theorem legacy_workdir_nests:
  "namespacePath (sample_vault False)
     [[''github.com''], [''github.com'', ''u''], [''github.com'', ''u'', ''r@stable''],
      [''github.com'', ''u'', ''r@stable'', ''data'']] ''github.com/u/r@stable'' =
     Inr [''github.com'', ''u'', ''r@stable''] \<and>
   namespacePath (sample_vault False)
     [[''github.com''], [''github.com'', ''u''], [''github.com'', ''u'', ''r@stable''],
      [''github.com'', ''u'', ''r@stable'', ''data'']] ''github.com/u/r@stable/data'' =
     Inr [''github.com'', ''u'', ''r@stable'', ''data'']"
  by code_simp

text \<open>
  A mark of absence has no manifest, yet deleting it removes the file named like the entry: the
  mark of the ref \<open>v1.md\<close> takes the manifest of \<open>v1\<close> with it.
\<close>

lemma absence_mark_deletes_manifest:
  "(let env = sample_vault False; file = no_file\<lparr>mvContent := ''a'', mvFilename := ''ARROW.md''\<rparr>;
        s = snd (PutArrow env 1 empty_disk ''github.com/u/r@v1'' file);
        t = snd (PutArrowNotFound env 2 s ''github.com/u/r@v1.md'' ''c1'')
    in snd (GetArrow env 3 t ''github.com/u/r@v1'') = None \<and>
       snd (GetArrow env 3 (snd (DeleteArrow env t ''github.com/u/r@v1.md'')) ''github.com/u/r@v1'') = Some ErrNotCached)"
  by code_simp

text \<open>The mark of \<open>v1.meta.json\<close> takes the whole entry of \<open>v1\<close> with it.\<close>

lemma absence_mark_deletes_meta:
  "(let env = sample_vault False; file = no_file\<lparr>mvContent := ''a'', mvFilename := ''ARROW.md''\<rparr>;
        s = snd (PutArrow env 1 empty_disk ''github.com/u/r@v1'' file);
        t = snd (PutArrowNotFound env 2 s ''github.com/u/r@v1.meta.json'' ''c1'')
    in snd (GetArrow env 3 t ''github.com/u/r@v1'') = None \<and>
       snd (GetArrow env 3 (snd (DeleteArrow env t ''github.com/u/r@v1.meta.json'')) ''github.com/u/r@v1'') = Some ErrNotCached)"
  by code_simp

end
