(* ===== verification/Runtime.thy ===== *)
theory Runtime
  imports Versioning
begin

text \<open>
  The runtime aggregate of an arrow (internal/domain/runtime and
  internal/app/repositories/runtime/internal/commands): its value, the seventeen commands that
  change it, and what the repository builds on them: the version badge (set_version_outdated.go,
  reconcile_version_badge.go), the drain of a run's events (internal/hooks.go) and crash recovery
  (internal/recovery.go).  A command is a record of the methods of asynx's \<open>Command\<close>
  interface; asynx validates a command against the current value and, when it is accepted,
  stores what the command emits (\<open>agg_send\<close>).
\<close>

section \<open>The aggregate\<close>

datatype StepStatus =
  StepStatusPending | StepStatusRunning | StepStatusCompleted | StepStatusFailed | StepStatusOther string

record StepProgress =
  spIndex :: nat
  spStatus :: StepStatus
  spError :: "string option"
  spNote :: "string option"
  spStep :: Step

datatype SurfaceMode = SurfaceModeListen | SurfaceModeStatic | SurfaceModeOther string

record Surface =
  sfTitle :: string
  sfMode :: SurfaceMode
  sfPath :: string
  sfDir :: string
  sfReady :: bool

datatype ExecutionOutcome =
  ExecutionOutcomeSuccess | ExecutionOutcomeFailed | ExecutionOutcomeCancelled | ExecutionOutcomeOther string

type_synonym vars = "(string \<times> string) list"

record Execution =
  exID :: string
  exMethod :: string
  exSteps :: "StepProgress list"
  exVariables :: vars
  exPID :: int
  exWorkDir :: string
  exSurface :: "Surface option"

record Return =
  retExecutionID :: string
  retMethod :: string
  retOutcome :: ExecutionOutcome
  retSteps :: "StepProgress list"
  retVariables :: vars

record DepSyncInfo =
  AddedDeps :: "Namespace list"
  RemovedDeps :: "Namespace list"

record ArrowRuntime =
  rtRef :: Namespace
  rtState :: ArrowState
  rtExecution :: "Execution option"
  rtLastReturn :: "Return option"
  rtPendingDepSync :: "DepSyncInfo option"

section \<open>Commands\<close>

text \<open>The fields every \<open>Begin\<close> command has.\<close>

record begin_args =
  bgNamespace :: Namespace
  bgExecutionID :: string
  bgSteps :: "Step list"
  bgVariables :: vars
  bgWorkDir :: string

definition absent_runtime :: "ArrowRuntime option \<Rightarrow> bool" where
  "absent_runtime current = (case current of None \<Rightarrow> True | Some rt \<Rightarrow> rtRef rt = [])"

definition requireCurrentExecution :: "ArrowRuntime option \<Rightarrow> string \<Rightarrow> cmd_error option" where
  "requireCurrentExecution current executionID =
     (case current of
        None \<Rightarrow> Some ErrValidation
      | Some rt \<Rightarrow>
          if rtRef rt = [] then Some ErrValidation
          else (case rtExecution rt of
              None \<Rightarrow> Some ErrValidation
            | Some ex \<Rightarrow> if exID ex \<noteq> executionID then Some ErrExecutionSuperseded else None))"

definition initialSteps :: "Step list \<Rightarrow> StepProgress list" where
  "initialSteps steps =
     map (\<lambda>(i, s). \<lparr>spIndex = i, spStatus = StepStatusPending, spError = None, spNote = None, spStep = s\<rparr>) (enum steps)"

definition preserveLastReturn :: "ArrowRuntime option \<Rightarrow> Return option" where
  "preserveLastReturn current = (case current of None \<Rightarrow> None | Some rt \<Rightarrow> rtLastReturn rt)"

definition preservePendingDepSync :: "ArrowRuntime option \<Rightarrow> DepSyncInfo option" where
  "preservePendingDepSync current = (case current of None \<Rightarrow> None | Some rt \<Rightarrow> rtPendingDepSync rt)"

definition isVersionDriftOutdated :: "ArrowRuntime \<Rightarrow> bool" where
  "isVersionDriftOutdated current \<longleftrightarrow> rtState current = ArrowStateOutdated \<and> rtPendingDepSync current = None"

text \<open>A fresh execution of a method.\<close>

definition begun :: "begin_args \<Rightarrow> string \<Rightarrow> int \<Rightarrow> Execution" where
  "begun c method pid =
     \<lparr>exID = bgExecutionID c, exMethod = method, exSteps = initialSteps (bgSteps c),
      exVariables = bgVariables c, exPID = pid, exWorkDir = bgWorkDir c, exSurface = None\<rparr>"

definition BeginInstall :: "begin_args \<Rightarrow> ArrowRuntime command" where
  "BeginInstall c =
     \<lparr>cmd_id = bgNamespace c, cmd_event = ''runtime.begun.'' @ bgNamespace c, cmd_snapshot = True,
      cmd_validate = (\<lambda>current.
        if absent_runtime current then None
        else if rtExecution (the current) \<noteq> None then Some ErrValidation
        else reject_unless (rtState (the current) \<in> {ArrowStateAbsent, ArrowStateRemoved})),
      cmd_emit = (\<lambda>_.
        \<lparr>rtRef = bgNamespace c, rtState = ArrowStateInstalling, rtExecution = Some (begun c MethodInstall 0),
         rtLastReturn = None, rtPendingDepSync = None\<rparr>)\<rparr>"

definition BeginUninstall :: "begin_args \<Rightarrow> ArrowRuntime command" where
  "BeginUninstall c =
     \<lparr>cmd_id = bgNamespace c, cmd_event = ''runtime.begun.'' @ bgNamespace c, cmd_snapshot = True,
      cmd_validate = (\<lambda>current.
        if absent_runtime current then Some ErrValidation
        else if rtState (the current) \<noteq> ArrowStateReady \<and> rtState (the current) \<noteq> ArrowStateOutdated
          then Some ErrValidation
        else reject_unless (rtExecution (the current) = None)),
      cmd_emit = (\<lambda>current.
        \<lparr>rtRef = bgNamespace c, rtState = ArrowStateUninstalling, rtExecution = Some (begun c MethodUninstall 0),
         rtLastReturn = preserveLastReturn current, rtPendingDepSync = None\<rparr>)\<rparr>"

definition BeginUpdate :: "begin_args \<Rightarrow> ArrowRuntime command" where
  "BeginUpdate c =
     \<lparr>cmd_id = bgNamespace c, cmd_event = ''runtime.begun.'' @ bgNamespace c, cmd_snapshot = True,
      cmd_validate = (\<lambda>current.
        if absent_runtime current then Some ErrValidation
        else reject_unless (rtState (the current) = ArrowStateOutdated \<or> rtState (the current) = ArrowStateReady)),
      cmd_emit = (\<lambda>current.
        \<lparr>rtRef = bgNamespace c, rtState = ArrowStateUpdating, rtExecution = Some (begun c MethodUpdate 0),
         rtLastReturn = preserveLastReturn current, rtPendingDepSync = None\<rparr>)\<rparr>"

definition BeginStop :: "begin_args \<Rightarrow> ArrowRuntime command" where
  "BeginStop c =
     \<lparr>cmd_id = bgNamespace c, cmd_event = ''runtime.begun.'' @ bgNamespace c, cmd_snapshot = True,
      cmd_validate = (\<lambda>current.
        if absent_runtime current then Some ErrValidation
        else if map_option exMethod (rtExecution (the current)) = Some MethodStop then Some ErrValidation
        else reject_unless (rtState (the current) \<in> {ArrowStateRunning, ArrowStateDetached})),
      cmd_emit = (\<lambda>current.
        (let pid = (case Option.bind current rtExecution of None \<Rightarrow> 0 | Some ex \<Rightarrow> exPID ex)
         in \<lparr>rtRef = bgNamespace c, rtState = ArrowStateStopping, rtExecution = Some (begun c MethodStop pid),
             rtLastReturn = preserveLastReturn current, rtPendingDepSync = None\<rparr>))\<rparr>"

definition execution_admitted :: "ArrowState list \<Rightarrow> ArrowRuntime \<Rightarrow> bool" where
  "execution_admitted availableIn current =
     (if length availableIn = 0
      then rtState current = ArrowStateReady \<or> isVersionDriftOutdated current
      else list_ex (\<lambda>s. s = rtState current \<or> s = ArrowStateReady \<and> isVersionDriftOutdated current) availableIn)"

definition BeginExecution :: "begin_args \<Rightarrow> string \<Rightarrow> ArrowState list \<Rightarrow> ArrowRuntime command" where
  "BeginExecution c method availableIn =
     \<lparr>cmd_id = bgNamespace c, cmd_event = ''runtime.begun.'' @ bgNamespace c, cmd_snapshot = True,
      cmd_validate = (\<lambda>current.
        if absent_runtime current then Some ErrValidation
        else if rtExecution (the current) \<noteq> None then Some ErrValidation
        else reject_unless (execution_admitted availableIn (the current))),
      cmd_emit = (\<lambda>current.
        \<lparr>rtRef = bgNamespace c, rtState = ArrowStateRunning, rtExecution = Some (begun c method 0),
         rtLastReturn = preserveLastReturn current, rtPendingDepSync = None\<rparr>)\<rparr>"

definition stateAfterEnd :: "string \<Rightarrow> ExecutionOutcome \<Rightarrow> ArrowState" where
  "stateAfterEnd method outcome =
     (if method = MethodInstall then
        (if outcome = ExecutionOutcomeSuccess then ArrowStateReady else ArrowStateAbsent)
      else if method = MethodUninstall then
        (if outcome = ExecutionOutcomeSuccess then ArrowStateAbsent else ArrowStateReady)
      else ArrowStateReady)"

definition EndExecution :: "Namespace \<Rightarrow> string \<Rightarrow> ExecutionOutcome \<Rightarrow> ArrowRuntime command" where
  "EndExecution ns executionID outcome =
     \<lparr>cmd_id = ns, cmd_event = ''runtime.ended.'' @ ns, cmd_snapshot = True,
      cmd_validate = (\<lambda>current. requireCurrentExecution current executionID),
      cmd_emit = (\<lambda>current.
        (let rt = the current; ex = the (rtExecution rt);
             ret = \<lparr>retExecutionID = exID ex, retMethod = exMethod ex, retOutcome = outcome,
                    retSteps = exSteps ex, retVariables = exVariables ex\<rparr>
         in \<lparr>rtRef = ns, rtState = stateAfterEnd (exMethod ex) outcome, rtExecution = None,
             rtLastReturn = Some ret, rtPendingDepSync = rtPendingDepSync rt\<rparr>))\<rparr>"

definition AdvanceStep ::
  "Namespace \<Rightarrow> string \<Rightarrow> int \<Rightarrow> StepStatus \<Rightarrow> string option \<Rightarrow> string option \<Rightarrow> ArrowRuntime command" where
  "AdvanceStep ns executionID stepIndex toStatus err note =
     \<lparr>cmd_id = ns, cmd_event = ''runtime.step_advanced.'' @ ns, cmd_snapshot = True,
      cmd_validate = (\<lambda>current.
        case requireCurrentExecution current executionID of
          Some e \<Rightarrow> Some e
        | None \<Rightarrow> reject_unless
            (\<not> (stepIndex < 0 \<or> stepIndex \<ge> int (length (exSteps (the (rtExecution (the current)))))))),
      cmd_emit = (\<lambda>current.
        (let rt = the current; ex = the (rtExecution rt); i = nat stepIndex;
             sp = (exSteps ex ! i)\<lparr>spStatus := toStatus, spError := err, spNote := note\<rparr>
         in rt\<lparr>rtExecution := Some (ex\<lparr>exSteps := (exSteps ex)[i := sp]\<rparr>)\<rparr>))\<rparr>"

definition RestartExecution :: "Namespace \<Rightarrow> string \<Rightarrow> Step list \<Rightarrow> ArrowRuntime command" where
  "RestartExecution ns executionID steps =
     \<lparr>cmd_id = ns, cmd_event = ''runtime.step_advanced.'' @ ns, cmd_snapshot = True,
      cmd_validate = (\<lambda>current. requireCurrentExecution current executionID),
      cmd_emit = (\<lambda>current.
        (let rt = the current; ex = the (rtExecution rt)
         in rt\<lparr>rtExecution := Some
                \<lparr>exID = exID ex, exMethod = exMethod ex, exSteps = initialSteps steps,
                 exVariables = exVariables ex, exPID = 0, exWorkDir = exWorkDir ex, exSurface = None\<rparr>\<rparr>))\<rparr>"

definition RecordPID :: "Namespace \<Rightarrow> string \<Rightarrow> int \<Rightarrow> ArrowRuntime command" where
  "RecordPID ns executionID pid =
     \<lparr>cmd_id = ns, cmd_event = ''runtime.pid_recorded.'' @ ns, cmd_snapshot = True,
      cmd_validate = (\<lambda>current. requireCurrentExecution current executionID),
      cmd_emit = (\<lambda>current.
        (the current)\<lparr>rtExecution := map_option (\<lambda>ex. ex\<lparr>exPID := pid\<rparr>) (rtExecution (the current))\<rparr>)\<rparr>"

definition SetSurface :: "Namespace \<Rightarrow> string \<Rightarrow> Surface \<Rightarrow> ArrowRuntime command" where
  "SetSurface ns executionID surface =
     \<lparr>cmd_id = ns, cmd_event = ''runtime.surface_set.'' @ ns, cmd_snapshot = True,
      cmd_validate = (\<lambda>current. requireCurrentExecution current executionID),
      cmd_emit = (\<lambda>current.
        (the current)\<lparr>rtExecution := map_option (\<lambda>ex. ex\<lparr>exSurface := Some surface\<rparr>) (rtExecution (the current))\<rparr>)\<rparr>"

definition ClearSurface :: "Namespace \<Rightarrow> string \<Rightarrow> ArrowRuntime command" where
  "ClearSurface ns executionID =
     \<lparr>cmd_id = ns, cmd_event = ''runtime.surface_cleared.'' @ ns, cmd_snapshot = True,
      cmd_validate = (\<lambda>current. requireCurrentExecution current executionID),
      cmd_emit = (\<lambda>current.
        (the current)\<lparr>rtExecution := Some ((the (rtExecution (the current)))\<lparr>exSurface := None\<rparr>)\<rparr>)\<rparr>"

definition RecordDetached :: "Namespace \<Rightarrow> ArrowRuntime command" where
  "RecordDetached ns =
     \<lparr>cmd_id = ns, cmd_event = ''runtime.detached.'' @ ns, cmd_snapshot = True,
      cmd_validate = (\<lambda>current.
        if absent_runtime current then Some ErrValidation
        else reject_unless (CanTransitionTo (rtState (the current)) ArrowStateDetached)),
      cmd_emit = (\<lambda>current.
        \<lparr>rtRef = rtRef (the current), rtState = ArrowStateDetached, rtExecution = None,
         rtLastReturn = rtLastReturn (the current), rtPendingDepSync = None\<rparr>)\<rparr>"

definition stableStateFor :: "ArrowState \<Rightarrow> ArrowState" where
  "stableStateFor s =
     (if s \<in> {ArrowStateInstalling, ArrowStateUninstalling, ArrowStateUpdating} then ArrowStateAbsent
      else ArrowStateReady)"

definition RecoverInterrupted :: "Namespace \<Rightarrow> ArrowRuntime command" where
  "RecoverInterrupted ns =
     \<lparr>cmd_id = ns, cmd_event = ''runtime.recovered.'' @ ns, cmd_snapshot = True,
      cmd_validate = (\<lambda>current.
        if absent_runtime current then Some ErrValidation
        else reject_unless (rtState (the current) \<in>
          {ArrowStateInstalling, ArrowStateUninstalling, ArrowStateUpdating, ArrowStateRunning,
           ArrowStateStopping, ArrowStateDraining})),
      cmd_emit = (\<lambda>current.
        \<lparr>rtRef = ns, rtState = stableStateFor (rtState (the current)), rtExecution = None,
         rtLastReturn = rtLastReturn (the current), rtPendingDepSync = None\<rparr>)\<rparr>"

definition RecordPreinstalled :: "Namespace \<Rightarrow> ArrowRuntime command" where
  "RecordPreinstalled ns =
     \<lparr>cmd_id = ns, cmd_event = ''runtime.preinstalled.'' @ ns, cmd_snapshot = True,
      cmd_validate = (\<lambda>current.
        if absent_runtime current then None
        else if rtExecution (the current) \<noteq> None then Some ErrValidation
        else reject_unless (rtState (the current) \<in> {ArrowStateAbsent, ArrowStateReady})),
      cmd_emit = (\<lambda>current.
        \<lparr>rtRef = ns, rtState = ArrowStateReady, rtExecution = None,
         rtLastReturn = preserveLastReturn current, rtPendingDepSync = preservePendingDepSync current\<rparr>)\<rparr>"

definition MarkOutdated :: "Namespace \<Rightarrow> Namespace list \<Rightarrow> Namespace list \<Rightarrow> ArrowRuntime command" where
  "MarkOutdated ns added removed =
     \<lparr>cmd_id = ns, cmd_event = ''runtime.outdated.'' @ ns, cmd_snapshot = True,
      cmd_validate = (\<lambda>current.
        case current of
          None \<Rightarrow> None
        | Some rt \<Rightarrow> reject_unless (rtState rt \<in> {ArrowStateReady, ArrowStateOutdated})),
      cmd_emit = (\<lambda>current.
        \<lparr>rtRef = ns, rtState = ArrowStateOutdated, rtExecution = None, rtLastReturn = preserveLastReturn current,
         rtPendingDepSync = Some \<lparr>AddedDeps = added, RemovedDeps = removed\<rparr>\<rparr>)\<rparr>"

definition MarkVersionOutdated :: "Namespace \<Rightarrow> ArrowRuntime command" where
  "MarkVersionOutdated ns =
     \<lparr>cmd_id = ns, cmd_event = ''runtime.outdated.'' @ ns, cmd_snapshot = True,
      cmd_validate = (\<lambda>current.
        if absent_runtime current then Some ErrValidation
        else if rtExecution (the current) \<noteq> None then Some ErrValidation
        else reject_unless (rtState (the current) \<in> {ArrowStateReady, ArrowStateOutdated})),
      cmd_emit = (\<lambda>current.
        \<lparr>rtRef = ns, rtState = ArrowStateOutdated, rtExecution = None,
         rtLastReturn = preserveLastReturn current, rtPendingDepSync = preservePendingDepSync current\<rparr>)\<rparr>"

definition ClearVersionOutdated :: "Namespace \<Rightarrow> ArrowRuntime command" where
  "ClearVersionOutdated ns =
     \<lparr>cmd_id = ns, cmd_event = ''runtime.outdated_cleared.'' @ ns, cmd_snapshot = True,
      cmd_validate = (\<lambda>current.
        if absent_runtime current then Some ErrValidation
        else if rtExecution (the current) \<noteq> None then Some ErrValidation
        else if rtState (the current) \<noteq> ArrowStateOutdated then Some ErrValidation
        else reject_unless (rtPendingDepSync (the current) = None)),
      cmd_emit = (\<lambda>current.
        \<lparr>rtRef = ns, rtState = ArrowStateReady, rtExecution = None,
         rtLastReturn = preserveLastReturn current, rtPendingDepSync = None\<rparr>)\<rparr>"

section \<open>Sending commands\<close>

text \<open>Every command the repository sends to the aggregate.\<close>

datatype rt_command =
    CBeginInstall begin_args
  | CBeginUninstall begin_args
  | CBeginUpdate begin_args
  | CBeginStop begin_args
  | CBeginExecution begin_args string "ArrowState list"
  | CEndExecution Namespace string ExecutionOutcome
  | CAdvanceStep Namespace string int StepStatus "string option" "string option"
  | CRestartExecution Namespace string "Step list"
  | CRecordPID Namespace string int
  | CSetSurface Namespace string Surface
  | CClearSurface Namespace string
  | CRecordDetached Namespace
  | CRecoverInterrupted Namespace
  | CRecordPreinstalled Namespace
  | CMarkOutdated Namespace "Namespace list" "Namespace list"
  | CMarkVersionOutdated Namespace
  | CClearVersionOutdated Namespace

fun rt_cmd :: "rt_command \<Rightarrow> ArrowRuntime command" where
  "rt_cmd (CBeginInstall c) = BeginInstall c"
| "rt_cmd (CBeginUninstall c) = BeginUninstall c"
| "rt_cmd (CBeginUpdate c) = BeginUpdate c"
| "rt_cmd (CBeginStop c) = BeginStop c"
| "rt_cmd (CBeginExecution c method availableIn) = BeginExecution c method availableIn"
| "rt_cmd (CEndExecution ns i out) = EndExecution ns i out"
| "rt_cmd (CAdvanceStep ns i k st err note) = AdvanceStep ns i k st err note"
| "rt_cmd (CRestartExecution ns i steps) = RestartExecution ns i steps"
| "rt_cmd (CRecordPID ns i pid) = RecordPID ns i pid"
| "rt_cmd (CSetSurface ns i s) = SetSurface ns i s"
| "rt_cmd (CClearSurface ns i) = ClearSurface ns i"
| "rt_cmd (CRecordDetached ns) = RecordDetached ns"
| "rt_cmd (CRecoverInterrupted ns) = RecoverInterrupted ns"
| "rt_cmd (CRecordPreinstalled ns) = RecordPreinstalled ns"
| "rt_cmd (CMarkOutdated ns added removed) = MarkOutdated ns added removed"
| "rt_cmd (CMarkVersionOutdated ns) = MarkVersionOutdated ns"
| "rt_cmd (CClearVersionOutdated ns) = ClearVersionOutdated ns"

definition rt_validate :: "rt_command \<Rightarrow> ArrowRuntime option \<Rightarrow> cmd_error option" where
  "rt_validate c = cmd_validate (rt_cmd c)"

definition rt_emit :: "rt_command \<Rightarrow> ArrowRuntime option \<Rightarrow> ArrowRuntime" where
  "rt_emit c = cmd_emit (rt_cmd c)"

abbreviation rt_send :: "rt_command \<Rightarrow> ArrowRuntime option \<Rightarrow> cmd_error + ArrowRuntime" where
  "rt_send \<equiv> agg_send rt_validate rt_emit"

abbreviation rt_run :: "rt_command list \<Rightarrow> ArrowRuntime option \<Rightarrow> ArrowRuntime option" where
  "rt_run \<equiv> agg_run rt_validate rt_emit"

text \<open>The aggregates of all namespaces; a command goes to the aggregate it names.\<close>

type_synonym rt_store = "Namespace \<rightharpoonup> ArrowRuntime"

definition store_send :: "rt_command \<Rightarrow> rt_store \<Rightarrow> cmd_error + rt_store" where
  "store_send c store =
     (case rt_send c (store (cmd_id (rt_cmd c))) of
        Inl e \<Rightarrow> Inl e
      | Inr rt \<Rightarrow> Inr (store(cmd_id (rt_cmd c) \<mapsto> rt)))"

section \<open>The version badge\<close>

definition versionOutdatedCommand :: "ArrowRuntime option \<Rightarrow> Namespace \<Rightarrow> bool \<Rightarrow> rt_command option" where
  "versionOutdatedCommand current ns outdated =
     (case current of
        None \<Rightarrow> None
      | Some rt \<Rightarrow>
          if outdated then
            (if rtState rt \<noteq> ArrowStateReady then None else Some (CMarkVersionOutdated ns))
          else if rtState rt \<noteq> ArrowStateOutdated \<or> rtPendingDepSync rt \<noteq> None then None
          else Some (CClearVersionOutdated ns))"

text \<open>\<open>Inl\<close> is \<open>ErrStateViolation\<close>.\<close>

definition SetVersionOutdated :: "Namespace \<Rightarrow> bool \<Rightarrow> rt_store \<Rightarrow> cmd_error + rt_store" where
  "SetVersionOutdated ns outdated store =
     (case versionOutdatedCommand (store ns) ns outdated of
        None \<Rightarrow> Inr store
      | Some cmd \<Rightarrow> store_send cmd store)"

text \<open>
  \<open>getArrow\<close> answers with the catalog row, or none; its error is passed on by the first
  component of the sum.
\<close>

definition ReconcileVersionBadge ::
  "(Namespace \<Rightarrow> go_error + Arrow option) \<Rightarrow> Namespace \<Rightarrow> rt_store \<Rightarrow> (go_error + cmd_error) + rt_store" where
  "ReconcileVersionBadge getArrow ns store =
     (case getArrow ns of
        Inl e \<Rightarrow> Inl (Inl e)
      | Inr None \<Rightarrow> Inr store
      | Inr (Some arrow) \<Rightarrow>
          (case SetVersionOutdated ns (aAvailable arrow \<noteq> None) store of
             Inl e \<Rightarrow> Inl (Inr e) | Inr store' \<Rightarrow> Inr store'))"

section \<open>Draining a run\<close>

datatype wizard_event =
    EventStepStarted nat
  | EventStepCompleted nat string
  | EventStepFailed nat "string option" bool
  | EventPID int
  | EventSurface "Surface option"
  | EventSurfaceClosed
  | EventEnded

text \<open>The catalog and surface hooks a drain calls, in order.\<close>

datatype hook_call = HookMarkInstalled | HookMarkUninstalled | HookMarkLastUsed | HookCloseSurface | HookReconcileBadge

record drainReport =
  superseded :: bool
  checksumMismatch :: bool
  surfaceReleased :: bool

record drain_state =
  ds_runtime :: "ArrowRuntime option"
  ds_report :: drainReport
  ds_calls :: "hook_call list"

definition observe :: "wizard_event \<Rightarrow> drainReport \<Rightarrow> drainReport" where
  "observe evt r =
     (case evt of EventStepFailed i err mismatch \<Rightarrow> if mismatch then r\<lparr>checksumMismatch := True\<rparr> else r | _ \<Rightarrow> r)"

text \<open>
  The sends of the drain: what the aggregate holds afterwards, and whether it has moved on to
  another execution.  A version conflict is retried by the repository until it is decided, so a
  send here is the one that validates.
\<close>

definition drain_send :: "rt_command \<Rightarrow> ArrowRuntime option \<Rightarrow> ArrowRuntime option \<times> bool" where
  "drain_send c current =
     (case rt_send c current of
        Inr rt \<Rightarrow> (Some rt, False)
      | Inl e \<Rightarrow> (current, e = ErrExecutionSuperseded))"

definition note_opt :: "string \<Rightarrow> string option" where
  "note_opt note = (if note \<noteq> [] then Some note else None)"

definition event_command :: "Namespace \<Rightarrow> string \<Rightarrow> wizard_event \<Rightarrow> rt_command option" where
  "event_command ns executionID evt =
     (case evt of
        EventStepStarted i \<Rightarrow> Some (CAdvanceStep ns executionID (int i) StepStatusRunning None None)
      | EventStepCompleted i note \<Rightarrow> Some (CAdvanceStep ns executionID (int i) StepStatusCompleted None (note_opt note))
      | EventStepFailed i err mismatch \<Rightarrow> Some (CAdvanceStep ns executionID (int i) StepStatusFailed err None)
      | EventPID pid \<Rightarrow> Some (CRecordPID ns executionID pid)
      | EventSurface sf \<Rightarrow> map_option (CSetSurface ns executionID) sf
      | EventSurfaceClosed \<Rightarrow> Some (CClearSurface ns executionID)
      | EventEnded \<Rightarrow> None)"

definition drain_event :: "Namespace \<Rightarrow> string \<Rightarrow> wizard_event \<Rightarrow> drain_state \<Rightarrow> drain_state" where
  "drain_event ns executionID evt ds =
     (if superseded (ds_report ds) then ds
      else (let r = observe evt (ds_report ds)
            in case event_command ns executionID evt of
                 None \<Rightarrow> ds\<lparr>ds_report := r\<rparr>
               | Some c \<Rightarrow>
                   (let (rt, gone) = drain_send c (ds_runtime ds); r' = r\<lparr>superseded := gone\<rparr>
                    in ds\<lparr>ds_runtime := rt,
                          ds_report :=
                            (case evt of EventSurface sf \<Rightarrow> r'\<lparr>surfaceReleased := False\<rparr>
                             | EventSurfaceClosed \<Rightarrow> r'\<lparr>surfaceReleased := \<not> gone\<rparr> | _ \<Rightarrow> r'),
                          ds_calls := ds_calls ds @
                            (if evt = EventSurfaceClosed \<and> \<not> gone then [HookCloseSurface] else [])\<rparr>)))"

definition stampCatalog :: "string \<Rightarrow> hook_call list" where
  "stampCatalog method =
     (if method = MethodInstall then [HookMarkInstalled]
      else if method = MethodUninstall then [HookMarkUninstalled]
      else if method = MethodExecute then [HookMarkLastUsed] else [])"

definition finishExecution :: "Namespace \<Rightarrow> string \<Rightarrow> string \<Rightarrow> ExecutionOutcome \<Rightarrow> drain_state \<Rightarrow> drain_state" where
  "finishExecution ns executionID method outcome ds =
     (if superseded (ds_report ds) then ds
      else (let stamps = (if outcome = ExecutionOutcomeSuccess then stampCatalog method else [])
            in case rt_send (CEndExecution ns executionID outcome) (ds_runtime ds) of
                 Inl e \<Rightarrow> ds\<lparr>ds_calls := ds_calls ds @ stamps\<rparr>
               | Inr rt \<Rightarrow>
                   ds\<lparr>ds_runtime := Some rt,
                      ds_calls := ds_calls ds @ stamps @
                        (if \<not> surfaceReleased (ds_report ds) then [HookCloseSurface] else []) @
                        (if method = MethodUpdate then [] else [HookReconcileBadge])\<rparr>))"

text \<open>
  A drain and the rest of the daemon write one aggregate: a schedule interleaves the events of
  the run with the commands everybody else sends.
\<close>

datatype sched = Drain wizard_event | External rt_command

fun run_sched :: "Namespace \<Rightarrow> string \<Rightarrow> sched list \<Rightarrow> drain_state \<Rightarrow> drain_state" where
  "run_sched ns executionID [] ds = ds"
| "run_sched ns executionID (Drain evt # rest) ds = run_sched ns executionID rest (drain_event ns executionID evt ds)"
| "run_sched ns executionID (External c # rest) ds =
     run_sched ns executionID rest (ds\<lparr>ds_runtime := rt_run [c] (ds_runtime ds)\<rparr>)"

section \<open>Crash recovery\<close>

text \<open>
  \<open>loads\<close> says whether an aggregate can be preloaded and read, \<open>alive\<close> whether the operating
  system still runs a process.  The second component is the namespaces whose surface is closed.
\<close>

definition collectRecoveryNamespaces ::
  "go_error + Namespace list \<Rightarrow> go_error + Namespace list \<Rightarrow> Namespace list" where
  "collectRecoveryNamespaces catalog aggregates =
     (let add = foldl (\<lambda>out ns. if ns \<in> set out then out else out @ [ns]);
          out = (case catalog of Inl e \<Rightarrow> [] | Inr nss \<Rightarrow> add [] nss)
      in case aggregates of Inl e \<Rightarrow> out | Inr nss \<Rightarrow> add out nss)"

definition send_logged :: "rt_command \<Rightarrow> rt_store \<Rightarrow> rt_store" where
  "send_logged c store = (case store_send c store of Inl e \<Rightarrow> store | Inr store' \<Rightarrow> store')"

definition recoverRunning ::
  "(int \<Rightarrow> bool) \<Rightarrow> Namespace \<Rightarrow> ArrowRuntime \<Rightarrow> rt_store \<times> Namespace list \<Rightarrow> rt_store \<times> Namespace list" where
  "recoverRunning alive ns rt st =
     (let pid = (case rtExecution rt of None \<Rightarrow> 0 | Some ex \<Rightarrow> exPID ex)
      in if pid > 0 \<and> alive pid then (send_logged (CRecordDetached ns) (fst st), snd st)
         else (send_logged (CRecoverInterrupted ns) (fst st),
               snd st @ (if Option.bind (rtExecution rt) exSurface \<noteq> None then [ns] else [])))"

definition recover_one ::
  "(Namespace \<Rightarrow> bool) \<Rightarrow> (int \<Rightarrow> bool) \<Rightarrow> rt_store \<times> Namespace list \<Rightarrow> Namespace \<Rightarrow> rt_store \<times> Namespace list" where
  "recover_one loads alive st ns =
     (case (if loads ns then fst st ns else None) of
        None \<Rightarrow> st
      | Some rt \<Rightarrow>
          if rtRef rt = [] then st
          else if rtState rt = ArrowStateRunning then recoverRunning alive ns rt st
          else if rtState rt \<in> {ArrowStateInstalling, ArrowStateUninstalling, ArrowStateUpdating,
            ArrowStateStopping, ArrowStateDraining}
            then (send_logged (CRecoverInterrupted ns) (fst st), snd st)
          else st)"

definition RecoverTransients ::
  "(Namespace \<Rightarrow> bool) \<Rightarrow> (int \<Rightarrow> bool) \<Rightarrow> go_error + Namespace list \<Rightarrow> go_error + Namespace list
     \<Rightarrow> rt_store \<Rightarrow> rt_store \<times> Namespace list" where
  "RecoverTransients loads alive catalog aggregates store =
     foldl (recover_one loads alive) (store, []) (collectRecoveryNamespaces catalog aggregates)"

section \<open>The invariant of the aggregate\<close>

text \<open>
  An arrow runs something exactly in a busy state, the method it runs is the one its state
  says, its steps are numbered in order, and a pending dependency sync only ever waits on an
  outdated arrow.  Draining and removed are never reached.
\<close>

definition method_fits :: "ArrowState \<Rightarrow> string \<Rightarrow> bool" where
  "method_fits s method \<longleftrightarrow>
     (case s of
        ArrowStateInstalling \<Rightarrow> method = MethodInstall
      | ArrowStateUninstalling \<Rightarrow> method = MethodUninstall
      | ArrowStateUpdating \<Rightarrow> method = MethodUpdate
      | ArrowStateStopping \<Rightarrow> method = MethodStop
      | ArrowStateRunning \<Rightarrow> True
      | _ \<Rightarrow> False)"

definition idle_state :: "ArrowState \<Rightarrow> bool" where
  "idle_state s \<longleftrightarrow> s \<in> {ArrowStateAbsent, ArrowStateReady, ArrowStateDetached, ArrowStateOutdated}"

definition steps_numbered :: "StepProgress list \<Rightarrow> bool" where
  "steps_numbered sps \<longleftrightarrow> map spIndex sps = [0..<length sps]"

definition rt_inv :: "ArrowRuntime \<Rightarrow> bool" where
  "rt_inv rt \<longleftrightarrow>
     (case rtExecution rt of
        None \<Rightarrow> idle_state (rtState rt)
      | Some ex \<Rightarrow> method_fits (rtState rt) (exMethod ex) \<and> steps_numbered (exSteps ex)) \<and>
     (rtPendingDepSync rt \<noteq> None \<longrightarrow> rtState rt = ArrowStateOutdated) \<and> rtRef rt \<noteq> []"

definition rt_named :: "rt_command \<Rightarrow> bool" where
  "rt_named c \<longleftrightarrow> cmd_id (rt_cmd c) \<noteq> []"

lemmas command_defs =
  BeginInstall_def BeginUninstall_def BeginUpdate_def BeginStop_def BeginExecution_def EndExecution_def
  AdvanceStep_def RestartExecution_def RecordPID_def SetSurface_def ClearSurface_def RecordDetached_def
  RecoverInterrupted_def RecordPreinstalled_def MarkOutdated_def MarkVersionOutdated_def ClearVersionOutdated_def

lemma steps_numbered_iff: "steps_numbered sps \<longleftrightarrow> (\<forall>i < length sps. spIndex (sps ! i) = i)"
  unfolding steps_numbered_def by (subst list_eq_iff_nth_eq) simp

lemma steps_numbered_initial [simp]: "steps_numbered (initialSteps steps)"
  by (simp add: steps_numbered_iff initialSteps_def enum_def)

lemma steps_numbered_update [simp]:
  "steps_numbered sps \<Longrightarrow> steps_numbered (sps[i := (sps ! i)\<lparr>spStatus := a, spError := b, spNote := c\<rparr>])"
  by (cases "i < length sps") (auto simp: steps_numbered_iff nth_list_update)

lemma stateAfterEnd_idle [simp]: "idle_state (stateAfterEnd method outcome)"
  by (simp add: stateAfterEnd_def idle_state_def)

lemma begun_simps [simp]:
  "exMethod (begun c method pid) = method" "exSteps (begun c method pid) = initialSteps (bgSteps c)"
  "exID (begun c method pid) = bgExecutionID c" "exPID (begun c method pid) = pid"
  by (simp_all add: begun_def)

lemma requireCurrent_None:
  "requireCurrentExecution current i = None \<longleftrightarrow>
     (\<exists>rt ex. current = Some rt \<and> rtRef rt \<noteq> [] \<and> rtExecution rt = Some ex \<and> exID ex = i)"
  by (auto simp: requireCurrentExecution_def split: option.splits)

lemma absent_runtime_False: "\<not> absent_runtime current \<longleftrightarrow> (\<exists>rt. current = Some rt \<and> rtRef rt \<noteq> [])"
  by (auto simp: absent_runtime_def split: option.splits)

lemma rt_inv_emit:
  assumes o': "rt_named c" and v: "rt_validate c cur = None" and i: "pred_option rt_inv cur"
  shows "rt_inv (rt_emit c cur)"
proof -
  have progress: "\<exists>rt ex. cur = Some rt \<and> rtExecution rt = Some ex \<and> rt_inv rt"
    if "requireCurrentExecution cur e = None" for e
    using that i by (auto simp: requireCurrent_None)
  have present: "cur = None \<or> (\<exists>rt. cur = Some rt \<and> rtRef rt \<noteq> [] \<and> rt_inv rt)"
    using i by (cases cur) (auto simp: rt_inv_def)
  show ?thesis
  proof (cases c)
    case (CEndExecution ns e out)
    then have "requireCurrentExecution cur e = None" using v by (simp add: rt_validate_def command_defs)
    with progress o' show ?thesis
      unfolding CEndExecution by (fastforce simp: rt_named_def rt_emit_def command_defs rt_inv_def Let_def method_fits_def)
  next
    case (CAdvanceStep ns e k st err msg)
    then have "requireCurrentExecution cur e = None"
      using v by (auto simp: rt_validate_def command_defs split: option.splits)
    with progress show ?thesis
      unfolding CAdvanceStep by (fastforce simp: rt_emit_def command_defs rt_inv_def Let_def)
  next
    case (CRestartExecution ns e steps)
    then have "requireCurrentExecution cur e = None" using v by (simp add: rt_validate_def command_defs)
    with progress show ?thesis
      unfolding CRestartExecution by (fastforce simp: rt_emit_def command_defs rt_inv_def Let_def)
  next
    case (CRecordPID ns e pid)
    then have "requireCurrentExecution cur e = None" using v by (simp add: rt_validate_def command_defs)
    with progress show ?thesis
      unfolding CRecordPID by (fastforce simp: rt_emit_def command_defs rt_inv_def)
  next
    case (CSetSurface ns e s)
    then have "requireCurrentExecution cur e = None" using v by (simp add: rt_validate_def command_defs)
    with progress show ?thesis
      unfolding CSetSurface by (fastforce simp: rt_emit_def command_defs rt_inv_def)
  next
    case (CClearSurface ns e)
    then have "requireCurrentExecution cur e = None" using v by (simp add: rt_validate_def command_defs)
    with progress show ?thesis
      unfolding CClearSurface by (fastforce simp: rt_emit_def command_defs rt_inv_def)
  next
    case (CRecordDetached ns)
    then have "\<not> absent_runtime cur" using v by (auto simp: rt_validate_def command_defs split: if_splits)
    then show ?thesis
      by (auto simp: CRecordDetached rt_emit_def command_defs rt_inv_def idle_state_def absent_runtime_False)
  next
    case (CRecordPreinstalled ns)
    then show ?thesis using present v o'
      by (auto simp: rt_named_def rt_validate_def rt_emit_def command_defs rt_inv_def idle_state_def
          absent_runtime_def preservePendingDepSync_def split: option.splits if_splits)
  qed (use o' in \<open>auto simp: rt_named_def rt_emit_def command_defs rt_inv_def method_fits_def idle_state_def
      stableStateFor_def Let_def\<close>)
qed

interpretation rt: event_aggregate rt_validate rt_emit rt_named rt_inv
  by unfold_locales (rule rt_inv_emit)

section \<open>Laws of single commands\<close>

lemma rt_send_Inr: "rt_send c cur = Inr rt \<longleftrightarrow> rt_validate c cur = None \<and> rt = rt_emit c cur"
  by (auto simp: agg_send_def split: option.splits)

lemma rt_inv_cases:
  assumes "rt_inv rt"
  obtains (idle) "rtExecution rt = None" "idle_state (rtState rt)"
  | (busy) ex where "rtExecution rt = Some ex" "method_fits (rtState rt) (exMethod ex)"
  using assms by (auto simp: rt_inv_def split: option.splits)

lemma busy_not_idle: "method_fits s m \<Longrightarrow> \<not> idle_state s"
  by (cases s) (auto simp: method_fits_def idle_state_def)

lemma rt_inv_running: "rt_inv rt \<Longrightarrow> rtState rt = ArrowStateRunning \<Longrightarrow> \<exists>ex. rtExecution rt = Some ex"
  by (auto simp: rt_inv_def idle_state_def split: option.splits)

lemma rt_inv_idle: "rt_inv rt \<Longrightarrow> idle_state (rtState rt) \<Longrightarrow> rtExecution rt = None"
  by (elim rt_inv_cases) (auto dest: busy_not_idle)

text \<open>The states a command moves an aggregate between, beyond the table of the domain.\<close>

definition extra_transitions :: "(ArrowState \<times> ArrowState) set" where
  "extra_transitions = {(ArrowStateAbsent, ArrowStateInstalling), (ArrowStateOutdated, ArrowStateUpdating),
     (ArrowStateRunning, ArrowStateReady), (ArrowStateRunning, ArrowStateAbsent), (ArrowStateAbsent, ArrowStateRunning)}"

definition step_allowed :: "ArrowState \<Rightarrow> ArrowState \<Rightarrow> bool" where
  "step_allowed s t \<longleftrightarrow> s = t \<or> CanTransitionTo s t \<or> (s, t) \<in> extra_transitions"

lemma step_allowed_simps:
  "step_allowed ArrowStateAbsent t \<longleftrightarrow> t \<in> {ArrowStateAbsent, ArrowStateReady, ArrowStateInstalling, ArrowStateRunning}"
  "step_allowed ArrowStateReady t \<longleftrightarrow> t \<in> {ArrowStateReady, ArrowStateRunning, ArrowStateInstalling,
     ArrowStateUninstalling, ArrowStateUpdating, ArrowStateOutdated}"
  "step_allowed ArrowStateOutdated t \<longleftrightarrow> t \<in> {ArrowStateOutdated, ArrowStateReady, ArrowStateRunning,
     ArrowStateUninstalling, ArrowStateUpdating}"
  "step_allowed ArrowStateDetached t \<longleftrightarrow> t \<in> {ArrowStateDetached, ArrowStateReady, ArrowStateStopping, ArrowStateRunning}"
  "step_allowed ArrowStateRunning t \<longleftrightarrow> t \<in> {ArrowStateRunning, ArrowStateStopping, ArrowStateDetached,
     ArrowStateReady, ArrowStateAbsent}"
  "step_allowed ArrowStateInstalling t \<longleftrightarrow> t \<in> {ArrowStateInstalling, ArrowStateReady, ArrowStateAbsent}"
  "step_allowed ArrowStateUninstalling t \<longleftrightarrow> t \<in> {ArrowStateUninstalling, ArrowStateReady, ArrowStateAbsent}"
  "step_allowed ArrowStateUpdating t \<longleftrightarrow> t \<in> {ArrowStateUpdating, ArrowStateReady, ArrowStateAbsent}"
  "step_allowed ArrowStateStopping t \<longleftrightarrow> t \<in> {ArrowStateStopping, ArrowStateReady, ArrowStateDraining}"
  by (auto simp: step_allowed_def extra_transitions_def CanTransitionTo_def)

lemma step_allowed_refl [simp]: "step_allowed s s"
  by (simp add: step_allowed_def)

lemma end_allowed:
  assumes "method_fits s m"
  shows "step_allowed s (stateAfterEnd m out)"
  using assms
  by (cases s) (auto simp: method_fits_def step_allowed_simps stateAfterEnd_def method_defs)

lemma accepted_step_allowed:
  assumes i: "rt_inv rt" and s: "rt_send c (Some rt) = Inr rt'"
  shows "step_allowed (rtState rt) (rtState rt')"
proof -
  have v: "rt_validate c (Some rt) = None" and e: "rt' = rt_emit c (Some rt)" using s by (simp_all add: rt_send_Inr)
  have present: "\<not> absent_runtime (Some rt)" using i by (simp add: rt_inv_def absent_runtime_def)
  show ?thesis
  proof (cases c)
    case (CEndExecution ns x out)
    then obtain ex where ex: "rtExecution rt = Some ex" using v by (auto simp: rt_validate_def command_defs requireCurrent_None)
    with i have "method_fits (rtState rt) (exMethod ex)" by (simp add: rt_inv_def)
    from end_allowed [OF this] show ?thesis by (simp add: CEndExecution e ex rt_emit_def command_defs Let_def)
  next
    case (CBeginExecution a m av)
    then have "rtExecution rt = None" using v present by (auto simp: rt_validate_def command_defs split: if_splits)
    then have "idle_state (rtState rt)" using i by (simp add: rt_inv_def)
    then show ?thesis unfolding e CBeginExecution
      by (auto simp: rt_emit_def command_defs idle_state_def step_allowed_simps)
  next
    case (CRecoverInterrupted ns)
    then have "\<exists>ex. rtExecution rt = Some ex \<and> method_fits (rtState rt) (exMethod ex)"
      using v present i
      by (auto simp: rt_validate_def command_defs rt_inv_def idle_state_def method_fits_def split: option.splits if_splits)
    then show ?thesis unfolding e CRecoverInterrupted
      by (cases "rtState rt")
        (auto simp: rt_emit_def command_defs step_allowed_simps stableStateFor_def method_fits_def)
  next
    case (CRecordDetached ns)
    then have "CanTransitionTo (rtState rt) ArrowStateDetached"
      using v present by (auto simp: rt_validate_def command_defs split: if_splits)
    then show ?thesis unfolding e CRecordDetached by (simp add: rt_emit_def command_defs step_allowed_def)
  next
    case (CBeginInstall a)
    have "rtState rt \<noteq> ArrowStateRemoved" using i by (auto simp: rt_inv_def idle_state_def method_fits_def split: option.splits)
    then show ?thesis using v present unfolding e CBeginInstall
      by (auto simp: rt_validate_def rt_emit_def command_defs step_allowed_simps split: if_splits)
  qed (use v present in \<open>auto simp: e rt_validate_def rt_emit_def command_defs Let_def step_allowed_simps split: if_splits\<close>)
qed

section \<open>Laws of the drain\<close>

text \<open>The aggregate does not run the execution: it runs nothing, or another one.\<close>

definition not_running :: "string \<Rightarrow> ArrowRuntime option \<Rightarrow> bool" where
  "not_running i cur \<longleftrightarrow> (case cur of None \<Rightarrow> True | Some rt \<Rightarrow>
     (case rtExecution rt of None \<Rightarrow> True | Some ex \<Rightarrow> exID ex \<noteq> i))"

text \<open>A command that does not start the execution anew.\<close>

fun begins_other :: "string \<Rightarrow> rt_command \<Rightarrow> bool" where
  "begins_other i (CBeginInstall a) = (bgExecutionID a \<noteq> i)"
| "begins_other i (CBeginUninstall a) = (bgExecutionID a \<noteq> i)"
| "begins_other i (CBeginUpdate a) = (bgExecutionID a \<noteq> i)"
| "begins_other i (CBeginStop a) = (bgExecutionID a \<noteq> i)"
| "begins_other i (CBeginExecution a m av) = (bgExecutionID a \<noteq> i)"
| "begins_other i c = True"

text \<open>The progress commands of an execution.\<close>

fun progress_of :: "string \<Rightarrow> rt_command \<Rightarrow> bool" where
  "progress_of i (CEndExecution ns e out) = (e = i)"
| "progress_of i (CAdvanceStep ns e k st err nt) = (e = i)"
| "progress_of i (CRestartExecution ns e steps) = (e = i)"
| "progress_of i (CRecordPID ns e pid) = (e = i)"
| "progress_of i (CSetSurface ns e sf) = (e = i)"
| "progress_of i (CClearSurface ns e) = (e = i)"
| "progress_of i c = False"

lemma not_running_require: "not_running i cur \<Longrightarrow> requireCurrentExecution cur i \<noteq> None"
  by (auto simp: not_running_def requireCurrentExecution_def split: option.splits)

lemma progress_rejected:
  assumes "progress_of i c" "not_running i cur"
  shows "rt_send c cur = Inl (the (requireCurrentExecution cur i))"
  using assms not_running_require [OF assms(2)]
  by (cases c) (auto simp: agg_send_def rt_validate_def command_defs split: option.splits)

lemma not_running_external:
  assumes "begins_other i c" "not_running i cur" "rt_send c cur = Inr rt"
  shows "not_running i (Some rt)"
  using assms
  by (cases c; cases cur)
    (auto simp: rt_send_Inr rt_validate_def rt_emit_def command_defs not_running_def Let_def
      requireCurrent_None begun_def split: option.splits if_splits)

lemma not_running_run: "begins_other i c \<Longrightarrow> not_running i cur \<Longrightarrow> not_running i (rt_run [c] cur)"
  using not_running_external [of i c cur] by (cases "rt_send c cur") auto

lemma event_command_progress: "event_command ns i evt = Some c \<Longrightarrow> progress_of i c"
  by (cases evt) (auto simp: event_command_def)

lemma drain_event_inert: "not_running i (ds_runtime ds) \<Longrightarrow> ds_runtime (drain_event ns i evt ds) = ds_runtime ds"
  using progress_rejected [OF event_command_progress]
  by (cases "event_command ns i evt") (auto simp: drain_event_def drain_send_def Let_def)

lemma finish_inert: "not_running i (ds_runtime ds) \<Longrightarrow> ds_runtime (finishExecution ns i m out ds) = ds_runtime ds"
  using progress_rejected [of i "CEndExecution ns i out" "ds_runtime ds"]
  by (auto simp: finishExecution_def Let_def)

definition externals :: "sched list \<Rightarrow> rt_command list" where
  "externals ss = concat (map (\<lambda>s. case s of Drain evt \<Rightarrow> [] | External c \<Rightarrow> [c]) ss)"

lemma externals_simps [simp]:
  "externals [] = []" "externals (Drain evt # ss) = externals ss" "externals (External c # ss) = c # externals ss"
  by (simp_all add: externals_def)

lemma superseded_sched:
  "not_running i (ds_runtime ds) \<Longrightarrow> list_all (begins_other i) (externals ss) \<Longrightarrow>
   ds_runtime (run_sched ns i ss ds) = rt_run (externals ss) (ds_runtime ds) \<and>
   not_running i (ds_runtime (run_sched ns i ss ds))"
proof (induction ss arbitrary: ds)
  case (Cons s ss)
  show ?case
  proof (cases s)
    case (Drain evt)
    have d: "ds_runtime (drain_event ns i evt ds) = ds_runtime ds" using Cons.prems(1) by (rule drain_event_inert)
    with Cons.IH [of "drain_event ns i evt ds"] Cons.prems show ?thesis
      unfolding Drain run_sched.simps externals_simps d by blast
  next
    case (External c)
    let ?ds = "ds\<lparr>ds_runtime := rt_run [c] (ds_runtime ds)\<rparr>"
    have c: "begins_other i c" "list_all (begins_other i) (externals ss)" using Cons.prems External by simp_all
    have "not_running i (ds_runtime ?ds)" using not_running_run [OF c(1) Cons.prems(1)] by simp
    moreover have "rt_run (c # externals ss) (ds_runtime ds) = rt_run (externals ss) (ds_runtime ?ds)" by simp
    ultimately show ?thesis
      using Cons.IH [of ?ds] c(2) unfolding External run_sched.simps externals_simps by metis
  qed
qed simp

section \<open>Laws of recovery\<close>

lemma send_logged_other: "m \<noteq> cmd_id (rt_cmd c) \<Longrightarrow> send_logged c store m = store m"
  by (auto simp: send_logged_def store_send_def split: sum.splits)

lemma recover_one_other: "m \<noteq> ns \<Longrightarrow> fst (recover_one loads alive st ns) m = fst st m"
  by (auto simp: recover_one_def recoverRunning_def Let_def send_logged_other command_defs split: option.splits)

text \<open>What recovery makes of one aggregate it can read.\<close>

definition recovered :: "(int \<Rightarrow> bool) \<Rightarrow> ArrowRuntime \<Rightarrow> ArrowState" where
  "recovered alive rt =
     (case rtExecution rt of
        None \<Rightarrow> rtState rt
      | Some ex \<Rightarrow>
          if rtState rt = ArrowStateRunning then (if exPID ex > 0 \<and> alive (exPID ex) then ArrowStateDetached else ArrowStateReady)
          else if rtState rt = ArrowStateStopping then ArrowStateReady else ArrowStateAbsent)"

lemma recover_one_state:
  assumes i: "rt_inv rt" and s: "fst st ns = Some rt" and l: "loads ns" and n: "ns \<noteq> []"
  shows "\<exists>rt'. fst (recover_one loads alive st ns) ns = Some rt' \<and> rtState rt' = recovered alive rt \<and>
    rtExecution rt' = None \<and> rtLastReturn rt' = rtLastReturn rt \<and> rt_inv rt'"
  using i
proof (cases rule: rt_inv_cases)
  case idle
  then have "recover_one loads alive st ns = st"
    using s l i by (auto simp: recover_one_def idle_state_def)
  with idle s i show ?thesis by (simp add: recovered_def)
next
  case (busy ex)
  have r: "rtRef rt \<noteq> []" using i by (simp add: rt_inv_def)
  show ?thesis
  proof (cases "rtState rt")
    case ArrowStateRunning
    then show ?thesis
      using busy s l r n
      by (auto simp: recover_one_def recoverRunning_def Let_def send_logged_def store_send_def agg_send_def rt_validate_def
          rt_emit_def command_defs absent_runtime_def CanTransitionTo_def recovered_def reject_unless_def stableStateFor_def
          rt_inv_def idle_state_def)
  qed (use busy s l r n in \<open>auto simp: recover_one_def send_logged_def store_send_def agg_send_def rt_validate_def
      rt_emit_def command_defs absent_runtime_def recovered_def reject_unless_def stableStateFor_def
      rt_inv_def idle_state_def method_fits_def\<close>)
qed

lemma recovered_idle: "rt_inv rt \<Longrightarrow> idle_state (recovered alive rt)"
  by (elim rt_inv_cases) (auto simp: recovered_def idle_state_def)

lemma collect_fold: "set (foldl (\<lambda>out ns. if ns \<in> set out then out else out @ [ns]) acc nss) = set acc \<union> set nss \<and>
    (distinct acc \<longrightarrow> distinct (foldl (\<lambda>out ns. if ns \<in> set out then out else out @ [ns]) acc nss))"
  by (induction nss arbitrary: acc) auto

lemma collectRecovery_set:
  "set (collectRecoveryNamespaces (Inr xs) (Inr ys)) = set xs \<union> set ys"
  "distinct (collectRecoveryNamespaces a b)"
  by (simp_all add: collectRecoveryNamespaces_def Let_def collect_fold split: sum.splits)

lemma recover_fold_other:
  "ns \<notin> set nss \<Longrightarrow> fst (foldl (recover_one loads alive) st nss) ns = fst st ns"
  by (induction nss arbitrary: st) (auto simp: recover_one_other)

lemma recover_fold:
  assumes "distinct nss" "ns \<in> set nss" "loads ns" "ns \<noteq> []" "fst st ns = Some rt" "rt_inv rt"
  shows "\<exists>rt'. fst (foldl (recover_one loads alive) st nss) ns = Some rt' \<and> rtState rt' = recovered alive rt \<and>
    rtExecution rt' = None \<and> rtLastReturn rt' = rtLastReturn rt \<and> rt_inv rt'"
proof -
  obtain us vs where nss: "nss = us @ ns # vs" "ns \<notin> set us" "ns \<notin> set vs"
    using assms(1,2) by (metis distinct.simps(2) distinct_append not_distinct_conv_prefix split_list)
  let ?st = "foldl (recover_one loads alive) st us"
  have "fst ?st ns = Some rt" using recover_fold_other [OF nss(2)] assms(5) by simp
  from recover_one_state [of rt ?st ns loads alive, OF assms(6) this assms(3,4)] nss(1) recover_fold_other [OF nss(3)]
  show ?thesis by simp
qed

lemma execution_rejected_running:
  "rt_inv rt \<Longrightarrow> rtState rt = ArrowStateRunning \<Longrightarrow> rt_send (CBeginExecution a m av) (Some rt) = Inl ErrValidation"
  using rt_inv_running [of rt]
  by (auto simp: agg_send_def rt_validate_def command_defs)

lemma badge_state:
  assumes "rt_inv rt" "store ns = Some rt" "rtPendingDepSync rt = None"
    "rtState rt = ArrowStateReady \<or> rtState rt = ArrowStateOutdated"
  shows "\<exists>store'. SetVersionOutdated ns b store = Inr store' \<and>
    map_option rtState (store' ns) = Some (if b then ArrowStateOutdated else ArrowStateReady) \<and>
    (\<forall>m. m \<noteq> ns \<longrightarrow> store' m = store m)"
proof -
  have "rtExecution rt = None" using assms(1,4) by (intro rt_inv_idle) (auto simp: idle_state_def)
  moreover have "rtRef rt \<noteq> []" using assms(1) by (simp add: rt_inv_def)
  ultimately show ?thesis
    using assms(2-4)
    by (cases b) (auto simp: SetVersionOutdated_def versionOutdatedCommand_def store_send_def agg_send_def
        rt_validate_def rt_emit_def command_defs absent_runtime_def reject_unless_def)
qed

section \<open>Properties\<close>

text \<open>A run of an arrow from its installation on, for the witnesses.\<close>

definition sample_args :: "string \<Rightarrow> begin_args" where
  "sample_args i = \<lparr>bgNamespace = ''github.com/u/r@stable'', bgExecutionID = i, bgSteps = [DependenciesStep \<lparr>stepType = StepTypeDependencies, exitOnFailure = True, title = ''deps''\<rparr>],
     bgVariables = [], bgWorkDir = ''/w''\<rparr>"

definition sample_run :: "rt_command list" where
  "sample_run = [CBeginInstall (sample_args ''1''), CAdvanceStep ''github.com/u/r@stable'' ''1'' 0 StepStatusCompleted None None,
     CEndExecution ''github.com/u/r@stable'' ''1'' ExecutionOutcomeSuccess,
     CBeginExecution (sample_args ''2'') MethodExecute [], CRecordPID ''github.com/u/r@stable'' ''2'' 42]"

text \<open>
  C8. Whatever sequence of commands the aggregate is sent, it runs an execution exactly in the
  busy states, the execution's method is the one its state says, its steps stay numbered in
  order, a pending dependency sync only waits on an outdated arrow, and draining and removed
  are never reached.
\<close>

theorem runtime_invariant:
  assumes "rt_run cs None = Some rt" "list_all rt_named cs"
  shows "rt_inv rt"
  by (rule rt.inv_from_scratch [OF assms])

theorem runtime_invariant_witness:
  "\<exists>rt. rt_run sample_run None = Some rt \<and> rtState rt = ArrowStateRunning \<and> rt_inv rt"
proof -
  have "rt_run sample_run None \<noteq> None" "map_option rtState (rt_run sample_run None) = Some ArrowStateRunning"
    and n: "list_all rt_named sample_run" by code_simp+
  then obtain rt where rt: "rt_run sample_run None = Some rt" "rtState rt = ArrowStateRunning" by auto
  with runtime_invariant [OF rt(1) n] show ?thesis by blast
qed

text \<open>
  C9. Every accepted command moves the aggregate along the transition table of the domain or
  along one of five transitions the table does not have: absent to installing, outdated to
  updating, running to ready, running to absent and absent to running.
\<close>

theorem accepted_commands_follow_transitions:
  assumes "rt_inv rt" "rt_send c (Some rt) = Inr rt'"
  shows "rtState rt' = rtState rt \<or> CanTransitionTo (rtState rt) (rtState rt') \<or>
    (rtState rt, rtState rt') \<in> {(ArrowStateAbsent, ArrowStateInstalling), (ArrowStateOutdated, ArrowStateUpdating),
     (ArrowStateRunning, ArrowStateReady), (ArrowStateRunning, ArrowStateAbsent), (ArrowStateAbsent, ArrowStateRunning)}"
  using accepted_step_allowed [OF assms] by (simp add: step_allowed_def extra_transitions_def eq_commute)

definition ready_runtime :: ArrowRuntime where
  "ready_runtime = \<lparr>rtRef = ''github.com/u/r@stable'', rtState = ArrowStateReady, rtExecution = None,
     rtLastReturn = None, rtPendingDepSync = None\<rparr>"

lemma ready_runtime_inv [simp]: "rt_inv ready_runtime"
  by code_simp

theorem accepted_commands_follow_transitions_witness:
  "\<exists>rt'. rt_send (CBeginUpdate (sample_args ''1'')) (Some ready_runtime) = Inr rt' \<and>
     CanTransitionTo ArrowStateReady (rtState rt')"
proof -
  let ?rt = "rt_emit (CBeginUpdate (sample_args ''1'')) (Some ready_runtime)"
  have s: "rt_send (CBeginUpdate (sample_args ''1'')) (Some ready_runtime) = Inr ?rt"
    by (simp add: rt_send_Inr) code_simp
  have "rtState ?rt = ArrowStateUpdating" "rtState ready_runtime = ArrowStateReady" by code_simp+
  with accepted_commands_follow_transitions [OF ready_runtime_inv s] s show ?thesis by auto
qed

text \<open>
  C10. A superseded run is inert: once the aggregate runs another execution or none, the events
  its drain still sends, in any interleaving with the commands of the rest of the daemon, and
  its end leave the aggregate exactly as those commands alone leave it.
\<close>

theorem superseded_run_is_inert:
  assumes "not_running i (ds_runtime ds)" "list_all (begins_other i) (externals ss)"
  shows "ds_runtime (finishExecution ns i method outcome (run_sched ns i ss ds)) = rt_run (externals ss) (ds_runtime ds)"
proof -
  note s = superseded_sched [OF assms, of ns]
  have "ds_runtime (finishExecution ns i method outcome (run_sched ns i ss ds)) = ds_runtime (run_sched ns i ss ds)"
    by (rule finish_inert [OF s [THEN conjunct2]])
  then show ?thesis using s [THEN conjunct1] by (rule trans)
qed

definition fresh_drain :: "ArrowRuntime option \<Rightarrow> drain_state" where
  "fresh_drain cur = \<lparr>ds_runtime = cur, ds_report = \<lparr>superseded = False, checksumMismatch = False, surfaceReleased = False\<rparr>, ds_calls = []\<rparr>"

theorem superseded_run_is_inert_witness:
  "ds_runtime (finishExecution ''github.com/u/r@stable'' ''1'' MethodInstall ExecutionOutcomeSuccess
     (run_sched ''github.com/u/r@stable'' ''1''
       [Drain (EventPID 7), External (CEndExecution ''github.com/u/r@stable'' ''2'' ExecutionOutcomeSuccess), Drain (EventStepStarted 0)]
       (fresh_drain (rt_run sample_run None))))
   = rt_run [CEndExecution ''github.com/u/r@stable'' ''2'' ExecutionOutcomeSuccess] (rt_run sample_run None)"
proof -
  let ?ss = "[Drain (EventPID 7), External (CEndExecution ''github.com/u/r@stable'' ''2'' ExecutionOutcomeSuccess), Drain (EventStepStarted 0)]"
  let ?ds = "fresh_drain (rt_run sample_run None)"
  have "not_running ''1'' (ds_runtime ?ds)" by code_simp
  moreover have "list_all (begins_other ''1'') (externals ?ss)" by simp
  ultimately have "ds_runtime (finishExecution ''github.com/u/r@stable'' ''1'' MethodInstall ExecutionOutcomeSuccess
      (run_sched ''github.com/u/r@stable'' ''1'' ?ss ?ds)) = rt_run (externals ?ss) (ds_runtime ?ds)"
    by (rule superseded_run_is_inert)
  then show ?thesis by (simp only: externals_simps fresh_drain_def drain_state.simps)
qed

text \<open>
  Crash recovery settles every arrow it can read: installing, uninstalling and updating end
  absent, stopping ends ready, running ends detached exactly when its recorded process is alive
  and ready otherwise; nothing runs afterwards, the last return is kept, and every other
  aggregate is left alone.
\<close>

theorem recovery_settles:
  assumes "store ns = Some rt" "rt_inv rt" "ns \<noteq> []" "loads ns"
  shows "if ns \<in> set catalog \<union> set aggregates
    then \<exists>rt'. fst (RecoverTransients loads alive (Inr catalog) (Inr aggregates) store) ns = Some rt' \<and>
           idle_state (rtState rt') \<and> rtState rt' = recovered alive rt \<and> rtExecution rt' = None \<and>
           rtLastReturn rt' = rtLastReturn rt
    else fst (RecoverTransients loads alive (Inr catalog) (Inr aggregates) store) ns = Some rt"
proof (cases "ns \<in> set catalog \<union> set aggregates")
  case True
  then have "ns \<in> set (collectRecoveryNamespaces (Inr catalog) (Inr aggregates))" by (simp add: collectRecovery_set)
  from recover_fold [of _ ns loads "(store, [])" rt, OF collectRecovery_set(2) this assms(4,3) _ assms(2)] assms(1)
  have "\<exists>rt'. fst (RecoverTransients loads alive (Inr catalog) (Inr aggregates) store) ns = Some rt' \<and>
      rtState rt' = recovered alive rt \<and> rtExecution rt' = None \<and> rtLastReturn rt' = rtLastReturn rt"
    unfolding RecoverTransients_def by auto
  with True recovered_idle [OF assms(2)] show ?thesis by auto
next
  case False
  then have "ns \<notin> set (collectRecoveryNamespaces (Inr catalog) (Inr aggregates))" by (simp add: collectRecovery_set)
  from recover_fold_other [OF this] assms(1) False show ?thesis by (simp add: RecoverTransients_def)
qed

theorem recovery_settles_witness:
  "\<exists>rt'. fst (RecoverTransients (\<lambda>_. True) (\<lambda>pid. pid = 42) (Inr [''github.com/u/r@stable'']) (Inr [])
     (\<lambda>_. rt_run sample_run None)) ''github.com/u/r@stable'' = Some rt' \<and> rtState rt' = ArrowStateDetached"
proof -
  obtain rt where rt: "rt_run sample_run None = Some rt" "rt_inv rt" "recovered (\<lambda>pid. pid = 42) rt = ArrowStateDetached"
  proof -
    have "rt_run sample_run None \<noteq> None" "map_option rt_inv (rt_run sample_run None) = Some True"
      "map_option (recovered (\<lambda>pid. pid = 42)) (rt_run sample_run None) = Some ArrowStateDetached" by code_simp+
    with that show thesis by auto
  qed
  from recovery_settles [of "\<lambda>_. rt_run sample_run None" "''github.com/u/r@stable''" rt "\<lambda>_. True" "[''github.com/u/r@stable'']" "[]" "\<lambda>pid. pid = 42", OF _ rt(2)]
  show ?thesis using rt by auto
qed

text \<open>
  After the version badge is reconciled with the catalog row, an idle arrow without a
  pending dependency sync is outdated exactly when something is available; other arrows are
  left alone.
\<close>

theorem version_badge_matches_catalog:
  assumes "store ns = Some rt" "rt_inv rt" "getArrow ns = Inr (Some arrow)" "rtPendingDepSync rt = None"
    "rtState rt = ArrowStateReady \<or> rtState rt = ArrowStateOutdated"
  shows "\<exists>store'. ReconcileVersionBadge getArrow ns store = Inr store' \<and>
    (map_option rtState (store' ns) = Some ArrowStateOutdated \<longleftrightarrow> aAvailable arrow \<noteq> None) \<and>
    (map_option rtState (store' ns) = Some ArrowStateReady \<longleftrightarrow> aAvailable arrow = None) \<and>
    (\<forall>m. m \<noteq> ns \<longrightarrow> store' m = store m)"
  using badge_state [of rt store ns "aAvailable arrow \<noteq> None", OF assms(2,1,4,5)] assms(3)
  by (auto simp: ReconcileVersionBadge_def)

definition sample_arrow :: "Available option \<Rightarrow> Arrow" where
  "sample_arrow a = \<lparr>aNamespace = ''github.com/u/r@stable'',
     aMeta = \<lparr>mName = ''r'', mDescription = [], mLicense = [], mURL = [], mMaintainers = [], mCredits = [], mTags = [],
       mMedia = \<lparr>mediaIcon = [], mediaBanner = []\<rparr>, mGenerator = None\<rparr>,
     aVariables = [], aNetbridge = [], aTargets = [], aReadme = [], aInstalledAt = 1, aUserInstalled = True,
     aLastUsedAt = 0, aSelectorKind = SelectorOrderedChannel,
     aResolved = \<lparr>rRef = ''v1'', rCommit = ''c'', rFingerprint = ''c''\<rparr>, aAvailable = a\<rparr>"

theorem version_badge_matches_catalog_witness:
  "\<exists>store'. ReconcileVersionBadge (\<lambda>_. Inr (Some (sample_arrow (Some \<lparr>avRef = ''v2'', avCommit = ''d''\<rparr>))))
      ''github.com/u/r@stable'' (\<lambda>_. Some ready_runtime) = Inr store' \<and>
     map_option rtState (store' ''github.com/u/r@stable'') = Some ArrowStateOutdated"
proof -
  let ?a = "sample_arrow (Some \<lparr>avRef = ''v2'', avCommit = ''d''\<rparr>)"
  have "rtPendingDepSync ready_runtime = None" "rtState ready_runtime = ArrowStateReady \<or> rtState ready_runtime = ArrowStateOutdated"
    by (simp_all add: ready_runtime_def)
  moreover have "aAvailable ?a \<noteq> None" by (simp add: sample_arrow_def)
  ultimately show ?thesis
    using version_badge_matches_catalog [of "\<lambda>_. Some ready_runtime" "''github.com/u/r@stable''" ready_runtime
        "\<lambda>_. Inr (Some ?a)" ?a, OF refl ready_runtime_inv refl] by blast
qed

text \<open>
  A method declared available in running alone can never begin: in no state the aggregate
  reaches does it accept such an execution, since a running arrow has one already.
\<close>

theorem running_method_never_begins:
  assumes "rt_run cs None = Some rt" "list_all rt_named cs"
  shows "rt_send (CBeginExecution a method [ArrowStateRunning]) (Some rt) = Inl ErrValidation"
proof -
  have i: "rt_inv rt" using rt.inv_from_scratch [OF assms] .
  show ?thesis
  proof (cases "rtState rt = ArrowStateRunning")
    case True
    then show ?thesis using i execution_rejected_running by blast
  next
    case False
    then show ?thesis
      by (auto simp: agg_send_def rt_validate_def command_defs execution_admitted_def reject_unless_def)
  qed
qed

theorem running_method_never_begins_witness:
  "\<exists>rt. rt_run sample_run None = Some rt \<and> rtState rt = ArrowStateRunning \<and>
     rt_send (CBeginExecution (sample_args ''3'') ''restart'' [ArrowStateRunning]) (Some rt) = Inl ErrValidation"
proof -
  have "rt_run sample_run None \<noteq> None" "map_option rtState (rt_run sample_run None) = Some ArrowStateRunning"
    and n: "list_all rt_named sample_run" by code_simp+
  then obtain rt where rt: "rt_run sample_run None = Some rt" "rtState rt = ArrowStateRunning" by auto
  with running_method_never_begins [OF rt(1) n] show ?thesis by blast
qed

text \<open>
  A detached arrow is stopped without its process: recording it detached drops the
  execution that held the process id, so the stop that follows carries process id 0.
\<close>

theorem detached_stop_has_no_process:
  assumes "rt_inv rt" "rtState rt = ArrowStateDetached" "rt_send (CBeginStop a) (Some rt) = Inr rt'"
  shows "\<exists>ex. rtExecution rt' = Some ex \<and> exMethod ex = MethodStop \<and> exPID ex = 0"
proof -
  have "rtExecution rt = None" using assms(1,2) by (intro rt_inv_idle) (auto simp: idle_state_def)
  with assms(3) show ?thesis by (auto simp: rt_send_Inr rt_emit_def command_defs Let_def)
qed

theorem detached_stop_has_no_process_witness:
  "\<exists>rt rt' ex. rt_run (sample_run @ [CRecordDetached ''github.com/u/r@stable'']) None = Some rt \<and>
     rt_send (CBeginStop (sample_args ''3'')) (Some rt) = Inr rt' \<and> rtExecution rt' = Some ex \<and> exPID ex = 0"
proof -
  let ?cs = "sample_run @ [CRecordDetached ''github.com/u/r@stable'']"
  have "rt_run ?cs None \<noteq> None" "map_option rt_inv (rt_run ?cs None) = Some True"
    "map_option rtState (rt_run ?cs None) = Some ArrowStateDetached"
    "rt_validate (CBeginStop (sample_args ''3'')) (rt_run ?cs None) = None" by code_simp+
  then obtain rt where rt: "rt_run ?cs None = Some rt" "rt_inv rt" "rtState rt = ArrowStateDetached"
    "rt_validate (CBeginStop (sample_args ''3'')) (Some rt) = None" by auto
  then have s: "rt_send (CBeginStop (sample_args ''3'')) (Some rt) = Inr (rt_emit (CBeginStop (sample_args ''3'')) (Some rt))"
    by (simp add: rt_send_Inr)
  from detached_stop_has_no_process [OF rt(2,3) s] rt(1) s show ?thesis by blast
qed

text \<open>
  A lifecycle method name reaches an installed arrow through the custom-method command: an
  execution of \<open>_install\<close> begins on a ready arrow with no gate of its own, and when it fails
  the installed arrow is left absent.
\<close>

theorem custom_install_loses_installed_arrow:
  assumes "rt_inv rt" "rtState rt = ArrowStateReady" "bgNamespace a \<noteq> []"
  shows "map_option rtState (rt_run [CBeginExecution a MethodInstall [],
      CEndExecution (bgNamespace a) (bgExecutionID a) ExecutionOutcomeFailed] (Some rt)) = Some ArrowStateAbsent"
proof -
  have "rtExecution rt = None" "rtRef rt \<noteq> []"
    using assms(1,2) by (auto simp: rt_inv_def method_fits_def split: option.splits)
  with assms(2,3) show ?thesis
    by (simp add: agg_send_def rt_validate_def rt_emit_def command_defs execution_admitted_def absent_runtime_def
        begun_def reject_unless_def requireCurrentExecution_def stateAfterEnd_def Let_def)
qed

theorem custom_install_loses_installed_arrow_witness:
  "rt_inv ready_runtime \<and>
   map_option rtState (rt_run [CBeginExecution (sample_args ''1'') MethodInstall [],
      CEndExecution ''github.com/u/r@stable'' ''1'' ExecutionOutcomeFailed] (Some ready_runtime)) = Some ArrowStateAbsent"
proof -
  have r: "rt_inv ready_runtime" by code_simp
  then show ?thesis
    using custom_install_loses_installed_arrow [of ready_runtime "sample_args ''1''"]
    by (simp add: sample_args_def ready_runtime_def)
qed

end
