(* ===== verification/ArrowRow.thy ===== *)
theory ArrowRow
  imports Runtime Vault
begin

text \<open>
  Catalog rows (internal/app/repositories/arrow/internal): the commands that write an arrow's row,
  one definition per file of commands/, and the two retry loops of advance/ that send them:
  \<open>RecordAvailable\<close>, which judges a row and records the answer, and \<open>sendRetryingConflicts\<close>.
\<close>

section \<open>The commands\<close>

text \<open>The five fields of \<open>domain.Arrow\<close> that a manifest fills (\<open>manifestOf\<close>).\<close>

record manifest =
  mfMeta :: ArrowMeta
  mfVariables :: "Variable list"
  mfNetbridge :: "PortDef list"
  mfTargets :: "(OS \<times> Target) list"
  mfReadme :: string

definition manifestOf :: "Arrow \<Rightarrow> manifest" where
  "manifestOf a = \<lparr>mfMeta = aMeta a, mfVariables = aVariables a, mfNetbridge = aNetbridge a,
     mfTargets = aTargets a, mfReadme = aReadme a\<rparr>"

definition with_manifest :: "manifest \<Rightarrow> Arrow \<Rightarrow> Arrow" where
  "with_manifest m a = a\<lparr>aMeta := mfMeta m, aVariables := mfVariables m, aNetbridge := mfNetbridge m,
     aTargets := mfTargets m, aReadme := mfReadme m\<rparr>"

definition AddArrow :: "Namespace \<Rightarrow> manifest \<Rightarrow> bool \<Rightarrow> SelectorKind \<Rightarrow> Resolved \<Rightarrow> Arrow command" where
  "AddArrow ns m directInstall kind resolved =
     \<lparr>cmd_id = ns, cmd_event = ''arrow.added.'' @ ns, cmd_snapshot = True,
      cmd_validate = (\<lambda>cur. reject_unless (cur = None)),
      cmd_emit = (\<lambda>cur. \<lparr>aNamespace = ns, aMeta = mfMeta m, aVariables = mfVariables m,
        aNetbridge = mfNetbridge m, aTargets = mfTargets m, aReadme = mfReadme m,
        aInstalledAt = zero_time, aUserInstalled = directInstall, aLastUsedAt = zero_time,
        aSelectorKind = kind, aResolved = resolved, aAvailable = None\<rparr>)\<rparr>"

text \<open>\<open>names\<close>: whether what is available is what has just been installed.\<close>

definition advance_names :: "Resolved \<Rightarrow> Available option \<Rightarrow> bool" where
  "advance_names resolved available =
     (case available of None \<Rightarrow> True
      | Some av \<Rightarrow> avRef av = rRef resolved \<and> avCommit av = rCommit resolved)"

definition AdvanceArrow :: "Namespace \<Rightarrow> manifest \<Rightarrow> Resolved \<Rightarrow> bool \<Rightarrow> Arrow command" where
  "AdvanceArrow ns m resolved keepNewerAvailable =
     \<lparr>cmd_id = ns, cmd_event = ''arrow.advanced.'' @ ns, cmd_snapshot = True,
      cmd_validate = (\<lambda>cur. reject_unless (cur \<noteq> None)),
      cmd_emit = (\<lambda>cur. let next = (with_manifest m (the cur))\<lparr>aResolved := resolved\<rparr>
        in if \<not> keepNewerAvailable \<or> advance_names resolved (aAvailable next)
           then next\<lparr>aAvailable := None\<rparr> else next)\<rparr>"

definition MarkInstalled :: "Namespace \<Rightarrow> go_time \<Rightarrow> Arrow command" where
  "MarkInstalled ns at =
     \<lparr>cmd_id = ns, cmd_event = ''arrow.installed.'' @ ns, cmd_snapshot = True,
      cmd_validate = (\<lambda>cur. reject_unless (cur \<noteq> None)),
      cmd_emit = (\<lambda>cur. (the cur)\<lparr>aInstalledAt := at\<rparr>)\<rparr>"

definition MarkLastUsed :: "Namespace \<Rightarrow> go_time \<Rightarrow> Arrow command" where
  "MarkLastUsed ns at =
     \<lparr>cmd_id = ns, cmd_event = ''arrow.last_used.'' @ ns, cmd_snapshot = True,
      cmd_validate = (\<lambda>cur. reject_unless (cur \<noteq> None)),
      cmd_emit = (\<lambda>cur. (the cur)\<lparr>aLastUsedAt := at\<rparr>)\<rparr>"

definition MarkUninstalled :: "Namespace \<Rightarrow> Arrow command" where
  "MarkUninstalled ns =
     \<lparr>cmd_id = ns, cmd_event = ''arrow.uninstalled.'' @ ns, cmd_snapshot = True,
      cmd_validate = (\<lambda>cur. reject_unless (cur \<noteq> None)),
      cmd_emit = (\<lambda>cur. (the cur)\<lparr>aInstalledAt := zero_time\<rparr>)\<rparr>"

text \<open>
  A check's answer is refused when the row has left the \<open>Resolved\<close> it was judged against.
\<close>

definition RecordAvailable :: "Namespace \<Rightarrow> Available option \<Rightarrow> Resolved \<Rightarrow> Arrow command" where
  "RecordAvailable ns available judgedResolved =
     \<lparr>cmd_id = ns, cmd_event = ''arrow.available_checked.'' @ ns, cmd_snapshot = True,
      cmd_validate = (\<lambda>cur. case cur of
          None \<Rightarrow> Some ErrValidation
        | Some a \<Rightarrow> reject_unless (aResolved a = judgedResolved)),
      cmd_emit = (\<lambda>cur. (the cur)\<lparr>aAvailable := available\<rparr>)\<rparr>"

definition RefreshManifest :: "Namespace \<Rightarrow> manifest \<Rightarrow> Arrow command" where
  "RefreshManifest ns m =
     \<lparr>cmd_id = ns, cmd_event = ''arrow.manifest_refreshed.'' @ ns, cmd_snapshot = True,
      cmd_validate = (\<lambda>cur. reject_unless (cur \<noteq> None)),
      cmd_emit = (\<lambda>cur. with_manifest m (the cur))\<rparr>"

definition SetUserInstalled :: "Namespace \<Rightarrow> Arrow command" where
  "SetUserInstalled ns =
     \<lparr>cmd_id = ns, cmd_event = ''arrow.user_installed.'' @ ns, cmd_snapshot = True,
      cmd_validate = (\<lambda>cur. reject_unless (cur \<noteq> None)),
      cmd_emit = (\<lambda>cur. (the cur)\<lparr>aUserInstalled := True\<rparr>)\<rparr>"

lemmas row_command_defs = AddArrow_def AdvanceArrow_def MarkInstalled_def MarkLastUsed_def
  MarkUninstalled_def RecordAvailable_def RefreshManifest_def SetUserInstalled_def with_manifest_def

datatype row_command =
    KAdd Namespace manifest bool SelectorKind Resolved
  | KAdvance Namespace manifest Resolved bool
  | KMarkInstalled Namespace go_time
  | KMarkLastUsed Namespace go_time
  | KMarkUninstalled Namespace
  | KRecordAvailable Namespace "Available option" Resolved
  | KRefreshManifest Namespace manifest
  | KSetUserInstalled Namespace

fun row_cmd :: "row_command \<Rightarrow> Arrow command" where
  "row_cmd (KAdd ns m direct kind resolved) = AddArrow ns m direct kind resolved"
| "row_cmd (KAdvance ns m resolved keepNewer) = AdvanceArrow ns m resolved keepNewer"
| "row_cmd (KMarkInstalled ns at) = MarkInstalled ns at"
| "row_cmd (KMarkLastUsed ns at) = MarkLastUsed ns at"
| "row_cmd (KMarkUninstalled ns) = MarkUninstalled ns"
| "row_cmd (KRecordAvailable ns av resolved) = RecordAvailable ns av resolved"
| "row_cmd (KRefreshManifest ns m) = RefreshManifest ns m"
| "row_cmd (KSetUserInstalled ns) = SetUserInstalled ns"

definition row_validate :: "row_command \<Rightarrow> Arrow option \<Rightarrow> cmd_error option" where
  "row_validate c = cmd_validate (row_cmd c)"

definition row_emit :: "row_command \<Rightarrow> Arrow option \<Rightarrow> Arrow" where
  "row_emit c = cmd_emit (row_cmd c)"

abbreviation row_send :: "row_command \<Rightarrow> Arrow option \<Rightarrow> cmd_error + Arrow" where
  "row_send \<equiv> agg_send row_validate row_emit"

abbreviation row_run :: "row_command list \<Rightarrow> Arrow option \<Rightarrow> Arrow option" where
  "row_run \<equiv> agg_run row_validate row_emit"

section \<open>Sending with retries\<close>

text \<open>
  What a send returns: the aggregate's refusal, a version conflict (\<open>ErrPipelineFailed\<close>) or
  another failure of the event store.  An attempt of another writer's race: the commands the row
  receives between this writer's read and its append, and the event store's own failure, if any.
\<close>

datatype send_error = SendValidation | SendPipelineFailed | SendOther go_error

record attempt =
  at_others :: "row_command list"
  at_failure :: "send_error option"

definition quiet :: attempt where
  "quiet = \<lparr>at_others = [], at_failure = None\<rparr>"

definition SendWait :: "row_command \<Rightarrow> send_error option \<Rightarrow> Arrow option \<Rightarrow> send_error option \<times> Arrow option" where
  "SendWait c failure row =
     (case failure of
        Some e \<Rightarrow> (Some e, row)
      | None \<Rightarrow> (case row_send c row of Inl e \<Rightarrow> (Some SendValidation, row) | Inr a \<Rightarrow> (None, Some a)))"

definition maxWriteAttempts :: nat where
  "maxWriteAttempts = 3"

definition retryableWrite :: "send_error \<Rightarrow> bool" where
  "retryableWrite e \<longleftrightarrow> e = SendPipelineFailed \<or> e = SendValidation"

definition sameAvailable :: "Available option \<Rightarrow> Available option \<Rightarrow> bool" where
  "sameAvailable a b = (a = b)"

text \<open>
  The loop of \<open>RecordAvailable\<close>, with the attempts still allowed counted down from
  \<open>maxWriteAttempts\<close>; \<open>sched\<close> says what each attempt meets.  The result is the error, or the
  answer and whether there was one, with the row afterwards.
\<close>

datatype judge_error = JudgeFailed sel_error | RowForgotten | WriteFailed send_error

type_synonym judge = "Arrow \<Rightarrow> judge_error + Available option option"

fun record_attempts ::
  "nat \<Rightarrow> (nat \<Rightarrow> attempt) \<Rightarrow> Namespace \<Rightarrow> judge \<Rightarrow> Arrow option \<Rightarrow>
   (judge_error + Available option option) \<times> Arrow option" where
  "record_attempts n sched ns judge row =
     (case row of
        None \<Rightarrow> (Inl RowForgotten, row)
      | Some current \<Rightarrow>
          (case judge current of
             Inl e \<Rightarrow> (Inl e, row)
           | Inr None \<Rightarrow> (Inr None, row)
           | Inr (Some available) \<Rightarrow>
               if sameAvailable (aAvailable current) available then (Inr (Some available), row)
               else
                 (case SendWait (KRecordAvailable ns available (aResolved current)) (at_failure (sched n))
                         (row_run (at_others (sched n)) row) of
                    (None, row') \<Rightarrow> (Inr (Some available), row')
                  | (Some e, row') \<Rightarrow>
                      if \<not> retryableWrite e \<or> n \<le> 1 then (Inl (WriteFailed e), row')
                      else record_attempts (n - 1) sched ns judge row')))"

declare record_attempts.simps [simp del]

definition RecordAvailable_loop ::
  "(nat \<Rightarrow> attempt) \<Rightarrow> Namespace \<Rightarrow> judge \<Rightarrow> Arrow option \<Rightarrow>
   (judge_error + Available option option) \<times> Arrow option" where
  "RecordAvailable_loop = record_attempts maxWriteAttempts"

text \<open>
  \<open>sendRetryingConflicts\<close> resends while the event store reports a conflict; \<open>failures\<close> is what
  the store answers at each attempt.
\<close>

fun send_retrying :: "nat \<Rightarrow> (nat \<Rightarrow> send_error option) \<Rightarrow> row_command \<Rightarrow> Arrow option \<Rightarrow> send_error option \<times> Arrow option" where
  "send_retrying n failures c row =
     (case SendWait c (failures n) row of
        (None, row') \<Rightarrow> (None, row')
      | (Some e, row') \<Rightarrow>
          if e \<noteq> SendPipelineFailed \<or> n \<le> 1 then (Some e, row')
          else send_retrying (n - 1) failures c row')"

declare send_retrying.simps [simp del]

definition sendRetryingConflicts :: "(nat \<Rightarrow> send_error option) \<Rightarrow> row_command \<Rightarrow> Arrow option \<Rightarrow> send_error option \<times> Arrow option" where
  "sendRetryingConflicts = send_retrying maxWriteAttempts"

section \<open>Invariants of a row\<close>

text \<open>
  What is available is never what is installed; a check that records otherwise is not one the
  daemon sends.
\<close>

definition row_inv :: "Arrow \<Rightarrow> bool" where
  "row_inv a \<longleftrightarrow> aAvailable a = None \<or> \<not> advance_names (aResolved a) (aAvailable a)"

fun row_ok :: "row_command \<Rightarrow> bool" where
  "row_ok (KRecordAvailable ns av resolved) = (av = None \<or> \<not> advance_names resolved av)"
| "row_ok (KAdvance ns m resolved keepNewer) = True"
| "row_ok c = True"

text \<open>What no command changes once a row exists.\<close>

definition same_identity :: "Arrow \<Rightarrow> Arrow \<Rightarrow> bool" where
  "same_identity a b \<longleftrightarrow> aNamespace b = aNamespace a \<and> aSelectorKind b = aSelectorKind a \<and>
     (aUserInstalled a \<longrightarrow> aUserInstalled b)"

lemma with_manifest_simps [simp]:
  "aNamespace (with_manifest m a) = aNamespace a" "aSelectorKind (with_manifest m a) = aSelectorKind a"
  "aUserInstalled (with_manifest m a) = aUserInstalled a" "aResolved (with_manifest m a) = aResolved a"
  "aAvailable (with_manifest m a) = aAvailable a" "aInstalledAt (with_manifest m a) = aInstalledAt a"
  "aLastUsedAt (with_manifest m a) = aLastUsedAt a" "manifestOf (with_manifest m a) = m"
  by (simp_all add: with_manifest_def manifestOf_def)

lemmas row_simps = agg_send_def row_validate_def row_emit_def AddArrow_def AdvanceArrow_def MarkInstalled_def
  MarkLastUsed_def MarkUninstalled_def RecordAvailable_def RefreshManifest_def SetUserInstalled_def

lemma row_send_identity: "row_send c (Some a) = Inr b \<Longrightarrow> same_identity a b"
  by (cases c) (auto simp: row_simps same_identity_def Let_def reject_unless_def split: if_splits option.splits)

lemma row_run_identity: "\<exists>b. row_run cs (Some a) = Some b \<and> same_identity a b"
proof (induction cs arbitrary: a)
  case Nil
  show ?case by (simp add: same_identity_def)
next
  case (Cons c cs)
  show ?case
  proof (cases "row_send c (Some a)")
    case (Inl e)
    with Cons show ?thesis by simp
  next
    case (Inr b)
    with Cons [of b] row_send_identity [OF Inr] show ?thesis by (auto simp: same_identity_def)
  qed
qed

interpretation row: event_aggregate row_validate row_emit row_ok row_inv
proof unfold_locales
  fix c cur
  assume "row_ok c" "row_validate c cur = None" "pred_option row_inv cur"
  then show "row_inv (row_emit c cur)"
    by (cases c; cases cur)
      (auto simp: row_simps row_inv_def advance_names_def Let_def reject_unless_def split: if_splits option.splits)
qed

lemma SendWait_cases:
  "SendWait c failure row = (err, row') \<Longrightarrow>
   (err = None \<and> (\<exists>a. row' = Some a \<and> row_send c row = Inr a)) \<or> (err \<noteq> None \<and> row' = row)"
  by (auto simp: SendWait_def split: option.splits sum.splits)

lemma SendWait_RecordAvailable:
  "SendWait (KRecordAvailable ns av resolved) failure row = (None, row') \<Longrightarrow>
   \<exists>a. row = Some a \<and> aResolved a = resolved \<and> row' = Some (a\<lparr>aAvailable := av\<rparr>)"
  by (cases row) (auto simp: SendWait_def row_simps reject_unless_def split: option.splits sum.splits if_splits)

lemma record_attempts_send:
  "judge current = Inr (Some available) \<Longrightarrow> \<not> sameAvailable (aAvailable current) available \<Longrightarrow>
   record_attempts n sched ns judge (Some current) =
     (case SendWait (KRecordAvailable ns available (aResolved current)) (at_failure (sched n))
             (row_run (at_others (sched n)) (Some current)) of
        (None, row') \<Rightarrow> (Inr (Some available), row')
      | (Some e, row') \<Rightarrow>
          if \<not> retryableWrite e \<or> n \<le> 1 then (Inl (WriteFailed e), row')
          else record_attempts (n - 1) sched ns judge row')"
  by (subst record_attempts.simps) simp

lemma record_attempts_answer:
  "record_attempts n sched ns judge row = (Inr (Some av), row') \<Longrightarrow>
   \<exists>a b. row' = Some a \<and> aAvailable a = av \<and> judge b = Inr (Some av) \<and> aResolved a = aResolved b \<and>
     aSelectorKind a = aSelectorKind b"
proof (induction n arbitrary: row rule: less_induct)
  case (less n)
  from less.prems obtain current where row: "row = Some current"
    by (subst (asm) record_attempts.simps) (auto split: option.splits)
  with less.prems obtain av' where j: "judge current = Inr (Some av')"
    by (subst (asm) record_attempts.simps) (auto split: sum.splits option.splits)
  show ?case
  proof (cases "sameAvailable (aAvailable current) av'")
    case True
    with less.prems row j show ?thesis
      by (subst (asm) record_attempts.simps) (auto simp: sameAvailable_def)
  next
    case False
    obtain mid where mid: "row_run (at_others (sched n)) row = Some mid" "same_identity current mid"
      using row_run_identity row by blast
    obtain err u where s: "SendWait (KRecordAvailable ns av' (aResolved current)) (at_failure (sched n)) (Some mid) = (err, u)"
      by fastforce
    show ?thesis
    proof (cases err)
      case None
      with less.prems s mid(1) have "av' = av" "row' = u"
        by (simp_all add: row record_attempts_send [of judge, OF j False])
      with SendWait_RecordAvailable [OF s [unfolded None]] mid(2) j show ?thesis
        by (auto simp: same_identity_def)
    next
      case (Some e)
      with less.prems s mid(1)
      have r: "n > 1" "record_attempts (n - 1) sched ns judge u = (Inr (Some av), row')"
        by (simp_all add: row record_attempts_send [of judge, OF j False] split: if_splits)
      then show ?thesis using less.IH [of "n - 1" u] by simp
    qed
  qed
qed


section \<open>Properties\<close>

definition sample_manifest :: "string \<Rightarrow> manifest" where
  "sample_manifest readme = \<lparr>mfMeta = aMeta (sample_arrow None), mfVariables = [], mfNetbridge = [],
     mfTargets = [], mfReadme = readme\<rparr>"

definition sample_added :: "row_command list" where
  "sample_added = [KAdd ''github.com/u/r@stable'' (sample_manifest ''one'') True SelectorOrderedChannel
     \<lparr>rRef = ''v1'', rCommit = ''c'', rFingerprint = ''c''\<rparr>]"

definition sample_moves :: "row_command list" where
  "sample_moves = [KMarkInstalled ''github.com/u/r@stable'' 1,
     KRecordAvailable ''github.com/u/r@stable'' (Some \<lparr>avRef = ''v2'', avCommit = ''d''\<rparr>)
       \<lparr>rRef = ''v1'', rCommit = ''c'', rFingerprint = ''c''\<rparr>,
     KAdvance ''github.com/u/r@stable'' (sample_manifest ''two'') \<lparr>rRef = ''v2'', rCommit = ''d'', rFingerprint = ''d''\<rparr> True,
     KRecordAvailable ''github.com/u/r@stable'' (Some \<lparr>avRef = ''v2'', avCommit = ''d''\<rparr>)
       \<lparr>rRef = ''v1'', rCommit = ''c'', rFingerprint = ''c''\<rparr>]"

text \<open>
  C14. Whatever commands a row receives after it was added, in any order and with any of them
  refused, the row stays: its namespace and selector kind are what they were, and an arrow the user
  installed stays one.  When moreover every answer ever sent to be recorded names another release
  than the one it was judged against, what is available is never what is installed.
\<close>

theorem row_keeps_identity:
  assumes "row_run cs None = Some a"
  shows "\<exists>b. row_run (cs @ ds) None = Some b \<and> aNamespace b = aNamespace a \<and>
    aSelectorKind b = aSelectorKind a \<and> (aUserInstalled a \<longrightarrow> aUserInstalled b) \<and>
    (list_all row_ok (cs @ ds) \<longrightarrow> aAvailable b = None \<or> \<not> advance_names (aResolved b) (aAvailable b))"
proof -
  obtain b where b: "row_run ds (Some a) = Some b" "same_identity a b"
    using row_run_identity by blast
  then have r: "row_run (cs @ ds) None = Some b" using assms by simp
  have "list_all row_ok (cs @ ds) \<longrightarrow> row_inv b" using row.inv_from_scratch [OF r] by blast
  with r b(2) show ?thesis by (auto simp: same_identity_def row_inv_def)
qed

theorem row_keeps_identity_witness:
  "\<exists>b. row_run (sample_added @ sample_moves) None = Some b \<and> aUserInstalled b \<and> aAvailable b = None \<and> mfReadme (manifestOf b) = ''two''"
proof -
  have "row_run sample_added None \<noteq> None" "list_all row_ok (sample_added @ sample_moves)"
    "map_option aUserInstalled (row_run sample_added None) = Some True" by code_simp+
  then obtain a where a: "row_run sample_added None = Some a" "aUserInstalled a" by auto
  have e: "map_option aAvailable (row_run (sample_added @ sample_moves) None) = Some None"
    "map_option (\<lambda>b. mfReadme (manifestOf b)) (row_run (sample_added @ sample_moves) None) = Some ''two''" by code_simp+
  from row_keeps_identity [OF a(1), of sample_moves] \<open>list_all row_ok _\<close> a(2) e show ?thesis by auto
qed

text \<open>
  An answer \<open>RecordAvailable\<close> reports as recorded is the one the row holds when it
  returns, and it was judged on a row with the very release and selector the row has then: however
  other writers advance the row between its read and its write, and whichever attempts the event
  store refuses, no answer about a release the row has left is ever recorded.
\<close>

theorem recorded_answer_is_current:
  assumes "RecordAvailable_loop sched ns judge row = (Inr (Some av), row')"
  shows "\<exists>a b. row' = Some a \<and> aAvailable a = av \<and> judge b = Inr (Some av) \<and> aResolved a = aResolved b \<and>
    aSelectorKind a = aSelectorKind b"
  using assms record_attempts_answer by (simp add: RecordAvailable_loop_def)

definition sample_judge :: judge where
  "sample_judge row = Inr (Some (if rRef (aResolved row) = ''v3'' then None else Some \<lparr>avRef = ''v3'', avCommit = ''e''\<rparr>))"

definition raced :: "nat \<Rightarrow> attempt" where
  "raced n = (if n = 3 then \<lparr>at_others = [KAdvance ''github.com/u/r@stable'' (sample_manifest ''three'')
       \<lparr>rRef = ''v3'', rCommit = ''e'', rFingerprint = ''e''\<rparr> False], at_failure = None\<rparr> else quiet)"

theorem recorded_answer_is_current_witness:
  "\<exists>row'. RecordAvailable_loop raced ''github.com/u/r@stable'' sample_judge (row_run sample_added None) = (Inr (Some None), row') \<and>
     map_option (\<lambda>a. rRef (aResolved a)) row' = Some ''v3''"
proof -
  have s: "fst (RecordAvailable_loop raced ''github.com/u/r@stable'' sample_judge (row_run sample_added None)) = Inr (Some None)"
    "map_option (\<lambda>a. rRef (aResolved a)) (snd (RecordAvailable_loop raced ''github.com/u/r@stable'' sample_judge (row_run sample_added None))) = Some ''v3''"
    by code_simp+
  then obtain row' where r: "RecordAvailable_loop raced ''github.com/u/r@stable'' sample_judge (row_run sample_added None) = (Inr (Some None), row')"
    by (metis prod.collapse)
  show ?thesis using recorded_answer_is_current [OF r] r s(2) by simp
qed

end
