(* ===== verification/Catalog.thy ===== *)
theory Catalog
  imports ArrowRow DepTree
begin

text \<open>
  The catalog's read model (internal/app/repositories/arrow/internal/store): the SQL tables of
  internal/storage as association lists and lists of rows, the projector that keeps them in step
  with the arrow aggregate, and the reads of the store over them.  A manifest column holds the
  arrow itself; the trigram matching and the bm25 ranking of SQLite's FTS5 are a parameter, and
  statements of the database do not fail.
\<close>

section \<open>The tables\<close>

definition map_del :: "('k \<times> 'v) list \<Rightarrow> 'k \<Rightarrow> ('k \<times> 'v) list" where
  "map_del m k = filter (\<lambda>p. fst p \<noteq> k) m"

lemma map_of_map_del [simp]: "map_of (map_del m k) = (map_of m)(k := None)"
proof
  fix x show "map_of (map_del m k) x = ((map_of m)(k := None)) x"
    by (induction m) (auto simp: map_del_def)
qed

text \<open>\<open>time.Time.Unix\<close> and \<open>time.Unix\<close>: times count nanoseconds from the zero time.\<close>

definition Unix :: "go_time \<Rightarrow> int" where
  "Unix t = t div 1000000000 - 62135596800"

definition time_Unix :: "int \<Rightarrow> go_time" where
  "time_Unix s = (s + 62135596800) * 1000000000"

record arrow_row =
  arMeta :: ArrowMeta
  arProvenance :: string
  arUserInstalled :: bool
  arUpdatedAt :: int

record version_row =
  vrNamespace :: string
  vrRef :: string
  vrInstalledAt :: int
  vrLastUsedAt :: int
  vrLastVersionCheckAt :: int
  vrUserInstalled :: bool
  vrManifest :: Arrow

record fts_row =
  ftName :: string
  ftDescription :: string
  ftTags :: string

record catalog_db =
  dbArrows :: "(string \<times> arrow_row) list"
  dbVersions :: "version_row list"
  dbTags :: "(string \<times> string) list"
  dbOS :: "(string \<times> string \<times> OS) list"
  dbFTS :: "(string \<times> fts_row) list"

record VersionRef =
  vfNamespace :: Namespace
  vfMetadata :: Arrow
  vfLastVersionCheckAt :: go_time

record ViewModel =
  vwNamespace :: Namespace
  vwMetadata :: Arrow
  vwVersions :: "VersionRef list"
  vwProvenance :: string

definition no_meta :: ArrowMeta where
  "no_meta = \<lparr>mName = [], mDescription = [], mLicense = [], mURL = [], mMaintainers = [], mCredits = [],
     mTags = [], mMedia = \<lparr>mediaIcon = [], mediaBanner = []\<rparr>, mGenerator = None\<rparr>"

definition no_arrow :: Arrow where
  "no_arrow = \<lparr>aNamespace = [], aMeta = no_meta, aVariables = [], aNetbridge = [], aTargets = [], aReadme = [],
     aInstalledAt = zero_time, aUserInstalled = False, aLastUsedAt = zero_time, aSelectorKind = SelectorPin,
     aResolved = \<lparr>rRef = [], rCommit = [], rFingerprint = []\<rparr>, aAvailable = None\<rparr>"

section \<open>Storage\<close>

definition ProvenanceInstalled :: string where "ProvenanceInstalled = ''installed''"
definition ProvenanceDependency :: string where "ProvenanceDependency = ''dependency''"

text \<open>\<open>versionOrder\<close>: user_installed DESC, installed_at DESC, ref DESC.\<close>

definition versionOrder :: "version_row \<Rightarrow> version_row \<Rightarrow> int" where
  "versionOrder a b =
     (if vrUserInstalled a \<noteq> vrUserInstalled b then (if vrUserInstalled a then -1 else 1)
      else if vrInstalledAt a \<noteq> vrInstalledAt b then cmp_Compare (vrInstalledAt b) (vrInstalledAt a)
      else cmp_Compare (vrRef b) (vrRef a))"

definition versions_of :: "catalog_db \<Rightarrow> string \<Rightarrow> version_row list" where
  "versions_of db bare = SortFunc versionOrder (filter (\<lambda>r. vrNamespace r = bare) (dbVersions db))"

definition provenanceOf :: "Arrow \<Rightarrow> string" where
  "provenanceOf a = (if aUserInstalled a then ProvenanceInstalled else ProvenanceDependency)"

fun latestInstalledAt :: "version_row list \<Rightarrow> int" where
  "latestInstalledAt [] = 0"
| "latestInstalledAt (r # rs) = foldl (\<lambda>latest row. if vrInstalledAt row > latest then vrInstalledAt row else latest) (vrInstalledAt r) rs"

definition sortedKeys :: "(OS \<times> Target) list \<Rightarrow> OS list" where
  "sortedKeys targets = sort_Strings (keys targets)"

definition dedupe :: "string list \<Rightarrow> string list" where
  "dedupe values = foldl (\<lambda>result v. if v \<in> set result then result else result @ [v]) [] values"

definition replaceOS :: "string \<Rightarrow> string \<Rightarrow> (OS \<times> Target) list \<Rightarrow> catalog_db \<Rightarrow> catalog_db" where
  "replaceOS bare ref targets db =
     db\<lparr>dbOS := filter (\<lambda>(n, r, os). \<not> (n = bare \<and> r = ref)) (dbOS db) @ map (\<lambda>os. (bare, ref, os)) (sortedKeys targets)\<rparr>"

text \<open>
  The upsert of \<open>writeVersion\<close>: a row of the same namespace and ref keeps its
  \<open>last_version_check_at\<close>, a new one starts at 0.
\<close>

definition version_row_of :: "string \<Rightarrow> Namespace \<Rightarrow> Arrow \<Rightarrow> version_row" where
  "version_row_of bare ns a =
     \<lparr>vrNamespace = bare, vrRef = Ref ns, vrInstalledAt = Unix (aInstalledAt a), vrLastUsedAt = Unix (aLastUsedAt a),
      vrLastVersionCheckAt = 0, vrUserInstalled = aUserInstalled a, vrManifest = a\<rparr>"

fun upsert_version :: "version_row \<Rightarrow> version_row list \<Rightarrow> version_row list" where
  "upsert_version row [] = [row]"
| "upsert_version row (r # rs) =
     (if vrNamespace r = vrNamespace row \<and> vrRef r = vrRef row
      then r\<lparr>vrInstalledAt := vrInstalledAt row, vrLastUsedAt := vrLastUsedAt row,
             vrUserInstalled := vrUserInstalled row, vrManifest := vrManifest row\<rparr> # rs
      else r # upsert_version row rs)"

definition writeVersion :: "string \<Rightarrow> Namespace \<Rightarrow> Arrow \<Rightarrow> catalog_db \<Rightarrow> catalog_db" where
  "writeVersion bare ns a db =
     replaceOS bare (Ref ns) (aTargets a)
       (db\<lparr>dbVersions := upsert_version (version_row_of bare ns a) (dbVersions db)\<rparr>)"

definition clearVersions :: "string \<Rightarrow> catalog_db \<Rightarrow> catalog_db" where
  "clearVersions bare db =
     db\<lparr>dbVersions := filter (\<lambda>r. vrNamespace r \<noteq> bare) (dbVersions db),
        dbOS := filter (\<lambda>(n, r, os). n \<noteq> bare) (dbOS db)\<rparr>"

definition replaceTags :: "string \<Rightarrow> string list \<Rightarrow> catalog_db \<Rightarrow> catalog_db" where
  "replaceTags bare tags db =
     db\<lparr>dbTags := filter (\<lambda>(n, t). n \<noteq> bare) (dbTags db) @ map (\<lambda>t. (bare, t)) (dedupe tags)\<rparr>"

definition replaceFTS :: "string \<Rightarrow> Arrow \<Rightarrow> catalog_db \<Rightarrow> catalog_db" where
  "replaceFTS bare a db =
     db\<lparr>dbFTS := map_del (dbFTS db) bare @
        [(bare, \<lparr>ftName = mName (aMeta a), ftDescription = mDescription (aMeta a), ftTags = Join (mTags (aMeta a)) '' ''\<rparr>)]\<rparr>"

definition preferred :: "version_row list \<Rightarrow> Arrow" where
  "preferred rows = (case rows of [] \<Rightarrow> no_arrow | r # rs \<Rightarrow> vrManifest r)"

definition refreshParent :: "string \<Rightarrow> catalog_db \<Rightarrow> catalog_db" where
  "refreshParent bare db =
     (let rows = versions_of db bare; a = preferred rows;
          parent = \<lparr>arMeta = aMeta a, arProvenance = provenanceOf a, arUserInstalled = aUserInstalled a,
                    arUpdatedAt = latestInstalledAt rows\<rparr>
      in replaceFTS bare a
           (replaceTags bare (mTags (aMeta a)) (db\<lparr>dbArrows := map_put (dbArrows db) bare parent\<rparr>)))"

definition SaveVersion :: "Namespace \<Rightarrow> Arrow \<Rightarrow> catalog_db \<Rightarrow> catalog_db" where
  "SaveVersion ns a db = (let bare = BareNamespace ns in refreshParent bare (writeVersion bare ns a db))"

definition Save :: "ViewModel \<Rightarrow> catalog_db \<Rightarrow> catalog_db" where
  "Save vm db =
     (let bare = BareNamespace (vwNamespace vm)
      in refreshParent bare
           (foldl (\<lambda>d v. writeVersion bare (vfNamespace v) (vfMetadata v) d) (clearVersions bare db) (vwVersions vm)))"

definition deleteNamespace :: "string \<Rightarrow> catalog_db \<Rightarrow> catalog_db" where
  "deleteNamespace bare db =
     \<lparr>dbArrows = map_del (dbArrows db) bare,
      dbVersions = filter (\<lambda>r. vrNamespace r \<noteq> bare) (dbVersions db),
      dbTags = filter (\<lambda>(n, t). n \<noteq> bare) (dbTags db),
      dbOS = filter (\<lambda>(n, r, os). n \<noteq> bare) (dbOS db),
      dbFTS = map_del (dbFTS db) bare\<rparr>"

definition ClaimVersionCheck :: "Namespace \<Rightarrow> go_time \<Rightarrow> go_time \<Rightarrow> catalog_db \<Rightarrow> bool \<times> catalog_db" where
  "ClaimVersionCheck ns now ttl db =
     (let cutoff = Unix (now - ttl);
          due = (\<lambda>r. vrNamespace r = BareNamespace ns \<and> vrRef r = Ref ns \<and> vrLastVersionCheckAt r < cutoff)
      in (list_ex due (dbVersions db),
          db\<lparr>dbVersions := map (\<lambda>r. if due r then r\<lparr>vrLastVersionCheckAt := Unix now\<rparr> else r) (dbVersions db)\<rparr>))"

definition loadVersions :: "catalog_db \<Rightarrow> string \<Rightarrow> VersionRef list" where
  "loadVersions db bare =
     map (\<lambda>row. \<lparr>vfNamespace = aNamespace (vrManifest row), vfMetadata = vrManifest row,
                 vfLastVersionCheckAt = time_Unix (vrLastVersionCheckAt row)\<rparr>) (versions_of db bare)"

definition assemble :: "catalog_db \<Rightarrow> string \<times> arrow_row \<Rightarrow> ViewModel" where
  "assemble db parent =
     (let versions = loadVersions db (fst parent)
      in \<lparr>vwNamespace = fst parent, vwMetadata = (case versions of [] \<Rightarrow> no_arrow | v # vs \<Rightarrow> vfMetadata v),
          vwVersions = versions, vwProvenance = arProvenance (snd parent)\<rparr>)"

definition FindByKey :: "catalog_db \<Rightarrow> string \<Rightarrow> ViewModel option" where
  "FindByKey db ns = map_option (\<lambda>p. assemble db (ns, p)) (map_of (dbArrows db) ns)"

definition FindAll :: "catalog_db \<Rightarrow> ViewModel list" where
  "FindAll db = map (\<lambda>ns. assemble db (ns, the (map_of (dbArrows db) ns))) (sort_Strings (keys (dbArrows db)))"

definition defaultSearchLimit :: nat where
  "defaultSearchLimit = 25"

definition ftsPhrase :: "string \<Rightarrow> string" where
  "ftsPhrase text = [CHR 0x22] @ concat (map (\<lambda>c. if c = CHR 0x22 then [CHR 0x22, CHR 0x22] else [c]) text) @ [CHR 0x22]"

text \<open>
  The search query joins the ranked matches of the FTS table, \<open>fts\<close> of the quoted phrase, with
  their parents, filters by platform and cuts at the limit.
\<close>

definition TrimSpace :: "string \<Rightarrow> string" where
  "TrimSpace s = (let ws = [CHR '' '', CHR 0x09, CHR 0x0A, CHR 0x0B, CHR 0x0C, CHR 0x0D] in TrimRight (TrimLeft s ws) ws)"

definition storage_Search :: "((string \<times> fts_row) list \<Rightarrow> string \<Rightarrow> string list) \<Rightarrow> catalog_db \<Rightarrow> string \<Rightarrow> OS \<Rightarrow> int \<Rightarrow> ViewModel list" where
  "storage_Search fts db q os limit =
     (let text = TrimSpace q
      in if text = [] then []
         else (let limit' = (if limit \<le> 0 then defaultSearchLimit else nat limit);
                   hits = filter (\<lambda>n. map_of (dbArrows db) n \<noteq> None) (fts (dbFTS db) (ftsPhrase text));
                   hits' = (if os = [] then hits else filter (\<lambda>n. list_ex (\<lambda>(m, r, x). m = n \<and> x = os) (dbOS db)) hits)
               in map (\<lambda>n. assemble db (n, the (map_of (dbArrows db) n))) (take limit' hits')))"

section \<open>The projector\<close>

definition Apply :: "Arrow \<Rightarrow> catalog_db \<Rightarrow> catalog_db" where
  "Apply a db = SaveVersion (aNamespace a) a db"

definition removeVersion :: "VersionRef list \<Rightarrow> Namespace \<Rightarrow> VersionRef list" where
  "removeVersion versions ns = filter (\<lambda>v. vfNamespace v \<noteq> ns) versions"

definition Forget :: "Arrow \<Rightarrow> catalog_db \<Rightarrow> catalog_db" where
  "Forget a db =
     (case FindByKey db (BareNamespace (aNamespace a)) of
        None \<Rightarrow> db
      | Some existing \<Rightarrow>
          (let versions = removeVersion (vwVersions existing) (aNamespace a)
           in if versions = [] then deleteNamespace (BareNamespace (aNamespace a)) db
              else Save (existing\<lparr>vwVersions := versions\<rparr>) db))"

section \<open>Reads of the store\<close>

text \<open>\<open>sameCommitSelector\<close>: a commit selector is catalogued in lower case.\<close>

definition sameCommitSelector :: "VersionRef \<Rightarrow> Namespace \<Rightarrow> bool" where
  "sameCommitSelector v ns \<longleftrightarrow>
     aSelectorKind (vfMetadata v) = SelectorCommit \<and> EqualFold (Ref (vfNamespace v)) (Ref ns)"

definition findVersionRef :: "VersionRef list \<Rightarrow> Namespace \<Rightarrow> VersionRef option" where
  "findVersionRef versions ns = find (\<lambda>v. vfNamespace v = ns \<or> sameCommitSelector v ns) versions"

definition hasUserInstalled :: "VersionRef list \<Rightarrow> bool" where
  "hasUserInstalled versions = list_ex (\<lambda>v. aUserInstalled (vfMetadata v)) versions"

definition refsOf :: "VersionRef list \<Rightarrow> string list" where
  "refsOf versions = map (\<lambda>v. Ref (vfNamespace v)) versions"

definition cataloguedRow :: "ViewModel option \<Rightarrow> Namespace \<Rightarrow> Arrow option" where
  "cataloguedRow vm ns =
     (case vm of
        None \<Rightarrow> None
      | Some vm \<Rightarrow>
          if vwVersions vm = [] then None
          else if Ref ns = [] then Some (vwMetadata vm)
          else map_option (\<lambda>v. (vfMetadata v)\<lparr>aNamespace := vfNamespace v\<rparr>) (findVersionRef (vwVersions vm) ns))"

text \<open>\<open>Get\<close>, \<open>GetManifest\<close> and \<open>ResolveCatalogued\<close>; \<open>None\<close> is \<open>ErrNotFound\<close>.\<close>

definition store_Get :: "catalog_db \<Rightarrow> Namespace \<Rightarrow> Arrow option" where
  "store_Get db ns = cataloguedRow (FindByKey db (BareNamespace ns)) ns"

definition GetManifest :: "catalog_db \<Rightarrow> Namespace \<Rightarrow> Arrow option" where
  "GetManifest db ns =
     (case FindByKey db (BareNamespace ns) of
        None \<Rightarrow> None
      | Some vm \<Rightarrow>
          if Ref ns = [] then Some (vwMetadata vm)
          else map_option vfMetadata (findVersionRef (vwVersions vm) ns))"

definition ResolveCatalogued :: "catalog_db \<Rightarrow> Namespace \<Rightarrow> Namespace option" where
  "ResolveCatalogued db ns =
     (case FindByKey db (BareNamespace ns) of
        None \<Rightarrow> None
      | Some vm \<Rightarrow>
          (case vwVersions vm of
             [] \<Rightarrow> None
           | v # vs \<Rightarrow> if Ref ns = [] then Some (vfNamespace v)
                        else map_option vfNamespace (findVersionRef (v # vs) ns)))"

text \<open>
  \<open>GetDetail\<close>: the manifest and the time of its last version check, or \<open>None\<close> where the
  store resolves the namespace live.
\<close>

definition GetDetail :: "catalog_db \<Rightarrow> Namespace \<Rightarrow> (Arrow \<times> go_time) option" where
  "GetDetail db ns =
     (case FindByKey db (BareNamespace ns) of
        None \<Rightarrow> None
      | Some vm \<Rightarrow>
          if Ref ns = [] then
            Some (vwMetadata vm, case vwVersions vm of [] \<Rightarrow> zero_time | v # vs \<Rightarrow> vfLastVersionCheckAt v)
          else map_option (\<lambda>v. (vfMetadata v, vfLastVersionCheckAt v)) (findVersionRef (vwVersions vm) ns))"

definition store_List :: "catalog_db \<Rightarrow> bool option \<Rightarrow> ViewModel list" where
  "store_List db userInstalled =
     filter (\<lambda>vm. case userInstalled of None \<Rightarrow> True | Some u \<Rightarrow> hasUserInstalled (vwVersions vm) = u) (FindAll db)"

definition NeedsVersionCheck :: "Namespace \<Rightarrow> go_time \<Rightarrow> go_time \<Rightarrow> go_time \<Rightarrow> catalog_db \<Rightarrow> bool \<times> catalog_db" where
  "NeedsVersionCheck ns now ttl lastCheckedAt db =
     (if now - lastCheckedAt < ttl then (False, db) else ClaimVersionCheck ns now ttl db)"

section \<open>The read model is the live rows\<close>

text \<open>
  The invariant of the tables: every version row is derived from the arrow it holds, no two share
  namespace and ref, and the other tables are derived from the version rows.
\<close>

definition row_key :: "version_row \<Rightarrow> string \<times> string" where
  "row_key r = (vrNamespace r, vrRef r)"

definition derived_row :: "version_row \<Rightarrow> bool" where
  "derived_row r \<longleftrightarrow> Ref (aNamespace (vrManifest r)) \<noteq> [] \<and>
     vrNamespace r = BareNamespace (aNamespace (vrManifest r)) \<and> vrRef r = Ref (aNamespace (vrManifest r)) \<and>
     vrInstalledAt r = Unix (aInstalledAt (vrManifest r)) \<and> vrUserInstalled r = aUserInstalled (vrManifest r)"

definition parent_of :: "version_row list \<Rightarrow> arrow_row" where
  "parent_of rows = \<lparr>arMeta = aMeta (preferred rows), arProvenance = provenanceOf (preferred rows),
     arUserInstalled = aUserInstalled (preferred rows), arUpdatedAt = latestInstalledAt rows\<rparr>"

definition fts_of :: "version_row list \<Rightarrow> fts_row" where
  "fts_of rows = \<lparr>ftName = mName (aMeta (preferred rows)), ftDescription = mDescription (aMeta (preferred rows)),
     ftTags = Join (mTags (aMeta (preferred rows))) '' ''\<rparr>"

definition db_inv :: "catalog_db \<Rightarrow> bool" where
  "db_inv db \<longleftrightarrow> distinct (map row_key (dbVersions db)) \<and> list_all derived_row (dbVersions db) \<and>
     (\<forall>n. map_of (dbArrows db) n = (if versions_of db n = [] then None else Some (parent_of (versions_of db n)))) \<and>
     (\<forall>n. map_of (dbFTS db) n = (if versions_of db n = [] then None else Some (fts_of (versions_of db n)))) \<and>
     (\<forall>n t. (n, t) \<in> set (dbTags db) \<longleftrightarrow> versions_of db n \<noteq> [] \<and> t \<in> set (mTags (aMeta (preferred (versions_of db n))))) \<and>
     (\<forall>n r os. (n, r, os) \<in> set (dbOS db) \<longleftrightarrow>
        (\<exists>row \<in> set (dbVersions db). row_key row = (n, r) \<and> os \<in> set (keys (aTargets (vrManifest row)))))"

definition ns_row :: "version_row \<Rightarrow> Namespace \<times> Arrow" where
  "ns_row r = (aNamespace (vrManifest r), vrManifest r)"

definition live_rows :: "catalog_db \<Rightarrow> Namespace \<Rightarrow> Arrow option" where
  "live_rows db = map_of (map ns_row (dbVersions db))"

definition order_key :: "version_row \<Rightarrow> bool \<times> int \<times> string" where
  "order_key r = (vrUserInstalled r, vrInstalledAt r, vrRef r)"

interpretation vo: desc_cmp versionOrder order_key
  by unfold_locales (auto simp: versionOrder_def order_key_def less_eq_prod_simp)

lemma ns_eqI: "BareNamespace m = BareNamespace n \<Longrightarrow> Ref m = Ref n \<Longrightarrow> Ref m \<noteq> [] \<Longrightarrow> m = n"
  by (metis ns_parts)

lemma derived_key: "derived_row r \<Longrightarrow> row_key r = (BareNamespace (aNamespace (vrManifest r)), Ref (aNamespace (vrManifest r)))"
  by (simp add: derived_row_def row_key_def)

lemma derived_key_eq: "derived_row r \<Longrightarrow> derived_row s \<Longrightarrow> row_key r = row_key s \<longleftrightarrow> aNamespace (vrManifest r) = aNamespace (vrManifest s)"
  using ns_eqI by (auto simp: derived_row_def row_key_def)

lemma derived_version_row_of [simp]: "Ref (aNamespace a) \<noteq> [] \<Longrightarrow> derived_row (version_row_of (BareNamespace (aNamespace a)) (aNamespace a) a)"
  by (simp add: derived_row_def version_row_of_def)

lemma version_row_of_simps [simp]:
  "vrManifest (version_row_of b n a) = a" "row_key (version_row_of b n a) = (b, Ref n)" "vrNamespace (version_row_of b n a) = b"
  by (simp_all add: version_row_of_def row_key_def)

subsection \<open>Tables after an upsert\<close>

lemma upsert_keys: "set (map row_key (upsert_version row rs)) = insert (row_key row) (set (map row_key rs))"
  by (induction rs) (auto simp: row_key_def)

lemma upsert_distinct: "distinct (map row_key rs) \<Longrightarrow> distinct (map row_key (upsert_version row rs))"
proof (induction rs)
  case (Cons r rs)
  with upsert_keys [of row rs] show ?case by (auto simp: row_key_def image_iff)
qed simp

lemma upsert_derived: "derived_row row \<Longrightarrow> list_all derived_row rs \<Longrightarrow> list_all derived_row (upsert_version row rs)"
  by (induction rs) (auto simp: derived_row_def)

lemma upsert_live:
  "derived_row row \<Longrightarrow> list_all derived_row rs \<Longrightarrow>
   map_of (map ns_row (upsert_version row rs)) = (map_of (map ns_row rs))(aNamespace (vrManifest row) \<mapsto> vrManifest row)"
proof (induction rs)
  case (Cons r rs)
  then show ?case using derived_key_eq [of r row] by (auto simp: ns_row_def row_key_def)
qed (simp add: ns_row_def)

lemma upsert_filter_other: "vrNamespace row \<noteq> n \<Longrightarrow> filter (\<lambda>r. vrNamespace r = n) (upsert_version row rs) = filter (\<lambda>r. vrNamespace r = n) rs"
  by (induction rs) auto

lemma upsert_nonempty: "filter (\<lambda>r. vrNamespace r = vrNamespace row) (upsert_version row rs) \<noteq> []"
  by (induction rs) auto

lemma upsert_members:
  "distinct (map row_key rs) \<Longrightarrow>
   (\<exists>x \<in> set (upsert_version row rs). row_key x = k \<and> P (vrManifest x)) \<longleftrightarrow>
   (if k = row_key row then P (vrManifest row) else (\<exists>x \<in> set rs. row_key x = k \<and> P (vrManifest x)))"
proof (induction rs)
  case Nil
  show ?case by auto
next
  case (Cons r rs)
  show ?case
  proof (cases "row_key r = row_key row")
    case True
    have "\<forall>x \<in> set rs. row_key x \<noteq> row_key row" using Cons.prems True by (auto simp: image_iff)
    then show ?thesis using True by (auto simp: row_key_def)
  next
    case False
    then show ?thesis using Cons by (auto simp: row_key_def)
  qed
qed

lemma upsert_new:
  "row_key row \<notin> set (map row_key rs) \<Longrightarrow> upsert_version row rs = rs @ [row]"
  by (induction rs) (auto simp: row_key_def)

lemma set_sortedKeys [simp]: "set (sortedKeys t) = set (keys t)"
  by (simp add: sortedKeys_def)

lemma set_dedupe [simp]: "set (dedupe xs) = set xs"
proof -
  have "set (foldl (\<lambda>result v. if v \<in> set result then result else result @ [v]) acc xs) = set acc \<union> set xs" for acc
    by (induction xs arbitrary: acc) auto
  then show ?thesis by (simp add: dedupe_def)
qed

lemma tables [simp]:
  "dbVersions (replaceOS b r t db) = dbVersions db" "dbArrows (replaceOS b r t db) = dbArrows db"
  "dbTags (replaceOS b r t db) = dbTags db" "dbFTS (replaceOS b r t db) = dbFTS db"
  "dbVersions (writeVersion b ns a db) = upsert_version (version_row_of b ns a) (dbVersions db)"
  "dbArrows (writeVersion b ns a db) = dbArrows db"
  "dbTags (writeVersion b ns a db) = dbTags db" "dbFTS (writeVersion b ns a db) = dbFTS db"
  "dbVersions (refreshParent b db) = dbVersions db" "dbOS (refreshParent b db) = dbOS db"
  by (simp_all add: replaceOS_def writeVersion_def refreshParent_def replaceFTS_def replaceTags_def Let_def)

lemma versions_of_refresh [simp]: "versions_of (refreshParent b db) n = versions_of db n"
  by (simp add: versions_of_def)

lemma versions_Nil: "versions_of db n = [] \<longleftrightarrow> (\<forall>r \<in> set (dbVersions db). vrNamespace r \<noteq> n)"
  by (simp add: versions_of_def filter_empty_conv)

lemma set_versions_of [simp]: "set (versions_of db n) = {r \<in> set (dbVersions db). vrNamespace r = n}"
  by (auto simp: versions_of_def)

lemma refresh_arrows [simp]:
  "map_of (dbArrows (refreshParent b db)) = (map_of (dbArrows db))(b \<mapsto> parent_of (versions_of db b))"
  by (simp add: refreshParent_def replaceFTS_def replaceTags_def Let_def parent_of_def)

lemma refresh_fts [simp]:
  "map_of (dbFTS (refreshParent b db)) n = (if n = b then Some (fts_of (versions_of db b)) else map_of (dbFTS db) n)"
  by (auto simp: refreshParent_def replaceFTS_def replaceTags_def Let_def fts_of_def map_add_def split: option.splits)

lemma refresh_tags [simp]:
  "(n, t) \<in> set (dbTags (refreshParent b db)) \<longleftrightarrow>
     (if n = b then t \<in> set (mTags (aMeta (preferred (versions_of db b)))) else (n, t) \<in> set (dbTags db))"
  by (auto simp: refreshParent_def replaceFTS_def replaceTags_def Let_def)

lemma writeVersion_OS:
  "(n, r, os) \<in> set (dbOS (writeVersion b ns a db)) \<longleftrightarrow>
     (if (n, r) = (b, Ref ns) then os \<in> set (keys (aTargets a)) else (n, r, os) \<in> set (dbOS db))"
  by (auto simp: writeVersion_def replaceOS_def)

text \<open>
  The invariant with the tables of one namespace left out: what clearing and rewriting its rows
  keeps, and what refreshing the parent completes.
\<close>

definition rows_inv :: "string \<Rightarrow> catalog_db \<Rightarrow> bool" where
  "rows_inv b db \<longleftrightarrow> distinct (map row_key (dbVersions db)) \<and> list_all derived_row (dbVersions db) \<and>
     (\<forall>n. n \<noteq> b \<longrightarrow> map_of (dbArrows db) n = (if versions_of db n = [] then None else Some (parent_of (versions_of db n)))) \<and>
     (\<forall>n. n \<noteq> b \<longrightarrow> map_of (dbFTS db) n = (if versions_of db n = [] then None else Some (fts_of (versions_of db n)))) \<and>
     (\<forall>n t. n \<noteq> b \<longrightarrow> ((n, t) \<in> set (dbTags db) \<longleftrightarrow> versions_of db n \<noteq> [] \<and> t \<in> set (mTags (aMeta (preferred (versions_of db n)))))) \<and>
     (\<forall>n r os. (n, r, os) \<in> set (dbOS db) \<longleftrightarrow>
        (\<exists>row \<in> set (dbVersions db). row_key row = (n, r) \<and> os \<in> set (keys (aTargets (vrManifest row)))))"

lemma db_inv_rows: "db_inv db \<Longrightarrow> rows_inv b db"
  by (simp add: db_inv_def rows_inv_def)

lemma refresh_inv: "rows_inv b db \<Longrightarrow> versions_of db b \<noteq> [] \<Longrightarrow> db_inv (refreshParent b db)"
  by (simp add: db_inv_def rows_inv_def)

lemma write_inv:
  assumes "rows_inv b db" "Ref (aNamespace a) \<noteq> []" "b = BareNamespace (aNamespace a)"
  shows "rows_inv b (writeVersion b (aNamespace a) a db)"
proof -
  let ?row = "version_row_of b (aNamespace a) a"
  have d: "distinct (map row_key (dbVersions db))" "list_all derived_row (dbVersions db)"
    using assms(1) by (simp_all add: rows_inv_def)
  have v: "versions_of (writeVersion b (aNamespace a) a db) n = versions_of db n" if "n \<noteq> b" for n
    using that upsert_filter_other [of ?row n] by (simp add: versions_of_def)
  have o: "(n, r, os) \<in> set (dbOS (writeVersion b (aNamespace a) a db)) \<longleftrightarrow>
      (\<exists>row \<in> set (upsert_version ?row (dbVersions db)). row_key row = (n, r) \<and> os \<in> set (keys (aTargets (vrManifest row))))" for n r os
    using assms(1) upsert_members [OF d(1), of ?row "(n, r)" "\<lambda>m. os \<in> set (keys (aTargets m))"]
    by (auto simp: writeVersion_OS rows_inv_def)
  show ?thesis
    using assms d upsert_distinct [OF d(1)] upsert_derived [OF _ d(2)] v o
    by (simp add: rows_inv_def del: set_map)
qed

lemma live_write:
  assumes "rows_inv b db" "Ref (aNamespace a) \<noteq> []" "b = BareNamespace (aNamespace a)"
  shows "live_rows (writeVersion b (aNamespace a) a db) = (live_rows db)(aNamespace a \<mapsto> a)"
  using upsert_live [of "version_row_of b (aNamespace a) a" "dbVersions db"] assms
  by (simp add: live_rows_def rows_inv_def)

lemma Apply_sim:
  assumes "db_inv db" "Ref (aNamespace a) \<noteq> []"
  shows "db_inv (Apply a db) \<and> live_rows (Apply a db) = (live_rows db)(aNamespace a \<mapsto> a)"
proof -
  let ?b = "BareNamespace (aNamespace a)"
  let ?w = "writeVersion ?b (aNamespace a) a db"
  have "versions_of ?w ?b \<noteq> []"
    using upsert_nonempty [of "version_row_of ?b (aNamespace a) a" "dbVersions db"] by (simp add: versions_of_def)
  then have "db_inv (refreshParent ?b ?w)"
    using refresh_inv [OF write_inv [OF db_inv_rows [OF assms(1)] assms(2) refl]] by simp
  then show ?thesis
    using live_write [OF db_inv_rows [OF assms(1)] assms(2) refl]
    by (simp add: Apply_def SaveVersion_def Let_def live_rows_def)
qed

subsection \<open>Forgetting a row\<close>

lemma Bare_Bare [simp]: "BareNamespace (BareNamespace n) = BareNamespace n"
  by (auto simp: BareNamespace_def cut_byte_None cut_byte_Some split: option.splits)

lemma live_iff:
  assumes "rows_inv b db"
  shows "live_rows db n = Some a \<longleftrightarrow> (\<exists>r \<in> set (dbVersions db). vrManifest r = a \<and> aNamespace a = n)"
proof -
  have d: "distinct (map row_key (dbVersions db))" "list_all derived_row (dbVersions db)"
    using assms by (simp_all add: rows_inv_def)
  have "distinct (map fst (map ns_row rs))" if "distinct (map row_key rs)" "list_all derived_row rs" for rs
    using that by (auto simp: distinct_map inj_on_def list_all_iff ns_row_def) (metis derived_key_eq)
  from this [OF d] show ?thesis
    by (auto simp: live_rows_def map_of_eq_Some_iff ns_row_def simp del: map_map)
qed

lemma versions_row: "rows_inv b db \<Longrightarrow> r \<in> set (dbVersions db) \<Longrightarrow> derived_row r"
  by (auto simp: rows_inv_def list_all_iff)

lemma clear_inv:
  assumes "rows_inv b db"
  shows "rows_inv b (clearVersions b db)"
proof -
  have v: "versions_of (clearVersions b db) n = versions_of db n" if "n \<noteq> b" for n
    using that by (auto simp: versions_of_def clearVersions_def intro!: arg_cong [of _ _ "SortFunc versionOrder"] filter_cong)
  show ?thesis
    using assms v distinct_map_filter [of row_key "dbVersions db" "\<lambda>r. vrNamespace r \<noteq> b"]
    by (auto simp: rows_inv_def list_all_iff clearVersions_def row_key_def)
qed

lemma option_eqI: "(\<And>a. x = Some a \<longleftrightarrow> y = Some a) \<Longrightarrow> x = y"
  by (cases y) auto

lemma clear_versions [simp]: "dbVersions (clearVersions b db) = filter (\<lambda>r. vrNamespace r \<noteq> b) (dbVersions db)"
  by (simp add: clearVersions_def)

lemma clear_live:
  assumes "rows_inv b db"
  shows "live_rows (clearVersions b db) n = (if BareNamespace n = b then None else live_rows db n)"
proof -
  have "live_rows (clearVersions b db) n = Some a \<longleftrightarrow> BareNamespace n \<noteq> b \<and> live_rows db n = Some a" for a
  proof -
    have "vrNamespace r = BareNamespace (aNamespace (vrManifest r))" if "r \<in> set (dbVersions db)" for r
      using versions_row [OF assms that] by (simp add: derived_row_def)
    then show ?thesis by (auto simp only: live_iff [OF assms] live_iff [OF clear_inv [OF assms]] clear_versions set_filter mem_Collect_eq)
  qed
  then show ?thesis by (intro option_eqI) simp
qed

definition own_version :: "string \<Rightarrow> VersionRef \<Rightarrow> bool" where
  "own_version b v \<longleftrightarrow> vfNamespace v = aNamespace (vfMetadata v) \<and> BareNamespace (vfNamespace v) = b \<and> Ref (vfNamespace v) \<noteq> []"

lemma rewrite_inv:
  assumes "rows_inv b db" "list_all (own_version b) vs"
  shows "rows_inv b (foldl (\<lambda>d v. writeVersion b (vfNamespace v) (vfMetadata v) d) db vs) \<and>
    live_rows (foldl (\<lambda>d v. writeVersion b (vfNamespace v) (vfMetadata v) d) db vs) =
      foldl (\<lambda>m v. m(vfNamespace v \<mapsto> vfMetadata v)) (live_rows db) vs"
  using assms
proof (induction vs arbitrary: db)
  case (Cons v vs)
  have o: "vfNamespace v = aNamespace (vfMetadata v)" "b = BareNamespace (aNamespace (vfMetadata v))" "Ref (aNamespace (vfMetadata v)) \<noteq> []"
    using Cons.prems(2) by (auto simp: own_version_def)
  show ?case
    using Cons.IH [OF write_inv [OF Cons.prems(1) o(3,2)]] Cons.prems(2) live_write [OF Cons.prems(1) o(3,2)] o(1) by simp
qed simp

lemma foldl_updates:
  "\<forall>v \<in> set vs. P (vfNamespace v) = Some (vfMetadata v) \<Longrightarrow>
   foldl (\<lambda>m v. m(vfNamespace v \<mapsto> vfMetadata v)) m vs n = (if n \<in> vfNamespace ` set vs then P n else m n)"
  by (induction vs arbitrary: m) auto

lemma loadVersions_own: "db_inv db \<Longrightarrow> list_all (own_version b) (loadVersions db b)"
  using versions_row [OF db_inv_rows]
  by (fastforce simp: loadVersions_def list_all_iff own_version_def derived_row_def)

lemma loadVersions_live:
  assumes "db_inv db" "v \<in> set (loadVersions db b)"
  shows "live_rows db (vfNamespace v) = Some (vfMetadata v)"
  using assms live_iff [OF db_inv_rows [OF assms(1)]] by (auto simp: loadVersions_def)

lemma live_loadVersions:
  assumes "db_inv db" "live_rows db n = Some a"
  shows "\<exists>v \<in> set (loadVersions db (BareNamespace n)). vfNamespace v = n \<and> vfMetadata v = a"
proof -
  obtain r where "r \<in> set (dbVersions db)" "vrManifest r = a" "aNamespace a = n"
    using assms live_iff [OF db_inv_rows [OF assms(1)]] by blast
  with versions_row [OF db_inv_rows [OF assms(1)]] show ?thesis by (force simp: loadVersions_def derived_row_def)
qed

lemma loadVersions_Nil: "loadVersions db b = [] \<longleftrightarrow> versions_of db b = []"
  by (simp add: loadVersions_def)

lemma FindByKey_cases:
  assumes "db_inv db"
  shows "FindByKey db b = (if versions_of db b = [] then None else Some (assemble db (b, parent_of (versions_of db b))))"
  using assms by (simp add: FindByKey_def db_inv_def)

lemma delete_sim:
  assumes "db_inv db"
  shows "db_inv (deleteNamespace b db) \<and> live_rows (deleteNamespace b db) = live_rows (clearVersions b db)"
proof -
  have v: "versions_of (deleteNamespace b db) n = (if n = b then [] else versions_of db n)" for n
    by (auto simp: versions_of_def deleteNamespace_def filter_empty_conv
      intro!: arg_cong [of _ _ "SortFunc versionOrder"] filter_cong)
  have "rows_inv b (clearVersions b db)" by (rule clear_inv [OF db_inv_rows [OF assms]])
  then have "distinct (map row_key (dbVersions (deleteNamespace b db)))" "list_all derived_row (dbVersions (deleteNamespace b db))"
    "\<forall>n r os. (n, r, os) \<in> set (dbOS (deleteNamespace b db)) \<longleftrightarrow>
        (\<exists>row \<in> set (dbVersions (deleteNamespace b db)). row_key row = (n, r) \<and> os \<in> set (keys (aTargets (vrManifest row))))"
    by (simp_all add: rows_inv_def clearVersions_def deleteNamespace_def)
  moreover have "map_of (dbArrows (deleteNamespace b db)) n = (if n = b then None else map_of (dbArrows db) n)"
    "map_of (dbFTS (deleteNamespace b db)) n = (if n = b then None else map_of (dbFTS db) n)"
    "(n, t) \<in> set (dbTags (deleteNamespace b db)) \<longleftrightarrow> n \<noteq> b \<and> (n, t) \<in> set (dbTags db)" for n t
    by (simp_all add: deleteNamespace_def) auto
  ultimately have "db_inv (deleteNamespace b db)"
    using assms v unfolding db_inv_def by simp
  then show ?thesis by (simp add: live_rows_def clearVersions_def deleteNamespace_def)
qed

lemma Save_sim:
  assumes db: "db_inv db" and vs: "list_all (own_version b) vs" "vs \<noteq> []" and b: "BareNamespace (vwNamespace vm) = b"
    and v: "vwVersions vm = vs"
  shows "db_inv (Save vm db) \<and>
    live_rows (Save vm db) = foldl (\<lambda>m v. m(vfNamespace v \<mapsto> vfMetadata v)) (live_rows (clearVersions b db)) vs"
proof -
  let ?d = "foldl (\<lambda>d v. writeVersion b (vfNamespace v) (vfMetadata v) d) (clearVersions b db) vs"
  have r: "rows_inv b ?d" "live_rows ?d = foldl (\<lambda>m v. m(vfNamespace v \<mapsto> vfMetadata v)) (live_rows (clearVersions b db)) vs"
    using rewrite_inv [OF clear_inv [OF db_inv_rows [OF db]] vs(1)] by simp_all
  obtain v ws where w: "vs = ws @ [v]" using vs(2) by (metis rev_exhaust)
  then have "versions_of ?d b \<noteq> []"
    using upsert_nonempty [of "version_row_of b (vfNamespace v) (vfMetadata v)"] by (simp add: versions_of_def)
  with refresh_inv [OF r(1)] r(2) show ?thesis by (simp add: Save_def Let_def b v live_rows_def)
qed

lemma Forget_sim:
  assumes db: "db_inv db"
  shows "db_inv (Forget a db) \<and> live_rows (Forget a db) = (live_rows db)(aNamespace a := None)"
proof (cases "versions_of db (BareNamespace (aNamespace a)) = []")
  case True
  then have "live_rows db (aNamespace a) = None"
    using live_loadVersions [OF db, of "aNamespace a"] by (cases "live_rows db (aNamespace a)") (auto simp: loadVersions_def)
  then show ?thesis using True db by (simp add: Forget_def FindByKey_cases fun_upd_idem)
next
  case False
  let ?b = "BareNamespace (aNamespace a)"
  let ?vs = "removeVersion (loadVersions db ?b) (aNamespace a)"
  let ?m = "live_rows (clearVersions ?b db)"
  have F: "FindByKey db ?b = Some (assemble db (?b, parent_of (versions_of db ?b)))"
    "vwVersions (assemble db (?b, parent_of (versions_of db ?b))) = loadVersions db ?b"
    "vwNamespace (assemble db (?b, parent_of (versions_of db ?b))) = ?b"
    using False db by (simp_all add: FindByKey_cases assemble_def Let_def)
  have P: "\<forall>v \<in> set ?vs. live_rows db (vfNamespace v) = Some (vfMetadata v)"
    using loadVersions_live [OF db, of _ ?b] by (auto simp: removeVersion_def)
  have fold_eq: "foldl (\<lambda>m v. m(vfNamespace v \<mapsto> vfMetadata v)) ?m ?vs = (live_rows db)(aNamespace a := None)"
  proof
    fix n
    show "foldl (\<lambda>m v. m(vfNamespace v \<mapsto> vfMetadata v)) ?m ?vs n = ((live_rows db)(aNamespace a := None)) n"
      using foldl_updates [OF P, of ?m n] live_loadVersions [OF db, of n] loadVersions_own [OF db, of ?b]
      by (cases "live_rows db n") (auto simp: clear_live [OF db_inv_rows [OF db]] removeVersion_def image_iff)
  qed
  show ?thesis
  proof (cases "?vs = []")
    case True
    with delete_sim [OF db, of ?b] fold_eq show ?thesis by (simp add: Forget_def F)
  next
    case ne: False
    have "list_all (own_version ?b) ?vs"
      using loadVersions_own [OF db] by (simp add: removeVersion_def list_all_iff)
    from Save_sim [OF db this ne] fold_eq ne show ?thesis by (simp add: Forget_def F Let_def)
  qed
qed

subsection \<open>Claiming a version check\<close>

lemma ins_cmp_map: "(\<And>x y. cmp (f x) (f y) = cmp x y) \<Longrightarrow> ins_cmp cmp (f x) (map f ys) = map f (ins_cmp cmp x ys)"
  by (induction ys) auto

lemma SortFunc_map: "(\<And>x y. cmp (f x) (f y) = cmp x y) \<Longrightarrow> SortFunc cmp (map f xs) = map f (SortFunc cmp xs)"
  by (induction xs) (simp_all add: go_simps ins_cmp_map)

definition stamp :: "(version_row \<Rightarrow> bool) \<Rightarrow> int \<Rightarrow> version_row \<Rightarrow> version_row" where
  "stamp due at r = (if due r then r\<lparr>vrLastVersionCheckAt := at\<rparr> else r)"

lemma stamp_simps [simp]:
  "vrNamespace (stamp due at r) = vrNamespace r" "vrRef (stamp due at r) = vrRef r"
  "vrInstalledAt (stamp due at r) = vrInstalledAt r" "vrUserInstalled (stamp due at r) = vrUserInstalled r"
  "vrManifest (stamp due at r) = vrManifest r" "row_key (stamp due at r) = row_key r"
  "ns_row (stamp due at r) = ns_row r" "derived_row (stamp due at r) = derived_row r"
  by (simp_all add: stamp_def row_key_def ns_row_def derived_row_def)

lemma preferred_stamp [simp]: "preferred (map (stamp due at) rs) = preferred rs"
  by (cases rs) (simp_all add: preferred_def)

lemma latest_stamp [simp]: "latestInstalledAt (map (stamp due at) rs) = latestInstalledAt rs"
proof (cases rs)
  case (Cons r rs')
  have "foldl (\<lambda>l row. if vrInstalledAt row > l then vrInstalledAt row else l) x (map (stamp due at) rs') =
    foldl (\<lambda>l row. if vrInstalledAt row > l then vrInstalledAt row else l) x rs'" for x
    by (induction rs' arbitrary: x) simp_all
  with Cons show ?thesis by simp
qed simp

lemma Claim_sim:
  assumes "db_inv db"
  shows "db_inv (snd (ClaimVersionCheck ns now ttl db)) \<and> live_rows (snd (ClaimVersionCheck ns now ttl db)) = live_rows db"
proof -
  define due where "due = (\<lambda>r :: version_row. vrNamespace r = BareNamespace ns \<and> vrRef r = Ref ns \<and> vrLastVersionCheckAt r < Unix (now - ttl))"
  let ?d = "db\<lparr>dbVersions := map (stamp due (Unix now)) (dbVersions db)\<rparr>"
  have d: "snd (ClaimVersionCheck ns now ttl db) = ?d"
    by (simp add: ClaimVersionCheck_def due_def stamp_def Let_def)
  have v: "versions_of ?d n = map (stamp due (Unix now)) (versions_of db n)" for n
    by (simp add: versions_of_def filter_map comp_def SortFunc_map [symmetric] versionOrder_def)
  have "db_inv ?d"
    using assms unfolding db_inv_def v by (simp add: comp_def list_all_iff parent_of_def fts_of_def)
  then show ?thesis by (simp add: d live_rows_def comp_def)
qed

subsection \<open>Sequences of events\<close>

datatype catalog_event = EApply Arrow | EForget Arrow | EClaim Namespace go_time go_time

fun catalog_step :: "catalog_event \<Rightarrow> catalog_db \<Rightarrow> catalog_db" where
  "catalog_step (EApply a) = Apply a"
| "catalog_step (EForget a) = Forget a"
| "catalog_step (EClaim ns now ttl) = (\<lambda>db. snd (ClaimVersionCheck ns now ttl db))"

fun catalog_spec :: "catalog_event \<Rightarrow> (Namespace \<Rightarrow> Arrow option) \<Rightarrow> Namespace \<Rightarrow> Arrow option" where
  "catalog_spec (EApply a) m = m(aNamespace a \<mapsto> a)"
| "catalog_spec (EForget a) m = m(aNamespace a := None)"
| "catalog_spec (EClaim ns now ttl) m = m"

fun event_ok :: "catalog_event \<Rightarrow> bool" where
  "event_ok (EApply a) \<longleftrightarrow> Ref (aNamespace a) \<noteq> []"
| "event_ok e \<longleftrightarrow> True"

definition empty_db :: catalog_db where
  "empty_db = \<lparr>dbArrows = [], dbVersions = [], dbTags = [], dbOS = [], dbFTS = []\<rparr>"

interpretation catalog: simulation catalog_step catalog_spec event_ok db_inv live_rows
proof unfold_locales
  fix db e
  assume "db_inv db" "event_ok e"
  then show "db_inv (catalog_step e db) \<and> live_rows (catalog_step e db) = catalog_spec e (live_rows db)"
    by (cases e) (simp_all add: Apply_sim Forget_sim Claim_sim)
qed

abbreviation catalog_run :: "catalog_event list \<Rightarrow> catalog_db" where
  "catalog_run evs \<equiv> fold catalog_step evs empty_db"

abbreviation catalog_live :: "catalog_event list \<Rightarrow> Namespace \<Rightarrow> Arrow option" where
  "catalog_live evs \<equiv> fold catalog_spec evs (\<lambda>_. None)"

lemma empty_db_inv [simp]: "db_inv empty_db" "live_rows empty_db = (\<lambda>_. None)"
  by (simp_all add: db_inv_def empty_db_def live_rows_def versions_of_def go_simps)

lemma catalog_run_inv: "list_all event_ok evs \<Longrightarrow> db_inv (catalog_run evs)"
  and catalog_run_live: "list_all event_ok evs \<Longrightarrow> live_rows (catalog_run evs) = catalog_live evs"
  using catalog.run_sim [of empty_db evs] by simp_all

definition ref_order :: "VersionRef \<Rightarrow> bool \<times> int \<times> string" where
  "ref_order v = (aUserInstalled (vfMetadata v), Unix (aInstalledAt (vfMetadata v)), Ref (vfNamespace v))"

lemma ref_order_row:
  "derived_row r \<Longrightarrow> ref_order \<lparr>vfNamespace = aNamespace (vrManifest r), vfMetadata = vrManifest r, vfLastVersionCheckAt = t\<rparr> = order_key r"
  by (simp add: order_key_def ref_order_def derived_row_def)

lemma sorted_wrt_congI: "sorted_wrt P xs \<Longrightarrow> (\<And>x y. x \<in> set xs \<Longrightarrow> y \<in> set xs \<Longrightarrow> P x y \<Longrightarrow> Q x y) \<Longrightarrow> sorted_wrt Q xs"
  by (induction xs) auto

lemma loadVersions_sorted:
  assumes "db_inv db"
  shows "sorted_wrt (\<lambda>v w. ref_order w \<le> ref_order v) (loadVersions db b)"
proof -
  have d: "derived_row r" if "r \<in> set (versions_of db b)" for r
    using versions_row [OF db_inv_rows [OF assms], of r] that by simp
  have "sorted_wrt (\<lambda>x y. order_key y \<le> order_key x) (versions_of db b)"
    unfolding versions_of_def by (rule vo.desc_sort)
  then show ?thesis
    unfolding loadVersions_def sorted_wrt_map
    by (rule sorted_wrt_congI) (simp only: ref_order_row d)
qed

lemma loadVersions_distinct:
  assumes "db_inv db"
  shows "distinct (map vfNamespace (loadVersions db b))"
proof -
  have r: "distinct (map row_key (dbVersions db))" and d: "\<forall>r \<in> set (dbVersions db). derived_row r"
    using assms by (simp_all add: db_inv_def list_all_iff)
  have "inj_on row_key (set (dbVersions db))" using r by (simp add: distinct_map)
  then have "inj_on (\<lambda>r. aNamespace (vrManifest r)) (set (dbVersions db))"
    using d derived_key_eq unfolding inj_on_def by metis
  then have "inj_on (\<lambda>r. aNamespace (vrManifest r)) (set (versions_of db b))"
    by (rule inj_on_subset) auto
  moreover have "distinct (versions_of db b)" using r by (simp add: versions_of_def distinct_map)
  ultimately show ?thesis by (simp add: loadVersions_def comp_def distinct_map)
qed

lemma loadVersions_iff:
  assumes "db_inv db"
  shows "(\<exists>v \<in> set (loadVersions db b). vfNamespace v = n \<and> vfMetadata v = a) \<longleftrightarrow> BareNamespace n = b \<and> live_rows db n = Some a"
  using loadVersions_live [OF assms] live_loadVersions [OF assms] loadVersions_own [OF assms, of b]
  by (fastforce simp: list_all_iff own_version_def)

subsection \<open>A claimed check stays claimed\<close>

definition checked :: "catalog_db \<Rightarrow> Namespace \<Rightarrow> int \<Rightarrow> bool" where
  "checked db ns s \<longleftrightarrow> (\<exists>r \<in> set (dbVersions db). row_key r = (BareNamespace ns, Ref ns)) \<and>
     (\<forall>r \<in> set (dbVersions db). row_key r = (BareNamespace ns, Ref ns) \<longrightarrow> s \<le> vrLastVersionCheckAt r)"

text \<open>What leaves a claim alone: any write, any check, and forgetting rows of other repositories.\<close>

fun keeps_check :: "Namespace \<Rightarrow> catalog_event \<Rightarrow> bool" where
  "keeps_check ns (EApply a) \<longleftrightarrow> True"
| "keeps_check ns (EForget a) \<longleftrightarrow> BareNamespace (aNamespace a) \<noteq> BareNamespace ns"
| "keeps_check ns (EClaim m now ttl) \<longleftrightarrow> 0 \<le> ttl"

lemma upsert_check:
  "r \<in> set (upsert_version row rs) \<Longrightarrow>
   (\<exists>r0 \<in> set rs. row_key r0 = row_key r \<and> vrLastVersionCheckAt r0 = vrLastVersionCheckAt r) \<or>
   (r = row \<and> row_key row \<notin> set (map row_key rs))"
  by (induction rs) (auto simp: row_key_def split: if_splits)

lemma checked_upsert:
  assumes "checked db ns s"
  shows "checked (db\<lparr>dbVersions := upsert_version row (dbVersions db)\<rparr>) ns s"
proof -
  have e: "(BareNamespace ns, Ref ns) \<in> set (map row_key (dbVersions db))"
    using assms by (force simp: checked_def)
  then have "(BareNamespace ns, Ref ns) \<in> set (map row_key (upsert_version row (dbVersions db)))"
    unfolding upsert_keys by simp
  moreover have "s \<le> vrLastVersionCheckAt r"
    if "r \<in> set (upsert_version row (dbVersions db))" "row_key r = (BareNamespace ns, Ref ns)" for r
    using upsert_check [OF that(1)] that(2) e assms by (auto simp: checked_def)
  ultimately show ?thesis by (auto simp: checked_def image_iff)
qed

lemma checked_cong: "dbVersions db' = dbVersions db \<Longrightarrow> checked db' ns s = checked db ns s"
  by (simp add: checked_def)

lemma checked_versions:
  assumes "filter (\<lambda>r. vrNamespace r = BareNamespace ns) (dbVersions db') = filter (\<lambda>r. vrNamespace r = BareNamespace ns) (dbVersions db)"
  shows "checked db' ns s = checked db ns s"
proof -
  have "checked d ns s \<longleftrightarrow> list_ex (\<lambda>r. vrRef r = Ref ns) (filter (\<lambda>r. vrNamespace r = BareNamespace ns) (dbVersions d)) \<and>
      list_all (\<lambda>r. vrRef r = Ref ns \<longrightarrow> s \<le> vrLastVersionCheckAt r) (filter (\<lambda>r. vrNamespace r = BareNamespace ns) (dbVersions d))" for d
    by (auto simp: checked_def row_key_def list_ex_iff list_all_iff)
  then show ?thesis using assms by simp
qed

lemma Unix_mono: "t \<le> u \<Longrightarrow> Unix t \<le> Unix u"
  by (simp add: Unix_def zdiv_mono1)

lemma checked_claim:
  assumes "checked db ns s" "0 \<le> ttl"
  shows "checked (snd (ClaimVersionCheck m now ttl db)) ns s"
proof -
  define due where "due = (\<lambda>r :: version_row. vrNamespace r = BareNamespace m \<and> vrRef r = Ref m \<and> vrLastVersionCheckAt r < Unix (now - ttl))"
  have d: "snd (ClaimVersionCheck m now ttl db) = db\<lparr>dbVersions := map (stamp due (Unix now)) (dbVersions db)\<rparr>"
    by (simp add: ClaimVersionCheck_def due_def stamp_def Let_def)
  have "Unix (now - ttl) \<le> Unix now" using assms(2) by (intro Unix_mono) simp
  then have "vrLastVersionCheckAt r \<le> vrLastVersionCheckAt (stamp due (Unix now) r)" for r
    by (simp add: stamp_def due_def)
  then have l: "s \<le> vrLastVersionCheckAt r \<Longrightarrow> s \<le> vrLastVersionCheckAt (stamp due (Unix now) r)" for r
    using order_trans by blast
  show ?thesis using assms(1) unfolding d checked_def by (simp add: l)
qed

lemma rewrite_other:
  "b \<noteq> n \<Longrightarrow> filter (\<lambda>r. vrNamespace r = n) (dbVersions (foldl (\<lambda>d v. writeVersion b (vfNamespace v) (vfMetadata v) d) db vs)) =
     filter (\<lambda>r. vrNamespace r = n) (dbVersions db)"
  by (induction vs arbitrary: db) (simp_all add: upsert_filter_other)

lemma Save_other:
  "BareNamespace (vwNamespace vm) \<noteq> n \<Longrightarrow>
   filter (\<lambda>r. vrNamespace r = n) (dbVersions (Save vm db)) = filter (\<lambda>r. vrNamespace r = n) (dbVersions db)"
  by (auto simp: Save_def Let_def rewrite_other intro!: filter_cong)

lemma Forget_other:
  "BareNamespace (aNamespace a) \<noteq> n \<Longrightarrow>
   filter (\<lambda>r. vrNamespace r = n) (dbVersions (Forget a db)) = filter (\<lambda>r. vrNamespace r = n) (dbVersions db)"
  by (auto simp: Forget_def FindByKey_def assemble_def Let_def Save_other deleteNamespace_def intro!: filter_cong split: option.splits)

lemma keeps_check_step: "checked db ns s \<Longrightarrow> keeps_check ns e \<Longrightarrow> checked (catalog_step e db) ns s"
proof (cases e)
  case (EApply a)
  assume "checked db ns s"
  from checked_upsert [OF this] EApply show ?thesis
    by (simp add: Apply_def SaveVersion_def Let_def checked_def)
next
  case (EForget a)
  assume "checked db ns s" "keeps_check ns e"
  with EForget show ?thesis using checked_versions [OF Forget_other] by simp
qed (simp add: checked_claim)

lemma keeps_check_run: "checked db ns s \<Longrightarrow> list_all (keeps_check ns) evs \<Longrightarrow> checked (fold catalog_step evs db) ns s"
  by (induction evs arbitrary: db) (auto simp: keeps_check_step)

lemma claim_checked: "fst (ClaimVersionCheck ns now ttl db) \<Longrightarrow> db_inv db \<Longrightarrow> checked (snd (ClaimVersionCheck ns now ttl db)) ns (Unix now)"
proof -
  assume c: "fst (ClaimVersionCheck ns now ttl db)" and i: "db_inv db"
  obtain r where r: "r \<in> set (dbVersions db)" "row_key r = (BareNamespace ns, Ref ns)" "vrLastVersionCheckAt r < Unix (now - ttl)"
    using c by (auto simp: ClaimVersionCheck_def Let_def list_ex_iff row_key_def)
  have u: "vrLastVersionCheckAt r' < Unix (now - ttl)" if "r' \<in> set (dbVersions db)" "row_key r' = (BareNamespace ns, Ref ns)" for r'
  proof -
    have "r' = r" using i that r(1,2) unfolding db_inv_def distinct_map inj_on_def by metis
    then show ?thesis using r(3) by simp
  qed
  define due where "due = (\<lambda>r :: version_row. vrNamespace r = BareNamespace ns \<and> vrRef r = Ref ns \<and> vrLastVersionCheckAt r < Unix (now - ttl))"
  have d: "snd (ClaimVersionCheck ns now ttl db) = db\<lparr>dbVersions := map (stamp due (Unix now)) (dbVersions db)\<rparr>"
    by (simp add: ClaimVersionCheck_def due_def stamp_def Let_def)
  have "vrLastVersionCheckAt (stamp due (Unix now) r') = Unix now"
    if "r' \<in> set (dbVersions db)" "row_key r' = (BareNamespace ns, Ref ns)" for r'
    using u [OF that] that(2) by (simp add: stamp_def due_def row_key_def)
  then show ?thesis using r(1,2) unfolding d checked_def by auto
qed

section \<open>Properties\<close>

definition sample_row :: "string \<Rightarrow> bool \<Rightarrow> go_time \<Rightarrow> Arrow" where
  "sample_row ref user at = (sample_arrow None)\<lparr>aNamespace := ''github.com/u/r@'' @ ref, aUserInstalled := user, aInstalledAt := at,
     aMeta := no_meta\<lparr>mName := ''r '' @ ref\<rparr>, aTargets := []\<rparr>"

definition sample_catalog :: "catalog_event list" where
  "sample_catalog = [EApply (sample_row ''v1'' False 0), EApply (sample_row ''stable'' True 0), EApply (sample_row ''v1'' True 5000000000),
     EApply (sample_row ''v2'' False 9000000000), EForget (sample_row ''v2'' False 0)]"

text \<open>
  C15. The read model shows exactly the live rows: after any sequence of projected writes,
  tombstones and version checks, a repository is listed when some row of it is live, its versions
  are those rows, each once, user-installed first, then most recently installed, then highest
  ref, and its metadata is that of the first.
\<close>

theorem catalog_reads_live_rows:
  assumes "list_all event_ok evs"
  shows "case FindByKey (catalog_run evs) b of
      None \<Rightarrow> \<forall>n. catalog_live evs n \<noteq> None \<longrightarrow> BareNamespace n \<noteq> b
    | Some vm \<Rightarrow> vwNamespace vm = b \<and> vwVersions vm \<noteq> [] \<and> distinct (map vfNamespace (vwVersions vm)) \<and>
        (\<forall>n a. (\<exists>v \<in> set (vwVersions vm). vfNamespace v = n \<and> vfMetadata v = a) \<longleftrightarrow>
               BareNamespace n = b \<and> catalog_live evs n = Some a) \<and>
        sorted_wrt (\<lambda>v w. ref_order w \<le> ref_order v) (vwVersions vm) \<and>
        vwMetadata vm = vfMetadata (hd (vwVersions vm))"
proof (cases "versions_of (catalog_run evs) b = []")
  case True
  then have "loadVersions (catalog_run evs) b = []" by (simp add: loadVersions_def)
  with loadVersions_iff [OF catalog_run_inv [OF assms], of b] True show ?thesis
    by (auto simp: FindByKey_cases [OF catalog_run_inv [OF assms]] catalog_run_live [OF assms])
next
  case False
  then show ?thesis
    using loadVersions_iff [OF catalog_run_inv [OF assms], of b] loadVersions_sorted [OF catalog_run_inv [OF assms], of b]
      loadVersions_distinct [OF catalog_run_inv [OF assms], of b] loadVersions_Nil [of "catalog_run evs" b]
    by (auto simp: FindByKey_cases [OF catalog_run_inv [OF assms]] catalog_run_live [OF assms] assemble_def Let_def split: list.split)
qed

theorem catalog_reads_live_rows_witness:
  "\<exists>vm. FindByKey (catalog_run sample_catalog) ''github.com/u/r'' = Some vm \<and> vwVersions vm \<noteq> [] \<and>
     map vfNamespace (vwVersions vm) = [''github.com/u/r@v1'', ''github.com/u/r@stable'']"
proof -
  have k: "list_all event_ok sample_catalog"
    "map_option (\<lambda>vm. map vfNamespace (vwVersions vm)) (FindByKey (catalog_run sample_catalog) ''github.com/u/r'') =
       Some [''github.com/u/r@v1'', ''github.com/u/r@stable'']"
    by code_simp+
  from catalog_reads_live_rows [OF k(1), of "''github.com/u/r''"] k(2) show ?thesis by (auto split: option.splits)
qed

text \<open>
  A namespace as a user typed it resolves to a live row of its repository, the one \<open>Get\<close>
  then returns: the preferred row when it names no ref, and otherwise the row it names, up to the
  case of a commit; it is refused only when there is no such row.
\<close>

theorem resolve_catalogued_is_live:
  assumes "list_all event_ok evs"
  shows "case ResolveCatalogued (catalog_run evs) ns of
      None \<Rightarrow> catalog_live evs ns = None \<and>
        (\<forall>m. BareNamespace m = BareNamespace ns \<and> (Ref ns = [] \<or> m = ns) \<longrightarrow> catalog_live evs m = None)
    | Some n \<Rightarrow> BareNamespace n = BareNamespace ns \<and>
        (\<exists>a. catalog_live evs n = Some a \<and> store_Get (catalog_run evs) ns = Some a \<and>
          (Ref ns = [] \<or> n = ns \<or> (aSelectorKind a = SelectorCommit \<and> EqualFold (Ref n) (Ref ns))))"
proof -
  let ?db = "catalog_run evs"
  let ?vs = "loadVersions ?db (BareNamespace ns)"
  have i: "db_inv ?db" by (rule catalog_run_inv [OF assms])
  have L: "(\<exists>v \<in> set ?vs. vfNamespace v = n \<and> vfMetadata v = a) \<longleftrightarrow> BareNamespace n = BareNamespace ns \<and> catalog_live evs n = Some a" for n a
    using loadVersions_iff [OF i] catalog_run_live [OF assms] by simp
  have own: "aNamespace (vfMetadata v) = vfNamespace v" if "v \<in> set ?vs" for v
    using loadVersions_own [OF i, of "BareNamespace ns"] that by (simp add: list_all_iff own_version_def)
  show ?thesis
  proof (cases ?vs)
    case Nil
    have "catalog_live evs m = None" if "BareNamespace m = BareNamespace ns" for m
      using L [of m] Nil that by (cases "catalog_live evs m") auto
    with Nil show ?thesis
      using loadVersions_Nil [of ?db "BareNamespace ns"] by (simp add: ResolveCatalogued_def FindByKey_cases [OF i])
  next
    case (Cons v vs)
    then have F: "FindByKey ?db (BareNamespace ns) = Some (assemble ?db (BareNamespace ns, parent_of (versions_of ?db (BareNamespace ns))))"
      using loadVersions_Nil [of ?db "BareNamespace ns"] by (simp add: FindByKey_cases [OF i])
    have R: "ResolveCatalogued ?db ns = (if Ref ns = [] then Some (vfNamespace v) else map_option vfNamespace (findVersionRef ?vs ns))"
      "store_Get ?db ns = (if Ref ns = [] then Some (vfMetadata v)
         else map_option (\<lambda>v. (vfMetadata v)\<lparr>aNamespace := vfNamespace v\<rparr>) (findVersionRef ?vs ns))"
      using Cons by (simp_all add: ResolveCatalogued_def store_Get_def cataloguedRow_def F assemble_def Let_def)
    show ?thesis
    proof (cases "Ref ns = []")
      case True
      then show ?thesis using R L [of "vfNamespace v" "vfMetadata v"] Cons by auto
    next
      case False
      show ?thesis
      proof (cases "findVersionRef ?vs ns")
        case None
        then have "vfNamespace w \<noteq> ns" if "w \<in> set ?vs" for w
          using that by (auto simp: findVersionRef_def find_None_iff)
        then have "catalog_live evs ns = None" using L [of ns] by (cases "catalog_live evs ns") auto
        with False R None show ?thesis by simp
      next
        case (Some w)
        then have w: "w \<in> set ?vs" "vfNamespace w = ns \<or> sameCommitSelector w ns"
          unfolding findVersionRef_def by (auto dest: find_SomeD)
        have "(vfMetadata w)\<lparr>aNamespace := vfNamespace w\<rparr> = vfMetadata w" using own [OF w(1)] by simp
        with w False R Some L [of "vfNamespace w" "vfMetadata w"] show ?thesis by (auto simp: sameCommitSelector_def)
      qed
    qed
  qed
qed

theorem resolve_catalogued_is_live_witness:
  "ResolveCatalogued (catalog_run sample_catalog) ''github.com/u/r'' = Some ''github.com/u/r@v1'' \<and>
   catalog_live sample_catalog ''github.com/u/r@v1'' \<noteq> None"
proof -
  have k: "list_all event_ok sample_catalog"
    "ResolveCatalogued (catalog_run sample_catalog) ''github.com/u/r'' = Some ''github.com/u/r@v1''" by code_simp+
  from resolve_catalogued_is_live [OF k(1), of "''github.com/u/r''"] k(2) show ?thesis by auto
qed

text \<open>
  C16. Search cannot disagree with the catalog: every hit is the view \<open>FindByKey\<close> gives of
  its repository, the text that was matched is that of the view's own metadata, the platform asked
  for is a target of one of its versions, and there are no more hits than the limit.
\<close>

theorem search_hits_are_catalog_views:
  assumes "list_all event_ok evs" "hit \<in> set (storage_Search fts (catalog_run evs) q os limit)"
  shows "FindByKey (catalog_run evs) (vwNamespace hit) = Some hit \<and>
    map_of (dbFTS (catalog_run evs)) (vwNamespace hit) = Some \<lparr>ftName = mName (aMeta (vwMetadata hit)),
      ftDescription = mDescription (aMeta (vwMetadata hit)), ftTags = Join (mTags (aMeta (vwMetadata hit))) '' ''\<rparr> \<and>
    (os \<noteq> [] \<longrightarrow> (\<exists>v \<in> set (vwVersions hit). os \<in> set (keys (aTargets (vfMetadata v))))) \<and>
    length (storage_Search fts (catalog_run evs) q os limit) \<le> (if limit \<le> 0 then defaultSearchLimit else nat limit)"
proof -
  let ?db = "catalog_run evs"
  have i: "db_inv ?db" by (rule catalog_run_inv [OF assms(1)])
  obtain n where n: "hit = assemble ?db (n, the (map_of (dbArrows ?db) n))" "map_of (dbArrows ?db) n \<noteq> None"
    "os \<noteq> [] \<longrightarrow> list_ex (\<lambda>(m, r, x). m = n \<and> x = os) (dbOS ?db)"
    using assms(2) by (auto simp: storage_Search_def Let_def dest!: in_set_takeD split: if_splits)
  have h: "vwNamespace hit = n" "vwVersions hit = loadVersions ?db n" using n(1) by (simp_all add: assemble_def Let_def)
  have ne: "versions_of ?db n \<noteq> []" using i n(2) by (auto simp: db_inv_def split: if_splits)
  have p: "vwMetadata hit = preferred (versions_of ?db n)"
    using n(1) ne by (auto simp: assemble_def Let_def loadVersions_def preferred_def split: list.splits)
  have "map_of (dbFTS ?db) n = Some (fts_of (versions_of ?db n))" using i ne by (simp add: db_inv_def)
  moreover have "FindByKey ?db n = Some hit" using n(1,2) by (auto simp: FindByKey_def)
  moreover have "\<exists>v \<in> set (vwVersions hit). os \<in> set (keys (aTargets (vfMetadata v)))" if "os \<noteq> []"
  proof -
    have "list_ex (\<lambda>(m, r, x). m = n \<and> x = os) (dbOS ?db)" using n(3) that by blast
    then obtain r where "(n, r, os) \<in> set (dbOS ?db)" by (auto simp: list_ex_iff)
    then obtain row where "row \<in> set (dbVersions ?db)" "row_key row = (n, r)" "os \<in> set (keys (aTargets (vrManifest row)))"
      using i by (auto simp: db_inv_def)
    then show ?thesis using h by (force simp: loadVersions_def row_key_def)
  qed
  moreover have "length (storage_Search fts ?db q os limit) \<le> (if limit \<le> 0 then defaultSearchLimit else nat limit)"
    by (simp add: storage_Search_def Let_def)
  ultimately show ?thesis by (simp add: h p fts_of_def)
qed

theorem search_hits_are_catalog_views_witness:
  "\<exists>hit. storage_Search (\<lambda>rows phrase. keys rows) (catalog_run sample_catalog) ''r'' [] 0 = [hit] \<and>
     FindByKey (catalog_run sample_catalog) (vwNamespace hit) = Some hit"
proof -
  have k: "list_all event_ok sample_catalog"
    "length (storage_Search (\<lambda>rows phrase. keys rows) (catalog_run sample_catalog) ''r'' [] 0) = 1" by code_simp+
  then obtain hit where h: "storage_Search (\<lambda>rows phrase. keys rows) (catalog_run sample_catalog) ''r'' [] 0 = [hit]"
    by (auto simp: length_Suc_conv)
  from search_hits_are_catalog_views [OF k(1), of hit "\<lambda>rows phrase. keys rows" "''r''" "[]" 0] h show ?thesis by auto
qed

text \<open>
  A version check is claimed once per TTL: after a claim succeeded, no claim of the same row
  succeeds before the TTL has passed, whatever rows are written, checked or forgotten in between,
  as long as no row of the same repository is forgotten.
\<close>

theorem version_check_claimed_once:
  assumes "list_all event_ok evs" "list_all (keeps_check ns) between" "now' \<le> now + ttl"
    and "fst (ClaimVersionCheck ns now ttl (catalog_run evs))"
  shows "\<not> fst (ClaimVersionCheck ns now' ttl (fold catalog_step between (snd (ClaimVersionCheck ns now ttl (catalog_run evs)))))"
proof -
  have "checked (fold catalog_step between (snd (ClaimVersionCheck ns now ttl (catalog_run evs)))) ns (Unix now)"
    by (rule keeps_check_run [OF claim_checked [OF assms(4) catalog_run_inv [OF assms(1)]] assms(2)])
  moreover have "Unix (now' - ttl) \<le> Unix now" using assms(3) by (intro Unix_mono) simp
  ultimately show ?thesis
    by (force simp: checked_def ClaimVersionCheck_def Let_def list_ex_iff row_key_def)
qed

theorem version_check_claimed_once_witness:
  "\<not> fst (ClaimVersionCheck ''github.com/u/r@v1'' 63000000000000000000 3600000000000
       (catalog_step (EApply (sample_row ''v1'' True 7))
         (snd (ClaimVersionCheck ''github.com/u/r@v1'' 62999999000000000000 3600000000000 (catalog_run sample_catalog)))))"
proof -
  have k: "list_all event_ok sample_catalog" "list_all (keeps_check ''github.com/u/r@v1'') [EApply (sample_row ''v1'' True 7)]"
    "fst (ClaimVersionCheck ''github.com/u/r@v1'' 62999999000000000000 3600000000000 (catalog_run sample_catalog))"
    by code_simp+
  from version_check_claimed_once [OF k(1,2) _ k(3), of 63000000000000000000] show ?thesis by simp
qed

text \<open>
  Forgetting one version of a repository drops the check times of the others: a version
  checked a second ago is due again as soon as its sibling is uninstalled.
\<close>

theorem forget_resets_sibling_checks:
  "(let ns = ''github.com/u/r@v1''; hour = 3600000000000; now = 63000000000000000000;
        (first, db) = ClaimVersionCheck ns now hour (catalog_run sample_catalog)
    in first \<and> \<not> fst (ClaimVersionCheck ns (now + 1000000000) hour db) \<and>
       fst (ClaimVersionCheck ns (now + 1000000000) hour (catalog_step (EForget (sample_row ''stable'' True 0)) db)))"
  by code_simp

end
