(* ===== verification/Manifest.thy ===== *)
theory Manifest
  imports Catalog
begin

text \<open>
  Manifests (internal/engine/manifold): finding the YAML in a markdown manifest and reading its
  schema line (translator), the mapping of an arrow@v0 document to an arrow and its targets
  (translator/arrow/v0/mapper.go), the choice and flattening of a target for a platform
  (translator/arrow/v0/selector.go) and the compiler that runs it for every platform.  The YAML
  decoder and the JSON schema validator are parameters: the document starts as the decoded
  structs of types.go.  A Go map is an association list with distinct keys whose order stands
  for the order of one iteration.
\<close>

section \<open>Markdown manifests\<close>

definition newline :: char where "newline = CHR 0x0A"
definition carriage :: string where "carriage = [CHR 0x0D]"

text \<open>\<open>extractFencedCodeblock\<close>: the lines between the fence and the next line of backquotes.\<close>

fun fenced_lines :: "string \<Rightarrow> bool \<Rightarrow> string list \<Rightarrow> string list \<Rightarrow> string list option" where
  "fenced_lines fence inBlock result [] = None"
| "fenced_lines fence inBlock result (line # lines) =
     (let trimmed = TrimRight line carriage
      in if \<not> inBlock then fenced_lines fence (trimmed = fence) result lines
         else if HasPrefix trimmed ''```'' then Some result
         else fenced_lines fence True (result @ [trimmed]) lines)"

definition extractFencedCodeblock :: "string \<Rightarrow> string \<Rightarrow> string option" where
  "extractFencedCodeblock data fence =
     map_option (\<lambda>result. Join result [newline]) (fenced_lines fence False [] (Split data newline))"

definition extractArrowCodeblock :: "string \<Rightarrow> string option" where
  "extractArrowCodeblock data = extractFencedCodeblock data ''```arrow''"

definition extractCollectionCodeblock :: "string \<Rightarrow> string option" where
  "extractCollectionCodeblock data = extractFencedCodeblock data ''```collection''"

text \<open>\<open>extractReadme\<close>: every line outside the fenced blocks; nothing when no block was closed.\<close>

fun readme_lines :: "string \<Rightarrow> bool \<Rightarrow> bool \<Rightarrow> string list \<Rightarrow> string list \<Rightarrow> bool \<times> string list" where
  "readme_lines fence inBlock closed result [] = (closed, result)"
| "readme_lines fence inBlock closed result (line # lines) =
     (let trimmed = TrimRight line carriage
      in if inBlock \<and> HasPrefix trimmed ''```'' then readme_lines fence False True result lines
         else if inBlock then readme_lines fence True closed result lines
         else if trimmed = fence then readme_lines fence True closed result lines
         else readme_lines fence False closed (result @ [trimmed]) lines)"

definition extractReadme :: "string \<Rightarrow> string \<Rightarrow> string option" where
  "extractReadme data fence =
     (case readme_lines fence False False [] (Split data newline) of
        (closed, result) \<Rightarrow>
          if \<not> closed then None
          else (let readme = TrimSpace (Join result [newline]) in if readme = [] then None else Some readme))"

definition extractArrowReadme :: "string \<Rightarrow> string option" where
  "extractArrowReadme data = extractReadme data ''```arrow''"

section \<open>The schema line\<close>

record ManifestInfo =
  SchemaType :: string
  miVersion :: string
  ManifestKey :: string

datatype parse_error =
    BadYAML | NoManifestField | BadManifestFormat string | EmptySchemaOrVersion | SchemaMismatch string
  | UnsupportedManifest string | SchemaInvalid | NoTargetsSection | SyntheticDependencies | UnknownStepType string
  | CollectionMapping

definition parseManifestString :: "string \<Rightarrow> parse_error + ManifestInfo" where
  "parseManifestString m =
     (let m = TrimSpace m; m = TrimRight (TrimLeft m [CHR 0x22, CHR 0x27]) [CHR 0x22, CHR 0x27];
          parts = Split m CHR ''@''
      in if length parts \<noteq> 2 then Inl (BadManifestFormat m)
         else (let schemaType = TrimSpace (parts ! 0); version = TrimSpace (parts ! 1)
               in if schemaType = [] \<or> version = [] then Inl EmptySchemaOrVersion
                  else Inr \<lparr>SchemaType = schemaType, miVersion = version, ManifestKey = schemaType @ ''@'' @ version\<rparr>))"

text \<open>The two fields a manifest may name its schema in, as YAML decodes them.\<close>

record temporaryManifest =
  tmSchema :: string
  tmManifest :: string

definition extractSchemaField :: "(string \<Rightarrow> temporaryManifest option) \<Rightarrow> string \<Rightarrow> parse_error + string" where
  "extractSchemaField yaml data =
     (case yaml data of
        None \<Rightarrow> Inl BadYAML
      | Some temp \<Rightarrow> Inr (if tmSchema temp \<noteq> [] then tmSchema temp else if tmManifest temp \<noteq> [] then tmManifest temp else []))"

definition extractManifestFromYAML :: "(string \<Rightarrow> temporaryManifest option) \<Rightarrow> string \<Rightarrow> parse_error + ManifestInfo" where
  "extractManifestFromYAML yaml data =
     (case extractSchemaField yaml data of
        Inl e \<Rightarrow> Inl e
      | Inr m \<Rightarrow> if m = [] then Inl NoManifestField else parseManifestString m)"

section \<open>The arrow@v0 document\<close>

record 'a overrideableV0 =
  ovDefault :: 'a
  ovOSArch :: "(string \<times> 'a) list"

text \<open>\<open>UnmarshalYAML\<close> of a scalar or of a mapping, whose key \<open>default\<close> is the default.\<close>

datatype 'a yaml_node = ScalarNode 'a | MappingNode "(string \<times> 'a) list" | OtherNode

definition overrideableV0_UnmarshalYAML :: "'a \<Rightarrow> 'a yaml_node \<Rightarrow> 'a overrideableV0 option" where
  "overrideableV0_UnmarshalYAML zero node =
     (case node of
        ScalarNode v \<Rightarrow> Some \<lparr>ovDefault = v, ovOSArch = []\<rparr>
      | MappingNode m \<Rightarrow>
          Some \<lparr>ovDefault = (case map_of m ''default'' of Some v \<Rightarrow> v | None \<Rightarrow> zero),
                ovOSArch = filter (\<lambda>(k, v). k \<noteq> ''default'') m\<rparr>
      | OtherNode \<Rightarrow> None)"

record creditV0 =
  c0Name :: string
  c0Email :: string
  c0URL :: string

record generatorV0 =
  g0Name :: string
  g0Confidence :: string
  g0Warnings :: "string list"

record mediaV0 =
  m0Icon :: string
  m0Banner :: string

record metadataV0 =
  md0Name :: string
  md0Description :: string
  md0License :: string
  md0URL :: string
  md0Maintainers :: "creditV0 list"
  md0Credits :: "creditV0 list"
  md0Media :: mediaV0
  md0Tags :: "string list"
  md0Generator :: generatorV0

record exposeEntryV0 =
  ee0Name :: string
  ee0Path :: string
  ee0Icon :: string
  ee0Categories :: "string list"

record exposeV0 =
  ex0CLI :: "exposeEntryV0 list option"
  ex0Desktop :: "exposeEntryV0 list option"

record requirementsV0 =
  rq0CpuCores :: "int option"
  rq0RamGB :: "int option"
  rq0DiskGB :: "int option"

record variableV0 =
  v0Name :: string
  v0Description :: string
  v0Default :: string
  v0Sensitive :: bool
  v0Values :: "string list"
  v0Min :: int
  v0Max :: int
  v0Type :: string

record portV0 =
  p0Name :: string
  p0Protocol :: string
  p0Default :: int
  p0Required :: bool

record uiV0 =
  u0Title :: string
  u0Path :: string
  u0Listen :: "string list"
  u0Static :: string

record stepV0 =
  s0Type :: string
  s0Title :: string
  s0Command :: "string overrideableV0"
  s0URL :: "string overrideableV0"
  s0From :: "string overrideableV0"
  s0To :: "string overrideableV0"
  s0Signal :: "string overrideableV0"
  s0Elevated :: "bool overrideableV0"
  s0Checksum :: "string overrideableV0"
  s0Timeout :: "string overrideableV0"
  s0Name :: string
  s0UI :: "uiV0 option"
  s0ExitOnFailure :: "bool option"

record lifecycleV0 =
  l0Install :: "stepV0 list option"
  l0Update :: "stepV0 list option"
  l0Execute :: "stepV0 list option"
  l0Stop :: "stepV0 list option"
  l0Uninstall :: "stepV0 list option"
  l0Preinstalled :: "stepV0 list option"

record methodV0 =
  me0AvailableIn :: "string list"
  me0Steps :: "stepV0 list option"

record targetV0 =
  t0Base :: string
  t0Requirements :: requirementsV0
  t0Tools :: "string list option"
  t0Services :: "string list option"
  t0Exports :: "(string \<times> string overrideableV0) list"
  t0Lifecycle :: lifecycleV0
  t0Methods :: "(string \<times> methodV0) list"
  t0Expose :: exposeV0

record arrowV0 =
  a0Schema :: string
  a0Metadata :: metadataV0
  a0Variables :: "variableV0 list"
  a0Netbridge :: "portV0 list"
  a0Targets :: "(string \<times> targetV0) list"

text \<open>
  The precompiled target (models/precompiled_target.go).  Lists the merge tells apart from an
  undeclared one are options.
\<close>

record PrecompiledTarget =
  pcBase :: string
  pcRequirements :: Requirement
  pcTools :: "Namespace list option"
  pcServices :: "Namespace list option"
  pcExports :: "(string \<times> string Overrideable) list"
  pcLifecycle :: TargetLifecycle
  pcMethods :: "(string \<times> Method) list"
  pcExpose :: Expose

section \<open>The mapper\<close>

definition toStepOverrideable :: "'a overrideableV0 \<Rightarrow> 'a Overrideable" where
  "toStepOverrideable o0 = \<lparr>Default = ovDefault o0, OSArch = ovOSArch o0\<rparr>"

definition toStepOverrideableBool :: "bool overrideableV0 \<Rightarrow> bool Overrideable" where
  "toStepOverrideableBool o0 = \<lparr>Default = ovDefault o0, OSArch = ovOSArch o0\<rparr>"

text \<open>The conversions \<open>SignalKind(s)\<close>, \<open>ArrowState(s)\<close>, \<open>VariableType(s)\<close>, \<open>Protocol(s)\<close>.\<close>

definition to_SignalKind :: "string \<Rightarrow> SignalKind" where
  "to_SignalKind s = (if s = ''graceful'' then SignalKindGraceful else if s = ''kill'' then SignalKindKill
     else if s = ''interrupt'' then SignalKindInterrupt else SignalKindOther s)"

definition to_ArrowState :: "string \<Rightarrow> ArrowState" where
  "to_ArrowState s =
     (case map_of [(''absent'', ArrowStateAbsent), (''installing'', ArrowStateInstalling), (''updating'', ArrowStateUpdating),
        (''ready'', ArrowStateReady), (''running'', ArrowStateRunning), (''stopping'', ArrowStateStopping),
        (''draining'', ArrowStateDraining), (''detached'', ArrowStateDetached), (''uninstalling'', ArrowStateUninstalling),
        (''removed'', ArrowStateRemoved), (''outdated'', ArrowStateOutdated)] s of
        Some st \<Rightarrow> st | None \<Rightarrow> ArrowStateOther s)"

definition to_VariableType :: "string \<Rightarrow> VariableType" where
  "to_VariableType s = (if s = ''string'' then VariableTypeString else if s = ''number'' then VariableTypeNumber
     else if s = ''boolean'' then VariableTypeBoolean else if s = ''select'' then VariableTypeSelect else VariableTypeOther s)"

definition to_Protocol :: "string \<Rightarrow> Protocol" where
  "to_Protocol s = (if s = ''tcp'' then ProtocolTCP else if s = ''udp'' then ProtocolUDP
     else if s = ''tcp/udp'' then ProtocolTCPUDP else ProtocolOther s)"

definition toSignalOverrideable :: "string overrideableV0 \<Rightarrow> SignalKind Overrideable" where
  "toSignalOverrideable o0 =
     \<lparr>Default = to_SignalKind (ovDefault o0), OSArch = map (\<lambda>(k, v). (k, to_SignalKind v)) (ovOSArch o0)\<rparr>"

definition toExposeEntries :: "exposeEntryV0 list option \<Rightarrow> ExposeEntry list option" where
  "toExposeEntries entries =
     map_option (map (\<lambda>e. \<lparr>eName = ee0Name e, ePath = ee0Path e, eIcon = ee0Icon e, eCategories = ee0Categories e\<rparr>)) entries"

definition toExpose :: "exposeV0 \<Rightarrow> Expose" where
  "toExpose e = \<lparr>exCLI = toExposeEntries (ex0CLI e), exDesktop = toExposeEntries (ex0Desktop e)\<rparr>"

definition toRequirement :: "requirementsV0 \<Rightarrow> Requirement" where
  "toRequirement req =
     \<lparr>CpuCores = (case rq0CpuCores req of Some n \<Rightarrow> n | None \<Rightarrow> 0),
      MemoryGB = (case rq0RamGB req of Some n \<Rightarrow> n | None \<Rightarrow> 0),
      DiskGB = (case rq0DiskGB req of Some n \<Rightarrow> n | None \<Rightarrow> 0)\<rparr>"

definition toNamespaces :: "string list option \<Rightarrow> Namespace list option" where
  "toNamespaces refs = refs"

definition toExports :: "(string \<times> string overrideableV0) list \<Rightarrow> (string \<times> string Overrideable) list" where
  "toExports exports = map (\<lambda>(k, v). (k, toStepOverrideable v)) exports"

definition toMedia :: "mediaV0 \<Rightarrow> ArrowMedia" where
  "toMedia m = \<lparr>mediaIcon = m0Icon m, mediaBanner = m0Banner m\<rparr>"

definition toGenerator :: "generatorV0 \<Rightarrow> ArrowGenerator option" where
  "toGenerator g =
     (if g0Name g = [] then None
      else Some \<lparr>gName = g0Name g, gConfidence = g0Confidence g, gWarnings = g0Warnings g\<rparr>)"

definition toCredits :: "creditV0 list \<Rightarrow> Credit list" where
  "toCredits credits = map (\<lambda>c. \<lparr>cName = c0Name c, cEmail = c0Email c, cURL = c0URL c\<rparr>) credits"

definition toVariables :: "variableV0 list \<Rightarrow> Variable list" where
  "toVariables vs = map (\<lambda>v. \<lparr>vName = v0Name v, vDescription = v0Description v, vDefault = v0Default v,
     vValues = v0Values v, vMin = v0Min v, vMax = v0Max v, vSensitive = v0Sensitive v, vType = to_VariableType (v0Type v)\<rparr>) vs"

definition toPorts :: "portV0 list \<Rightarrow> PortDef list" where
  "toPorts ports = map (\<lambda>p. \<lparr>pName = p0Name p, pProtocol = to_Protocol (p0Protocol p),
     pDefault = p0Default p, pRequired = p0Required p\<rparr>) ports"

definition resolveExitOnFailure :: "bool option \<Rightarrow> bool" where
  "resolveExitOnFailure v = (case v of None \<Rightarrow> True | Some b \<Rightarrow> b)"

definition toFromToTimeout :: "stepV0 \<Rightarrow> string Overrideable \<times> string Overrideable \<times> string Overrideable" where
  "toFromToTimeout s = (toStepOverrideable (s0From s), toStepOverrideable (s0To s), toStepOverrideable (s0Timeout s))"

definition toUIOptions :: "uiV0 \<Rightarrow> UIOptions" where
  "toUIOptions u = \<lparr>uiTitle = u0Title u, uiPath = u0Path u, uiListen = u0Listen u, uiStatic = u0Static u\<rparr>"

definition toStep :: "stepV0 \<Rightarrow> parse_error + Step" where
  "toStep s =
     (let ex = resolveExitOnFailure (s0ExitOnFailure s); (from0, to, tmo) = toFromToTimeout s
      in if s0Type s = ''run'' then
           Inr (RunStep (newBasicStep StepTypeRun (s0Title s) ex) (toStepOverrideable (s0Command s))
             (toStepOverrideableBool (s0Elevated s)) (toStepOverrideable (s0Timeout s)) (map_option toUIOptions (s0UI s)))
         else if s0Type s = ''fetch'' then
           Inr (FetchStep (newBasicStep StepTypeFetch (s0Title s) ex) (toStepOverrideable (s0URL s))
             (toStepOverrideable (s0To s)) (toStepOverrideable (s0Checksum s)) (toStepOverrideable (s0Timeout s)))
         else if s0Type s = ''extract'' then
           Inr (ExtractStep (newBasicStep StepTypeExtract (s0Title s) ex) from0 to tmo)
         else if s0Type s = ''portable'' then
           Inr (PortableStep (newBasicStep StepTypePortable (s0Title s) ex) from0 to tmo (s0Name s))
         else if s0Type s = ''signal'' then
           Inr (SignalStep (newBasicStep StepTypeSignal (s0Title s) ex) (toSignalOverrideable (s0Signal s))
             (toStepOverrideable (s0Timeout s)))
         else if s0Type s = ''dependencies'' then Inl SyntheticDependencies
         else Inl (UnknownStepType (s0Type s)))"

definition toStepList :: "stepV0 list option \<Rightarrow> parse_error + StepList" where
  "toStepList steps =
     (case steps of
        None \<Rightarrow> Inr None
      | Some ss \<Rightarrow> (case try_map toStep ss of Inl e \<Rightarrow> Inl e | Inr result \<Rightarrow> Inr (Some result)))"

text \<open>The six lists of a lifecycle, in the order the code reads them.\<close>

definition toLifecycle :: "lifecycleV0 \<Rightarrow> parse_error + TargetLifecycle" where
  "toLifecycle lc =
     (case try_map toStepList [l0Install lc, l0Update lc, l0Execute lc, l0Stop lc, l0Uninstall lc, l0Preinstalled lc] of
        Inl e \<Rightarrow> Inl e
      | Inr ls \<Rightarrow> Inr \<lparr>Install = ls ! 0, Update = ls ! 1, Execute = ls ! 2, Stop = ls ! 3,
                      Uninstall = ls ! 4, Preinstalled = ls ! 5\<rparr>)"

definition toMethod :: "string \<times> methodV0 \<Rightarrow> parse_error + string \<times> Method" where
  "toMethod nm =
     (case toStepList (me0Steps (snd nm)) of
        Inl e \<Rightarrow> Inl e
      | Inr steps \<Rightarrow> Inr (fst nm, \<lparr>AvailableIn = map to_ArrowState (me0AvailableIn (snd nm)), mSteps = steps\<rparr>))"

definition toMethods :: "(string \<times> methodV0) list \<Rightarrow> parse_error + (string \<times> Method) list" where
  "toMethods methods = try_map toMethod methods"

definition toTarget :: "targetV0 \<Rightarrow> parse_error + PrecompiledTarget" where
  "toTarget t =
     (case toLifecycle (t0Lifecycle t) of
        Inl e \<Rightarrow> Inl e
      | Inr lifecycle \<Rightarrow>
          (case toMethods (t0Methods t) of
             Inl e \<Rightarrow> Inl e
           | Inr methods \<Rightarrow>
               Inr \<lparr>pcBase = t0Base t, pcRequirements = toRequirement (t0Requirements t),
                    pcTools = toNamespaces (t0Tools t), pcServices = toNamespaces (t0Services t),
                    pcExports = toExports (t0Exports t), pcLifecycle = lifecycle, pcMethods = methods,
                    pcExpose = toExpose (t0Expose t)\<rparr>))"

definition toTargets :: "(string \<times> targetV0) list \<Rightarrow> parse_error + (string \<times> PrecompiledTarget) list" where
  "toTargets raw =
     try_map (\<lambda>(name, t). case toTarget t of Inl e \<Rightarrow> Inl e | Inr target \<Rightarrow> Inr (name, target)) raw"

definition toAggregate :: "arrowV0 \<Rightarrow> parse_error + Arrow \<times> (string \<times> PrecompiledTarget) list" where
  "toAggregate raw =
     (if a0Targets raw = [] then Inl NoTargetsSection
      else (case toTargets (a0Targets raw) of
          Inl e \<Rightarrow> Inl e
        | Inr precompiled \<Rightarrow>
            (let md = a0Metadata raw in
             Inr (no_arrow\<lparr>aMeta := \<lparr>mName = md0Name md, mDescription = md0Description md, mLicense = md0License md,
                      mURL = md0URL md, mMaintainers = toCredits (md0Maintainers md), mCredits = toCredits (md0Credits md),
                      mTags = md0Tags md, mMedia = toMedia (md0Media md), mGenerator = toGenerator (md0Generator md)\<rparr>,
                    aVariables := toVariables (a0Variables raw), aNetbridge := toPorts (a0Netbridge raw)\<rparr>,
                  precompiled))))"

text \<open>
  \<open>translator.Arrow\<close>: of the markdown form, the fenced block; the registry holds the version
  \<open>v0\<close> alone.  \<open>schema\<close>, \<open>valid\<close> and \<open>decode\<close> stand for the YAML library and the schema
  validator.
\<close>

record yaml_lib =
  ylSchema :: "string \<Rightarrow> temporaryManifest option"
  ylValid :: "string \<Rightarrow> bool"
  ylArrow :: "string \<Rightarrow> arrowV0 option"

definition Map_arrow :: "yaml_lib \<Rightarrow> string \<Rightarrow> parse_error + Arrow \<times> (string \<times> PrecompiledTarget) list" where
  "Map_arrow yaml data = (case ylArrow yaml data of None \<Rightarrow> Inl BadYAML | Some raw \<Rightarrow> toAggregate raw)"

definition translate_Arrow :: "yaml_lib \<Rightarrow> string \<Rightarrow> parse_error + Arrow \<times> (string \<times> PrecompiledTarget) list" where
  "translate_Arrow yaml data =
     (let data = (case extractArrowCodeblock data of Some y \<Rightarrow> y | None \<Rightarrow> data)
      in case extractManifestFromYAML (ylSchema yaml) data of
           Inl e \<Rightarrow> Inl e
         | Inr m \<Rightarrow>
             if SchemaType m \<noteq> ''arrow'' then Inl (SchemaMismatch (SchemaType m))
             else if miVersion m \<noteq> ''v0'' then Inl (UnsupportedManifest (ManifestKey m))
             else if \<not> ylValid yaml data then Inl SchemaInvalid
             else Map_arrow yaml data)"

section \<open>Target selection\<close>

datatype select_error =
    ErrNoTargetForOS | AmbiguousTargetError string string OS | BaseCycle string | BaseNotFound string

definition IsAbstractTarget :: "string \<Rightarrow> bool" where
  "IsAbstractTarget key = HasPrefix key ''_''"

definition matchesTarget :: "string \<Rightarrow> OS \<Rightarrow> bool" where
  "matchesTarget key os \<longleftrightarrow> key = ''*'' \<or> path_Match key os = Some True"

definition specificity :: "string \<Rightarrow> int" where
  "specificity key = (if key = ''*'' then 1 else if Contains key ''*'' then 2 else 3)"

text \<open>The loop of \<open>findWinner\<close>: best key, tying key and best rank so far.\<close>

fun updateBest :: "string \<times> string \<times> int \<Rightarrow> string \<Rightarrow> OS \<Rightarrow> string \<times> string \<times> int" where
  "updateBest (bestKey, tieKey, bestRank) key os =
     (if IsAbstractTarget key then (bestKey, tieKey, bestRank)
      else if \<not> matchesTarget key os then (bestKey, tieKey, bestRank)
      else (let rank = specificity key
            in if rank > bestRank then (key, [], rank)
               else if rank = bestRank then (bestKey, key, bestRank)
               else (bestKey, tieKey, bestRank)))"

definition findWinner :: "(string \<times> 't) list \<Rightarrow> OS \<Rightarrow> select_error + string" where
  "findWinner targets os =
     (let (bestKey, tieKey, bestRank) = foldl (\<lambda>b key. updateBest b key os) ([], [], -1) (keys targets)
      in if tieKey \<noteq> [] then Inl (AmbiguousTargetError bestKey tieKey os)
         else if bestKey = [] then Inl ErrNoTargetForOS
         else Inr bestKey)"

definition mergeRequirements :: "Requirement \<Rightarrow> Requirement \<Rightarrow> Requirement" where
  "mergeRequirements parent child =
     \<lparr>CpuCores = (if CpuCores child \<noteq> 0 then CpuCores child else CpuCores parent),
      MemoryGB = (if MemoryGB child \<noteq> 0 then MemoryGB child else MemoryGB parent),
      DiskGB = (if DiskGB child \<noteq> 0 then DiskGB child else DiskGB parent)\<rparr>"

definition mergeNamespaces :: "Namespace list option \<Rightarrow> Namespace list option \<Rightarrow> Namespace list option" where
  "mergeNamespaces parent child = (if child \<noteq> None then child else parent)"

definition merge_maps :: "('k \<times> 'v) list \<Rightarrow> ('k \<times> 'v) list \<Rightarrow> ('k \<times> 'v) list" where
  "merge_maps parent child = foldl (\<lambda>m (k, v). map_put m k v) parent child"

definition mergeExports ::
  "(string \<times> string Overrideable) list \<Rightarrow> (string \<times> string Overrideable) list \<Rightarrow> (string \<times> string Overrideable) list" where
  "mergeExports parent child = merge_maps parent child"

definition mergeMethods :: "(string \<times> Method) list \<Rightarrow> (string \<times> Method) list \<Rightarrow> (string \<times> Method) list" where
  "mergeMethods parent child = merge_maps parent child"

definition mergeStepList :: "StepList \<Rightarrow> StepList \<Rightarrow> StepList" where
  "mergeStepList parent child = (if child \<noteq> None then child else parent)"

definition mergeExposeEntries :: "ExposeEntry list option \<Rightarrow> ExposeEntry list option \<Rightarrow> ExposeEntry list option" where
  "mergeExposeEntries parent child = (if child \<noteq> None then child else parent)"

definition mergeExpose :: "Expose \<Rightarrow> Expose \<Rightarrow> Expose" where
  "mergeExpose parent child =
     \<lparr>exCLI = mergeExposeEntries (exCLI parent) (exCLI child),
      exDesktop = mergeExposeEntries (exDesktop parent) (exDesktop child)\<rparr>"

definition mergeLifecycle :: "TargetLifecycle \<Rightarrow> TargetLifecycle \<Rightarrow> TargetLifecycle" where
  "mergeLifecycle parent child =
     \<lparr>Install = mergeStepList (Install parent) (Install child), Update = mergeStepList (Update parent) (Update child),
      Execute = mergeStepList (Execute parent) (Execute child), Stop = mergeStepList (Stop parent) (Stop child),
      Uninstall = mergeStepList (Uninstall parent) (Uninstall child),
      Preinstalled = mergeStepList (Preinstalled parent) (Preinstalled child)\<rparr>"

definition mergeTargets :: "PrecompiledTarget \<Rightarrow> PrecompiledTarget \<Rightarrow> PrecompiledTarget" where
  "mergeTargets parent child =
     \<lparr>pcBase = [], pcRequirements = mergeRequirements (pcRequirements parent) (pcRequirements child),
      pcTools = mergeNamespaces (pcTools parent) (pcTools child),
      pcServices = mergeNamespaces (pcServices parent) (pcServices child),
      pcExports = mergeExports (pcExports parent) (pcExports child),
      pcLifecycle = mergeLifecycle (pcLifecycle parent) (pcLifecycle child),
      pcMethods = mergeMethods (pcMethods parent) (pcMethods child),
      pcExpose = mergeExpose (pcExpose parent) (pcExpose child)\<rparr>"

text \<open>The walk marks the keys it has passed, so it ends after at most one visit of each target.\<close>

function walkBaseChain :: "(string \<times> PrecompiledTarget) list \<Rightarrow> string list \<Rightarrow> string \<Rightarrow> select_error + PrecompiledTarget" where
  "walkBaseChain targets visited key =
     (if key \<in> set visited then Inl (BaseCycle key)
      else case map_of targets key of
             None \<Rightarrow> Inl (BaseNotFound key)
           | Some t \<Rightarrow>
               if pcBase t = [] then Inr t
               else (case walkBaseChain targets (key # visited) (pcBase t) of
                       Inl e \<Rightarrow> Inl e
                     | Inr parent \<Rightarrow> Inr (mergeTargets parent t)))"
  by pat_completeness auto
termination
proof (relation "measure (\<lambda>(targets, visited, key). card (set (keys targets) - set visited))")
  fix targets :: "(string \<times> PrecompiledTarget) list" and visited key t
  assume "key \<notin> set visited" "map_of targets key = Some t"
  then have "key \<in> set (keys targets) - set visited" by (force dest: map_of_SomeD)
  then have "card (set (keys targets) - set visited - {key}) < card (set (keys targets) - set visited)"
    by (intro card_Diff1_less) auto
  then show "((targets, key # visited, pcBase t), (targets, visited, key))
      \<in> measure (\<lambda>(targets, visited, key). card (set (keys targets) - set visited))"
    by (simp add: Diff_insert2 [symmetric] insert_commute Diff_insert [symmetric])
qed simp

declare walkBaseChain.simps [simp del]

definition flattenBaseChain :: "string \<Rightarrow> (string \<times> PrecompiledTarget) list \<Rightarrow> select_error + PrecompiledTarget" where
  "flattenBaseChain key targets = walkBaseChain targets [] key"

text \<open>The loop of \<open>resolveOverrideable\<close>: rank, key and value of the best match, and the tying key.\<close>

fun ov_best :: "OS \<Rightarrow> int \<times> string \<times> string \<times> 'a option \<Rightarrow> string \<times> 'a \<Rightarrow> int \<times> string \<times> string \<times> 'a option" where
  "ov_best os (bestRank, bestKey, tieKey, bestVal) (key, val) =
     (if \<not> matchesTarget key os then (bestRank, bestKey, tieKey, bestVal)
      else (let rank = specificity key
            in if rank > bestRank then (rank, key, [], Some val)
               else if rank = bestRank then (bestRank, bestKey, key, bestVal)
               else (bestRank, bestKey, tieKey, bestVal)))"

definition resolveOverrideable :: "'a Overrideable \<Rightarrow> OS \<Rightarrow> select_error + 'a" where
  "resolveOverrideable ov os =
     (case foldl (ov_best os) (-1, [], [], None) (OSArch ov) of
        (bestRank, bestKey, tieKey, bestVal) \<Rightarrow>
          if tieKey \<noteq> [] then Inl (AmbiguousTargetError bestKey tieKey os)
          else (case bestVal of Some v \<Rightarrow> Inr v | None \<Rightarrow> Inr (Default ov)))"

definition resolveField :: "'a Overrideable \<Rightarrow> OS \<Rightarrow> select_error + 'a Overrideable" where
  "resolveField ov os = (case resolveOverrideable ov os of Inl e \<Rightarrow> Inl e | Inr v \<Rightarrow> Inr (plain v))"

definition resolveFromToTimeout ::
  "string Overrideable \<Rightarrow> string Overrideable \<Rightarrow> string Overrideable \<Rightarrow> OS \<Rightarrow>
   select_error + string Overrideable \<times> string Overrideable \<times> string Overrideable" where
  "resolveFromToTimeout from0 to tmo os =
     (case resolveField from0 os of Inl e \<Rightarrow> Inl e | Inr f \<Rightarrow>
      (case resolveField to os of Inl e \<Rightarrow> Inl e | Inr t \<Rightarrow>
       (case resolveField tmo os of Inl e \<Rightarrow> Inl e | Inr m \<Rightarrow> Inr (f, t, m))))"

definition resolveRunStep ::
  "BasicStep \<Rightarrow> string Overrideable \<Rightarrow> bool Overrideable \<Rightarrow> string Overrideable \<Rightarrow> UIOptions option \<Rightarrow> OS \<Rightarrow> select_error + Step" where
  "resolveRunStep b cmd el tmo ui os =
     (case resolveField cmd os of Inl e \<Rightarrow> Inl e | Inr c \<Rightarrow>
      (case resolveField el os of Inl e \<Rightarrow> Inl e | Inr l \<Rightarrow>
       (case resolveField tmo os of Inl e \<Rightarrow> Inl e | Inr m \<Rightarrow> Inr (RunStep b c l m ui))))"

definition resolveFetchStep ::
  "BasicStep \<Rightarrow> string Overrideable \<Rightarrow> string Overrideable \<Rightarrow> string Overrideable \<Rightarrow> string Overrideable \<Rightarrow> OS \<Rightarrow> select_error + Step" where
  "resolveFetchStep b url to ck tmo os =
     (case resolveField url os of Inl e \<Rightarrow> Inl e | Inr u \<Rightarrow>
      (case resolveField to os of Inl e \<Rightarrow> Inl e | Inr t \<Rightarrow>
       (case resolveField ck os of Inl e \<Rightarrow> Inl e | Inr c \<Rightarrow>
        (case resolveField tmo os of Inl e \<Rightarrow> Inl e | Inr m \<Rightarrow> Inr (FetchStep b u t c m)))))"

definition resolveExtractStep ::
  "BasicStep \<Rightarrow> string Overrideable \<Rightarrow> string Overrideable \<Rightarrow> string Overrideable \<Rightarrow> OS \<Rightarrow> select_error + Step" where
  "resolveExtractStep b from0 to tmo os =
     (case resolveFromToTimeout from0 to tmo os of Inl e \<Rightarrow> Inl e | Inr (f, t, m) \<Rightarrow> Inr (ExtractStep b f t m))"

definition resolvePortableStep ::
  "BasicStep \<Rightarrow> string Overrideable \<Rightarrow> string Overrideable \<Rightarrow> string Overrideable \<Rightarrow> string \<Rightarrow> OS \<Rightarrow> select_error + Step" where
  "resolvePortableStep b from0 to tmo name os =
     (case resolveFromToTimeout from0 to tmo os of Inl e \<Rightarrow> Inl e | Inr (f, t, m) \<Rightarrow> Inr (PortableStep b f t m name))"

definition resolveSignalStep ::
  "BasicStep \<Rightarrow> SignalKind Overrideable \<Rightarrow> string Overrideable \<Rightarrow> OS \<Rightarrow> select_error + Step" where
  "resolveSignalStep b sg tmo os =
     (case resolveField sg os of Inl e \<Rightarrow> Inl e | Inr s \<Rightarrow>
      (case resolveField tmo os of Inl e \<Rightarrow> Inl e | Inr m \<Rightarrow> Inr (SignalStep b s m)))"

fun resolveStep :: "OS \<Rightarrow> Step \<Rightarrow> select_error + Step" where
  "resolveStep os (RunStep b cmd el tmo ui) = resolveRunStep b cmd el tmo ui os"
| "resolveStep os (FetchStep b url to ck tmo) = resolveFetchStep b url to ck tmo os"
| "resolveStep os (ExtractStep b fr to tmo) = resolveExtractStep b fr to tmo os"
| "resolveStep os (PortableStep b fr to tmo name) = resolvePortableStep b fr to tmo name os"
| "resolveStep os (SignalStep b sg tmo) = resolveSignalStep b sg tmo os"
| "resolveStep os s = Inr (Step_Resolve s os)"

definition resolveStepList :: "StepList \<Rightarrow> OS \<Rightarrow> select_error + StepList" where
  "resolveStepList steps os =
     (case steps of None \<Rightarrow> Inr None
      | Some ss \<Rightarrow> (case try_map (resolveStep os) ss of Inl e \<Rightarrow> Inl e | Inr rs \<Rightarrow> Inr (Some rs)))"

definition resolveExports :: "(string \<times> string Overrideable) list \<Rightarrow> OS \<Rightarrow> select_error + (string \<times> string) list" where
  "resolveExports exports os =
     try_map (\<lambda>(k, v). case resolveOverrideable v os of Inl e \<Rightarrow> Inl e | Inr val \<Rightarrow> Inr (k, val)) exports"

definition resolveLifecycle :: "TargetLifecycle \<Rightarrow> OS \<Rightarrow> select_error + TargetLifecycle" where
  "resolveLifecycle lc os =
     (case try_map (\<lambda>l. resolveStepList l os) [Install lc, Update lc, Execute lc, Stop lc, Uninstall lc, Preinstalled lc] of
        Inl e \<Rightarrow> Inl e
      | Inr ls \<Rightarrow> Inr \<lparr>Install = ls ! 0, Update = ls ! 1, Execute = ls ! 2, Stop = ls ! 3,
                      Uninstall = ls ! 4, Preinstalled = ls ! 5\<rparr>)"

definition resolveMethods :: "(string \<times> Method) list \<Rightarrow> OS \<Rightarrow> select_error + (string \<times> Method) list" where
  "resolveMethods methods os =
     try_map (\<lambda>(name, m). case resolveStepList (mSteps m) os of
         Inl e \<Rightarrow> Inl e | Inr steps \<Rightarrow> Inr (name, \<lparr>AvailableIn = AvailableIn m, mSteps = steps\<rparr>)) methods"

definition toDepEdges :: "Namespace list option \<Rightarrow> DepType \<Rightarrow> DependencyEdge list" where
  "toDepEdges namespaces depType =
     map (\<lambda>ns. \<lparr>deNamespace = ns, deConstraint = Ref ns, deType = depType\<rparr>) (elems namespaces)"

definition buildResolvedTarget :: "PrecompiledTarget \<Rightarrow> OS \<Rightarrow> select_error + Target" where
  "buildResolvedTarget t os =
     (case resolveExports (pcExports t) os of Inl e \<Rightarrow> Inl e | Inr exports \<Rightarrow>
      (case resolveLifecycle (pcLifecycle t) os of Inl e \<Rightarrow> Inl e | Inr lifecycle \<Rightarrow>
       (case resolveMethods (pcMethods t) os of Inl e \<Rightarrow> Inl e | Inr methods \<Rightarrow>
          Inr \<lparr>Requirements = pcRequirements t, Tools = toDepEdges (pcTools t) ToolDep,
               Services = toDepEdges (pcServices t) ServiceDep, Exports = exports, Lifecycle = lifecycle,
               Methods = methods, tExpose = pcExpose t\<rparr>)))"

definition SelectTarget :: "(string \<times> PrecompiledTarget) list \<Rightarrow> OS \<Rightarrow> select_error + Target" where
  "SelectTarget precompiled os =
     (case findWinner precompiled os of Inl e \<Rightarrow> Inl e | Inr winnerKey \<Rightarrow>
      (case flattenBaseChain winnerKey precompiled of Inl e \<Rightarrow> Inl e | Inr t \<Rightarrow> buildResolvedTarget t os))"

section \<open>The compiler\<close>

text \<open>
  \<open>addStartStop\<close>: an arrow that exposes a desktop app and declares no execute is given one, on
  every target.
\<close>

definition start_command :: "OS \<Rightarrow> string" where
  "start_command os =
     (if IsWindows os then [CHR 0x22] @ ''${ARROW_APP}'' @ [CHR 0x22]
      else ''exec '' @ [CHR 0x22] @ ''${ARROW_APP}'' @ [CHR 0x22])"

definition addStartStop :: "(OS \<times> Target) list \<Rightarrow> (OS \<times> Target) list" where
  "addStartStop targets =
     (if list_ex (\<lambda>(os, t). elems (Execute (Lifecycle t)) \<noteq> []) targets then targets
      else if \<not> list_ex (\<lambda>(os, t). elems (exDesktop (tExpose t)) \<noteq> []) targets then targets
      else map (\<lambda>(os, t). (os, t\<lparr>Lifecycle := (Lifecycle t)\<lparr>
          Execute := Some [NewRunStep ''Start'' (start_command os) False [] True],
          Stop := Some [NewSignalStep ''Stop'' SignalKindGraceful ''10s'' False]\<rparr>\<rparr>)) targets)"

fun compile_targets :: "(string \<times> PrecompiledTarget) list \<Rightarrow> OS list \<Rightarrow> select_error + (OS \<times> Target) list" where
  "compile_targets precompiled [] = Inr []"
| "compile_targets precompiled (os # oss) =
     (case SelectTarget precompiled os of
        Inr target \<Rightarrow>
          (case compile_targets precompiled oss of Inl e \<Rightarrow> Inl e | Inr rest \<Rightarrow> Inr ((os, target) # rest))
      | Inl e \<Rightarrow> if e = ErrNoTargetForOS then compile_targets precompiled oss else Inl e)"

definition Compile :: "Arrow \<Rightarrow> (string \<times> PrecompiledTarget) list \<Rightarrow> select_error + Arrow" where
  "Compile manifest precompiled =
     (case compile_targets precompiled AllOS of
        Inl e \<Rightarrow> Inl e | Inr result \<Rightarrow> Inr (manifest\<lparr>aTargets := addStartStop result\<rparr>))"

section \<open>The best match\<close>

text \<open>
  Both loops of the selector, over target keys and over the overrides of a value, are one scan for
  the candidate of highest rank that remembers a tie.
\<close>

fun pick_step :: "('a \<Rightarrow> bool) \<Rightarrow> ('a \<Rightarrow> int) \<Rightarrow> 'a option \<times> 'a option \<times> int \<Rightarrow> 'a \<Rightarrow> 'a option \<times> 'a option \<times> int" where
  "pick_step cand rank (b, t, r) x =
     (if \<not> cand x then (b, t, r)
      else if rank x > r then (Some x, None, rank x)
      else if rank x = r then (b, Some x, r)
      else (b, t, r))"

definition pick :: "('a \<Rightarrow> bool) \<Rightarrow> ('a \<Rightarrow> int) \<Rightarrow> 'a list \<Rightarrow> 'a option \<times> 'a option \<times> int" where
  "pick cand rank xs = foldl (pick_step cand rank) (None, None, -1) xs"

definition picked :: "('a \<Rightarrow> bool) \<Rightarrow> ('a \<Rightarrow> int) \<Rightarrow> 'a set \<Rightarrow> 'a option \<times> 'a option \<times> int \<Rightarrow> bool" where
  "picked cand rank S p \<longleftrightarrow> (case p of
     (None, t, r) \<Rightarrow> t = None \<and> r = -1 \<and> (\<forall>x \<in> S. \<not> cand x)
   | (Some b, t, r) \<Rightarrow> b \<in> S \<and> cand b \<and> rank b = r \<and> (\<forall>x \<in> S. cand x \<longrightarrow> rank x \<le> r) \<and>
       (case t of None \<Rightarrow> \<forall>x \<in> S. cand x \<and> rank x = r \<longrightarrow> x = b
        | Some c \<Rightarrow> c \<in> S \<and> cand c \<and> rank c = r \<and> c \<noteq> b))"

lemma picked_step:
  assumes "picked cand rank S p" "x \<notin> S" "\<And>y. 0 \<le> rank y"
  shows "picked cand rank (insert x S) (pick_step cand rank p x)"
proof -
  obtain b t r where p: "p = (b, t, r)" by (cases p)
  have r0: "rank x \<noteq> -1" "rank x > -1" using assms(3) [of x] by simp_all
  show ?thesis
  proof (cases b)
    case None
    then show ?thesis using assms(1) r0 by (auto simp: picked_def p)
  next
    case (Some b')
    then show ?thesis using assms(1,2) by (cases t) (fastforce simp: picked_def p)+
  qed
qed

lemma picked_pick:
  assumes "distinct xs" "\<And>y. 0 \<le> rank y"
  shows "picked cand rank (set xs) (pick cand rank xs)"
  using assms(1)
proof (induction xs rule: rev_induct)
  case Nil
  show ?case by (simp add: picked_def pick_def)
next
  case (snoc x xs)
  then show ?case using picked_step [of cand rank "set xs" "pick cand rank xs" x] assms(2) by (simp add: pick_def)
qed

lemma pick_cases [consumes 2]:
  assumes "distinct xs" "\<And>y. 0 \<le> rank y"
  obtains (none) r where "pick cand rank xs = (None, None, r)" "\<forall>x \<in> set xs. \<not> cand x"
  | (tie) b c r where "pick cand rank xs = (Some b, Some c, r)" "b \<in> set xs" "c \<in> set xs" "b \<noteq> c" "cand b" "cand c"
      "rank b = rank c" "\<forall>x \<in> set xs. cand x \<longrightarrow> rank x \<le> rank b"
  | (best) b r where "pick cand rank xs = (Some b, None, r)" "b \<in> set xs" "cand b"
      "\<forall>x \<in> set xs. cand x \<and> x \<noteq> b \<longrightarrow> rank x < rank b"
proof -
  obtain b t r where p: "pick cand rank xs = (b, t, r)" by (cases "pick cand rank xs")
  from picked_pick [OF assms(1), of rank cand] assms(2) have k: "picked cand rank (set xs) (b, t, r)" by (simp add: p)
  show ?thesis
  proof (cases b)
    case None
    with k p none show ?thesis by (auto simp: picked_def)
  next
    case (Some b')
    show ?thesis
    proof (cases t)
      case None
      have f: "b' \<in> set xs" "cand b'" "rank b' = r" "\<forall>x \<in> set xs. cand x \<longrightarrow> rank x \<le> r"
        "\<forall>x \<in> set xs. cand x \<and> rank x = r \<longrightarrow> x = b'"
        using k Some None by (simp_all add: picked_def)
      have l: "\<forall>x \<in> set xs. cand x \<and> x \<noteq> b' \<longrightarrow> rank x < rank b'"
        using f(3-5) by (metis order_less_le)
      have e: "pick cand rank xs = (Some b', None, r)" using p Some None by simp
      show ?thesis by (rule best [OF e f(1,2) l])
    next
      case (Some c)
      have f: "b' \<in> set xs" "cand b'" "rank b' = r" "\<forall>x \<in> set xs. cand x \<longrightarrow> rank x \<le> r"
        "c \<in> set xs" "cand c" "rank c = r" "c \<noteq> b'"
        using k Some \<open>b = Some b'\<close> by (simp_all add: picked_def)
      have e: "pick cand rank xs = (Some b', Some c, r)" using p Some \<open>b = Some b'\<close> by simp
      have r: "rank b' = rank c" "\<forall>x \<in> set xs. cand x \<longrightarrow> rank x \<le> rank b'" using f(3,4,7) by simp_all
      show ?thesis by (rule tie [OF e f(1,5) not_sym [OF f(8)] f(2,6) r])
    qed
  qed
qed

lemma specificity_pos: "0 \<le> specificity key"
  by (simp add: specificity_def)

lemma matchesTarget_Nil [simp]: "os \<noteq> [] \<Longrightarrow> \<not> matchesTarget [] os"
  by (simp add: matchesTarget_def path_Match_def)

definition concrete :: "OS \<Rightarrow> string \<Rightarrow> bool" where
  "concrete os key \<longleftrightarrow> \<not> IsAbstractTarget key \<and> matchesTarget key os"

definition opt_key :: "string option \<Rightarrow> string" where
  "opt_key k = (case k of None \<Rightarrow> [] | Some s \<Rightarrow> s)"

lemma opt_key_simps [simp]: "opt_key None = []" "opt_key (Some k) = k"
  by (simp_all add: opt_key_def)

lemma findWinner_scan:
  "foldl (\<lambda>b key. updateBest b key os) (opt_key b, opt_key t, r) ks =
   (case foldl (pick_step (concrete os) specificity) (b, t, r) ks of (b', t', r') \<Rightarrow> (opt_key b', opt_key t', r'))"
proof (induction ks arbitrary: b t r)
  case (Cons k ks)
  have "updateBest (opt_key b, opt_key t, r) k os =
    (case pick_step (concrete os) specificity (b, t, r) k of (b', t', r') \<Rightarrow> (opt_key b', opt_key t', r'))"
    by (simp add: concrete_def)
  then show ?case using Cons.IH by (cases "pick_step (concrete os) specificity (b, t, r) k") simp
qed simp

lemma findWinner_pick:
  assumes "distinct (keys ts)" "os \<noteq> []"
  shows "findWinner ts os = (case pick (concrete os) specificity (keys ts) of
      (None, _, _) \<Rightarrow> Inl ErrNoTargetForOS
    | (Some b, None, _) \<Rightarrow> Inr b
    | (Some b, Some c, _) \<Rightarrow> Inl (AmbiguousTargetError b c os))"
proof -
  have ne: "concrete os k \<Longrightarrow> k \<noteq> []" for k using assms(2) by (auto simp: concrete_def)
  show ?thesis
    using findWinner_scan [of os None None "-1" "keys ts"] ne
    by (cases rule: pick_cases [OF assms(1), of specificity "concrete os", OF specificity_pos])
      (auto simp: findWinner_def pick_def)
qed

lemma findWinner_Inr:
  assumes "distinct (keys ts)" "os \<noteq> []"
  shows "findWinner ts os = Inr k \<longleftrightarrow> k \<in> set (keys ts) \<and> concrete os k \<and>
    (\<forall>k' \<in> set (keys ts). concrete os k' \<and> k' \<noteq> k \<longrightarrow> specificity k' < specificity k)"
  using assms(1) specificity_pos
proof (cases rule: pick_cases [where cand = "concrete os" and rank = specificity and xs = "keys ts"])
  case (none r)
  then show ?thesis by (auto simp: findWinner_pick [OF assms])
next
  case (tie b c r)
  then have "findWinner ts os \<noteq> Inr k" by (simp add: findWinner_pick [OF assms])
  moreover have "\<not> (\<forall>k' \<in> set (keys ts). concrete os k' \<and> k' \<noteq> k \<longrightarrow> specificity k' < specificity k)"
    if "k \<in> set (keys ts)" "concrete os k"
  proof
    assume all: "\<forall>k' \<in> set (keys ts). concrete os k' \<and> k' \<noteq> k \<longrightarrow> specificity k' < specificity k"
    have "specificity k \<le> specificity b" using tie(8) that by blast
    moreover have "k \<noteq> b \<Longrightarrow> specificity b < specificity k" "k \<noteq> c \<Longrightarrow> specificity c < specificity k"
      using all tie(2-6) by blast+
    ultimately show False using tie by (metis less_irrefl not_less)
  qed
  ultimately show ?thesis by blast
next
  case (best b r)
  then have "findWinner ts os = Inr k \<longleftrightarrow> k = b" by (auto simp: findWinner_pick [OF assms])
  with best show ?thesis by (metis order.asym)
qed

lemma findWinner_none:
  assumes "distinct (keys ts)" "os \<noteq> []"
  shows "findWinner ts os = Inl ErrNoTargetForOS \<longleftrightarrow> (\<forall>k \<in> set (keys ts). \<not> concrete os k)"
  by (cases rule: pick_cases [OF assms(1), of specificity "concrete os", OF specificity_pos])
    (auto simp: findWinner_pick [OF assms])

lemma map_of_perm: "distinct (keys xs) \<Longrightarrow> mset ys = mset xs \<Longrightarrow> map_of ys = map_of xs"
proof -
  assume d: "distinct (keys xs)" and m: "mset ys = mset xs"
  then have "distinct (keys ys)" by (metis mset_eq_imp_distinct_iff mset_map)
  with d m show ?thesis by (metis map_of_inject_set mset_eq_setD)
qed

lemma walk_perm:
  "map_of us = map_of ts \<Longrightarrow> walkBaseChain us visited key = walkBaseChain ts visited key"
proof (induction ts visited key rule: walkBaseChain.induct)
  case (1 ts visited key)
  then show ?case
    by (subst (1 2) walkBaseChain.simps) (auto split: option.split)
qed

subsection \<open>Flat steps\<close>

definition flat_list :: "StepList \<Rightarrow> bool" where
  "flat_list steps \<longleftrightarrow> list_all flat_step (elems steps)"

definition flat_target :: "Target \<Rightarrow> bool" where
  "flat_target t \<longleftrightarrow> list_all flat_list [Install (Lifecycle t), Update (Lifecycle t), Execute (Lifecycle t),
     Stop (Lifecycle t), Uninstall (Lifecycle t), Preinstalled (Lifecycle t)] \<and>
   list_all (\<lambda>(name, m). flat_list (mSteps m)) (Methods t)"

lemma resolveField_flat: "resolveField ov os = Inr v \<Longrightarrow> OSArch v = []"
  by (auto simp: resolveField_def split: sum.splits)

lemma resolveStep_flat: "resolveStep os s = Inr s' \<Longrightarrow> flat_step s'"
  by (cases s) (auto simp: resolveRunStep_def resolveFetchStep_def resolveExtractStep_def resolvePortableStep_def
    resolveSignalStep_def resolveFromToTimeout_def resolveField_flat split: sum.splits)

lemma try_map_all: "try_map f xs = Inr ys \<Longrightarrow> (\<And>x y. x \<in> set xs \<Longrightarrow> f x = Inr y \<Longrightarrow> P y) \<Longrightarrow> list_all P ys"
  by (auto simp: try_map_Inr_iff list_all2_conv_all_nth list_all_length) (metis nth_mem)

lemma resolveStepList_flat: "resolveStepList steps os = Inr r \<Longrightarrow> flat_list r"
  using try_map_all [of "resolveStep os" "elems steps" "elems r" flat_step] resolveStep_flat
  by (auto simp: resolveStepList_def flat_list_def split: option.splits sum.splits)

lemma resolveLifecycle_flat:
  "resolveLifecycle lc os = Inr l \<Longrightarrow>
   list_all flat_list [Install l, Update l, Execute l, Stop l, Uninstall l, Preinstalled l]"
  by (auto simp: resolveLifecycle_def resolveStepList_flat split: sum.splits)

lemma resolveMethods_flat: "resolveMethods ms os = Inr rs \<Longrightarrow> list_all (\<lambda>(name, m). flat_list (mSteps m)) rs"
  unfolding resolveMethods_def
  by (erule try_map_all) (auto simp: resolveStepList_flat split: sum.splits)

lemma SelectTarget_flat: "SelectTarget pre os = Inr t \<Longrightarrow> flat_target t"
  by (auto simp: SelectTarget_def buildResolvedTarget_def flat_target_def dest: resolveLifecycle_flat resolveMethods_flat
    split: sum.splits)

lemma compile_targets_members:
  "compile_targets pre oss = Inr ts \<Longrightarrow>
   keys ts = filter (\<lambda>os. SelectTarget pre os \<noteq> Inl ErrNoTargetForOS) oss \<and>
   (\<forall>(os, t) \<in> set ts. SelectTarget pre os = Inr t)"
  by (induction oss arbitrary: ts) (auto split: sum.splits if_splits)

lemma flat_started:
  "flat_target t \<Longrightarrow> flat_target (t\<lparr>Lifecycle := (Lifecycle t)\<lparr>
     Execute := Some [NewRunStep ti cmd el tmo ex], Stop := Some [NewSignalStep ti' sg tmo' ex']\<rparr>\<rparr>)"
  by (simp add: flat_target_def flat_list_def New_step_defs)

lemma addStartStop_flat: "list_all (\<lambda>(os, t). flat_target t) ts \<Longrightarrow> list_all (\<lambda>(os, t). flat_target t) (addStartStop ts)"
  by (auto simp: addStartStop_def list_all_iff flat_started)

lemma addStartStop_keys [simp]: "keys (addStartStop ts) = keys ts"
  by (auto simp: addStartStop_def comp_def case_prod_unfold)

subsection \<open>Markdown\<close>

lemma TrimRight_idem [simp]: "TrimRight (TrimRight s cs) cs = TrimRight s cs"
  by (simp add: TrimRight_def)

text \<open>The line endings make no difference.\<close>

lemma fenced_trimmed: "fenced_lines fence b r (map (\<lambda>l. TrimRight l carriage) ls) = fenced_lines fence b r ls"
  by (induction fence b r ls rule: fenced_lines.induct) (auto simp: Let_def)

lemma readme_trimmed: "readme_lines fence b c r (map (\<lambda>l. TrimRight l carriage) ls) = readme_lines fence b c r ls"
  by (induction fence b c r ls rule: readme_lines.induct) (auto simp: Let_def)

lemma fenced_outside:
  "\<forall>l \<in> set pre. TrimRight l carriage \<noteq> fence \<Longrightarrow> fenced_lines fence False r (pre @ ls) = fenced_lines fence False r ls"
  by (induction pre) auto

lemma fenced_inside:
  "\<forall>l \<in> set body. TrimRight l carriage = l \<and> \<not> HasPrefix l ''```'' \<Longrightarrow>
   fenced_lines fence True r (body @ ls) = fenced_lines fence True (r @ body) ls"
  by (induction body arbitrary: r) auto

lemma readme_outside:
  "\<forall>l \<in> set pre. TrimRight l carriage = l \<and> l \<noteq> fence \<Longrightarrow>
   readme_lines fence False c r (pre @ ls) = readme_lines fence False c (r @ pre) ls"
  by (induction pre arbitrary: r) auto

lemma readme_inside:
  "\<forall>l \<in> set body. TrimRight l carriage = l \<and> \<not> HasPrefix l ''```'' \<Longrightarrow>
   readme_lines fence True c r (body @ ls) = readme_lines fence True c r ls"
  by (induction body) auto

lemma resolveOverrideable_not_none: "resolveOverrideable ov os \<noteq> Inl ErrNoTargetForOS"
  by (auto simp: resolveOverrideable_def split: prod.split option.split)

lemma resolveField_not_none: "resolveField ov os \<noteq> Inl ErrNoTargetForOS"
  using resolveOverrideable_not_none [of ov os] by (auto simp: resolveField_def split: sum.splits)

lemma resolveStep_not_none: "resolveStep os s \<noteq> Inl ErrNoTargetForOS"
  by (cases s) (auto simp: resolveRunStep_def resolveFetchStep_def resolveExtractStep_def resolvePortableStep_def
    resolveSignalStep_def resolveFromToTimeout_def resolveField_not_none split: sum.splits)

lemma try_map_error: "try_map f xs = Inl e \<Longrightarrow> \<exists>x \<in> set xs. f x = Inl e"
  by (induction xs) (auto split: sum.splits)

lemma resolveStepList_not_none: "resolveStepList steps os \<noteq> Inl ErrNoTargetForOS"
  using try_map_error [of "resolveStep os"] resolveStep_not_none
  by (fastforce simp: resolveStepList_def split: option.splits sum.splits)

lemma buildResolvedTarget_not_none: "buildResolvedTarget t os \<noteq> Inl ErrNoTargetForOS"
proof -
  have "resolveExports (pcExports t) os \<noteq> Inl ErrNoTargetForOS"
    using try_map_error resolveOverrideable_not_none by (fastforce simp: resolveExports_def split: sum.splits)
  moreover have "resolveLifecycle (pcLifecycle t) os \<noteq> Inl ErrNoTargetForOS"
    using resolveStepList_not_none by (auto simp: resolveLifecycle_def split: sum.splits)
  moreover have "resolveMethods (pcMethods t) os \<noteq> Inl ErrNoTargetForOS"
    using try_map_error resolveStepList_not_none by (fastforce simp: resolveMethods_def split: sum.splits)
  ultimately show ?thesis by (auto simp: buildResolvedTarget_def split: sum.splits)
qed

lemma walk_not_none: "walkBaseChain ts visited key \<noteq> Inl ErrNoTargetForOS"
proof (induction ts visited key rule: walkBaseChain.induct)
  case (1 ts visited key)
  then show ?case by (subst walkBaseChain.simps) (auto split: option.splits sum.splits)
qed

lemma SelectTarget_none: "SelectTarget pre os = Inl ErrNoTargetForOS \<longleftrightarrow> findWinner pre os = Inl ErrNoTargetForOS"
  using walk_not_none [of pre "[]"] buildResolvedTarget_not_none
  by (auto simp: SelectTarget_def flattenBaseChain_def split: sum.splits)

lemma SelectTarget_Inr: "SelectTarget ts os = Inr t \<longleftrightarrow>
    (\<exists>k c. findWinner ts os = Inr k \<and> flattenBaseChain k ts = Inr c \<and> buildResolvedTarget c os = Inr t)"
  by (auto simp: SelectTarget_def split: sum.splits)

lemma AllOS_nonempty: "os \<in> set AllOS \<Longrightarrow> os \<noteq> []"
  by (auto simp: AllOS_def OSLinuxAMD64_def OSLinuxARM64_def OSWindowsAMD64_def OSWindowsARM64_def OSDarwinAMD64_def OSDarwinARM64_def)

section \<open>Properties\<close>

definition no_lifecycle :: TargetLifecycle where
  "no_lifecycle = \<lparr>Install = None, Update = None, Execute = None, Stop = None, Uninstall = None, Preinstalled = None\<rparr>"

definition no_target :: PrecompiledTarget where
  "no_target = \<lparr>pcBase = [], pcRequirements = \<lparr>CpuCores = 0, MemoryGB = 0, DiskGB = 0\<rparr>, pcTools = None, pcServices = None,
     pcExports = [], pcLifecycle = no_lifecycle, pcMethods = [], pcExpose = \<lparr>exCLI = None, exDesktop = None\<rparr>\<rparr>"

definition run_step :: "string Overrideable \<Rightarrow> Step" where
  "run_step cmd = RunStep (newBasicStep StepTypeRun ''Run'' True) cmd (plain False) (plain []) None"

definition sample_targets :: "(string \<times> PrecompiledTarget) list" where
  "sample_targets =
     [(''_common'', no_target\<lparr>pcLifecycle := no_lifecycle\<lparr>Execute := Some [run_step
         \<lparr>Default = ''./server'', OSArch = [(''windows/*'', ''server.exe''), (''windows/arm64'', ''server-arm.exe'')]\<rparr>]\<rparr>\<rparr>),
      (''linux/*'', no_target\<lparr>pcBase := ''_common''\<rparr>),
      (''windows/*'', no_target\<lparr>pcBase := ''_common''\<rparr>),
      (''linux/arm64'', no_target\<lparr>pcBase := ''linux/*''\<rparr>)]"

text \<open>
  C24. The most specific matching target wins and the order of the map does not matter: the winner
  for a platform is the one concrete key that matches it and is more specific than every other
  match, no key matches exactly when the platform is unsupported, and iterating the targets in
  another order selects the same target.
\<close>

theorem select_target_most_specific:
  assumes "distinct (keys ts)" "os \<noteq> []"
  shows "(\<forall>k. findWinner ts os = Inr k \<longleftrightarrow> k \<in> set (keys ts) \<and> \<not> IsAbstractTarget k \<and> matchesTarget k os \<and>
           (\<forall>k' \<in> set (keys ts). \<not> IsAbstractTarget k' \<and> matchesTarget k' os \<and> k' \<noteq> k \<longrightarrow> specificity k' < specificity k)) \<and>
    (SelectTarget ts os = Inl ErrNoTargetForOS \<longleftrightarrow> (\<forall>k \<in> set (keys ts). IsAbstractTarget k \<or> \<not> matchesTarget k os)) \<and>
    (\<forall>us t. mset us = mset ts \<longrightarrow> (SelectTarget us os = Inr t \<longleftrightarrow> SelectTarget ts os = Inr t))"
proof (intro conjI allI impI)
  fix us t
  assume m: "mset us = mset ts"
  then have d: "distinct (keys us)" "set us = set ts"
    using assms(1) by (metis mset_eq_imp_distinct_iff mset_map, metis set_mset_mset)
  have "(findWinner us os = Inr k) = (findWinner ts os = Inr k)" for k
    unfolding findWinner_Inr [OF d(1) assms(2)] findWinner_Inr [OF assms] set_map d(2) ..
  moreover have "flattenBaseChain k us = flattenBaseChain k ts" for k
    unfolding flattenBaseChain_def by (rule walk_perm [OF map_of_perm [OF assms(1) m]])
  ultimately show "SelectTarget us os = Inr t \<longleftrightarrow> SelectTarget ts os = Inr t"
    unfolding SelectTarget_Inr by simp
next
  fix k
  show "findWinner ts os = Inr k \<longleftrightarrow> k \<in> set (keys ts) \<and> \<not> IsAbstractTarget k \<and> matchesTarget k os \<and>
      (\<forall>k' \<in> set (keys ts). \<not> IsAbstractTarget k' \<and> matchesTarget k' os \<and> k' \<noteq> k \<longrightarrow> specificity k' < specificity k)"
    unfolding findWinner_Inr [OF assms] concrete_def by blast
next
  show "SelectTarget ts os = Inl ErrNoTargetForOS \<longleftrightarrow> (\<forall>k \<in> set (keys ts). IsAbstractTarget k \<or> \<not> matchesTarget k os)"
    unfolding SelectTarget_none findWinner_none [OF assms] concrete_def by blast
qed

theorem select_target_most_specific_witness:
  "\<exists>t. SelectTarget (rev sample_targets) OSLinuxARM64 = Inr t \<and> SelectTarget sample_targets OSLinuxARM64 = Inr t"
proof -
  have k: "distinct (keys sample_targets)" "OSLinuxARM64 \<noteq> []"
    "case SelectTarget sample_targets OSLinuxARM64 of Inl e \<Rightarrow> False | Inr t \<Rightarrow> True" by code_simp+
  then obtain t where "SelectTarget sample_targets OSLinuxARM64 = Inr t" by (auto split: sum.splits)
  with select_target_most_specific [OF k(1,2)] show ?thesis by (metis mset_rev)
qed

text \<open>
  C25. What the compiler hands on carries no platform choice any more: a compiled manifest has one
  target for each platform that some concrete key matches and no other, and every step of every
  one of them has a default and no overrides.
\<close>

theorem compiled_targets_flat:
  assumes "Compile manifest pre = Inr a" "distinct (keys pre)"
  shows "keys (aTargets a) = filter (\<lambda>os. \<exists>k \<in> set (keys pre). \<not> IsAbstractTarget k \<and> matchesTarget k os) AllOS \<and>
    list_all (\<lambda>(os, t). flat_target t) (aTargets a)"
proof -
  obtain ts where ts: "compile_targets pre AllOS = Inr ts" "aTargets a = addStartStop ts"
    using assms(1) by (auto simp: Compile_def split: sum.splits)
  have m: "(SelectTarget pre os \<noteq> Inl ErrNoTargetForOS) = (\<exists>k \<in> set (keys pre). \<not> IsAbstractTarget k \<and> matchesTarget k os)"
    if "os \<in> set AllOS" for os
    unfolding SelectTarget_none findWinner_none [OF assms(2) AllOS_nonempty [OF that]] concrete_def by blast
  have "keys ts = filter (\<lambda>os. SelectTarget pre os \<noteq> Inl ErrNoTargetForOS) AllOS"
    using compile_targets_members [OF ts(1)] by (rule conjunct1)
  also have "\<dots> = filter (\<lambda>os. \<exists>k \<in> set (keys pre). \<not> IsAbstractTarget k \<and> matchesTarget k os) AllOS"
    by (rule filter_cong [OF refl m])
  finally have "keys ts = filter (\<lambda>os. \<exists>k \<in> set (keys pre). \<not> IsAbstractTarget k \<and> matchesTarget k os) AllOS" .
  moreover have "list_all (\<lambda>(os, t). flat_target t) ts"
    using compile_targets_members [OF ts(1)] SelectTarget_flat by (auto simp: list_all_iff)
  ultimately show ?thesis using addStartStop_flat by (simp add: ts(2))
qed

theorem compiled_targets_flat_witness:
  "\<exists>a. Compile no_arrow sample_targets = Inr a \<and> list_all (\<lambda>(os, t). flat_target t) (aTargets a) \<and> length (aTargets a) = 4"
proof -
  have k: "distinct (keys sample_targets)"
    "case Compile no_arrow sample_targets of Inl e \<Rightarrow> False | Inr a \<Rightarrow> length (aTargets a) = 4" by code_simp+
  then obtain a where a: "Compile no_arrow sample_targets = Inr a" "length (aTargets a) = 4" by (auto split: sum.splits)
  from compiled_targets_flat [OF a(1) k(1)] a show ?thesis by auto
qed

text \<open>
  C26. A manifest embedded in markdown reads back, whether its lines end in LF, in CRLF or in some
  of each.  From a file whose lines, less their carriage returns, are prose, the fence, a body, a closing fence and
  prose again, the code block is the body and the readme is the prose around it.  The body has no
  line that starts with a fence, and the prose no second arrow fence and something to show.
\<close>

theorem markdown_roundtrip:
  assumes "map (\<lambda>l. TrimRight l carriage) raw = pre @ [''```arrow''] @ body @ [end_fence] @ post"
    and "list_all (\<lambda>l. newline \<notin> set l) raw"
    and "list_all (\<lambda>l. l \<noteq> ''```arrow'') (pre @ post)" "list_all (\<lambda>l. \<not> HasPrefix l ''```'') body"
    and "HasPrefix end_fence ''```''" "TrimSpace (Join (pre @ post) [newline]) \<noteq> []"
  shows "extractArrowCodeblock (Join raw [newline]) = Some (Join body [newline]) \<and>
    extractArrowReadme (Join raw [newline]) = Some (TrimSpace (Join (pre @ post) [newline]))"
proof -
  let ?ls = "pre @ ''```arrow'' # body @ end_fence # post"
  have s: "Split (Join raw [newline]) newline = raw"
    using assms(1,2) by (intro Split_Join) (auto simp: list_all_iff)
  have t: "map (\<lambda>l. TrimRight l carriage) raw = ?ls" using assms(1) by simp
  then have trimmed: "\<forall>l \<in> set ?ls. TrimRight l carriage = l"
    unfolding t [symmetric] by simp
  have f: "TrimRight ''```arrow'' carriage = ''```arrow''" "TrimRight end_fence carriage = end_fence"
    using trimmed by simp_all
  have a: "\<forall>l \<in> set pre. TrimRight l carriage \<noteq> ''```arrow''" "\<forall>l \<in> set pre. TrimRight l carriage = l \<and> l \<noteq> ''```arrow''"
    "\<forall>l \<in> set post. TrimRight l carriage = l \<and> l \<noteq> ''```arrow''"
    "\<forall>l \<in> set body. TrimRight l carriage = l \<and> \<not> HasPrefix l ''```''"
    using assms(3,4) trimmed by (auto simp: list_all_iff)
  have "fenced_lines ''```arrow'' False [] ?ls = Some body"
    using f assms(5) by (simp add: fenced_outside [OF a(1)] fenced_inside [OF a(4)])
  moreover have "readme_lines ''```arrow'' False False [] ?ls = (True, pre @ post)"
    using f assms(5) readme_outside [OF a(3), of True pre "[]"]
    by (simp add: readme_outside [OF a(2)] readme_inside [OF a(4)])
  ultimately show ?thesis
    using assms(6) s fenced_trimmed [of "''```arrow''" False "[]" raw] readme_trimmed [of "''```arrow''" False False "[]" raw]
    unfolding t
    by (simp add: extractArrowCodeblock_def extractFencedCodeblock_def extractArrowReadme_def extractReadme_def)
qed

theorem markdown_roundtrip_witness:
  "extractArrowCodeblock (Join [''Hello'' @ carriage, ''```arrow'' @ carriage, ''schema: arrow@v0'' @ carriage,
      ''```'', ''Bye''] [newline]) = Some ''schema: arrow@v0'' \<and>
   extractArrowCodeblock (Join [''Hello'', ''```arrow'', ''schema: arrow@v0'', ''```'', ''Bye''] [newline]) =
     Some ''schema: arrow@v0''"
proof -
  let ?crlf = "[''Hello'' @ carriage, ''```arrow'' @ carriage, ''schema: arrow@v0'' @ carriage, ''```'', ''Bye'']"
    and ?lf = "[''Hello'', ''```arrow'', ''schema: arrow@v0'', ''```'', ''Bye'']"
  have k: "map (\<lambda>l. TrimRight l carriage) raw = [''Hello''] @ [''```arrow''] @ [''schema: arrow@v0''] @ [''```''] @ [''Bye''] \<and>
      list_all (\<lambda>l. newline \<notin> set l) raw" if "raw = ?crlf \<or> raw = ?lf" for raw
  proof -
    have "map (\<lambda>l. TrimRight l carriage) ?crlf = ?lf \<and> list_all (\<lambda>l. newline \<notin> set l) ?crlf \<and>
      map (\<lambda>l. TrimRight l carriage) ?lf = ?lf \<and> list_all (\<lambda>l. newline \<notin> set l) ?lf" by code_simp
    with that show ?thesis by auto
  qed
  have r: "list_all (\<lambda>l. l \<noteq> ''```arrow'') ([''Hello''] @ [''Bye''])" "list_all (\<lambda>l. \<not> HasPrefix l ''```'') [''schema: arrow@v0'']"
    "HasPrefix ''```'' ''```''" "TrimSpace (Join ([''Hello''] @ [''Bye'']) [newline]) \<noteq> []" by code_simp+
  have j: "Join [x] y = x" for x y :: string by simp
  have "extractArrowCodeblock (Join raw [newline]) = Some ''schema: arrow@v0''" if "raw = ?crlf \<or> raw = ?lf" for raw
    using markdown_roundtrip [OF conjunct1 [OF k [OF that]] conjunct2 [OF k [OF that]] r] unfolding j by blast
  then show ?thesis by blast
qed

end
