(* ===== verification/Ruleset.thy ===== *)
theory Ruleset
  imports Manifest
begin

text \<open>
  The ruleset (internal/engine/manifold/ruleset): the six rules over the targets before they are
  compiled, the twelve over the compiled manifest, and the rules of a collection.  An error keeps
  its field and its rule; the message is left out.  The rules run concurrently and the iteration
  of a map has no order, so the lists of errors stand for one of the orders the program may give.
\<close>

section \<open>Errors\<close>

record RuleError =
  reField :: string
  reRule :: string

definition rule_err :: "string \<Rightarrow> string \<Rightarrow> RuleError list" where
  "rule_err field rule = [\<lparr>reField = field, reRule = rule\<rparr>]"

definition bracket :: "string \<Rightarrow> string" where
  "bracket s = ''['' @ s @ '']''"

definition indexed :: "string \<Rightarrow> nat \<Rightarrow> string" where
  "indexed s i = s @ bracket (Itoa (int i))"

definition target_field :: "string \<Rightarrow> string \<Rightarrow> string" where
  "target_field key rest = ''targets'' @ bracket key @ rest"

definition containsPathTraversal :: "string \<Rightarrow> bool" where
  "containsPathTraversal path = Contains path ''..''"

fun dup_loop :: "string list \<Rightarrow> string list \<Rightarrow> string list \<Rightarrow> string list" where
  "dup_loop seen reported [] = []"
| "dup_loop seen reported (name # names) =
     (if name \<in> set seen \<and> name \<notin> set reported then name # dup_loop (name # seen) (name # reported) names
      else dup_loop (name # seen) reported names)"

definition checkDuplicates :: "string list \<Rightarrow> string \<Rightarrow> string \<Rightarrow> RuleError list" where
  "checkDuplicates names field rule = collect (\<lambda>_. rule_err field rule) (dup_loop [] [] names)"

section \<open>Rules before compilation\<close>

definition MaxNameLength :: int where "MaxNameLength = 255"
definition MaxDescriptionLength :: int where "MaxDescriptionLength = 1000"
definition MaxReadmeLength :: int where "MaxReadmeLength = 256000"

definition MetadataRule :: "Arrow \<Rightarrow> RuleError list" where
  "MetadataRule m =
     (if mName (aMeta m) = [] then rule_err ''metadata.name'' ''required''
      else if int (length (mName (aMeta m))) > MaxNameLength then rule_err ''metadata.name'' ''max_length'' else []) @
     (if int (length (mDescription (aMeta m))) > MaxDescriptionLength
      then rule_err ''metadata.description'' ''max_length'' else []) @
     (if int (length (aReadme m)) > MaxReadmeLength then rule_err ''readme'' ''max_length'' else [])"

definition check_variable :: "nat \<times> Variable \<Rightarrow> RuleError list" where
  "check_variable iv =
     (case Variable_Validate (snd iv) of
        Some e \<Rightarrow> rule_err (indexed ''variables'' (fst iv)) ''invalid_variable''
      | None \<Rightarrow>
          if IsSelect (vType (snd iv)) \<and> vValues (snd iv) = []
          then rule_err (indexed ''variables'' (fst iv) @ ''.values'') ''missing_values'' else [])"

definition VariablesRule :: "Arrow \<Rightarrow> RuleError list" where
  "VariablesRule m =
     collect check_variable (enum (aVariables m)) @
     checkDuplicates (map vName (aVariables m)) ''variables'' ''duplicate_name''"

definition check_port :: "nat \<times> PortDef \<Rightarrow> RuleError list" where
  "check_port ip =
     (case PortDef_Validate (snd ip) of
        Some e \<Rightarrow> rule_err (indexed ''netbridge'' (fst ip)) ''invalid_port'' | None \<Rightarrow> [])"

definition NetbridgeRule :: "Arrow \<Rightarrow> RuleError list" where
  "NetbridgeRule m =
     collect check_port (enum (aNetbridge m)) @
     checkDuplicates (map pName (filter (\<lambda>p. PortDef_Validate p = None) (aNetbridge m))) ''netbridge'' ''duplicate_name''"

type_synonym precompiled = "(string \<times> PrecompiledTarget) list"

text \<open>\<open>checkBaseChain\<close>: the loop runs at most once more than there are targets.\<close>

fun base_loop :: "nat \<Rightarrow> precompiled \<Rightarrow> string \<Rightarrow> string list \<Rightarrow> string \<Rightarrow> RuleError list" where
  "base_loop 0 pre key seen current = rule_err (target_field key ''.base'') ''cyclic_base''"
| "base_loop (Suc n) pre key seen current =
     (let base = (case map_of pre current of Some t \<Rightarrow> pcBase t | None \<Rightarrow> [])
      in if base = [] then []
         else if base \<in> set seen then rule_err (target_field key ''.base'') ''cyclic_base''
         else if \<not> has_key pre base then rule_err (target_field key ''.base'') ''missing_base''
         else base_loop n pre key (current # seen) base)"

definition checkBaseChain :: "string \<Rightarrow> precompiled \<Rightarrow> RuleError list" where
  "checkBaseChain key pre = base_loop (length pre + 1) pre key [] key"

definition BaseIntegrityRule :: "precompiled \<Rightarrow> RuleError list" where
  "BaseIntegrityRule pre = collect (\<lambda>key. checkBaseChain key pre) (keys pre)"

definition isValidOverrideableKey :: "string \<Rightarrow> bool" where
  "isValidOverrideableKey k \<longleftrightarrow> k = ''*'' \<or> Contains k ''/''"

definition invalidKeyError :: "string \<Rightarrow> string \<Rightarrow> RuleError list" where
  "invalidKeyError field k = rule_err field ''invalid_overrideable_key''"

definition checkStringKeys :: "(string \<times> string) list \<Rightarrow> string \<Rightarrow> RuleError list" where
  "checkStringKeys osArch field =
     collect (\<lambda>k. if isValidOverrideableKey k then [] else invalidKeyError field k) (keys osArch)"

definition checkBoolKeys :: "(string \<times> bool) list \<Rightarrow> string \<Rightarrow> RuleError list" where
  "checkBoolKeys osArch field =
     collect (\<lambda>k. if isValidOverrideableKey k then [] else invalidKeyError field k) (keys osArch)"

definition checkSignalKindKeys :: "(string \<times> SignalKind) list \<Rightarrow> string \<Rightarrow> RuleError list" where
  "checkSignalKindKeys osArch field =
     collect (\<lambda>k. if isValidOverrideableKey k then [] else invalidKeyError field k) (keys osArch)"

definition step_field :: "string \<Rightarrow> string \<Rightarrow> nat \<Rightarrow> string \<Rightarrow> string" where
  "step_field targetKey phase i fieldName =
     target_field targetKey (''.lifecycle.'' @ indexed phase i @ ''.'' @ fieldName)"

definition check_step_keys :: "string \<Rightarrow> string \<Rightarrow> nat \<times> Step \<Rightarrow> RuleError list" where
  "check_step_keys targetKey phase st =
     (let at = step_field targetKey phase (fst st)
      in case snd st of
           RunStep b cmd el tmo ui \<Rightarrow>
             checkStringKeys (OSArch cmd) (at ''command'') @ checkStringKeys (OSArch tmo) (at ''timeout'') @
             checkBoolKeys (OSArch el) (at ''elevated'')
         | FetchStep b url to ck tmo \<Rightarrow>
             checkStringKeys (OSArch url) (at ''url'') @ checkStringKeys (OSArch to) (at ''to'') @
             checkStringKeys (OSArch ck) (at ''checksum'') @ checkStringKeys (OSArch tmo) (at ''timeout'')
         | ExtractStep b fr to tmo \<Rightarrow>
             checkStringKeys (OSArch fr) (at ''from'') @ checkStringKeys (OSArch to) (at ''to'') @
             checkStringKeys (OSArch tmo) (at ''timeout'')
         | PortableStep b fr to tmo name \<Rightarrow>
             checkStringKeys (OSArch fr) (at ''from'') @ checkStringKeys (OSArch to) (at ''to'') @
             checkStringKeys (OSArch tmo) (at ''timeout'')
         | SignalStep b sg tmo \<Rightarrow>
             checkSignalKindKeys (OSArch sg) (at ''signal'') @ checkStringKeys (OSArch tmo) (at ''timeout'')
         | _ \<Rightarrow> [])"

definition checkStepListKeys :: "string \<Rightarrow> string \<Rightarrow> StepList \<Rightarrow> RuleError list" where
  "checkStepListKeys targetKey phase steps = collect (check_step_keys targetKey phase) (enum (elems steps))"

text \<open>The six lists of a lifecycle with the names the rules give them, after a prefix.\<close>

definition phases :: "string \<Rightarrow> TargetLifecycle \<Rightarrow> (string \<times> StepList) list" where
  "phases prefix lc =
     [(prefix @ ''install'', Install lc), (prefix @ ''update'', Update lc), (prefix @ ''execute'', Execute lc),
      (prefix @ ''stop'', Stop lc), (prefix @ ''uninstall'', Uninstall lc), (prefix @ ''preinstalled'', Preinstalled lc)]"

definition checkTargetKeys :: "string \<Rightarrow> PrecompiledTarget \<Rightarrow> RuleError list" where
  "checkTargetKeys targetKey target =
     collect (\<lambda>(exportKey, ov). checkStringKeys (OSArch ov) (target_field targetKey (''.exports.'' @ exportKey)))
       (pcExports target) @
     collect (\<lambda>(name, steps). checkStepListKeys targetKey name steps) (phases [] (pcLifecycle target)) @
     collect (\<lambda>(name, m). checkStepListKeys targetKey (''methods.'' @ name) (mSteps m)) (pcMethods target)"

definition OverrideableKeysRule :: "precompiled \<Rightarrow> RuleError list" where
  "OverrideableKeysRule pre = collect (\<lambda>(key, target). checkTargetKeys key target) pre"

definition matchesTargetKey :: "string \<Rightarrow> OS \<Rightarrow> bool" where
  "matchesTargetKey key os \<longleftrightarrow> key = ''*'' \<or> path_Match key os = Some True"

definition targetScope :: "string \<Rightarrow> OS list" where
  "targetScope targetKey =
     (let scope = filter (matchesTargetKey targetKey) AllOS in if scope = [] then AllOS else scope)"

definition osArchCoversOS :: "(string \<times> string) list \<Rightarrow> OS \<Rightarrow> bool" where
  "osArchCoversOS osArch os = list_ex (\<lambda>k. path_Match k os = Some True) (keys osArch)"

definition coversScope :: "(string \<times> string) list \<Rightarrow> OS list \<Rightarrow> bool \<times> OS" where
  "coversScope osArch scope =
     (if has_key osArch ''*'' then (True, [])
      else case find (\<lambda>os. \<not> osArchCoversOS osArch os) scope of
             Some os \<Rightarrow> (False, os) | None \<Rightarrow> (True, []))"

definition checkStringCoverage :: "string Overrideable \<Rightarrow> string \<Rightarrow> OS list \<Rightarrow> RuleError list" where
  "checkStringCoverage ov field scope =
     (if Default ov \<noteq> [] then []
      else if fst (coversScope (OSArch ov) scope) then []
      else rule_err field ''insufficient_coverage'')"

definition isPopulated :: "string Overrideable \<Rightarrow> bool" where
  "isPopulated ov \<longleftrightarrow> Default ov \<noteq> [] \<or> OSArch ov \<noteq> []"

definition check_populated :: "string Overrideable \<Rightarrow> string \<Rightarrow> OS list \<Rightarrow> RuleError list" where
  "check_populated ov field scope = (if isPopulated ov then checkStringCoverage ov field scope else [])"

definition check_step_coverage :: "string \<Rightarrow> string \<Rightarrow> OS list \<Rightarrow> nat \<times> Step \<Rightarrow> RuleError list" where
  "check_step_coverage targetKey phase scope st =
     (let at = step_field targetKey phase (fst st)
      in case snd st of
           RunStep b cmd el tmo ui \<Rightarrow>
             checkStringCoverage cmd (at ''command'') scope @ check_populated tmo (at ''timeout'') scope
         | FetchStep b url to ck tmo \<Rightarrow>
             checkStringCoverage url (at ''url'') scope @ checkStringCoverage to (at ''to'') scope @
             check_populated ck (at ''checksum'') scope @ check_populated tmo (at ''timeout'') scope
         | ExtractStep b fr to tmo \<Rightarrow>
             checkStringCoverage fr (at ''from'') scope @ checkStringCoverage to (at ''to'') scope @
             check_populated tmo (at ''timeout'') scope
         | PortableStep b fr to tmo name \<Rightarrow>
             checkStringCoverage fr (at ''from'') scope @ checkStringCoverage to (at ''to'') scope @
             check_populated tmo (at ''timeout'') scope
         | SignalStep b sg tmo \<Rightarrow> check_populated tmo (at ''timeout'') scope
         | _ \<Rightarrow> [])"

definition checkStepListCoverage :: "string \<Rightarrow> string \<Rightarrow> StepList \<Rightarrow> OS list \<Rightarrow> RuleError list" where
  "checkStepListCoverage targetKey phase steps scope =
     collect (check_step_coverage targetKey phase scope) (enum (elems steps))"

definition checkTargetCoverage :: "string \<Rightarrow> PrecompiledTarget \<Rightarrow> RuleError list" where
  "checkTargetCoverage targetKey target =
     (let scope = targetScope targetKey
      in collect (\<lambda>(exportKey, ov). checkStringCoverage ov (target_field targetKey (''.exports.'' @ exportKey)) scope)
           (pcExports target) @
         collect (\<lambda>(name, steps). checkStepListCoverage targetKey name steps scope) (phases [] (pcLifecycle target)) @
         collect (\<lambda>(name, m). checkStepListCoverage targetKey (''methods.'' @ name) (mSteps m) scope) (pcMethods target))"

definition OverrideableCoverageRule :: "precompiled \<Rightarrow> RuleError list" where
  "OverrideableCoverageRule pre =
     collect (\<lambda>(key, target). if HasPrefix key ''_'' then [] else checkTargetCoverage key target) pre"

definition RunPrecompile :: "Arrow \<Rightarrow> precompiled \<Rightarrow> RuleError list" where
  "RunPrecompile manifest pre =
     MetadataRule manifest @ VariablesRule manifest @ NetbridgeRule manifest @ BaseIntegrityRule pre @
     OverrideableKeysRule pre @ OverrideableCoverageRule pre"

definition ValidatePrecompile :: "Arrow \<Rightarrow> precompiled \<Rightarrow> RuleError list" where
  "ValidatePrecompile manifest pre = RunPrecompile manifest pre"

section \<open>Rules on the compiled manifest\<close>

definition checkTargetToolServiceOverlap :: "string \<Rightarrow> Target \<Rightarrow> RuleError list" where
  "checkTargetToolServiceOverlap key t =
     (let toolNS = map (\<lambda>n. BareNamespace (deNamespace n)) (Tools t)
      in collect (\<lambda>n. if BareNamespace (deNamespace n) \<in> set toolNS
           then rule_err (target_field key []) ''tools_services_overlap'' else []) (Services t))"

definition ToolsServicesRule :: "Arrow \<Rightarrow> RuleError list" where
  "ToolsServicesRule m = collect (\<lambda>(os, t). checkTargetToolServiceOverlap os t) (aTargets m)"

definition containsVar :: "string \<Rightarrow> bool" where
  "containsVar s = Contains s ''${''"

definition checkTargetExportStaticValues :: "string \<Rightarrow> Target \<Rightarrow> RuleError list" where
  "checkTargetExportStaticValues key t =
     collect (\<lambda>(exportKey, v). if \<not> containsVar v then []
        else rule_err (target_field key (''.exports.'' @ exportKey)) ''export_var_interpolation'') (Exports t)"

definition ExportStaticRule :: "Arrow \<Rightarrow> RuleError list" where
  "ExportStaticRule m = collect (\<lambda>(os, t). checkTargetExportStaticValues os t) (aTargets m)"

text \<open>
  \<open>varTokenRe\<close>, a dollar sign and a brace, one or more bytes other than a closing brace, and the
  brace: the names of the leftmost matches that do not overlap.
\<close>

function extractVarTokens :: "string \<Rightarrow> string list" where
  "extractVarTokens [] = []"
| "extractVarTokens (c # s) =
     (case (if c = CHR 0x24 \<and> s \<noteq> [] \<and> hd s = CHR ''{'' then cut_byte CHR ''}'' (tl s) else None) of
        Some (token, rest) \<Rightarrow> if token \<noteq> [] then token # extractVarTokens rest else extractVarTokens s
      | None \<Rightarrow> extractVarTokens s)"
  by pat_completeness auto
termination
  by (relation "measure length") (auto simp: cut_byte_Some neq_Nil_conv split: if_splits)

definition buildKnownVars :: "Arrow \<Rightarrow> string list" where
  "buildKnownVars m =
     [''WORKDIR'', ''INSTALL_PATH'', ''ARROW_NAMESPACE'', ''PLATFORM'', ''REF'', ''ARROW_UI_LISTEN'', ''ARROW_APP''] @
     map vName (aVariables m) @ map pName (aNetbridge m)"

definition buildPreinstalledKnownVars :: "Arrow \<Rightarrow> string list" where
  "buildPreinstalledKnownVars m =
     [''ARROW_NAMESPACE'', ''PLATFORM'', ''REF''] @ map vName (filter (\<lambda>v. vDefault v \<noteq> []) (aVariables m))"

definition checkSingleValueTokens :: "string \<Rightarrow> string \<Rightarrow> string \<Rightarrow> string list \<Rightarrow> RuleError list" where
  "checkSingleValueTokens prefix field v known =
     collect (\<lambda>token.
        if Contains token ''.'' \<or> Contains token '':'' then []
        else if token \<notin> set known then rule_err (prefix @ ''.'' @ field) ''unresolved_variable'' else [])
       (extractVarTokens v)"

definition checkVarTokens :: "string \<Rightarrow> string \<Rightarrow> string list \<Rightarrow> string list \<Rightarrow> RuleError list" where
  "checkVarTokens prefix field values known = collect (\<lambda>v. checkSingleValueTokens prefix field v known) values"

definition overrideableValues :: "'a Overrideable \<Rightarrow> 'a list" where
  "overrideableValues ov = Default ov # map snd (OSArch ov)"

definition checkCompiledStepVars :: "string \<Rightarrow> string list \<Rightarrow> Step \<Rightarrow> RuleError list" where
  "checkCompiledStepVars prefix known s =
     (case s of
        RunStep b cmd el tmo ui \<Rightarrow> checkVarTokens prefix ''command'' (overrideableValues cmd) known
      | FetchStep b url to ck tmo \<Rightarrow>
          checkVarTokens prefix ''url'' (overrideableValues url) known @
          checkVarTokens prefix ''to'' (overrideableValues to) known
      | ExtractStep b fr to tmo \<Rightarrow>
          checkVarTokens prefix ''from'' (overrideableValues fr) known @
          checkVarTokens prefix ''to'' (overrideableValues to) known
      | PortableStep b fr to tmo name \<Rightarrow>
          checkVarTokens prefix ''from'' (overrideableValues fr) known @
          checkVarTokens prefix ''to'' (overrideableValues to) known
      | _ \<Rightarrow> [])"

definition checkStepListVars :: "string \<Rightarrow> StepList \<Rightarrow> string list \<Rightarrow> RuleError list" where
  "checkStepListVars prefix steps known = collect (checkCompiledStepVars prefix known) (elems steps)"

definition checkCompiledTargetVariableRefs :: "string \<Rightarrow> Target \<Rightarrow> string list \<Rightarrow> string list \<Rightarrow> RuleError list" where
  "checkCompiledTargetVariableRefs key t known preinstalledKnown =
     (let prefix = target_field key []; lc = Lifecycle t
      in collect (\<lambda>steps. checkStepListVars prefix steps known)
           [Install lc, Update lc, Execute lc, Stop lc, Uninstall lc] @
         checkStepListVars prefix (Preinstalled lc) preinstalledKnown @
         collect (\<lambda>(methodName, m). checkStepListVars (target_field key (''.methods'' @ bracket methodName)) (mSteps m) known)
           (Methods t))"

definition VariableRefsRule :: "Arrow \<Rightarrow> RuleError list" where
  "VariableRefsRule m =
     collect (\<lambda>(os, t). checkCompiledTargetVariableRefs os t (buildKnownVars m) (buildPreinstalledKnownVars m)) (aTargets m)"

definition ServicePackageRule :: "Arrow \<Rightarrow> RuleError list" where
  "ServicePackageRule m =
     (let hasService = list_ex (\<lambda>(os, t). Execute (Lifecycle t) \<noteq> None) (aTargets m);
          hasPackage = list_ex (\<lambda>(os, t). Execute (Lifecycle t) = None) (aTargets m)
      in if hasService \<and> hasPackage then rule_err ''targets'' ''mixed_kind'' else [])"

definition isAnchoredByPrefix :: "string \<Rightarrow> string \<Rightarrow> bool" where
  "isAnchoredByPrefix v prefix \<longleftrightarrow> v = prefix \<or> HasPrefix v (prefix @ ''/'')"

definition isWorkdirAnchoredValue :: "string \<Rightarrow> bool" where
  "isWorkdirAnchoredValue v \<longleftrightarrow>
     \<not> containsPathTraversal v \<and> (isAnchoredByPrefix v ''${INSTALL_PATH}'' \<or> isAnchoredByPrefix v ''${WORKDIR}'')"

definition isWorkdirAnchoredTo :: "string Overrideable \<Rightarrow> bool" where
  "isWorkdirAnchoredTo to \<longleftrightarrow>
     isWorkdirAnchoredValue (Default to) \<and> list_all (\<lambda>(k, v). isWorkdirAnchoredValue v) (OSArch to)"

definition isWorkdirAnchoredPlacement :: "Step \<Rightarrow> bool" where
  "isWorkdirAnchoredPlacement s =
     (case s of
        FetchStep b url to ck tmo \<Rightarrow> isWorkdirAnchoredTo to
      | ExtractStep b fr to tmo \<Rightarrow> isWorkdirAnchoredTo to
      | PortableStep b fr to tmo name \<Rightarrow> isWorkdirAnchoredTo to
      | _ \<Rightarrow> False)"

definition isWorkdirOnlyInstall :: "StepList \<Rightarrow> bool" where
  "isWorkdirOnlyInstall steps = list_all isWorkdirAnchoredPlacement (elems steps)"

definition checkLifecyclePairs :: "string \<Rightarrow> Target \<Rightarrow> RuleError list" where
  "checkLifecyclePairs key target =
     (let lc = Lifecycle target;
          hasInstall = elems (Install lc) \<noteq> []; hasUninstall = elems (Uninstall lc) \<noteq> [];
          missingUninstall = hasInstall \<and> \<not> hasUninstall \<and> \<not> isWorkdirOnlyInstall (Install lc);
          missingInstall = hasUninstall \<and> \<not> hasInstall;
          hasExecute = elems (Execute lc) \<noteq> []; hasStop = elems (Stop lc) \<noteq> []
      in (if missingUninstall \<or> missingInstall
          then rule_err (target_field key ''.lifecycle.install'') ''missing_pair'' else []) @
         (if hasStop \<and> \<not> hasExecute then rule_err (target_field key ''.lifecycle.stop'') ''missing_pair'' else []))"

definition LifecyclePairsRule :: "Arrow \<Rightarrow> RuleError list" where
  "LifecyclePairsRule m = collect (\<lambda>(os, t). checkLifecyclePairs os t) (aTargets m)"

definition checkServiceConsumerLifecycle :: "string \<Rightarrow> Target \<Rightarrow> RuleError list" where
  "checkServiceConsumerLifecycle key target =
     (if Services target = [] then []
      else if elems (Execute (Lifecycle target)) \<noteq> [] \<and> elems (Stop (Lifecycle target)) \<noteq> [] then []
      else rule_err (target_field key ''.lifecycle'') ''service_consumer_missing_lifecycle'')"

definition ServiceConsumerLifecycleRule :: "Arrow \<Rightarrow> RuleError list" where
  "ServiceConsumerLifecycleRule m = collect (\<lambda>(os, t). checkServiceConsumerLifecycle os t) (aTargets m)"

text \<open>\<open>timeoutRe\<close>: digits and one of the letters s and m.\<close>

definition timeoutRe :: "string \<Rightarrow> bool" where
  "timeoutRe s \<longleftrightarrow> length s \<ge> 2 \<and> list_all is_digit (butlast s) \<and> List.last s \<in> {CHR ''s'', CHR ''m''}"

definition extractStepTimeout :: "Step \<Rightarrow> string" where
  "extractStepTimeout s =
     (case s of
        RunStep b cmd el tmo ui \<Rightarrow> Default tmo
      | FetchStep b url to ck tmo \<Rightarrow> Default tmo
      | ExtractStep b fr to tmo \<Rightarrow> Default tmo
      | PortableStep b fr to tmo name \<Rightarrow> Default tmo
      | SignalStep b sg tmo \<Rightarrow> Default tmo
      | _ \<Rightarrow> [])"

definition check_step_timeout :: "string \<Rightarrow> string \<Rightarrow> nat \<times> Step \<Rightarrow> RuleError list" where
  "check_step_timeout key prefix st =
     (let timeout = extractStepTimeout (snd st)
      in if timeout = [] then [] else if timeoutRe timeout then []
         else rule_err (target_field key (''.'' @ indexed prefix (fst st) @ ''.timeout'')) ''invalid_timeout'')"

definition checkStepListTimeouts :: "string \<Rightarrow> string \<Rightarrow> StepList \<Rightarrow> RuleError list" where
  "checkStepListTimeouts key prefix steps = collect (check_step_timeout key prefix) (enum (elems steps))"

definition method_steps_field :: "string \<Rightarrow> string" where
  "method_steps_field name = ''methods'' @ bracket name @ ''.steps''"

definition checkTimeoutFormat :: "string \<Rightarrow> Target \<Rightarrow> RuleError list" where
  "checkTimeoutFormat key target =
     collect (\<lambda>(name, steps). checkStepListTimeouts key name steps) (phases ''lifecycle.'' (Lifecycle target)) @
     collect (\<lambda>(name, m). checkStepListTimeouts key (method_steps_field name) (mSteps m)) (Methods target)"

definition TimeoutFormatRule :: "Arrow \<Rightarrow> RuleError list" where
  "TimeoutFormatRule m = collect (\<lambda>(os, t). checkTimeoutFormat os t) (aTargets m)"

definition checkMethodAvailableIn :: "string \<Rightarrow> string \<Rightarrow> Method \<Rightarrow> RuleError list" where
  "checkMethodAvailableIn key name m =
     collect (\<lambda>state. if state \<in> {ArrowStateReady, ArrowStateRunning} then []
        else rule_err (target_field key (''.methods'' @ bracket name @ ''.available_in'')) ''invalid_state'') (AvailableIn m)"

definition checkMethodStates :: "string \<Rightarrow> Target \<Rightarrow> RuleError list" where
  "checkMethodStates key target = collect (\<lambda>(name, m). checkMethodAvailableIn key name m) (Methods target)"

definition MethodStatesRule :: "Arrow \<Rightarrow> RuleError list" where
  "MethodStatesRule m = collect (\<lambda>(os, t). checkMethodStates os t) (aTargets m)"

definition checkNoDepsSteps :: "string \<Rightarrow> Target \<Rightarrow> RuleError list" where
  "checkNoDepsSteps key target =
     collect (\<lambda>(name, steps). collect (\<lambda>(i, s).
          if Step_Type s = StepTypeDependencies
          then rule_err (target_field key (''.'' @ indexed name i)) ''no_dependencies_step'' else []) (enum (elems steps)))
       (phases ''lifecycle.'' (Lifecycle target))"

definition NoDependenciesStepRule :: "Arrow \<Rightarrow> RuleError list" where
  "NoDependenciesStepRule m = collect (\<lambda>(os, t). checkNoDepsSteps os t) (aTargets m)"

section \<open>Interfaces of run steps\<close>

definition uiListenVarRef :: string where
  "uiListenVarRef = ''${ARROW_UI_LISTEN}''"

definition overrideableMentions :: "string Overrideable \<Rightarrow> string \<Rightarrow> bool" where
  "overrideableMentions ov needle = list_ex (\<lambda>v. Contains v needle) (overrideableValues ov)"

definition runUIError :: "string \<Rightarrow> RuleError list" where
  "runUIError field = rule_err field ''run_ui''"

definition checkRunUIListen :: "string \<Rightarrow> string list \<Rightarrow> RuleError list" where
  "checkRunUIListen field listen =
     collect (\<lambda>kind. if kind \<notin> {''unix'', ''pipe''} then runUIError field else []) listen @
     (if ''pipe'' \<in> set listen \<and> ''unix'' \<notin> set listen then runUIError field else [])"

text \<open>
  \<open>filepath.IsLocal\<close> of the Unix hosts: not empty, not absolute, and after cleaning not above the
  directory it starts in.
\<close>

fun climbs :: "nat \<Rightarrow> string list \<Rightarrow> bool" where
  "climbs depth [] = False"
| "climbs depth (p # ps) =
     (if p = [] \<or> p = ''.'' then climbs depth ps
      else if p = ''..'' then (case depth of 0 \<Rightarrow> True | Suc d \<Rightarrow> climbs d ps)
      else climbs (Suc depth) ps)"

definition filepath_IsLocal :: "string \<Rightarrow> bool" where
  "filepath_IsLocal path \<longleftrightarrow> path \<noteq> [] \<and> \<not> HasPrefix path ''/'' \<and> \<not> climbs 0 (Split path CHR ''/'')"

definition checkRunUISource :: "string \<Rightarrow> UIOptions \<Rightarrow> RuleError list" where
  "checkRunUISource field ui =
     (if uiListen ui \<noteq> [] \<and> uiStatic ui \<noteq> [] then runUIError field
      else if Listens ui then checkRunUIListen field (uiListen ui)
      else if \<not> filepath_IsLocal (uiStatic ui) then runUIError field else []) @
     (if uiPath ui \<noteq> [] \<and> \<not> HasPrefix (uiPath ui) ''/'' then runUIError field else [])"

definition runUIGroups :: "Target \<Rightarrow> (string \<times> StepList) list" where
  "runUIGroups t =
     phases ''lifecycle.'' (Lifecycle t) @ map (\<lambda>(name, m). (''methods.'' @ name @ ''.steps'', mSteps m)) (Methods t)"

definition check_run_ui :: "string \<Rightarrow> string \<Rightarrow> nat \<times> Step \<Rightarrow> RuleError list" where
  "check_run_ui key name st =
     (case snd st of
        RunStep b cmd el tmo ui \<Rightarrow>
          (let field = target_field key (''.'' @ indexed name (fst st))
           in (if overrideableMentions cmd uiListenVarRef \<and> (case ui of None \<Rightarrow> True | Some u \<Rightarrow> \<not> Listens u)
               then runUIError field else []) @
              (case ui of None \<Rightarrow> []
               | Some u \<Rightarrow> if name = ''lifecycle.preinstalled'' then runUIError field else checkRunUISource field u))
      | _ \<Rightarrow> [])"

definition checkRunUIGroup :: "string \<Rightarrow> string \<Rightarrow> StepList \<Rightarrow> RuleError list" where
  "checkRunUIGroup key name steps = collect (check_run_ui key name) (enum (elems steps))"

definition RunUIRule :: "Arrow \<Rightarrow> RuleError list" where
  "RunUIRule m =
     collect (\<lambda>(os, t). collect (\<lambda>(name, steps). checkRunUIGroup os name steps) (runUIGroups t)) (aTargets m)"

section \<open>Names and exposed entries\<close>

definition name_byte :: "char \<Rightarrow> bool" where
  "name_byte c \<longleftrightarrow> is_letter c \<or> is_digit c \<or> c \<in> set ''._+-''"

definition exposeNameRe :: "string \<Rightarrow> bool" where
  "exposeNameRe s \<longleftrightarrow> (case s of [] \<Rightarrow> False
     | c # cs \<Rightarrow> (is_letter c \<or> is_digit c) \<and> length cs \<le> 63 \<and> list_all name_byte cs)"

definition validPortableName :: "string \<Rightarrow> bool" where
  "validPortableName name \<longleftrightarrow> exposeNameRe name \<and> \<not> HasSuffix name ''.'' \<and> \<not> IsWindowsReservedName name"

definition check_portable_name :: "string \<Rightarrow> string \<Rightarrow> nat \<times> Step \<Rightarrow> RuleError list" where
  "check_portable_name key prefix st =
     (case snd st of
        PortableStep b fr to tmo name \<Rightarrow>
          if name = [] \<or> validPortableName name then []
          else rule_err (target_field key (''.'' @ indexed prefix (fst st) @ ''.name'')) ''invalid_name''
      | _ \<Rightarrow> [])"

definition checkStepListPortableNames :: "string \<Rightarrow> string \<Rightarrow> StepList \<Rightarrow> RuleError list" where
  "checkStepListPortableNames key prefix steps = collect (check_portable_name key prefix) (enum (elems steps))"

definition checkPortableNames :: "string \<Rightarrow> Target \<Rightarrow> RuleError list" where
  "checkPortableNames key target =
     collect (\<lambda>(name, steps). checkStepListPortableNames key name steps) (phases ''lifecycle.'' (Lifecycle target)) @
     collect (\<lambda>(name, m). checkStepListPortableNames key (method_steps_field name) (mSteps m)) (Methods target)"

definition PortableNameRule :: "Arrow \<Rightarrow> RuleError list" where
  "PortableNameRule m = collect (\<lambda>(os, t). checkPortableNames os t) (aTargets m)"

datatype ExposeKind = ExposeKindCLI | ExposeKindDesktop

definition expose_kind_name :: "ExposeKind \<Rightarrow> string" where
  "expose_kind_name k = (case k of ExposeKindCLI \<Rightarrow> ''cli'' | ExposeKindDesktop \<Rightarrow> ''desktop'')"

record exposeAt =
  atOS :: OS
  atKind :: ExposeKind
  atIndex :: nat

definition exposeAt_err :: "exposeAt \<Rightarrow> string \<Rightarrow> string \<Rightarrow> RuleError list" where
  "exposeAt_err at field rule =
     rule_err (target_field (atOS at) (''.expose.'' @ indexed (expose_kind_name (atKind at)) (atIndex at) @ ''.'' @ field)) rule"

definition ExposeAuto :: string where "ExposeAuto = ''auto''"

definition workdirAnchored :: "string \<Rightarrow> bool" where
  "workdirAnchored path \<longleftrightarrow> HasPrefix path ''${INSTALL_PATH}'' \<or> HasPrefix path ''${WORKDIR}''"

definition splitLast :: "string \<Rightarrow> string \<times> string" where
  "splitLast p =
     (let file = rev (takeWhile (\<lambda>c. c \<noteq> CHR ''/'' \<and> c \<noteq> CHR 0x5C) (rev p))
      in (take (length p - length file) p, file))"

definition checkExternalPath :: "exposeAt \<Rightarrow> string \<Rightarrow> string \<Rightarrow> RuleError list" where
  "checkExternalPath at path rest =
     (if containsPathTraversal path then exposeAt_err at ''path'' ''path_traversal'' else []) @
     (case splitLast rest of (dir, file) \<Rightarrow>
        if Contains rest ''${'' \<or> ContainsAny dir ''*?['' \<or> \<not> HasSuffix (ToLower file) ''.exe''
        then exposeAt_err at ''path'' ''invalid_desktop_path'' else [])"

definition checkExposeName :: "exposeAt \<Rightarrow> string \<Rightarrow> RuleError list" where
  "checkExposeName at name = (if exposeNameRe name then [] else exposeAt_err at ''name'' ''invalid_name'')"

definition checkExposePath :: "exposeAt \<Rightarrow> string \<Rightarrow> RuleError list" where
  "checkExposePath at path =
     (if path = ExposeAuto then []
      else case (if atKind at = ExposeKindDesktop \<and> IsWindows (atOS at) then SplitExposeRoot path else None) of
        Some (root, rest) \<Rightarrow> checkExternalPath at path rest
      | None \<Rightarrow>
          (if \<not> workdirAnchored path then exposeAt_err at ''path'' ''invalid_path'' else []) @
          (if containsPathTraversal path then exposeAt_err at ''path'' ''path_traversal'' else []) @
          (if atKind at = ExposeKindDesktop \<and> IsDarwin (atOS at) \<and> \<not> HasSuffix path ''.app''
           then exposeAt_err at ''path'' ''invalid_desktop_path'' else []))"

definition isValidExposeIcon :: "string \<Rightarrow> bool" where
  "isValidExposeIcon icon \<longleftrightarrow>
     icon = [] \<or> HasPrefix icon ''http://'' \<or> HasPrefix icon ''https://'' \<or>
     (icon \<noteq> ExposeAuto \<and> \<not> containsPathTraversal icon \<and> workdirAnchored icon)"

definition checkExposeIcon :: "exposeAt \<Rightarrow> string \<Rightarrow> RuleError list" where
  "checkExposeIcon at icon = (if isValidExposeIcon icon then [] else exposeAt_err at ''icon'' ''invalid_expose_icon'')"

definition checkExposeEntries :: "OS \<Rightarrow> ExposeKind \<Rightarrow> ExposeEntry list option \<Rightarrow> RuleError list" where
  "checkExposeEntries os kind entries =
     collect (\<lambda>(i, e). let at = \<lparr>atOS = os, atKind = kind, atIndex = i\<rparr>
        in checkExposeName at (eName e) @ checkExposePath at (ePath e) @ checkExposeIcon at (eIcon e)) (enum (elems entries)) @
     checkDuplicates (map eName (elems entries)) (target_field os (''.expose.'' @ expose_kind_name kind)) ''duplicate_name''"

definition checkExpose :: "OS \<Rightarrow> Target \<Rightarrow> RuleError list" where
  "checkExpose os target =
     checkExposeEntries os ExposeKindCLI (exCLI (tExpose target)) @
     checkExposeEntries os ExposeKindDesktop (exDesktop (tExpose target))"

definition ExposeEntriesRule :: "Arrow \<Rightarrow> RuleError list" where
  "ExposeEntriesRule m = collect (\<lambda>(os, t). checkExpose os t) (aTargets m)"

section \<open>The ruleset\<close>

definition AllCompiled :: "(Arrow \<Rightarrow> RuleError list) list" where
  "AllCompiled = [ToolsServicesRule, ExportStaticRule, VariableRefsRule, ServicePackageRule, LifecyclePairsRule,
     ServiceConsumerLifecycleRule, TimeoutFormatRule, MethodStatesRule, NoDependenciesStepRule, RunUIRule,
     ExposeEntriesRule, PortableNameRule]"

definition RunCompiled :: "Arrow \<Rightarrow> RuleError list" where
  "RunCompiled manifest = collect (\<lambda>rule. rule manifest) AllCompiled"

definition ValidateCompiled :: "Arrow \<Rightarrow> RuleError list" where
  "ValidateCompiled manifest =
     RunCompiled manifest @
     (if aTargets manifest = [] then rule_err ''targets'' ''no_supported_platform'' else [])"

subsection \<open>Collections\<close>

record CollectionArrowEntry =
  cePath :: string
  ceAUID :: string
  ceNamespace :: Namespace

definition check_entry :: "nat \<times> CollectionArrowEntry \<Rightarrow> RuleError list" where
  "check_entry ie =
     (let at = indexed ''arrows'' (fst ie); e = snd ie
      in (if cePath e \<noteq> [] \<and> ceNamespace e \<noteq> [] then rule_err at ''exclusive_fields'' else []) @
         (if cePath e = [] \<and> ceNamespace e = [] then rule_err at ''required_field'' else []) @
         (if ceAUID e \<noteq> [] \<and> ceNamespace e \<noteq> [] then rule_err (at @ ''.auid'') ''auid_with_namespace'' else []) @
         (if ContainsAny (ceAUID e) ''/@'' then rule_err (at @ ''.auid'') ''invalid_auid'' else []) @
         (if ContainsAny (cePath e) [CHR 0x5C, CHR ''?'', CHR 0x23] \<or> Contains (cePath e) ''..''
          then rule_err (at @ ''.path'') ''invalid_path'' else []))"

definition CheckArrowEntries :: "CollectionArrowEntry list \<Rightarrow> RuleError list" where
  "CheckArrowEntries entries = collect check_entry (enum entries)"

fun dup_namespaces :: "Namespace list \<Rightarrow> CollectionArrow list \<Rightarrow> RuleError list" where
  "dup_namespaces seen [] = []"
| "dup_namespaces seen (a # as) =
     (if caNamespace a \<in> set seen then rule_err ''arrows'' ''duplicate_namespace'' else []) @
     dup_namespaces (caNamespace a # seen) as"

definition CheckDuplicateNamespaces :: "CollectionArrow list \<Rightarrow> RuleError list" where
  "CheckDuplicateNamespaces arrows = dup_namespaces [] arrows"

definition ValidateCollection :: "Collection \<Rightarrow> RuleError list" where
  "ValidateCollection coll =
     (if clName (coMeta coll) = [] then rule_err ''name'' ''required''
      else if clDescription (coMeta coll) = [] then rule_err ''description'' ''required''
      else if coArrows coll = [] then rule_err ''arrows'' ''required''
      else CheckDuplicateNamespaces (coArrows coll))"

section \<open>Base chains\<close>

lemma base_loop_self: "map_of pre cur = Some t \<Longrightarrow> pcBase t \<noteq> [] \<Longrightarrow> pcBase t \<in> set seen \<Longrightarrow> base_loop n pre key seen cur \<noteq> []"
  by (cases n) (auto simp: rule_err_def)

lemma base_loop_walks:
  assumes "cur \<in> set (keys pre)" "cur \<notin> set seen" "distinct seen" "set seen \<subseteq> set (keys pre)"
    "n + length seen = length pre + 1"
  shows "base_loop n pre key seen cur = [] \<longleftrightarrow> (\<exists>t. walkBaseChain pre seen cur = Inr t)"
  using assms
proof (induction n arbitrary: seen cur)
  case 0
  have "length seen \<le> length pre"
    using 0(3,4) by (metis card_mono distinct_card finite_set card_length le_trans length_map)
  with 0(5) show ?case by simp
next
  case (Suc n)
  from Suc.prems(1) obtain t where t: "map_of pre cur = Some t" by (metis map_of_eq_None_iff not_None_eq set_map)
  let ?b = "pcBase t"
  have walk: "walkBaseChain pre seen cur = (if ?b = [] then Inr t
      else case walkBaseChain pre (cur # seen) ?b of Inl e \<Rightarrow> Inl e | Inr parent \<Rightarrow> Inr (mergeTargets parent t))"
    using Suc.prems(2) t by (subst walkBaseChain.simps) simp
  have loop: "base_loop (Suc n) pre key seen cur = (if ?b = [] then []
      else if ?b \<in> set seen then rule_err (target_field key ''.base'') ''cyclic_base''
      else if \<not> has_key pre ?b then rule_err (target_field key ''.base'') ''missing_base''
      else base_loop n pre key (cur # seen) ?b)"
    using t by (simp add: Let_def)
  have stop: "walkBaseChain pre vs k = Inl (BaseCycle k)" if "k \<in> set vs" for vs k
    using that by (subst walkBaseChain.simps) simp
  have missing: "walkBaseChain pre vs k = Inl (BaseNotFound k)" if "k \<notin> set vs" "\<not> has_key pre k" for vs k
  proof -
    have n: "map_of pre k = None" using that(2) unfolding has_key_def by blast
    show ?thesis using that(1) by (subst walkBaseChain.simps) (simp only: n if_False option.case)
  qed
  consider (root) "?b = []" | (cycle) "?b \<noteq> []" "?b \<in> set seen" | (self) "?b \<noteq> []" "?b = cur" "?b \<notin> set seen"
    | (lost) "?b \<noteq> []" "?b \<notin> set (cur # seen)" "\<not> has_key pre ?b"
    | (up) "?b \<noteq> []" "?b \<notin> set (cur # seen)" "has_key pre ?b" by auto
  then show ?case
  proof cases
    case root
    then show ?thesis by (simp add: walk loop del: base_loop.simps)
  next
    case cycle
    then show ?thesis by (simp add: walk loop stop rule_err_def del: base_loop.simps)
  next
    case self
    moreover have "base_loop n pre key (cur # seen) cur \<noteq> []" using self t by (intro base_loop_self [OF t]) simp_all
    ultimately show ?thesis using stop [of cur "cur # seen"] by (simp add: walk loop rule_err_def del: base_loop.simps)
  next
    case lost
    then show ?thesis by (simp add: walk loop missing rule_err_def del: base_loop.simps)
  next
    case up
    have "base_loop n pre key (cur # seen) ?b = [] \<longleftrightarrow> (\<exists>t. walkBaseChain pre (cur # seen) ?b = Inr t)"
      using up Suc.prems by (intro Suc.IH) (auto simp: has_key_def map_of_eq_None_iff)
    with up show ?thesis by (auto simp: walk loop split: sum.splits simp del: base_loop.simps)
  qed
qed

section \<open>Coverage\<close>

text \<open>
  The string fields a step cannot do without, and every step a target can run.  The one other
  required field is the signal of a signal step, which is no string and which no rule looks at.
\<close>

definition needed :: "Step \<Rightarrow> string Overrideable list" where
  "needed s =
     (case s of
        RunStep b cmd el tmo ui \<Rightarrow> [cmd]
      | FetchStep b url to ck tmo \<Rightarrow> [url, to]
      | ExtractStep b fr to tmo \<Rightarrow> [fr, to]
      | PortableStep b fr to tmo name \<Rightarrow> [fr, to]
      | _ \<Rightarrow> [])"

definition phase_lists :: "TargetLifecycle \<Rightarrow> StepList list" where
  "phase_lists lc = [Install lc, Update lc, Execute lc, Stop lc, Uninstall lc, Preinstalled lc]"

definition all_steps :: "TargetLifecycle \<Rightarrow> (string \<times> Method) list \<Rightarrow> Step set" where
  "all_steps lc ms = (\<Union>l \<in> set (phase_lists lc) \<union> (\<lambda>nm. mSteps (snd nm)) ` set ms. set (elems l))"

lemma phases_snd: "snd ` set (phases p lc) = set (phase_lists lc)"
  by (simp add: phases_def phase_lists_def)

lemma all_steps_iff: "s \<in> all_steps lc ms \<longleftrightarrow>
    (\<exists>l \<in> set (phase_lists lc). s \<in> set (elems l)) \<or> (\<exists>nm \<in> set ms. s \<in> set (elems (mSteps (snd nm))))"
  unfolding all_steps_def by blast

definition covers :: "OS \<Rightarrow> string Overrideable \<Rightarrow> bool" where
  "covers os ov \<longleftrightarrow> Default ov \<noteq> [] \<or> (\<exists>k \<in> set (keys (OSArch ov)). matchesTarget k os)"

definition full_overrides :: "string Overrideable \<Rightarrow> bool" where
  "full_overrides ov \<longleftrightarrow> [] \<notin> snd ` set (OSArch ov)"

lemma covered_by_rule:
  assumes "checkStringCoverage ov field (targetScope key) = []" "os \<in> set AllOS" "matchesTarget key os"
  shows "covers os ov"
proof -
  have "os \<in> set (targetScope key)"
    using assms(2,3) by (auto simp: targetScope_def matchesTargetKey_def matchesTarget_def Let_def)
  then show ?thesis
    using assms(1)
    by (force simp: checkStringCoverage_def coversScope_def covers_def osArchCoversOS_def has_key_def matchesTarget_def
        rule_err_def list_ex_iff find_None_iff map_of_eq_None_iff split: if_splits option.splits)
qed

lemma ov_best_value:
  assumes "foldl (ov_best os) (r, b, t, v) xs = (r', b', t', v')" "v = None \<longrightarrow> r = -1"
  shows "(v' = None \<longrightarrow> v = None \<and> (\<forall>k \<in> set (keys xs). \<not> matchesTarget k os)) \<and>
    (\<forall>x. v' = Some x \<longrightarrow> v = Some x \<or> x \<in> snd ` set xs)"
  using assms
proof (induction xs arbitrary: r b t v)
  case (Cons p xs)
  obtain k x where p: "p = (k, x)" by (cases p)
  obtain r1 b1 t1 v1 where s: "ov_best os (r, b, t, v) (k, x) = (r1, b1, t1, v1)" by (metis prod_cases4)
  have i: "v1 = None \<longrightarrow> r1 = -1" "v1 = None \<longrightarrow> v = None \<and> \<not> matchesTarget k os" "\<forall>y. v1 = Some y \<longrightarrow> v = Some y \<or> y = x"
    using s Cons.prems(2) by (auto simp: Let_def specificity_def split: if_splits)
  from Cons.prems(1) have "foldl (ov_best os) (r1, b1, t1, v1) xs = (r', b', t', v')" by (simp add: p s del: ov_best.simps)
  from Cons.IH [OF this i(1)] i(2,3) show ?case by (auto simp: p)
qed simp

lemma resolved_nonempty:
  assumes "resolveOverrideable ov os = Inr v" "covers os ov" "full_overrides ov"
  shows "v \<noteq> []"
proof -
  obtain r b t v' where f: "foldl (ov_best os) (-1, [], [], None) (OSArch ov) = (r, b, t, v')" by (metis prod_cases4)
  show ?thesis
  proof (cases v')
    case None
    with ov_best_value [OF f] assms(2) have "Default ov \<noteq> []" by (auto simp: covers_def)
    with assms(1) None show ?thesis by (simp add: resolveOverrideable_def f split: if_splits)
  next
    case (Some x)
    with ov_best_value [OF f] assms(3) have "x \<noteq> []" unfolding full_overrides_def by blast
    with assms(1) Some show ?thesis by (simp add: resolveOverrideable_def f split: if_splits)
  qed
qed

lemma needed_resolved:
  "resolveStep os s = Inr s' \<Longrightarrow> list_all2 (\<lambda>ov ov'. resolveOverrideable ov os = Inr (Default ov')) (needed s) (needed s')"
  by (cases s) (auto simp: resolveRunStep_def resolveFetchStep_def resolveExtractStep_def resolvePortableStep_def
    resolveSignalStep_def resolveFromToTimeout_def resolveField_def plain_def needed_def split: sum.splits)

lemma try_map_from: "try_map f xs = Inr ys \<Longrightarrow> y \<in> set ys \<Longrightarrow> \<exists>x \<in> set xs. f x = Inr y"
  by (induction xs arbitrary: ys) (auto split: sum.splits)

lemma resolved_list_from:
  assumes "resolveStepList l os = Inr l'" "s' \<in> set (elems l')"
  shows "\<exists>s \<in> set (elems l). resolveStep os s = Inr s'"
proof -
  obtain ss rs where l: "l = Some ss" "l' = Some rs" "try_map (resolveStep os) ss = Inr rs" "s' \<in> set rs"
    using assms by (auto simp: resolveStepList_def split: option.splits sum.splits)
  then show ?thesis using try_map_from [OF l(3,4)] by simp
qed

lemma resolved_phases: "resolveLifecycle lc os = Inr lc' \<Longrightarrow>
    try_map (\<lambda>l. resolveStepList l os) (phase_lists lc) = Inr (phase_lists lc')"
  by (auto simp: resolveLifecycle_def phase_lists_def split: sum.splits)

lemma resolved_method_from:
  assumes "resolveMethods ms os = Inr ms'" "nm' \<in> set ms'"
  shows "\<exists>nm \<in> set ms. resolveStepList (mSteps (snd nm)) os = Inr (mSteps (snd nm'))"
proof -
  from try_map_from [OF assms(1) [unfolded resolveMethods_def] assms(2)] obtain nm
    where nm: "nm \<in> set ms" "(\<lambda>(name, m). case resolveStepList (mSteps m) os of Inl e \<Rightarrow> Inl e
       | Inr steps \<Rightarrow> Inr (name, \<lparr>AvailableIn = AvailableIn m, mSteps = steps\<rparr>)) nm = Inr nm'" by blast
  from nm(2) have "resolveStepList (mSteps (snd nm)) os = Inr (mSteps (snd nm'))" by (cases nm) (auto split: sum.splits)
  with nm(1) show ?thesis by blast
qed

lemma resolved_steps_from:
  assumes "resolveLifecycle lc os = Inr lc'" "resolveMethods ms os = Inr ms'" "s' \<in> all_steps lc' ms'"
  shows "\<exists>s \<in> all_steps lc ms. resolveStep os s = Inr s'"
  using assms(3) unfolding all_steps_iff
proof (elim disjE bexE)
  fix l' assume l': "l' \<in> set (phase_lists lc')" "s' \<in> set (elems l')"
  from try_map_from [OF resolved_phases [OF assms(1)] l'(1)] obtain l
    where l: "l \<in> set (phase_lists lc)" "resolveStepList l os = Inr l'" by blast
  from resolved_list_from [OF l(2) l'(2)] l(1) show ?thesis using all_steps_iff by blast
next
  fix nm' assume m': "nm' \<in> set ms'" "s' \<in> set (elems (mSteps (snd nm')))"
  from resolved_method_from [OF assms(2) m'(1)] obtain nm
    where m: "nm \<in> set ms" "resolveStepList (mSteps (snd nm)) os = Inr (mSteps (snd nm'))" by blast
  from resolved_list_from [OF m(2) m'(2)] m(1) show ?thesis using all_steps_iff by blast
qed

lemma mergeStepList_cases: "mergeStepList p c = p \<or> mergeStepList p c = c"
  by (simp add: mergeStepList_def)

lemma merged_phases: "set (phase_lists (mergeLifecycle lp lc)) \<subseteq> set (phase_lists lp) \<union> set (phase_lists lc)"
  using mergeStepList_cases [of "Install lp" "Install lc"] mergeStepList_cases [of "Update lp" "Update lc"]
    mergeStepList_cases [of "Execute lp" "Execute lc"] mergeStepList_cases [of "Stop lp" "Stop lc"]
    mergeStepList_cases [of "Uninstall lp" "Uninstall lc"] mergeStepList_cases [of "Preinstalled lp" "Preinstalled lc"]
  unfolding phase_lists_def mergeLifecycle_def list.set TargetLifecycle.simps by blast

lemma merge_maps_set: "set (merge_maps xs ys) \<subseteq> set xs \<union> set ys" for xs ys :: "('a \<times> 'b) list"
proof (induction ys arbitrary: xs)
  case (Cons y ys)
  have put: "set (map_put zs k v) \<subseteq> insert (k, v) (set zs)" for zs :: "('a \<times> 'b) list" and k v
    by (induction zs k v rule: map_put.induct) auto
  have "set (merge_maps xs (y # ys)) \<subseteq> set (map_put xs (fst y) (snd y)) \<union> set ys"
    using Cons.IH [of "map_put xs (fst y) (snd y)"] by (simp add: merge_maps_def case_prod_unfold)
  also have "\<dots> \<subseteq> set xs \<union> set (y # ys)" using put [of xs "fst y" "snd y"] by auto
  finally show ?case .
qed (simp add: merge_maps_def)

lemma merged_steps: "all_steps (mergeLifecycle lp lc) (mergeMethods mp mc) \<subseteq> all_steps lp mp \<union> all_steps lc mc"
proof
  fix s assume "s \<in> all_steps (mergeLifecycle lp lc) (mergeMethods mp mc)"
  then consider l where "l \<in> set (phase_lists (mergeLifecycle lp lc))" "s \<in> set (elems l)"
    | nm where "nm \<in> set (merge_maps mp mc)" "s \<in> set (elems (mSteps (snd nm)))"
    unfolding all_steps_iff mergeMethods_def by blast
  then show "s \<in> all_steps lp mp \<union> all_steps lc mc"
  proof cases
    case (1 l)
    then have "l \<in> set (phase_lists lp) \<or> l \<in> set (phase_lists lc)" using merged_phases [of lp lc] by (meson UnE subsetD)
    with 1(2) show ?thesis unfolding Un_iff all_steps_iff by metis
  next
    case (2 nm)
    then have "nm \<in> set mp \<or> nm \<in> set mc" using merge_maps_set [of mp mc] by (meson UnE subsetD)
    with 2(2) show ?thesis unfolding Un_iff all_steps_iff by metis
  qed
qed

lemma enum_mem: "x \<in> set xs \<Longrightarrow> \<exists>i. (i, x) \<in> set (enum xs)"
proof -
  assume "x \<in> set xs"
  then have "x \<in> snd ` set (enum xs)" by (metis enum_snd set_map)
  then show ?thesis by force
qed

lemma dup_loop_Nil: "dup_loop seen [] names = [] \<longleftrightarrow> distinct names \<and> set names \<inter> set seen = {}"
  by (induction names arbitrary: seen) auto

lemma checkDuplicates_Nil [simp]: "checkDuplicates names field rule = [] \<longleftrightarrow> distinct names"
  by (auto simp: checkDuplicates_def rule_err_def dup_loop_Nil collect_def)

lemma rule_err_not_Nil [simp]: "rule_err f r \<noteq> []"
  by (simp add: rule_err_def)

text \<open>The targets a target inherits from, itself included.\<close>

inductive in_chain :: "precompiled \<Rightarrow> string \<Rightarrow> string \<Rightarrow> bool" for pre where
  here: "in_chain pre k k"
| up: "map_of pre k = Some t \<Longrightarrow> pcBase t \<noteq> [] \<Longrightarrow> in_chain pre (pcBase t) k' \<Longrightarrow> in_chain pre k k'"

lemma coverage_of_step:
  "check_step_coverage key phase scope (i, s) = [] \<Longrightarrow> ov \<in> set (needed s) \<Longrightarrow> \<exists>f. checkStringCoverage ov f scope = []"
  by (cases s) (auto simp: check_step_coverage_def needed_def Let_def)

lemma list_rule: "collect f (enum xs) = [] \<Longrightarrow> s \<in> set xs \<Longrightarrow> \<exists>i. f (i, s) = []"
  using enum_mem [of s xs] by auto

text \<open>What a rule that checks every list of a target says of each of its steps.\<close>

lemma steps_rule:
  assumes "collect (\<lambda>(name, steps). collect (f name) (enum (elems steps))) (phases p lc) = []"
    and "collect (\<lambda>(name, m). collect (f (g name)) (enum (elems (mSteps m)))) ms = []" "s \<in> all_steps lc ms"
  shows "\<exists>name i. f name (i, s) = []"
  using assms(3) unfolding all_steps_iff
proof (elim disjE bexE)
  fix l assume l: "l \<in> set (phase_lists lc)" "s \<in> set (elems l)"
  from l(1) obtain x where x: "x \<in> set (phases p lc)" "l = snd x"
    unfolding phases_snd [of p, symmetric] by blast
  have "\<forall>x \<in> set (phases p lc). collect (f (fst x)) (enum (elems (snd x))) = []"
    using assms(1) unfolding collect_Nil_iff case_prod_unfold .
  from list_rule [OF bspec [OF this x(1)] l(2) [unfolded x(2)]] show ?thesis by blast
next
  fix nm assume nm: "nm \<in> set ms" "s \<in> set (elems (mSteps (snd nm)))"
  have "\<forall>x \<in> set ms. collect (f (g (fst x))) (enum (elems (mSteps (snd x)))) = []"
    using assms(2) unfolding collect_Nil_iff case_prod_unfold .
  from list_rule [OF bspec [OF this nm(1)] nm(2)] show ?thesis by blast
qed

lemma coverage_of_target:
  assumes "checkTargetCoverage key t = []" "s \<in> all_steps (pcLifecycle t) (pcMethods t)" "ov \<in> set (needed s)"
  shows "\<exists>f. checkStringCoverage ov f (targetScope key) = []"
proof -
  have "\<exists>name i. check_step_coverage key name (targetScope key) (i, s) = []"
    using assms(1) unfolding checkTargetCoverage_def Let_def append_is_Nil_conv checkStepListCoverage_def
    by (elim conjE) (rule steps_rule [OF _ _ assms(2)])
  with coverage_of_step assms(3) show ?thesis by blast
qed

text \<open>The steps of a flattened target are steps of the targets it inherits from.\<close>

lemma walk_steps:
  assumes "\<And>k' t'. in_chain pre key k' \<Longrightarrow> map_of pre k' = Some t' \<Longrightarrow> \<forall>s \<in> all_steps (pcLifecycle t') (pcMethods t'). P s"
    and "walkBaseChain pre visited key = Inr t"
  shows "\<forall>s \<in> all_steps (pcLifecycle t) (pcMethods t). P s"
  using assms
proof (induction pre visited key arbitrary: t rule: walkBaseChain.induct)
  case (1 pre visited key)
  from "1.prems"(2) obtain t0 where t0: "key \<notin> set visited" "map_of pre key = Some t0"
    by (subst (asm) walkBaseChain.simps) (auto split: if_splits option.splits)
  have own: "\<forall>s \<in> all_steps (pcLifecycle t0) (pcMethods t0). P s"
    by (rule "1.prems"(1) [OF in_chain.here t0(2)])
  show ?case
  proof (cases "pcBase t0 = []")
    case True
    with "1.prems"(2) t0 own show ?thesis by (subst (asm) walkBaseChain.simps) simp
  next
    case False
    from "1.prems"(2) t0 False obtain p where p: "walkBaseChain pre (key # visited) (pcBase t0) = Inr p" "t = mergeTargets p t0"
      by (subst (asm) walkBaseChain.simps) (auto split: sum.splits)
    have "\<forall>s \<in> all_steps (pcLifecycle p) (pcMethods p). P s"
      using "1.IH" [OF t0 False _ p(1)] "1.prems"(1) in_chain.up [OF t0(2) False] by blast
    with own show ?thesis using merged_steps by (fastforce simp: p(2) mergeTargets_def)
  qed
qed

lemma resolved_declared:
  assumes "resolveOverrideable ov os = Inr v"
  shows "v \<in> insert (Default ov) (snd ` set (OSArch ov))"
proof -
  obtain r b t v' where f: "foldl (ov_best os) (-1, [], [], None) (OSArch ov) = (r, b, t, v')" by (metis prod_cases4)
  with ov_best_value [OF f] assms show ?thesis
    by (cases v') (auto simp: resolveOverrideable_def f split: if_splits)
qed

text \<open>The signal of a compiled step is one its declaration gives, for the platform or by default.\<close>

definition signal_from :: "Step set \<Rightarrow> Step \<Rightarrow> bool" where
  "signal_from S s \<longleftrightarrow> (\<forall>b sg tmo. s = SignalStep b sg tmo \<longrightarrow>
     (\<exists>b' sg' tmo'. SignalStep b' sg' tmo' \<in> S \<and> Default sg \<in> insert (Default sg') (snd ` set (OSArch sg'))))"

lemma resolved_signal:
  assumes "resolveStep os s = Inr s'" "s \<in> S"
  shows "signal_from S s'"
proof (cases s)
  case (SignalStep b sg tmo)
  with assms(1) obtain v m where v: "resolveOverrideable sg os = Inr v" "s' = SignalStep b (plain v) m"
    by (auto simp: resolveSignalStep_def resolveField_def split: sum.splits)
  have "SignalStep b sg tmo \<in> S" using assms(2) SignalStep by simp
  moreover have "Default (plain v) \<in> insert (Default sg) (snd ` set (OSArch sg))"
    using resolved_declared [OF v(1)] by (simp add: plain_def)
  ultimately show ?thesis unfolding signal_from_def v(2) Step.inject by metis
qed (use assms(1) in \<open>auto simp: signal_from_def resolveRunStep_def resolveFetchStep_def resolveExtractStep_def
  resolvePortableStep_def resolveFromToTimeout_def split: sum.splits\<close>)

section \<open>Properties\<close>

text \<open>
  C27. The base rule decides exactly what the compiler needs: it reports nothing if and only if
  the base chain of every target can be flattened, so an accepted manifest never meets a missing
  or a cyclic base when it is compiled.
\<close>

theorem base_rule_decides_flattening:
  "BaseIntegrityRule pre = [] \<longleftrightarrow> (\<forall>key \<in> set (keys pre). \<exists>t. flattenBaseChain key pre = Inr t)"
proof -
  have "checkBaseChain key pre = [] \<longleftrightarrow> (\<exists>t. flattenBaseChain key pre = Inr t)" if "key \<in> set (keys pre)" for key
    unfolding checkBaseChain_def flattenBaseChain_def by (rule base_loop_walks) (use that in simp_all)
  then show ?thesis unfolding BaseIntegrityRule_def collect_Nil_iff by blast
qed

theorem base_rule_decides_flattening_witness:
  "\<exists>t. flattenBaseChain ''linux/arm64'' sample_targets = Inr t"
proof -
  have "BaseIntegrityRule sample_targets = []" "''linux/arm64'' \<in> set (keys sample_targets)" by code_simp+
  with base_rule_decides_flattening [of sample_targets] show ?thesis by blast
qed

definition covered_targets :: precompiled where
  "covered_targets = [(''linux/*'', no_target\<lparr>pcLifecycle := no_lifecycle\<lparr>Execute := Some [run_step
     \<lparr>Default = [], OSArch = [(''linux/amd64'', ''./x64''), (''linux/arm64'', ''./arm'')]\<rparr>]\<rparr>\<rparr>)]"

definition named_arrow :: Arrow where
  "named_arrow = no_arrow\<lparr>aMeta := no_meta\<lparr>mName := ''server''\<rparr>\<rparr>"



text \<open>
  A signal step that names no signal passes every rule and compiles; the run of it has nothing to
  send.
\<close>

definition signalless_targets :: precompiled where
  "signalless_targets =
     [(''*'', no_target\<lparr>pcLifecycle := no_lifecycle\<lparr>Execute := Some [run_step (plain ''./server'')],
         Stop := Some [SignalStep (newBasicStep StepTypeSignal ''Stop'' True) (plain (to_SignalKind [])) (plain [])]\<rparr>\<rparr>)]"

lemma signal_step_without_signal:
  "ValidatePrecompile named_arrow signalless_targets = []"
  "case Compile named_arrow signalless_targets of Inl e \<Rightarrow> False | Inr a \<Rightarrow> ValidateCompiled a = [] \<and>
     (case map_of (aTargets a) OSLinuxAMD64 of None \<Rightarrow> False | Some t \<Rightarrow>
        Stop (Lifecycle t) = Some [SignalStep (newBasicStep StepTypeSignal ''Stop'' True)
          (plain (SignalKindOther [])) (plain [])])"
  by code_simp+

definition inherited_targets :: precompiled where
  "inherited_targets =
     [(''_common'', no_target\<lparr>pcLifecycle := no_lifecycle\<lparr>Execute := Some [run_step
         \<lparr>Default = [], OSArch = [(''windows/*'', ''server.exe'')]\<rparr>]\<rparr>\<rparr>),
      (''*'', no_target\<lparr>pcBase := ''_common''\<rparr>)]"

text \<open>
  Steps inherited from an abstract target escape the coverage rule: a manifest whose only
  command names windows is accepted before and after compilation, and its linux target runs an
  empty command.
\<close>

theorem inherited_steps_escape_coverage:
  "\<exists>a t s. ValidatePrecompile named_arrow inherited_targets = [] \<and> Compile named_arrow inherited_targets = Inr a \<and>
     ValidateCompiled a = [] \<and> map_of (aTargets a) OSLinuxAMD64 = Some t \<and> Execute (Lifecycle t) = Some [s] \<and>
     map Default (needed s) = [[]]"
proof -
  have k: "ValidatePrecompile named_arrow inherited_targets = []"
    "case Compile named_arrow inherited_targets of Inl e \<Rightarrow> False | Inr a \<Rightarrow> ValidateCompiled a = [] \<and>
      (case map_of (aTargets a) OSLinuxAMD64 of None \<Rightarrow> False | Some t \<Rightarrow>
         map (\<lambda>s. map Default (needed s)) (elems (Execute (Lifecycle t))) = [[[]]])" by code_simp+
  from k(2) obtain a t where a: "Compile named_arrow inherited_targets = Inr a" "ValidateCompiled a = []"
    "map_of (aTargets a) OSLinuxAMD64 = Some t" "map (\<lambda>s. map Default (needed s)) (elems (Execute (Lifecycle t))) = [[[]]]"
    by (auto split: sum.splits option.splits)
  then obtain s where "Execute (Lifecycle t) = Some [s]" "map Default (needed s) = [[]]"
    by (auto split: option.splits)
  with k(1) a(1-3) show ?thesis by (intro exI conjI)
qed

text \<open>
  C29. What the rules accept is within its bounds: a name of 1 to 255 bytes, a description of at
  most 1000 and a readme of at most 256000; distinct variables with names of 1 to 255 bytes, whose
  default, when there is one and values are listed, is one of these, whose positive maximum is not
  below the minimum, and which list values when they are of the select type; and distinct ports with a name, a
  known protocol and a default between 0, which leaves it open, and 65535.
\<close>

theorem accepted_manifest_bounds:
  assumes "ValidatePrecompile m pre = []"
  shows "length (mName (aMeta m)) \<in> {1..255} \<and> length (mDescription (aMeta m)) \<le> 1000 \<and> length (aReadme m) \<le> 256000 \<and>
    distinct (map vName (aVariables m)) \<and> distinct (map pName (aNetbridge m)) \<and>
    list_all (\<lambda>v. length (vName v) \<in> {1..255} \<and> (vValues v = [] \<or> vDefault v = [] \<or> vDefault v \<in> set (vValues v)) \<and>
      (vMax v \<le> 0 \<or> vMin v \<le> vMax v) \<and> (vType v \<noteq> VariableTypeSelect \<or> vValues v \<noteq> [])) (aVariables m) \<and>
    list_all (\<lambda>p. pName p \<noteq> [] \<and> (pDefault p = 0 \<or> pDefault p \<in> {1..65535}) \<and> Protocol_IsValid (pProtocol p)) (aNetbridge m)"
proof -
  have r: "MetadataRule m = []" "VariablesRule m = []" "NetbridgeRule m = []"
    using assms by (simp_all add: ValidatePrecompile_def RunPrecompile_def)
  have "\<forall>v \<in> set (aVariables m). Variable_Validate v = None \<and> \<not> (IsSelect (vType v) \<and> vValues v = [])"
    using r(2) ball_enum [of "aVariables m" "\<lambda>v. Variable_Validate v = None \<and> \<not> (IsSelect (vType v) \<and> vValues v = [])"]
    by (auto simp: VariablesRule_def check_variable_def split: option.splits if_splits)
  moreover have p: "\<forall>p \<in> set (aNetbridge m). PortDef_Validate p = None"
    using r(3) ball_enum [of "aNetbridge m" "\<lambda>p. PortDef_Validate p = None"]
    by (auto simp: NetbridgeRule_def check_port_def split: option.splits)
  moreover from p have "filter (\<lambda>p. PortDef_Validate p = None) (aNetbridge m) = aNetbridge m" by (simp add: filter_id_conv)
  ultimately show ?thesis
    using r by (auto simp: MetadataRule_def VariablesRule_def NetbridgeRule_def list_all_iff Variable_Validate_def PortDef_Validate_def
        MaxNameLength_def MaxDescriptionLength_def MaxReadmeLength_def MaxVariableNameLength_def MinPort_def MaxPort_def IsSelect_def
        Suc_le_eq split: if_splits)
qed

definition bounded_arrow :: Arrow where
  "bounded_arrow = named_arrow\<lparr>
     aVariables := [\<lparr>vName = ''MODE'', vDescription = [], vDefault = ''fast'', vValues = [''fast'', ''safe''],
       vMin = 0, vMax = 0, vSensitive = False, vType = VariableTypeSelect\<rparr>],
     aNetbridge := [\<lparr>pName = ''http'', pProtocol = ProtocolTCP, pDefault = 8080, pRequired = True\<rparr>]\<rparr>"

theorem accepted_manifest_bounds_witness:
  "length (mName (aMeta bounded_arrow)) \<in> {1..255} \<and>
   list_all (\<lambda>v. vDefault v \<in> set (vValues v)) (aVariables bounded_arrow) \<and>
   list_all (\<lambda>p. pDefault p \<in> {1..65535}) (aNetbridge bounded_arrow)"
proof -
  have "ValidatePrecompile bounded_arrow covered_targets = []" by code_simp
  moreover have "list_all (\<lambda>v. vValues v \<noteq> [] \<and> vDefault v \<noteq> []) (aVariables bounded_arrow)"
    "list_all (\<lambda>p. pDefault p \<noteq> 0) (aNetbridge bounded_arrow)" by code_simp+
  ultimately show ?thesis
    using accepted_manifest_bounds [of bounded_arrow covered_targets] unfolding list_all_iff by blast
qed

lemma exposeNameRe_plain:
  assumes "exposeNameRe s"
  shows "length s \<le> 64" "s \<noteq> []" "CHR ''/'' \<notin> set s" "CHR 0x5C \<notin> set s" "hd s \<noteq> CHR ''.''"
proof -
  obtain c cs where s: "s = c # cs" "is_letter c \<or> is_digit c" "length cs \<le> 63" "list_all name_byte cs"
    using assms by (cases s) (auto simp: exposeNameRe_def)
  have n: "\<not> name_byte CHR ''/''" "\<not> name_byte CHR 0x5C" "\<not> (is_letter CHR ''.'' \<or> is_digit CHR ''.'')"
    "\<not> (is_letter CHR ''/'' \<or> is_digit CHR ''/'')" "\<not> (is_letter CHR 0x5C \<or> is_digit CHR 0x5C)" by code_simp+
  with s show "length s \<le> 64" "s \<noteq> []" "CHR ''/'' \<notin> set s" "CHR 0x5C \<notin> set s" "hd s \<noteq> CHR ''.''"
    by (auto simp: list_all_iff)
qed

text \<open>
  A portable name the rules accept is a plain file name everywhere: at most 64 bytes, no
  separator of either kind, neither a dot nor two, no final dot, and no Windows device name.
\<close>

theorem accepted_portable_names:
  assumes "ValidateCompiled m = []" "(os, t) \<in> set (aTargets m)"
    and "PortableStep b fr to tmo name \<in> all_steps (Lifecycle t) (Methods t)" "name \<noteq> []"
  shows "length name \<le> 64 \<and> CHR ''/'' \<notin> set name \<and> CHR 0x5C \<notin> set name \<and> name \<notin> {''.'', ''..''} \<and>
    \<not> HasSuffix name ''.'' \<and> \<not> IsWindowsReservedName name"
proof -
  have "PortableNameRule m = []" using assms(1) by (simp add: ValidateCompiled_def RunCompiled_def AllCompiled_def)
  with assms(2) have "checkPortableNames os t = []" by (auto simp: PortableNameRule_def)
  then have "\<exists>field i. check_portable_name os field (i, PortableStep b fr to tmo name) = []"
    unfolding checkPortableNames_def append_is_Nil_conv checkStepListPortableNames_def
    by (elim conjE) (rule steps_rule [OF _ _ assms(3)])
  then have "validPortableName name" using assms(4) by (auto simp: check_portable_name_def split: if_splits)
  then show ?thesis using exposeNameRe_plain [of name] by (auto simp: validPortableName_def)
qed

definition portable_arrow :: Arrow where
  "portable_arrow = named_arrow\<lparr>aTargets := [(OSLinuxAMD64, \<lparr>Requirements = \<lparr>CpuCores = 0, MemoryGB = 0, DiskGB = 0\<rparr>, Tools = [],
     Services = [], Exports = [], Lifecycle = no_lifecycle\<lparr>Install := Some [PortableStep (newBasicStep StepTypePortable ''Keep'' True)
       (plain ''${WORKDIR}/a.zip'') (plain ''${WORKDIR}/app'') (plain []) ''editor-1.0'']\<rparr>, Methods = [],
     tExpose = \<lparr>exCLI = None, exDesktop = None\<rparr>\<rparr>)]\<rparr>"

theorem accepted_portable_names_witness: "length ''editor-1.0'' \<le> 64 \<and> \<not> IsWindowsReservedName ''editor-1.0''"
proof -
  have v: "ValidateCompiled portable_arrow = []" by code_simp
  obtain t where t: "(OSLinuxAMD64, t) \<in> set (aTargets portable_arrow)"
    "Lifecycle t = no_lifecycle\<lparr>Install := Some [PortableStep (newBasicStep StepTypePortable ''Keep'' True)
       (plain ''${WORKDIR}/a.zip'') (plain ''${WORKDIR}/app'') (plain []) ''editor-1.0'']\<rparr>" by (simp add: portable_arrow_def)
  then have "PortableStep (newBasicStep StepTypePortable ''Keep'' True) (plain ''${WORKDIR}/a.zip'') (plain ''${WORKDIR}/app'')
      (plain []) ''editor-1.0'' \<in> all_steps (Lifecycle t) (Methods t)" by (simp add: all_steps_def phase_lists_def)
  from accepted_portable_names [OF v t(1) this] show ?thesis by simp
qed

end
