(* ===== verification/Assembler.thy ===== *)
theory Assembler
  imports Ruleset Runtime
begin

text \<open>
  Starting a run (app/repositories/runtime/internal/assembler, arrow/preinstalled.go, the start of
  app/repositories/runtime/runtime.go and engine/wizard/internal/step/expose/plan.go): the steps of
  a method, the variables it is given in six layers, and the command that begins it.  The catalog,
  the workdirs, the port allocator and the socket provider are injected functions in the code and
  fields of \<open>asm_env\<close> here; the allocator works on a state of its own.
\<close>

section \<open>Environment\<close>

datatype asm_error =
    AsmNotFound | AsmOther string | ErrPlatformNotSupported | ErrMethodNotFound | ErrMissingVariable string
  | AllocatePort string | AsmWorkDir Namespace vault_error | SocketError string

record 'n asm_env =
  aeGetArrow :: "Namespace \<Rightarrow> asm_error + Arrow"
  aeGetDepArrow :: "Namespace \<Rightarrow> asm_error + Arrow"
  aeWorkDir :: "(Namespace \<Rightarrow> vault_error + string) option"
  aeAllocate :: "(Namespace \<Rightarrow> Protocol \<Rightarrow> int \<Rightarrow> 'n \<Rightarrow> (asm_error + int) \<times> 'n) option"
  aePrepare :: "(Namespace \<Rightarrow> asm_error + string) option"
  aeOS :: OS

section \<open>Target and steps\<close>

definition ResolveTarget :: "Arrow \<Rightarrow> OS \<Rightarrow> asm_error + Target" where
  "ResolveTarget arrow os = (case map_of (aTargets arrow) os of None \<Rightarrow> Inl ErrPlatformNotSupported | Some t \<Rightarrow> Inr t)"

definition StepsForMethod :: "Target \<Rightarrow> string \<Rightarrow> asm_error + Step list \<times> ArrowState list" where
  "StepsForMethod target method =
     (let lc = Lifecycle target
      in if method = MethodInstall then Inr (NewDependenciesStep ''Resolve dependencies'' # elems (Install lc), [])
         else if method = MethodUninstall then Inr (elems (Uninstall lc), [])
         else if method = MethodUpdate then
           Inr (if elems (Update lc) = [] then elems (Install lc) else elems (Update lc), [])
         else if method = MethodExecute then
           (if elems (Execute lc) = [] then Inl ErrMethodNotFound else Inr (elems (Execute lc), []))
         else if method = MethodStop then
           (if elems (Stop lc) = [] then Inl ErrMethodNotFound else Inr (elems (Stop lc), []))
         else (case map_of (Methods target) method of
             None \<Rightarrow> Inl ErrMethodNotFound
           | Some m \<Rightarrow> if elems (mSteps m) = [] then Inl ErrMethodNotFound else Inr (elems (mSteps m), AvailableIn m)))"

section \<open>References\<close>

definition collectOverrideable :: "string Overrideable \<Rightarrow> string list" where
  "collectOverrideable field = concat (map extractVarTokens (overrideableValues field))"

definition collectStepReferences :: "Step \<Rightarrow> string list" where
  "collectStepReferences s =
     (case s of
        RunStep b cmd el tmo ui \<Rightarrow> collectOverrideable cmd
      | FetchStep b url to ck tmo \<Rightarrow> collectOverrideable url @ collectOverrideable to @ collectOverrideable ck
      | ExtractStep b fr to tmo \<Rightarrow> collectOverrideable fr @ collectOverrideable to
      | PortableStep b fr to tmo name \<Rightarrow> collectOverrideable fr @ collectOverrideable to
      | _ \<Rightarrow> [])"

definition ReferencedVariables :: "Step list \<Rightarrow> string list" where
  "ReferencedVariables steps = concat (map collectStepReferences steps)"

section \<open>Variables\<close>

definition hasListenUI :: "Step list \<Rightarrow> bool" where
  "hasListenUI steps = list_ex (\<lambda>s. case s of RunStep b cmd el tmo (Some ui) \<Rightarrow> Listens ui | _ \<Rightarrow> False) steps"

definition builtIns :: "'n asm_env \<Rightarrow> Namespace \<Rightarrow> Arrow \<Rightarrow> asm_error + vars" where
  "builtIns env ns arrow =
     (case (case aeWorkDir env of
              None \<Rightarrow> Inr []
            | Some wd \<Rightarrow> (case wd ns of
                Inl e \<Rightarrow> Inl (AsmWorkDir ns e)
              | Inr workdir \<Rightarrow> Inr (map_put (map_put [] ''INSTALL_PATH'' workdir) ''WORKDIR'' workdir))) of
        Inl e \<Rightarrow> Inl e
      | Inr vars0 \<Rightarrow>
          Inr (map_put (map_put (map_put vars0 ''ARROW_NAMESPACE'' ns) ''PLATFORM'' (aeOS env)) ''REF''
            (RefOr (aResolved arrow) (Ref ns))))"

text \<open>\<open>filepath.Join\<close> of an absolute Unix directory and a relative path, cleaned.\<close>

definition filepath_Join :: "string \<Rightarrow> string \<Rightarrow> string" where
  "filepath_Join dir rel = ''/'' @ Join (path_clean [] (Split (dir @ ''/'' @ rel) CHR ''/'')) ''/''"

definition export_value :: "string \<Rightarrow> string \<Rightarrow> string" where
  "export_value installPath v = (if HasPrefix v ''./'' \<and> installPath \<noteq> [] then filepath_Join installPath v else v)"

definition exports_layer :: "string \<Rightarrow> string \<Rightarrow> vars \<Rightarrow> (string \<times> string) list \<Rightarrow> vars" where
  "exports_layer depNs installPath vars0 exports =
     foldl (\<lambda>vs (exportName, exportValue). map_put vs (depNs @ ''.'' @ exportName) (export_value installPath exportValue))
       vars0 exports"

definition dep_layer :: "'n asm_env \<Rightarrow> vars \<Rightarrow> DependencyEdge \<Rightarrow> vars" where
  "dep_layer env vars0 edge =
     (case aeGetDepArrow env (deNamespace edge) of
        Inl e \<Rightarrow> vars0
      | Inr depArrow \<Rightarrow>
          (case map_of (aTargets depArrow) (aeOS env) of
             None \<Rightarrow> vars0
           | Some depTarget \<Rightarrow>
               (let depNs = BareNamespace (deNamespace edge);
                    vars1 = (case aeWorkDir env of
                        None \<Rightarrow> vars0
                      | Some wd \<Rightarrow> (case wd (aNamespace depArrow) of
                          Inl e \<Rightarrow> vars0 | Inr workdir \<Rightarrow> map_put vars0 (depNs @ ''.INSTALL_PATH'') workdir));
                    installPath = map_get vars1 (depNs @ ''.INSTALL_PATH'')
                in exports_layer depNs installPath vars1 (Exports depTarget))))"

definition default_layer :: "vars \<Rightarrow> Variable list \<Rightarrow> vars" where
  "default_layer vars0 vs = foldl (\<lambda>m v. if vDefault v \<noteq> [] then map_put m (vName v) (vDefault v) else m) vars0 vs"

definition isComputed :: "string \<Rightarrow> bool" where
  "isComputed name \<longleftrightarrow> IsReservedVariable name \<or> Contains name ''/''"

definition carryForward :: "Arrow \<Rightarrow> vars \<Rightarrow> vars" where
  "carryForward arrow stored =
     filter (\<lambda>(name, value). \<not> (name \<in> vName ` {v \<in> set (aVariables arrow). vDefault v = []} \<or> isComputed name)) stored"

fun allocatePorts ::
  "(Namespace \<Rightarrow> Protocol \<Rightarrow> int \<Rightarrow> 'n \<Rightarrow> (asm_error + int) \<times> 'n) \<Rightarrow> Namespace \<Rightarrow> PortDef list \<Rightarrow> vars \<Rightarrow> vars \<Rightarrow> 'n
   \<Rightarrow> (asm_error + vars) \<times> 'n" where
  "allocatePorts alloc ns [] held vars0 n = (Inr vars0, n)"
| "allocatePorts alloc ns (port # ports) held vars0 n =
     (if map_get held (pName port) \<noteq> [] then allocatePorts alloc ns ports held vars0 n
      else (case alloc ns (pProtocol port) (pDefault port) n of
          (Inl e, n') \<Rightarrow>
            if pRequired port then (Inl (AllocatePort (pName port)), n')
            else allocatePorts alloc ns ports held vars0 n'
        | (Inr allocated, n') \<Rightarrow> allocatePorts alloc ns ports held (map_put vars0 (pName port) (Itoa allocated)) n'))"

definition applyUserVars :: "vars \<Rightarrow> vars \<Rightarrow> vars" where
  "applyUserVars vars0 userVars =
     foldl (\<lambda>m (name, value). if IsReservedVariable name then m else map_put m name value) vars0 userVars"

definition requireReferenced :: "Arrow \<Rightarrow> Step list \<Rightarrow> vars \<Rightarrow> asm_error option" where
  "requireReferenced arrow steps vars0 =
     (let referenced = ReferencedVariables steps
      in map_option (\<lambda>v. ErrMissingVariable (vName v))
           (find (\<lambda>v. vDefault v = [] \<and> vName v \<in> set referenced \<and> map_get vars0 (vName v) = []) (aVariables arrow)))"

text \<open>The variables a previous execution left, of which an execution may inherit some.\<close>

definition stored_vars :: "ArrowRuntime option \<Rightarrow> Arrow \<Rightarrow> vars" where
  "stored_vars runtime arrow =
     (case runtime of None \<Rightarrow> []
      | Some rt \<Rightarrow> (case rtLastReturn rt of None \<Rightarrow> [] | Some ret \<Rightarrow> carryForward arrow (retVariables ret)))"

definition provisionSocket :: "'n asm_env \<Rightarrow> Namespace \<Rightarrow> Step list \<Rightarrow> vars \<Rightarrow> asm_error + vars" where
  "provisionSocket env ns steps vars0 =
     (case aePrepare env of
        None \<Rightarrow> Inr vars0
      | Some prepare \<Rightarrow>
          if \<not> hasListenUI steps then Inr vars0
          else (case prepare ns of Inl e \<Rightarrow> Inl e | Inr socket \<Rightarrow> Inr (map_put vars0 ''ARROW_UI_LISTEN'' socket)))"

definition ResolveVariables ::
  "'n asm_env \<Rightarrow> ArrowRuntime option \<Rightarrow> Namespace \<Rightarrow> Arrow \<Rightarrow> Target \<Rightarrow> vars \<Rightarrow> Step list \<Rightarrow> 'n \<Rightarrow> (asm_error + vars) \<times> 'n" where
  "ResolveVariables env runtime ns arrow target userVars steps n =
     (case builtIns env ns arrow of
        Inl e \<Rightarrow> (Inl e, n)
      | Inr vars0 \<Rightarrow>
          (case provisionSocket env ns steps vars0 of
             Inl e \<Rightarrow> (Inl e, n)
           | Inr vars1 \<Rightarrow>
               (let vars2 = foldl (dep_layer env) vars1 (Tools target @ Services target);
                    vars3 = default_layer vars2 (aVariables arrow);
                    stored = stored_vars runtime arrow
                in case (case aeAllocate env of
                      None \<Rightarrow> (Inr vars3, n)
                    | Some alloc \<Rightarrow> allocatePorts alloc ns (aNetbridge arrow) stored vars3 n) of
                     (Inl e, n') \<Rightarrow> (Inl e, n')
                   | (Inr vars4, n') \<Rightarrow>
                       (let vars6 = applyUserVars (merge_maps vars4 stored) userVars
                        in case requireReferenced arrow steps vars6 of
                             Some e \<Rightarrow> (Inl e, n') | None \<Rightarrow> (Inr vars6, n')))))"

section \<open>Assembling a run\<close>

record ResolvedExecution =
  reSteps :: "Step list"
  reVariables :: vars
  reAvailableIn :: "ArrowState list"
  reWorkDir :: string

definition Assemble ::
  "'n asm_env \<Rightarrow> ArrowRuntime option \<Rightarrow> Namespace \<Rightarrow> string \<Rightarrow> vars \<Rightarrow> string \<Rightarrow> 'n \<Rightarrow> (asm_error + ResolvedExecution) \<times> 'n" where
  "Assemble env runtime ns method userVars targetRef n =
     (case aeGetArrow env ns of
        Inl e \<Rightarrow> (Inl e, n)
      | Inr arrow \<Rightarrow>
     (case ResolveTarget arrow (aeOS env) of
        Inl e \<Rightarrow> (Inl e, n)
      | Inr target \<Rightarrow>
     (case StepsForMethod target method of
        Inl e \<Rightarrow> (Inl e, n)
      | Inr (steps, availableIn) \<Rightarrow>
     (case ResolveVariables env runtime ns arrow target userVars steps n of
        (Inl e, n') \<Rightarrow> (Inl e, n')
      | (Inr vars0, n') \<Rightarrow>
          (let vars1 = (if targetRef \<noteq> [] then map_put vars0 ''REF'' targetRef else vars0)
           in case (case aeWorkDir env of None \<Rightarrow> Inr []
                    | Some wd \<Rightarrow> (case wd ns of Inl e \<Rightarrow> Inl (AsmWorkDir ns e) | Inr w \<Rightarrow> Inr w)) of
                Inl e \<Rightarrow> (Inl e, n')
              | Inr workDir \<Rightarrow>
                  (Inr \<lparr>reSteps = steps, reVariables = vars1, reAvailableIn = availableIn, reWorkDir = workDir\<rparr>, n'))))))"

subsection \<open>The steps the wizard adds\<close>

definition expose_step :: "ExposeKind \<Rightarrow> string \<Rightarrow> ExposeEntry \<Rightarrow> Step" where
  "expose_step kind media0 e =
     (case NewExposeStep (expose_kind_name kind) (eName e) (ePath e) of
        ExposeStep b k name path icon cats old \<Rightarrow> ExposeStep b k name path (eIcon e) (eCategories e) media0
      | s \<Rightarrow> s)"

definition appendExposeSteps :: "Step list \<Rightarrow> ExposeKind \<Rightarrow> ExposeEntry list option \<Rightarrow> string \<Rightarrow> Step list" where
  "appendExposeSteps steps kind entries media0 = steps @ map (expose_step kind media0) (elems entries)"

definition expose_Plan :: "string \<Rightarrow> Expose \<Rightarrow> string \<Rightarrow> Step list \<Rightarrow> Step list" where
  "expose_Plan method expose media0 steps =
     (if Expose_IsEmpty expose then steps
      else if method = MethodInstall \<or> method = MethodUpdate then
        appendExposeSteps (appendExposeSteps steps ExposeKindDesktop (exDesktop expose) media0)
          ExposeKindCLI (exCLI expose) media0
      else if method = MethodUninstall then NewUnexposeStep # steps
      else steps)"

text \<open>\<open>wizard.Plan\<close>: a platform the manifest has no target for exposes nothing.\<close>

definition Plan :: "string \<Rightarrow> Arrow \<Rightarrow> OS \<Rightarrow> Step list \<Rightarrow> Step list" where
  "Plan method arrow os steps =
     expose_Plan method (case map_of (aTargets arrow) os of Some t \<Rightarrow> tExpose t | None \<Rightarrow> \<lparr>exCLI = None, exDesktop = None\<rparr>)
       (mediaIcon (mMedia (aMeta arrow))) steps"

definition planned_Assemble ::
  "'n asm_env \<Rightarrow> ArrowRuntime option \<Rightarrow> Namespace \<Rightarrow> string \<Rightarrow> vars \<Rightarrow> string \<Rightarrow> 'n \<Rightarrow> (asm_error + ResolvedExecution) \<times> 'n" where
  "planned_Assemble env runtime ns method userVars targetRef n =
     (case Assemble env runtime ns method userVars targetRef n of
        (Inl e, n') \<Rightarrow> (Inl e, n')
      | (Inr resolved, n') \<Rightarrow>
          (case aeGetArrow env ns of
             Inl e \<Rightarrow> (Inl e, n')
           | Inr arrow \<Rightarrow> (Inr (resolved\<lparr>reSteps := Plan method arrow (aeOS env) (reSteps resolved)\<rparr>), n')))"

section \<open>The runtime repository\<close>

text \<open>
  The methods that begin a run (app/repositories/runtime/runtime.go): assemble, then send the
  command.  A command the aggregate refuses is reported with the verb and the state it was in.
  \<open>executionID\<close> is the fresh identifier of the run; the five sends \<open>BeginStop\<close> spends on version
  conflicts are the one that is decided.
\<close>

datatype begin_error = BeginAssemble asm_error | StateViolation string ArrowState | ErrStateViolation

definition GetState :: "rt_store \<Rightarrow> Namespace \<Rightarrow> ArrowState" where
  "GetState store ns = (case store ns of None \<Rightarrow> ArrowStateAbsent | Some rt \<Rightarrow> rtState rt)"

definition RuntimeExists :: "rt_store \<Rightarrow> Namespace \<Rightarrow> bool" where
  "RuntimeExists store ns \<longleftrightarrow> store ns \<noteq> None"

definition GetRuntime :: "rt_store \<Rightarrow> Namespace \<Rightarrow> ArrowRuntime option" where
  "GetRuntime store ns = store ns"

definition methodOp :: "string \<Rightarrow> string" where
  "methodOp method = (let op = TrimPrefix method ''_'' in if op = ''execute'' then ''run'' else op)"

definition stateViolation :: "rt_store \<Rightarrow> string \<Rightarrow> Namespace \<Rightarrow> begin_error" where
  "stateViolation store op ns = StateViolation op (GetState store ns)"

definition send_or_violation :: "rt_command \<Rightarrow> string \<Rightarrow> Namespace \<Rightarrow> rt_store \<Rightarrow> begin_error + rt_store" where
  "send_or_violation c op ns store =
     (case store_send c store of Inl e \<Rightarrow> Inl (stateViolation store op ns) | Inr store' \<Rightarrow> Inr store')"

definition run_args :: "Namespace \<Rightarrow> string \<Rightarrow> ResolvedExecution \<Rightarrow> begin_args" where
  "run_args ns executionID resolved =
     \<lparr>bgNamespace = ns, bgExecutionID = executionID, bgSteps = reSteps resolved, bgVariables = reVariables resolved,
      bgWorkDir = reWorkDir resolved\<rparr>"

definition begin_with ::
  "(asm_error + ResolvedExecution) \<times> 'n \<Rightarrow> (ResolvedExecution \<Rightarrow> rt_command) \<Rightarrow> string \<Rightarrow> Namespace \<Rightarrow> rt_store
   \<Rightarrow> (begin_error + rt_store) \<times> 'n" where
  "begin_with assembled command op ns store =
     (case assembled of
        (Inl e, n') \<Rightarrow> (Inl (BeginAssemble e), n')
      | (Inr resolved, n') \<Rightarrow> (send_or_violation (command resolved) op ns store, n'))"

definition repo_BeginInstall ::
  "'n asm_env \<Rightarrow> string \<Rightarrow> Namespace \<Rightarrow> vars \<Rightarrow> rt_store \<Rightarrow> 'n \<Rightarrow> (begin_error + rt_store) \<times> 'n" where
  "repo_BeginInstall env executionID ns vars0 store n =
     begin_with (planned_Assemble env (store ns) ns MethodInstall vars0 [] n)
       (\<lambda>r. CBeginInstall (run_args ns executionID r)) ''install'' ns store"

definition repo_BeginExecution ::
  "'n asm_env \<Rightarrow> string \<Rightarrow> Namespace \<Rightarrow> string \<Rightarrow> vars \<Rightarrow> rt_store \<Rightarrow> 'n \<Rightarrow> (begin_error + rt_store) \<times> 'n" where
  "repo_BeginExecution env executionID ns method vars0 store n =
     begin_with (planned_Assemble env (store ns) ns method vars0 [] n)
       (\<lambda>r. CBeginExecution (run_args ns executionID r) method (reAvailableIn r)) (methodOp method) ns store"

definition repo_BeginStop :: "'n asm_env \<Rightarrow> string \<Rightarrow> Namespace \<Rightarrow> rt_store \<Rightarrow> 'n \<Rightarrow> (begin_error + rt_store) \<times> 'n" where
  "repo_BeginStop env executionID ns store n =
     begin_with (case planned_Assemble env (store ns) ns MethodStop [] [] n of
           (Inl ErrMethodNotFound, n') \<Rightarrow> (Inr \<lparr>reSteps = [], reVariables = [], reAvailableIn = [], reWorkDir = []\<rparr>, n')
         | assembled \<Rightarrow> assembled)
       (\<lambda>r. CBeginStop (run_args ns executionID r)) ''stop'' ns store"

definition repo_BeginUninstall ::
  "'n asm_env \<Rightarrow> string \<Rightarrow> Namespace \<Rightarrow> vars \<Rightarrow> rt_store \<Rightarrow> 'n \<Rightarrow> (begin_error + rt_store) \<times> 'n" where
  "repo_BeginUninstall env executionID ns vars0 store n =
     begin_with (planned_Assemble env (store ns) ns MethodUninstall vars0 [] n)
       (\<lambda>r. CBeginUninstall (run_args ns executionID r)) ''uninstall'' ns store"

definition repo_BeginUpdate ::
  "'n asm_env \<Rightarrow> string \<Rightarrow> Namespace \<Rightarrow> vars \<Rightarrow> string \<Rightarrow> rt_store \<Rightarrow> 'n \<Rightarrow> (begin_error + rt_store) \<times> 'n" where
  "repo_BeginUpdate env executionID ns vars0 targetRef store n =
     begin_with (planned_Assemble env (store ns) ns MethodUpdate vars0 targetRef n)
       (\<lambda>r. CBeginUpdate (run_args ns executionID r)) ''update'' ns store"

text \<open>A run of one step that is tried again is assembled anew from the answers it was given.\<close>

definition answersOf :: "vars \<Rightarrow> vars" where
  "answersOf vars0 = filter (\<lambda>(name, value). \<not> (IsReservedVariable name \<or> Contains name ''/'')) vars0"

definition reassemble ::
  "'n asm_env \<Rightarrow> ArrowRuntime option \<Rightarrow> Namespace \<Rightarrow> string \<Rightarrow> vars \<Rightarrow> 'n \<Rightarrow> (asm_error + Step list) \<times> 'n" where
  "reassemble env runtime ns method vars0 n =
     (case planned_Assemble env runtime ns method (answersOf vars0)
             (if method = MethodUpdate then map_get vars0 ''REF'' else []) n of
        (Inl e, n') \<Rightarrow> (Inl e, n') | (Inr resolved, n') \<Rightarrow> (Inr (reSteps resolved), n'))"

definition repo_MarkOutdated :: "Namespace \<Rightarrow> Namespace list \<Rightarrow> Namespace list \<Rightarrow> rt_store \<Rightarrow> begin_error + rt_store" where
  "repo_MarkOutdated ns added removed store =
     (case store_send (CMarkOutdated ns added removed) store of
        Inl e \<Rightarrow> Inl ErrStateViolation | Inr store' \<Rightarrow> Inr store')"

definition ClearVersionBadge :: "Namespace \<Rightarrow> rt_store \<Rightarrow> cmd_error + rt_store" where
  "ClearVersionBadge ns store = SetVersionOutdated ns False store"

definition MarkPreinstalled :: "Namespace \<Rightarrow> rt_store \<Rightarrow> begin_error + rt_store" where
  "MarkPreinstalled ns store =
     (case store_send (CRecordPreinstalled ns) store of Inl e \<Rightarrow> Inl ErrStateViolation | Inr store' \<Rightarrow> Inr store')"

definition MarkReady :: "Namespace \<Rightarrow> rt_store \<Rightarrow> begin_error + rt_store" where
  "MarkReady ns store =
     (case store_send (CRecordPreinstalled ns) store of Inl e \<Rightarrow> Inl ErrStateViolation | Inr store' \<Rightarrow> Inr store')"

definition ForgetPreinstalled :: "Namespace \<Rightarrow> rt_store \<Rightarrow> rt_store" where
  "ForgetPreinstalled ns store = (if store ns = None then store else store(ns := None))"

definition repo_Forget :: "(Namespace \<Rightarrow> 'n \<Rightarrow> go_error option \<times> 'n) option \<Rightarrow> Namespace \<Rightarrow> rt_store \<Rightarrow> 'n
   \<Rightarrow> (go_error + rt_store) \<times> 'n" where
  "repo_Forget deallocate ns store n =
     (case (case deallocate of None \<Rightarrow> (None, n) | Some d \<Rightarrow> d ns n) of
        (Some e, n') \<Rightarrow> (Inl e, n')
      | (None, n') \<Rightarrow> (Inr (if store ns = None then store else store(ns := None)), n'))"

text \<open>
  The gate of the drains: a shutdown closes it and waits for the drains of one-shot methods that
  are past it.
\<close>

definition IsOneShotMethod :: "string \<Rightarrow> bool" where
  "IsOneShotMethod method \<longleftrightarrow> method \<in> {MethodInstall, MethodUninstall, MethodUpdate, MethodStop}"

record drain_gate =
  drainClosed :: bool
  drainWg :: int

definition tryAddDrain :: "string \<Rightarrow> drain_gate \<Rightarrow> bool \<times> drain_gate" where
  "tryAddDrain method g =
     (if drainClosed g then (False, g)
      else if \<not> IsOneShotMethod method then (True, g)
      else (True, g\<lparr>drainWg := drainWg g + 1\<rparr>))"

definition drain_done :: "string \<Rightarrow> drain_gate \<Rightarrow> drain_gate" where
  "drain_done method g = (if IsOneShotMethod method then g\<lparr>drainWg := drainWg g - 1\<rparr> else g)"

definition waitDrains :: "drain_gate \<Rightarrow> bool \<times> drain_gate" where
  "waitDrains g = (drainWg g = 0, g\<lparr>drainClosed := True\<rparr>)"

section \<open>Preinstalled detection\<close>

definition preinstalledVars :: "Namespace \<Rightarrow> Arrow \<Rightarrow> OS \<Rightarrow> vars" where
  "preinstalledVars ns arrow os =
     default_layer [(''ARROW_NAMESPACE'', ns), (''PLATFORM'', os), (''REF'', RefOr (aResolved arrow) (Ref ns))] (aVariables arrow)"

record preinstalledOpts =
  poOS :: OS
  poProbe :: "(Namespace \<Rightarrow> Step list \<Rightarrow> vars \<Rightarrow> bool) option"
  poMark :: bool
  poForget :: bool

definition enabled :: "preinstalledOpts \<Rightarrow> bool" where
  "enabled opts \<longleftrightarrow> poProbe opts \<noteq> None \<and> poMark opts \<and> poForget opts"

definition runsWithoutInstall :: "preinstalledOpts \<Rightarrow> Arrow \<Rightarrow> bool" where
  "runsWithoutInstall opts arrow \<longleftrightarrow> enabled opts \<and>
     (case map_of (aTargets arrow) (poOS opts) of None \<Rightarrow> False
      | Some target \<Rightarrow> elems (Install (Lifecycle target)) = [] \<and> elems (Execute (Lifecycle target)) \<noteq> [])"

definition preinstalledSteps :: "preinstalledOpts \<Rightarrow> Arrow \<Rightarrow> Step list" where
  "preinstalledSteps opts arrow =
     (if \<not> enabled opts then []
      else case map_of (aTargets arrow) (poOS opts) of None \<Rightarrow> [] | Some target \<Rightarrow> elems (Preinstalled (Lifecycle target)))"

definition markIfPreinstalled :: "preinstalledOpts \<Rightarrow> bool \<Rightarrow> Namespace \<Rightarrow> Arrow \<Rightarrow> rt_store \<Rightarrow> begin_error + rt_store" where
  "markIfPreinstalled opts catalogued ns arrow store =
     (let steps = preinstalledSteps opts arrow
      in if steps = [] \<and> \<not> runsWithoutInstall opts arrow then Inr store
         else if catalogued then Inr store
         else if steps = [] then MarkPreinstalled ns store
         else if \<not> the (poProbe opts) ns steps (preinstalledVars ns arrow (poOS opts)) then Inr (ForgetPreinstalled ns store)
         else MarkPreinstalled ns store)"

section \<open>Laws of the layers\<close>

text \<open>A layer only adds to the variables or overwrites them; it leaves the names it does not bind.\<close>

definition bound :: "vars \<Rightarrow> string \<Rightarrow> bool" where
  "bound m k \<longleftrightarrow> map_of m k \<noteq> None"

lemma bound_put [simp]: "bound (map_put m k v) k' \<longleftrightarrow> k' = k \<or> bound m k'"
  by (simp add: bound_def)

lemma foldl_put_other:
  "(\<forall>x \<in> set xs. c x \<longrightarrow> f x \<noteq> k) \<Longrightarrow> map_of (foldl (\<lambda>m x. if c x then map_put m (f x) (g x) else m) m0 xs) k = map_of m0 k"
  by (induction xs arbitrary: m0) auto

lemma foldl_put_bound:
  "bound m0 k \<or> (\<exists>x \<in> set xs. c x \<and> f x = k) \<Longrightarrow>
   bound (foldl (\<lambda>m x. if c x then map_put m (f x) (g x) else m) m0 xs) k"
  by (induction xs arbitrary: m0) auto

lemma user_layer_foldl:
  "applyUserVars vars0 us = foldl (\<lambda>m x. if \<not> IsReservedVariable (fst x) then map_put m (fst x) (snd x) else m) vars0 us"
  unfolding applyUserVars_def by (rule foldl_cong) auto

lemma stored_layer_foldl: "merge_maps vars0 us = foldl (\<lambda>m x. if True then map_put m (fst x) (snd x) else m) vars0 us"
  unfolding merge_maps_def by (rule foldl_cong) auto

lemma exports_layer_foldl:
  "exports_layer d p vars0 xs = foldl (\<lambda>m x. if True then map_put m (d @ ''.'' @ fst x) (export_value p (snd x)) else m) vars0 xs"
  unfolding exports_layer_def by (rule foldl_cong) auto

lemma exports_layer_other: "CHR ''.'' \<notin> set k \<Longrightarrow> map_of (exports_layer d p vars0 xs) k = map_of vars0 k"
  unfolding exports_layer_foldl by (rule foldl_put_other) auto

lemma exports_layer_bound: "bound vars0 k \<Longrightarrow> bound (exports_layer d p vars0 xs) k"
  unfolding exports_layer_foldl by (rule foldl_put_bound) simp

lemma dep_layer_cases:
  obtains "dep_layer env vars0 edge = vars0" | d p xs where "dep_layer env vars0 edge = exports_layer d p vars0 xs"
  | d w p xs where "dep_layer env vars0 edge = exports_layer d p (map_put vars0 (d @ ''.INSTALL_PATH'') w) xs"
proof (cases "aeGetDepArrow env (deNamespace edge)")
  case (Inl e)
  then show ?thesis using that(1) by (simp add: dep_layer_def)
next
  case a: (Inr a)
  show ?thesis
  proof (cases "map_of (aTargets a) (aeOS env)")
    case None
    with a show ?thesis using that(1) by (simp add: dep_layer_def)
  next
    case t: (Some t)
    let ?d = "BareNamespace (deNamespace edge)"
    show ?thesis
    proof (cases "\<exists>wd w. aeWorkDir env = Some wd \<and> wd (aNamespace a) = Inr w")
      case True
      then obtain wd w where "aeWorkDir env = Some wd" "wd (aNamespace a) = Inr w" by blast
      with a t show ?thesis using that(3) [of ?d _ w "Exports t"] by (simp add: dep_layer_def Let_def)
    next
      case False
      then have "(case aeWorkDir env of None \<Rightarrow> vars0 | Some wd \<Rightarrow> (case wd (aNamespace a) of
          Inl e \<Rightarrow> vars0 | Inr workdir \<Rightarrow> map_put vars0 (?d @ ''.INSTALL_PATH'') workdir)) = vars0"
        by (auto split: option.split sum.split)
      with a t show ?thesis using that(2) [of ?d _ "Exports t"] by (simp add: dep_layer_def Let_def)
    qed
  qed
qed

lemma dep_layer_other: "CHR ''.'' \<notin> set k \<Longrightarrow> map_of (dep_layer env vars0 edge) k = map_of vars0 k"
  by (rule dep_layer_cases [of env vars0 edge]) (auto simp: exports_layer_other)

lemma dep_layers_other: "CHR ''.'' \<notin> set k \<Longrightarrow> map_of (foldl (dep_layer env) vars0 edges) k = map_of vars0 k"
  by (induction edges arbitrary: vars0) (auto simp: dep_layer_other)

lemma dep_layer_bound: "bound vars0 k \<Longrightarrow> bound (dep_layer env vars0 edge) k"
  by (rule dep_layer_cases [of env vars0 edge]) (auto simp: exports_layer_bound)

lemma dep_layers_bound: "bound vars0 k \<Longrightarrow> bound (foldl (dep_layer env) vars0 edges) k"
proof (induction edges arbitrary: vars0)
  case (Cons e es)
  from Cons.IH [OF dep_layer_bound [OF Cons.prems]] show ?case by simp
qed simp

text \<open>The references to a dependency that its layer supplies: its workdir and its exports.\<close>

definition dep_supplies :: "'n asm_env \<Rightarrow> DependencyEdge \<Rightarrow> string \<Rightarrow> bool" where
  "dep_supplies env edge tok \<longleftrightarrow>
     (case aeGetDepArrow env (deNamespace edge) of
        Inl e \<Rightarrow> False
      | Inr depArrow \<Rightarrow>
          (case map_of (aTargets depArrow) (aeOS env) of
             None \<Rightarrow> False
           | Some depTarget \<Rightarrow>
               let depNs = BareNamespace (deNamespace edge)
               in tok = depNs @ ''.INSTALL_PATH'' \<and>
                    (case aeWorkDir env of None \<Rightarrow> False
                     | Some wd \<Rightarrow> (case wd (aNamespace depArrow) of Inl e \<Rightarrow> False | Inr w \<Rightarrow> True)) \<or>
                  tok \<in> (\<lambda>x. depNs @ ''.'' @ fst x) ` set (Exports depTarget)))"

lemma dep_supplied:
  assumes "dep_supplies env edge tok"
  shows "bound (dep_layer env vars0 edge) tok"
proof -
  obtain a t where at: "aeGetDepArrow env (deNamespace edge) = Inr a" "map_of (aTargets a) (aeOS env) = Some t"
    using assms by (auto simp: dep_supplies_def split: sum.splits option.splits)
  let ?d = "BareNamespace (deNamespace edge)"
  let ?v = "case aeWorkDir env of None \<Rightarrow> vars0 | Some wd \<Rightarrow> (case wd (aNamespace a) of
      Inl e \<Rightarrow> vars0 | Inr workdir \<Rightarrow> map_put vars0 (?d @ ''.INSTALL_PATH'') workdir)"
  have l: "dep_layer env vars0 edge = exports_layer ?d (map_get ?v (?d @ ''.INSTALL_PATH'')) ?v (Exports t)"
    by (simp add: dep_layer_def at Let_def)
  consider (path) "tok = ?d @ ''.INSTALL_PATH''" "bound ?v tok" | (named) "tok \<in> (\<lambda>x. ?d @ ''.'' @ fst x) ` set (Exports t)"
    using assms by (auto simp: dep_supplies_def at Let_def split: option.splits sum.splits)
  then show ?thesis
  proof cases
    case path
    from exports_layer_bound [OF path(2)] show ?thesis unfolding l .
  next
    case named
    then show ?thesis unfolding l exports_layer_foldl by (intro foldl_put_bound) auto
  qed
qed

lemma deps_supplied: "edge \<in> set edges \<Longrightarrow> dep_supplies env edge tok \<Longrightarrow> bound (foldl (dep_layer env) vars0 edges) tok"
proof (induction edges arbitrary: vars0)
  case (Cons e es)
  show ?case
  proof (cases "edge \<in> set es")
    case True
    with Cons show ?thesis by simp
  next
    case False
    with Cons.prems have "e = edge" by simp
    with dep_layers_bound [OF dep_supplied [OF Cons.prems(2)]] show ?thesis by simp
  qed
qed simp

lemma ports_other:
  "allocatePorts alloc ns ports held vars0 n = (Inr vars', n') \<Longrightarrow> k \<notin> pName ` set ports \<Longrightarrow> map_of vars' k = map_of vars0 k"
  by (induction alloc ns ports held vars0 n rule: allocatePorts.induct) (auto split: if_splits prod.splits sum.splits)

lemma ports_bound:
  "allocatePorts alloc ns ports held vars0 n = (Inr vars', n') \<Longrightarrow> bound vars0 k \<Longrightarrow> bound vars' k"
  by (induction alloc ns ports held vars0 n rule: allocatePorts.induct) (auto split: if_splits prod.splits sum.splits)

lemma port_bound:
  assumes "allocatePorts alloc ns ports held vars0 n = (Inr vars', n')" "p \<in> set ports" "pRequired p"
  shows "bound vars' (pName p) \<or> map_get held (pName p) \<noteq> []"
  using assms
proof (induction alloc ns ports held vars0 n rule: allocatePorts.induct)
  case (2 alloc ns port ports held vars0 n)
  show ?case
  proof (cases "map_get held (pName port) \<noteq> []")
    case True
    with 2 show ?thesis by auto
  next
    case False
    obtain res m where a: "alloc ns (pProtocol port) (pDefault port) n = (res, m)" by (cases "alloc ns (pProtocol port) (pDefault port) n")
    show ?thesis
    proof (cases res)
      case (Inl e)
      with 2 False a show ?thesis by (auto split: if_splits)
    next
      case (Inr num)
      have r: "allocatePorts alloc ns ports held (map_put vars0 (pName port) (Itoa num)) m = (Inr vars', n')"
        using "2.prems"(1) False a Inr by simp
      show ?thesis
      proof (cases "p = port")
        case True
        then show ?thesis using ports_bound [OF r, of "pName p"] by simp
      next
        case p: False
        then have "p \<in> set ports" using "2.prems"(2) by simp
        from "2.IH"(3) [OF False a [symmetric] Inr r this "2.prems"(3)] show ?thesis .
      qed
    qed
  qed
qed simp

text \<open>What an accepted resolution went through.\<close>

lemma ResolveVariables_Inr:
  assumes "ResolveVariables env runtime ns arrow target userVars steps n = (Inr vars', n')"
  obtains vars0 vars1 vars4 where "builtIns env ns arrow = Inr vars0" "provisionSocket env ns steps vars0 = Inr vars1"
    "(case aeAllocate env of None \<Rightarrow> (Inr (default_layer (foldl (dep_layer env) vars1 (Tools target @ Services target)) (aVariables arrow)), n)
      | Some alloc \<Rightarrow> allocatePorts alloc ns (aNetbridge arrow) (stored_vars runtime arrow)
          (default_layer (foldl (dep_layer env) vars1 (Tools target @ Services target)) (aVariables arrow)) n) = (Inr vars4, n')"
    "vars' = applyUserVars (merge_maps vars4 (stored_vars runtime arrow)) userVars" "requireReferenced arrow steps vars' = None"
  using assms by (auto simp: ResolveVariables_def Let_def split: sum.splits prod.splits option.splits)

lemma stored_not_computed: "name \<in> fst ` set (stored_vars runtime arrow) \<Longrightarrow> \<not> isComputed name"
  by (auto simp: stored_vars_def carryForward_def split: option.splits)

text \<open>A name no layer but the first may bind keeps the value the first gave it.\<close>

lemma reserved_kept:
  assumes "ResolveVariables env runtime ns arrow target userVars steps n = (Inr vars', n')" "IsReservedVariable k"
    and "k \<notin> vName ` set (aVariables arrow)" "k \<notin> pName ` set (aNetbridge arrow)"
  obtains vars0 vars1 where "builtIns env ns arrow = Inr vars0" "provisionSocket env ns steps vars0 = Inr vars1"
    "map_of vars' k = map_of vars1 k"
proof -
  obtain vars0 vars1 vars4 where v: "builtIns env ns arrow = Inr vars0" "provisionSocket env ns steps vars0 = Inr vars1"
    "(case aeAllocate env of None \<Rightarrow> (Inr (default_layer (foldl (dep_layer env) vars1 (Tools target @ Services target)) (aVariables arrow)), n)
      | Some alloc \<Rightarrow> allocatePorts alloc ns (aNetbridge arrow) (stored_vars runtime arrow)
          (default_layer (foldl (dep_layer env) vars1 (Tools target @ Services target)) (aVariables arrow)) n) = (Inr vars4, n')"
    "vars' = applyUserVars (merge_maps vars4 (stored_vars runtime arrow)) userVars"
    by (rule ResolveVariables_Inr [OF assms(1)])
  have dot: "CHR ''.'' \<notin> set k" using assms(2) by (auto simp: IsReservedVariable_def ReservedVariableNames_def)
  have st: "k \<notin> fst ` set (stored_vars runtime arrow)" using stored_not_computed assms(2) by (auto simp: isComputed_def)
  let ?v3 = "default_layer (foldl (dep_layer env) vars1 (Tools target @ Services target)) (aVariables arrow)"
  have v3: "map_of ?v3 k = map_of vars1 k"
    using assms(3) dot unfolding default_layer_def by (subst foldl_put_other) (auto simp: dep_layers_other)
  have v4: "map_of vars4 k = map_of ?v3 k"
    using v(3) ports_other assms(4) by (auto split: option.splits)
  have "map_of vars' k = map_of (merge_maps vars4 (stored_vars runtime arrow)) k"
    using assms(2) unfolding v(4) user_layer_foldl by (intro foldl_put_other) auto
  also have "\<dots> = map_of vars4 k" using st unfolding stored_layer_foldl by (intro foldl_put_other) auto
  finally show ?thesis using that [OF v(1,2)] v3 v4 by simp
qed

lemma default_layer_bound:
  "bound m k \<or> (\<exists>v \<in> set vs. vDefault v \<noteq> [] \<and> vName v = k) \<Longrightarrow> bound (default_layer m vs) k"
  unfolding default_layer_def by (rule foldl_put_bound)

lemma user_layer_bound: "bound m k \<Longrightarrow> bound (applyUserVars m us) k"
  unfolding user_layer_foldl by (rule foldl_put_bound) simp

lemma stored_layer_bound: "bound m k \<or> map_get us k \<noteq> [] \<Longrightarrow> bound (merge_maps m us) k"
  unfolding stored_layer_foldl
  by (rule foldl_put_bound) (auto simp: map_get_def split: option.splits dest: map_of_SomeD intro!: bexI)

lemma Assemble_arrow: "Assemble env runtime ns method userVars targetRef n = (Inr r, n') \<Longrightarrow> \<exists>arrow. aeGetArrow env ns = Inr arrow"
  by (auto simp: Assemble_def split: sum.splits)

lemma Assemble_Inr:
  assumes "Assemble env runtime ns method userVars targetRef n = (Inr r, n')" "aeGetArrow env ns = Inr arrow"
  shows "\<exists>target availableIn vars0. ResolveTarget arrow (aeOS env) = Inr target \<and>
    StepsForMethod target method = Inr (reSteps r, availableIn) \<and>
    ResolveVariables env runtime ns arrow target userVars (reSteps r) n = (Inr vars0, n') \<and>
    reVariables r = (if targetRef \<noteq> [] then map_put vars0 ''REF'' targetRef else vars0) \<and>
    (case aeWorkDir env of None \<Rightarrow> Inr []
      | Some wd \<Rightarrow> (case wd ns of Inl e \<Rightarrow> Inl (AsmWorkDir ns e) | Inr w \<Rightarrow> Inr w)) = Inr (reWorkDir r)"
  using assms by (auto simp: Assemble_def Let_def split: sum.splits prod.splits)

lemma socket_layer:
  "provisionSocket env ns steps vars0 = Inr vars1 \<Longrightarrow> k \<noteq> ''ARROW_UI_LISTEN'' \<Longrightarrow> map_of vars1 k = map_of vars0 k"
  by (auto simp: provisionSocket_def split: option.splits if_splits sum.splits)

lemma builtIns_values:
  assumes "builtIns env ns arrow = Inr vars0"
  shows "map_of vars0 ''REF'' = Some (RefOr (aResolved arrow) (Ref ns))" "map_of vars0 ''PLATFORM'' = Some (aeOS env)"
    "map_of vars0 ''ARROW_NAMESPACE'' = Some ns"
    "case aeWorkDir env of None \<Rightarrow> map_of vars0 ''WORKDIR'' = None \<and> map_of vars0 ''INSTALL_PATH'' = None
     | Some wd \<Rightarrow> (\<exists>w. wd ns = Inr w \<and> map_of vars0 ''WORKDIR'' = Some w \<and> map_of vars0 ''INSTALL_PATH'' = Some w)"
  using assms by (auto simp: builtIns_def split: option.splits sum.splits)

lemma reserved_names:
  "IsReservedVariable ''REF''" "IsReservedVariable ''PLATFORM''" "IsReservedVariable ''ARROW_NAMESPACE''"
  "IsReservedVariable ''WORKDIR''" "IsReservedVariable ''INSTALL_PATH''"
  by code_simp+

subsection \<open>References\<close>

definition run_lists :: "Target \<Rightarrow> StepList list" where
  "run_lists t = (let lc = Lifecycle t in [Install lc, Update lc, Execute lc, Stop lc, Uninstall lc]) @ map (\<lambda>nm. mSteps (snd nm)) (Methods t)"

lemma StepsForMethod_from:
  assumes "StepsForMethod t method = Inr (steps, availableIn)" "s \<in> set steps" "needed s \<noteq> []"
  shows "\<exists>l \<in> set (run_lists t). s \<in> set (elems l)"
proof -
  have d: "needed (NewDependenciesStep x) = []" for x by (simp add: NewDependenciesStep_def needed_def)
  from assms(1) consider "steps = NewDependenciesStep ''Resolve dependencies'' # elems (Install (Lifecycle t))"
    | l where "l \<in> {Install (Lifecycle t), Update (Lifecycle t), Execute (Lifecycle t), Stop (Lifecycle t), Uninstall (Lifecycle t)}" "steps = elems l"
    | m where "map_of (Methods t) method = Some m" "steps = elems (mSteps m)"
    unfolding StepsForMethod_def Let_def
    by (cases "map_of (Methods t) method") (auto split: if_splits)
  then show ?thesis
  proof cases
    case 1
    with assms(2,3) d have "s \<in> set (elems (Install (Lifecycle t)))" by auto
    then show ?thesis by (auto simp: run_lists_def Let_def)
  next
    case (2 l)
    then have "l \<in> set (run_lists t)" by (auto simp: run_lists_def Let_def)
    with assms(2) 2(2) show ?thesis by blast
  next
    case (3 m)
    from map_of_SomeD [OF 3(1)] have "mSteps m \<in> set (run_lists t)" by (force simp: run_lists_def)
    with assms(2) 3(2) show ?thesis by blast
  qed
qed

lemma tokens_checked:
  assumes "checkCompiledStepVars prefix known s = []" "ov \<in> set (needed s)" "tok \<in> set (collectOverrideable ov)"
  shows "Contains tok ''.'' \<or> Contains tok '':'' \<or> tok \<in> set known"
proof -
  have "\<exists>field. checkVarTokens prefix field (overrideableValues ov) known = []"
    using assms(1,2) by (cases s) (auto simp: checkCompiledStepVars_def needed_def)
  then show ?thesis using assms(3)
    by (fastforce simp: checkVarTokens_def checkSingleValueTokens_def collectOverrideable_def split: if_splits)
qed

lemma accepted_refs_known:
  assumes "VariableRefsRule m = []" "(os, t) \<in> set (aTargets m)" "l \<in> set (run_lists t)" "s \<in> set (elems l)"
    and "ov \<in> set (needed s)" "tok \<in> set (collectOverrideable ov)"
  shows "Contains tok ''.'' \<or> Contains tok '':'' \<or> tok \<in> set (buildKnownVars m)"
proof -
  have c: "checkCompiledTargetVariableRefs os t (buildKnownVars m) (buildPreinstalledKnownVars m) = []"
    using assms(1,2) by (auto simp: VariableRefsRule_def)
  have "\<exists>prefix. checkStepListVars prefix l (buildKnownVars m) = []"
    using assms(3) c by (fastforce simp: run_lists_def checkCompiledTargetVariableRefs_def Let_def)
  then obtain prefix where "checkCompiledStepVars prefix (buildKnownVars m) s = []"
    using assms(4) by (auto simp: checkStepListVars_def)
  from tokens_checked [OF this assms(5,6)] show ?thesis .
qed

lemma needed_referenced:
  "s \<in> set steps \<Longrightarrow> ov \<in> set (needed s) \<Longrightarrow> tok \<in> set (collectOverrideable ov) \<Longrightarrow> tok \<in> set (ReferencedVariables steps)"
proof -
  assume s: "s \<in> set steps" and ov: "ov \<in> set (needed s)" "tok \<in> set (collectOverrideable ov)"
  have "tok \<in> set (collectStepReferences s)" using ov by (cases s) (auto simp: needed_def collectStepReferences_def)
  with s show ?thesis unfolding ReferencedVariables_def set_concat set_map by blast
qed

lemma resolved_binds:
  assumes res: "ResolveVariables env runtime ns arrow target userVars steps n = (Inr vars', n')"
    and env: "aeWorkDir env \<noteq> None" "aeAllocate env \<noteq> None"
    and known: "tok \<in> set (buildKnownVars arrow) \<or> (\<exists>edge \<in> set (Tools target @ Services target). dep_supplies env edge tok)"
      "tok \<notin> {''ARROW_UI_LISTEN'', ''ARROW_APP''}"
    and ref: "tok \<in> set (ReferencedVariables steps)" and ports: "\<forall>p \<in> set (aNetbridge arrow). pName p = tok \<longrightarrow> pRequired p"
  shows "bound vars' tok"
proof -
  obtain alloc where alloc: "aeAllocate env = Some alloc" using env(2) by blast
  let ?stored = "stored_vars runtime arrow"
  obtain vars0 vars1 vars4 where w: "builtIns env ns arrow = Inr vars0" "provisionSocket env ns steps vars0 = Inr vars1"
    "(case aeAllocate env of None \<Rightarrow> (Inr (default_layer (foldl (dep_layer env) vars1 (Tools target @ Services target)) (aVariables arrow)), n)
      | Some alloc \<Rightarrow> allocatePorts alloc ns (aNetbridge arrow) ?stored
          (default_layer (foldl (dep_layer env) vars1 (Tools target @ Services target)) (aVariables arrow)) n) = (Inr vars4, n')"
    "vars' = applyUserVars (merge_maps vars4 ?stored) userVars" "requireReferenced arrow steps vars' = None"
    by - (rule ResolveVariables_Inr [OF res], assumption)
  note v = w(1,2) w(3) [unfolded alloc option.case] w(4,5)
  let ?v2 = "foldl (dep_layer env) vars1 (Tools target @ Services target)"
  have up: "bound vars' tok" if "bound (default_layer ?v2 (aVariables arrow)) tok"
    unfolding v(4) using ports_bound [OF v(3) that] by (intro user_layer_bound stored_layer_bound disjI1)
  let ?A = "{''WORKDIR'', ''INSTALL_PATH'', ''ARROW_NAMESPACE'', ''PLATFORM'', ''REF''}" and ?B = "{''ARROW_UI_LISTEN'', ''ARROW_APP''}"
  have names: "set (buildKnownVars arrow) = ?A \<union> (?B \<union> (vName ` set (aVariables arrow) \<union> pName ` set (aNetbridge arrow)))"
    by (simp only: buildKnownVars_def set_append list.set set_map Un_insert_left Un_empty_left)
  let ?dep = "\<exists>edge \<in> set (Tools target @ Services target). dep_supplies env edge tok"
  have "?dep \<or> tok \<in> ?A \<or> tok \<in> vName ` set (aVariables arrow) \<or> tok \<in> pName ` set (aNetbridge arrow)"
    using known(1)
  proof
    assume "tok \<in> set (buildKnownVars arrow)"
    with known(2) names show ?thesis by (simp only: Un_iff simp_thms)
  next
    assume ?dep
    then show ?thesis by (rule disjI1)
  qed
  then consider (dependency) edge where "edge \<in> set (Tools target @ Services target)" "dep_supplies env edge tok"
    | (builtin) "tok \<in> {''WORKDIR'', ''INSTALL_PATH'', ''ARROW_NAMESPACE'', ''PLATFORM'', ''REF''}"
    | (variable) x where "x \<in> set (aVariables arrow)" "vName x = tok"
    | (port) p where "p \<in> set (aNetbridge arrow)" "pName p = tok"
    by (elim disjE bexE imageE) simp_all
  then show ?thesis
  proof cases
    case (dependency edge)
    from deps_supplied [OF this] show ?thesis by (intro up default_layer_bound disjI1)
  next
    case builtin
    have "bound vars0 tok"
      using builtin env(1) builtIns_values [OF v(1)] by (auto simp: bound_def)
    then have "bound vars1 tok" using socket_layer [OF v(2)] known(2) by (simp add: bound_def)
    from dep_layers_bound [OF this] show ?thesis by (intro up default_layer_bound disjI1)
  next
    case (variable x)
    show ?thesis
    proof (cases "vDefault x = []")
      case True
      have "map_get vars' tok \<noteq> []"
        using v(5) variable True ref by (auto simp: requireReferenced_def Let_def find_None_iff)
      then show ?thesis by (cases "map_of vars' tok") (auto simp: bound_def map_get_def)
    next
      case False
      with variable show ?thesis by (intro up default_layer_bound) blast
    qed
  next
    case (port p)
    then have "pRequired p" using ports by blast
    from port_bound [OF v(3) port(1) this] port(2) have "bound (merge_maps vars4 ?stored) tok" by (auto intro: stored_layer_bound)
    then show ?thesis unfolding v(4) by (rule user_layer_bound)
  qed
qed

section \<open>Properties\<close>

text \<open>
  C30. What the core computes for a run is the core's: unless the manifest itself declares a name
  the core reserves, the ref, the platform, the namespace and the workdir of a run are the ones
  computed for it, whatever the caller sent, whatever an earlier run left and whatever the
  dependencies export.
\<close>

theorem computed_values_authoritative:
  assumes "Assemble env runtime ns method userVars targetRef n = (Inr r, n')" "aeGetArrow env ns = Inr arrow"
    and "\<forall>name \<in> set (map vName (aVariables arrow) @ map pName (aNetbridge arrow)). \<not> IsReservedVariable name"
  shows "map_of (reVariables r) ''REF'' = Some (if targetRef \<noteq> [] then targetRef else RefOr (aResolved arrow) (Ref ns)) \<and>
    map_of (reVariables r) ''PLATFORM'' = Some (aeOS env) \<and> map_of (reVariables r) ''ARROW_NAMESPACE'' = Some ns \<and>
    (case aeWorkDir env of
       None \<Rightarrow> map_of (reVariables r) ''WORKDIR'' = None \<and> map_of (reVariables r) ''INSTALL_PATH'' = None
     | Some wd \<Rightarrow> wd ns = Inr (reWorkDir r) \<and> map_of (reVariables r) ''WORKDIR'' = Some (reWorkDir r) \<and>
         map_of (reVariables r) ''INSTALL_PATH'' = Some (reWorkDir r))"
proof -
  obtain target availableIn vars0 where a:
    "ResolveVariables env runtime ns arrow target userVars (reSteps r) n = (Inr vars0, n')"
    "reVariables r = (if targetRef \<noteq> [] then map_put vars0 ''REF'' targetRef else vars0)"
    "(case aeWorkDir env of None \<Rightarrow> Inr []
      | Some wd \<Rightarrow> (case wd ns of Inl e \<Rightarrow> Inl (AsmWorkDir ns e) | Inr w \<Rightarrow> Inr w)) = Inr (reWorkDir r)"
    using Assemble_Inr [OF assms(1,2)] by blast
  have kept: "map_of vars0 k = map_of b k" if "IsReservedVariable k" "k \<noteq> ''ARROW_UI_LISTEN''" "builtIns env ns arrow = Inr b" for k b
  proof -
    have "k \<notin> vName ` set (aVariables arrow)" "k \<notin> pName ` set (aNetbridge arrow)" using assms(3) that(1) by auto
    from reserved_kept [OF a(1) that(1) this] socket_layer that(2,3) show ?thesis by (metis sum.inject(2))
  qed
  obtain b where b: "builtIns env ns arrow = Inr b" by (rule ResolveVariables_Inr [OF a(1)])
  note val = kept [OF reserved_names(1) _ b] kept [OF reserved_names(2) _ b] kept [OF reserved_names(3) _ b]
    kept [OF reserved_names(4) _ b] kept [OF reserved_names(5) _ b]
  show ?thesis using val builtIns_values [OF b] a(2,3) by (auto split: option.splits sum.splits)
qed

definition plain_env :: "unit asm_env" where
  "plain_env = \<lparr>aeGetArrow = (\<lambda>_. Inr (portable_arrow\<lparr>aResolved := \<lparr>rRef = ''v2.0.0'', rCommit = ''c2'', rFingerprint = ''c2''\<rparr>,
       aVariables := [\<lparr>vName = ''MODE'', vDescription = [], vDefault = ''fast'', vValues = [], vMin = 0, vMax = 0, vSensitive = False,
         vType = VariableTypeString\<rparr>]\<rparr>)),
     aeGetDepArrow = (\<lambda>_. Inl AsmNotFound), aeWorkDir = Some (\<lambda>_. Inr ''/w''),
     aeAllocate = Some (\<lambda>_ _ _ n. (Inr 4000, n)), aePrepare = None, aeOS = OSLinuxAMD64\<rparr>"

theorem computed_values_authoritative_witness:
  "\<exists>r. fst (Assemble plain_env None ''h/u/r@stable'' MethodInstall [(''REF'', ''evil''), (''WORKDIR'', ''/'')] [] ()) = Inr r \<and>
     map_of (reVariables r) ''REF'' = Some ''v2.0.0'' \<and> map_of (reVariables r) ''WORKDIR'' = Some ''/w''"
proof -
  let ?A = "Assemble plain_env None ''h/u/r@stable'' MethodInstall [(''REF'', ''evil''), (''WORKDIR'', ''/'')] [] ()"
  have k: "case fst ?A of Inl e \<Rightarrow> False | Inr r \<Rightarrow> True" by code_simp
  then obtain r where r: "?A = (Inr r, snd ?A)" by (cases ?A) (auto split: sum.splits)
  obtain arrow where arrow: "aeGetArrow plain_env ''h/u/r@stable'' = Inr arrow" using Assemble_arrow [OF r] by blast
  then have "\<forall>name \<in> set (map vName (aVariables arrow) @ map pName (aNetbridge arrow)). \<not> IsReservedVariable name"
    "RefOr (aResolved arrow) (Ref ''h/u/r@stable'') = ''v2.0.0''" "aeWorkDir plain_env = Some (\<lambda>_. Inr ''/w'')"
    by (auto simp: plain_env_def portable_arrow_def named_arrow_def no_arrow_def IsReservedVariable_def
        ReservedVariableNames_def RefOr_def)
  with computed_values_authoritative [OF r arrow] have "map_of (reVariables r) ''REF'' = Some ''v2.0.0'' \<and>
      map_of (reVariables r) ''WORKDIR'' = Some ''/w''" by simp
  with r show ?thesis by (metis fst_conv)
qed


text \<open>An environment with a dependency, whose export a command of the arrow mentions.\<close>

definition using_arrow :: Arrow where
  "using_arrow = named_arrow\<lparr>aTargets := [(OSLinuxAMD64, \<lparr>Requirements = \<lparr>CpuCores = 0, MemoryGB = 0, DiskGB = 0\<rparr>,
     Tools = [\<lparr>deNamespace = ''h/u/jre@stable'', deConstraint = [], deType = ToolDep\<rparr>], Services = [], Exports = [],
     Lifecycle = no_lifecycle\<lparr>Install := Some [run_step (plain ''${h/u/jre.JAVA} -jar ${WORKDIR}/app.jar ${x.y}'')],
       Uninstall := Some [run_step (plain ''rm app.jar'')]\<rparr>, Methods = [],
     tExpose = \<lparr>exCLI = None, exDesktop = None\<rparr>\<rparr>)]\<rparr>"

definition jre_arrow :: Arrow where
  "jre_arrow = named_arrow\<lparr>aNamespace := ''h/u/jre@stable'', aTargets := [(OSLinuxAMD64,
     \<lparr>Requirements = \<lparr>CpuCores = 0, MemoryGB = 0, DiskGB = 0\<rparr>, Tools = [], Services = [],
      Exports = [(''JAVA'', ''./bin/java'')], Lifecycle = no_lifecycle, Methods = [],
      tExpose = \<lparr>exCLI = None, exDesktop = None\<rparr>\<rparr>)]\<rparr>"

definition using_env :: "unit asm_env" where
  "using_env = \<lparr>aeGetArrow = (\<lambda>_. Inr using_arrow), aeGetDepArrow = (\<lambda>_. Inr jre_arrow),
     aeWorkDir = Some (\<lambda>ns. Inr (''/w/'' @ Ref ns)), aeAllocate = Some (\<lambda>_ _ _ n. (Inr 4000, n)),
     aePrepare = None, aeOS = OSLinuxAMD64\<rparr>"


text \<open>The other reference of that command names no declared dependency.\<close>

lemma unsupplied_reference_accepted:
  "ValidateCompiled using_arrow = []"
  "case fst (Assemble using_env None ''h/u/r@v1'' MethodInstall [] [] ()) of
     Inl e \<Rightarrow> False | Inr r \<Rightarrow> ''x.y'' \<in> set (ReferencedVariables (reSteps r)) \<and> map_of (reVariables r) ''x.y'' = None"
  by code_simp+

lemma probe_refs_known:
  assumes "VariableRefsRule m = []" "(os, t) \<in> set (aTargets m)" "s \<in> set (elems (Preinstalled (Lifecycle t)))"
    and "ov \<in> set (needed s)" "tok \<in> set (collectOverrideable ov)"
  shows "Contains tok ''.'' \<or> Contains tok '':'' \<or> tok \<in> set (buildPreinstalledKnownVars m)"
proof -
  have "checkCompiledTargetVariableRefs os t (buildKnownVars m) (buildPreinstalledKnownVars m) = []"
    using assms(1,2) by (auto simp: VariableRefsRule_def)
  then obtain prefix where "checkCompiledStepVars prefix (buildPreinstalledKnownVars m) s = []"
    using assms(3) by (auto simp: checkCompiledTargetVariableRefs_def checkStepListVars_def Let_def)
  from tokens_checked [OF this assms(4,5)] show ?thesis .
qed

lemma preinstalledVars_bound:
  assumes "tok \<in> set (buildPreinstalledKnownVars m)"
  shows "bound (preinstalledVars ns m os) tok"
proof -
  from assms have "tok \<in> set [''ARROW_NAMESPACE'', ''PLATFORM'', ''REF''] \<or> (\<exists>v \<in> set (aVariables m). vDefault v \<noteq> [] \<and> vName v = tok)"
    unfolding buildPreinstalledKnownVars_def set_append Un_iff by auto
  then show ?thesis unfolding preinstalledVars_def by (intro default_layer_bound) (auto simp: bound_def)
qed

lemma mark_preinstalled:
  "MarkPreinstalled ns store = Inr store' \<Longrightarrow> GetState store' ns = ArrowStateReady \<and> (\<forall>other. other \<noteq> ns \<longrightarrow> store' other = store other)"
  by (auto simp: MarkPreinstalled_def store_send_def agg_send_def rt_validate_def rt_emit_def RecordPreinstalled_def GetState_def
      split: sum.splits option.splits)

text \<open>
  Detecting software Quiver did not install settles the runtime and depends on nothing but
  the manifest: the probe of an accepted manifest is given every variable its commands and paths
  mention; when it answers yes the arrow is Ready, when it answers no the arrow is Absent whatever
  an aborted add left behind, and no other arrow is touched.
\<close>

theorem preinstalled_detection_settles:
  assumes "ValidateCompiled arrow = []" "preinstalledSteps opts arrow \<noteq> []"
    and "markIfPreinstalled opts False ns arrow store = Inr store'"
  shows "(\<forall>s \<in> set (preinstalledSteps opts arrow). \<forall>ov \<in> set (needed s). \<forall>tok \<in> set (collectOverrideable ov).
      Contains tok ''.'' \<or> Contains tok '':'' \<or> map_of (preinstalledVars ns arrow (poOS opts)) tok \<noteq> None) \<and>
    GetState store' ns =
      (if the (poProbe opts) ns (preinstalledSteps opts arrow) (preinstalledVars ns arrow (poOS opts))
       then ArrowStateReady else ArrowStateAbsent) \<and>
    (\<forall>other. other \<noteq> ns \<longrightarrow> store' other = store other)"
proof (intro conjI ballI)
  obtain t where t: "(poOS opts, t) \<in> set (aTargets arrow)" "preinstalledSteps opts arrow = elems (Preinstalled (Lifecycle t))"
    using assms(2) by (auto simp: preinstalledSteps_def split: if_splits option.splits dest: map_of_SomeD)
  have rule: "VariableRefsRule arrow = []" using assms(1) by (simp add: ValidateCompiled_def RunCompiled_def AllCompiled_def)
  fix s ov tok
  assume s: "s \<in> set (preinstalledSteps opts arrow)" "ov \<in> set (needed s)" "tok \<in> set (collectOverrideable ov)"
  from probe_refs_known [OF rule t(1) s(1) [unfolded t(2)] s(2,3)]
  show "Contains tok ''.'' \<or> Contains tok '':'' \<or> map_of (preinstalledVars ns arrow (poOS opts)) tok \<noteq> None"
    using preinstalledVars_bound [of tok arrow ns "poOS opts"] unfolding bound_def by blast
next
  show "GetState store' ns = (if the (poProbe opts) ns (preinstalledSteps opts arrow) (preinstalledVars ns arrow (poOS opts))
       then ArrowStateReady else ArrowStateAbsent)"
    using assms(2,3) by (auto simp: markIfPreinstalled_def Let_def ForgetPreinstalled_def GetState_def [of "fun_upd _ _ _"]
        split: if_splits dest: mark_preinstalled) (simp_all add: GetState_def)
  show "\<forall>other. other \<noteq> ns \<longrightarrow> store' other = store other"
    using assms(2,3) by (auto simp: markIfPreinstalled_def Let_def ForgetPreinstalled_def split: if_splits dest: mark_preinstalled)
qed

definition probed_arrow :: Arrow where
  "probed_arrow = portable_arrow\<lparr>aTargets := [(OSLinuxAMD64, \<lparr>Requirements = \<lparr>CpuCores = 0, MemoryGB = 0, DiskGB = 0\<rparr>, Tools = [],
     Services = [], Exports = [], Lifecycle = no_lifecycle\<lparr>Execute := Some [run_step (plain ''app'')],
       Preinstalled := Some [run_step (plain ''which ${ARROW_NAMESPACE}'')]\<rparr>, Methods = [],
     tExpose = \<lparr>exCLI = None, exDesktop = None\<rparr>\<rparr>)]\<rparr>"

theorem preinstalled_detection_settles_witness:
  "map_option rtState ((\<lambda>s. case s of Inl e \<Rightarrow> None | Inr st \<Rightarrow> st ''h/u/r'')
     (markIfPreinstalled \<lparr>poOS = OSLinuxAMD64, poProbe = Some (\<lambda>ns steps vs. True), poMark = True, poForget = True\<rparr> False ''h/u/r''
        probed_arrow (\<lambda>_. None))) = Some ArrowStateReady"
proof -
  let ?o = "\<lparr>poOS = OSLinuxAMD64, poProbe = Some (\<lambda>ns steps vs. True), poMark = True, poForget = True\<rparr>"
  let ?m = "markIfPreinstalled ?o False ''h/u/r'' probed_arrow (\<lambda>_. None)"
  have acc: "ValidateCompiled probed_arrow = []" by code_simp
  have st: "preinstalledSteps ?o probed_arrow \<noteq> []" by code_simp
  have ok: "case ?m of Inl e \<Rightarrow> False | Inr s \<Rightarrow> True"
    using st by (simp add: markIfPreinstalled_def Let_def MarkPreinstalled_def store_send_def agg_send_def rt_validate_def
        rt_emit_def RecordPreinstalled_def absent_runtime_def)
  then obtain s where s: "?m = Inr s" by (auto split: sum.splits)
  from preinstalled_detection_settles [OF acc st s] have "GetState s ''h/u/r'' = ArrowStateReady" by simp
  then show ?thesis by (auto simp: s GetState_def split: option.splits)
qed

text \<open>
  The variables of the last run are inherited whole: a default the manifest has changed since is
  outlived by the one the last run was given.
\<close>

definition changed_default_env :: "unit asm_env" where
  "changed_default_env = plain_env\<lparr>aeGetArrow := (\<lambda>ns. case aeGetArrow plain_env ns of Inl e \<Rightarrow> Inl e
     | Inr a \<Rightarrow> Inr (a\<lparr>aVariables := map (\<lambda>v. v\<lparr>vDefault := ''safe''\<rparr>) (aVariables a)\<rparr>))\<rparr>"

definition variables_of :: "(asm_error + ResolvedExecution) \<times> 'n \<Rightarrow> vars" where
  "variables_of res = (case fst res of Inl e \<Rightarrow> [] | Inr r \<Rightarrow> reVariables r)"

lemma old_default_outlives_change:
  "let first = variables_of (Assemble plain_env None ''h/u/r@stable'' MethodInstall [] [] ());
       runtime = \<lparr>rtRef = ''h/u/r@stable'', rtState = ArrowStateReady, rtExecution = None,
         rtLastReturn = Some \<lparr>retExecutionID = ''e1'', retMethod = MethodInstall, retOutcome = ExecutionOutcomeSuccess, retSteps = [],
           retVariables = first\<rparr>,
         rtPendingDepSync = None\<rparr>
   in map_get (variables_of (Assemble changed_default_env None ''h/u/r@stable'' MethodInstall [] [] ())) ''MODE'' = ''safe'' \<and>
      map_get (variables_of (Assemble changed_default_env (Some runtime) ''h/u/r@stable'' MethodInstall [] [] ())) ''MODE'' = ''fast''"
  by code_simp

end
