(* ===== verification/Wizard.thy ===== *)
theory Wizard
  imports Assembler "HOL-Library.Sublist"
begin

text \<open>
  The wizard (engine/wizard/wizard.go and its step handlers): one run of a list of steps, with the
  events it reports, the probe that answers whether software is present, and the gate of a shutdown.
  Regular files are part of the world the handlers act on, so that a download is followed from the
  staging file to its destination; processes, archives, the shelf and the network are injected.
\<close>

section \<open>Expanding references\<close>

text \<open>\<open>Request.Expand\<close>: the remainder after a match is scanned again, so it is shorter each time.\<close>

fun cut_open :: "string \<Rightarrow> (string \<times> string) option" where
  "cut_open (c # d # s) =
     (if c = CHR 0x24 \<and> d = CHR ''{'' then Some ([], s)
      else map_option (\<lambda>(pre, body). (c # pre, body)) (cut_open (d # s)))"
| "cut_open _ = None"

lemma cut_open_Some: "cut_open s = Some (pre, body) \<Longrightarrow> s = pre @ ''${'' @ body"
  by (induction s arbitrary: pre rule: cut_open.induct) (auto split: if_splits)

function Expand :: "vars \<Rightarrow> string \<Rightarrow> string" where
  "Expand vs raw =
     (case cut_open raw of
        None \<Rightarrow> raw
      | Some (pre, body) \<Rightarrow>
          (case cut_byte CHR ''}'' body of
             None \<Rightarrow> raw
           | Some (name, rest) \<Rightarrow>
               pre @ (case map_of vs name of Some value \<Rightarrow> value | None \<Rightarrow> ''${'' @ name @ ''}'') @ Expand vs rest))"
  by pat_completeness auto
termination
  by (relation "measure (length \<circ> snd)") (auto simp: cut_byte_Some dest!: cut_open_Some)

declare Expand.simps [simp del]

section \<open>Durations\<close>

text \<open>
  \<open>time.ParseDuration\<close> in nanoseconds; the fraction is computed exactly where the library rounds a
  float, which differs by less than a nanosecond.
\<close>

definition duration_unit :: "string \<Rightarrow> int option" where
  "duration_unit u =
     map_of [(''ns'', 1), (''us'', 1000), ([CHR 0xC2, CHR 0xB5, CHR ''s''], 1000), ([CHR 0xCE, CHR 0xBC, CHR ''s''], 1000),
       (''ms'', 1000000), (''s'', 1000000000), (''m'', 60000000000), (''h'', 3600000000000)] u"

definition duration_limit :: int where "duration_limit = 9223372036854775808"

definition unit_end :: "char \<Rightarrow> bool" where "unit_end c \<longleftrightarrow> c = CHR ''.'' \<or> is_digit c"

definition duration_item :: "string \<Rightarrow> (int \<times> string) option" where
  "duration_item s =
     (let ip = takeWhile is_digit s; s1 = dropWhile is_digit s;
          dot = s1 \<noteq> [] \<and> hd s1 = CHR ''.''; s2 = (if dot then tl s1 else s1);
          fp = (if dot then takeWhile is_digit s2 else []); s3 = (if dot then dropWhile is_digit s2 else s2);
          u = takeWhile (\<lambda>c. \<not> unit_end c) s3; rest = dropWhile (\<lambda>c. \<not> unit_end c) s3; v = digits_value ip
      in if v > duration_limit \<or> (ip = [] \<and> fp = []) \<or> u = [] then None
         else case duration_unit u of
                None \<Rightarrow> None
              | Some unit \<Rightarrow>
                  if v > duration_limit div unit then None
                  else (let d = v * unit + digits_value fp * unit div 10 ^ length fp
                        in if d > duration_limit then None else Some (d, rest)))"

lemma duration_item_shorter: "duration_item s = Some (d, rest) \<Longrightarrow> length rest < length s"
proof -
  assume a: "duration_item s = Some (d, rest)"
  define s1 where "s1 = dropWhile is_digit s"
  define s2 where "s2 = (if s1 \<noteq> [] \<and> hd s1 = CHR ''.'' then dropWhile is_digit (tl s1) else s1)"
  have u: "takeWhile (\<lambda>c. \<not> unit_end c) s2 \<noteq> []" "rest = dropWhile (\<lambda>c. \<not> unit_end c) s2"
    using a by (auto simp: duration_item_def Let_def s1_def s2_def split: if_splits option.splits)
  have "length rest < length s2"
    using u by (cases s2) (auto simp: le_imp_less_Suc length_dropWhile_le)
  also have "length s2 \<le> length s1"
    by (auto simp: s2_def intro: order_trans [OF length_dropWhile_le])
  also have "length s1 \<le> length s" by (simp add: s1_def length_dropWhile_le)
  finally show ?thesis .
qed

function duration_sum :: "int \<Rightarrow> string \<Rightarrow> int option" where
  "duration_sum acc s =
     (if s = [] then Some acc
      else case duration_item s of
             None \<Rightarrow> None
           | Some (d, rest) \<Rightarrow> if acc + d > duration_limit then None else duration_sum (acc + d) rest)"
  by pat_completeness auto
termination
  by (relation "measure (length \<circ> snd)") (auto dest: duration_item_shorter)

declare duration_sum.simps [simp del]

definition ParseDuration :: "string \<Rightarrow> int option" where
  "ParseDuration raw =
     (let signed = raw \<noteq> [] \<and> hd raw \<in> {CHR ''-'', CHR ''+''}; neg = signed \<and> hd raw = CHR ''-'';
          s = (if signed then tl raw else raw)
      in if s = ''0'' then Some 0
         else if s = [] then None
         else case duration_sum 0 s of
                None \<Rightarrow> None
              | Some d \<Rightarrow> if neg then Some (- d) else if d > duration_limit - 1 then None else Some d)"

section \<open>Events and requests\<close>

datatype EventKind =
    EventKindStepStarted | EventKindStepCompleted | EventKindStepFailed | EventKindPID | EventKindEnded
  | EventKindSurface | EventKindSurfaceClosed

datatype wiz_error =
    ErrUnknownStepType | ErrShuttingDown | ErrVacuousProbe | ErrNoWorkDir | InvalidTimeout string | ErrNonZeroExit int
  | ErrNoSocket | ErrBadStaticDir | ErrNoProcess | ErrInvalidSignal | ErrUnsupportedURL | ErrDestinationIsDirectory
  | ErrChecksumMismatch | ErrChecksumUnresolved | ErrUnsupportedChecksumAlgorithm | ErrChecksumEntryMissing
  | ErrRefused "string list" | ErrUnknownKind | ErrPortableFormat | ErrReplace | ErrContext | WizOther string

record Event =
  evKind :: EventKind
  evStepIndex :: nat
  evPID :: int
  evErr :: "wiz_error option"
  evNote :: string
  evOutcome :: "ExecutionOutcome option"
  evSurface :: "Surface option"

definition event :: "EventKind \<Rightarrow> Event" where
  "event k = \<lparr>evKind = k, evStepIndex = 0, evPID = 0, evErr = None, evNote = [], evOutcome = None, evSurface = None\<rparr>"

definition step_event :: "EventKind \<Rightarrow> nat \<Rightarrow> Event" where
  "step_event k i = (event k)\<lparr>evStepIndex := i\<rparr>"

record RunRequest =
  rrNamespace :: Namespace
  rrMethod :: string
  rrVariables :: vars
  rrSteps :: "Step list"
  rrWorkDir :: string
  rrPID :: int

record Request =
  rqNSKey :: string
  rqWorkDir :: string
  rqVars :: vars
  rqOSArch :: string
  rqPID :: int

text \<open>The channel of an execution holds sixteen events; a full one drops what is emitted.\<close>

record ExecutionImpl =
  xiEvents :: "Event list"
  xiDone :: bool
  xiOutcome :: "ExecutionOutcome option"

definition NewExecution :: ExecutionImpl where
  "NewExecution = \<lparr>xiEvents = [], xiDone = False, xiOutcome = None\<rparr>"

definition Emit :: "Event \<Rightarrow> ExecutionImpl \<Rightarrow> ExecutionImpl" where
  "Emit ev e = (if length (xiEvents e) < 16 then e\<lparr>xiEvents := xiEvents e @ [ev]\<rparr> else e)"

definition Finish :: "ExecutionOutcome \<Rightarrow> ExecutionImpl \<Rightarrow> ExecutionImpl" where
  "Finish outcome e =
     (Emit ((event EventKindEnded)\<lparr>evOutcome := Some outcome\<rparr>) (e\<lparr>xiOutcome := Some outcome\<rparr>))\<lparr>xiDone := True\<rparr>"

section \<open>The world of the handlers\<close>

record 'w world =
  wFiles :: "string \<Rightarrow> string option"
  wRest :: 'w

record AppliedEntry =
  aeKind :: ExposeKind
  aeIndex :: nat

record Refusal =
  rfKind :: ExposeKind
  rfIndex :: nat
  rfReason :: string

record Applied =
  apEntries :: "AppliedEntry list"
  apRefused :: "Refusal list"
  apSkipped :: "Refusal list"

record 'w wz_env =
  wzOS :: string
  wzPoll :: "'w world \<Rightarrow> bool \<times> 'w world"
  wzStart :: "string \<Rightarrow> string \<Rightarrow> 'w world \<Rightarrow> (wiz_error + int) \<times> 'w world"
  wzWait :: "int \<Rightarrow> 'w world \<Rightarrow> wiz_error option \<times> 'w world"
  wzExitCode :: "int \<Rightarrow> 'w world \<Rightarrow> int"
  wzSignalPID :: "int \<Rightarrow> SignalKind \<Rightarrow> 'w world \<Rightarrow> wiz_error option \<times> 'w world"
  wzDeps :: "(Request \<Rightarrow> Step \<Rightarrow> 'w world \<Rightarrow> wiz_error option \<times> 'w world) option"
  wzOpen :: "string \<Rightarrow> 'w world \<Rightarrow> wiz_error option"
  wzDetect :: "string \<Rightarrow> 'w world \<Rightarrow> wiz_error + bool"
  wzUnpack :: "string \<Rightarrow> string \<Rightarrow> 'w world \<Rightarrow> wiz_error option \<times> 'w world"
  wzInstall :: "Request \<Rightarrow> string \<Rightarrow> string \<Rightarrow> string \<Rightarrow> 'w world \<Rightarrow> wiz_error option \<times> 'w world"
  wzApply :: "Namespace \<Rightarrow> string \<Rightarrow> Expose \<Rightarrow> string \<Rightarrow> 'w world \<Rightarrow> (Applied \<times> wiz_error option) \<times> 'w world"
  wzRemove :: "string \<Rightarrow> 'w world \<Rightarrow> wiz_error option \<times> 'w world"
  wzAppEntry :: "string \<Rightarrow> 'w world \<Rightarrow> wiz_error + string"
  wzEvalSymlinks :: "string \<Rightarrow> 'w world \<Rightarrow> string option"
  wzIsDir :: "string \<Rightarrow> 'w world \<Rightarrow> bool"
  wzDownload :: "string \<Rightarrow> 'w world \<Rightarrow> string option \<times> wiz_error option"
  wzFetch :: "string \<Rightarrow> 'w world \<Rightarrow> wiz_error + string"
  wzScheme :: "string \<Rightarrow> string option"
  wzURLPath :: "string \<Rightarrow> string option"
  wzSha256 :: "string \<Rightarrow> string"
  wzRenameErr :: "string \<Rightarrow> string \<Rightarrow> 'w world \<Rightarrow> bool"
  wzSuffix :: "nat \<Rightarrow> 'w world \<Rightarrow> string"
  wzStale :: "string \<Rightarrow> 'w world \<Rightarrow> bool"

type_synonym 'w handler_result = "Event list \<times> wiz_error option \<times> 'w world"

definition ResolvePath :: "Request \<Rightarrow> string \<Rightarrow> string" where
  "ResolvePath req raw =
     (let path = Expand (rqVars req) raw in if HasPrefix path ''/'' then path else filepath_Join (rqWorkDir req) path)"

definition WithTimeout :: "string \<Rightarrow> wiz_error option" where
  "WithTimeout raw =
     (if raw = [] then None else case ParseDuration raw of None \<Rightarrow> Some (InvalidTimeout raw) | Some d \<Rightarrow> None)"

section \<open>Run steps\<close>

text \<open>\<open>filepath.Rel\<close> of two absolute, cleaned Unix paths.\<close>

fun drop_common :: "string list \<Rightarrow> string list \<Rightarrow> string list \<times> string list" where
  "drop_common (a # as) (b # bs) = (if a = b then drop_common as bs else (a # as, b # bs))"
| "drop_common as bs = (as, bs)"

definition filepath_Rel :: "string \<Rightarrow> string \<Rightarrow> string" where
  "filepath_Rel base target =
     (let (up, down) = drop_common (path_clean [] (Split base CHR ''/'')) (path_clean [] (Split target CHR ''/''))
      in if up = [] \<and> down = [] then ''.'' else Join (map (\<lambda>_. ''..'') up @ down) ''/'')"

definition resolveStatic :: "'w wz_env \<Rightarrow> string \<Rightarrow> string \<Rightarrow> 'w world \<Rightarrow> wiz_error + string" where
  "resolveStatic env workdir rel w =
     (if \<not> filepath_IsLocal rel then Inl ErrBadStaticDir
      else case (wzEvalSymlinks env workdir w, wzEvalSymlinks env (filepath_Join workdir rel) w) of
             (Some realWork, Some realDir) \<Rightarrow>
               (let relToWork = filepath_Rel realWork realDir
                in if \<not> filepath_IsLocal relToWork \<and> relToWork \<noteq> ''.'' then Inl ErrBadStaticDir
                   else if \<not> wzIsDir env realDir w then Inl ErrBadStaticDir else Inr realDir)
           | _ \<Rightarrow> Inl ErrBadStaticDir)"

definition surfaceFor :: "'w wz_env \<Rightarrow> Request \<Rightarrow> UIOptions \<Rightarrow> 'w world \<Rightarrow> wiz_error + Surface" where
  "surfaceFor env req ui w =
     (let path = (if uiPath ui = [] then ''/'' else uiPath ui)
      in if Listens ui then
           (if map_get (rqVars req) ''ARROW_UI_LISTEN'' = [] then Inl ErrNoSocket
            else Inr \<lparr>sfTitle = uiTitle ui, sfMode = SurfaceModeListen, sfPath = path, sfDir = [], sfReady = False\<rparr>)
         else case resolveStatic env (rqWorkDir req) (Expand (rqVars req) (uiStatic ui)) w of
                Inl e \<Rightarrow> Inl e
              | Inr dir \<Rightarrow>
                  Inr \<lparr>sfTitle = uiTitle ui, sfMode = SurfaceModeStatic, sfPath = path, sfDir = dir, sfReady = True\<rparr>)"

text \<open>The events that open and close the interface of a run.\<close>

definition openSurface ::
  "'w wz_env \<Rightarrow> Request \<Rightarrow> UIOptions option \<Rightarrow> 'w world \<Rightarrow> wiz_error + Event list \<times> Event list" where
  "openSurface env req ui w =
     (case ui of
        None \<Rightarrow> Inr ([], [])
      | Some u \<Rightarrow>
          (case surfaceFor env req u w of
             Inl e \<Rightarrow> Inl e
           | Inr surface \<Rightarrow>
               Inr ([(event EventKindSurface)\<lparr>evSurface := Some surface\<rparr>], [event EventKindSurfaceClosed])))"

definition run_process :: "'w wz_env \<Rightarrow> string \<Rightarrow> string \<Rightarrow> 'w world \<Rightarrow> 'w handler_result" where
  "run_process env command workDir w =
     (case wzStart env command workDir w of
        (Inl e, w1) \<Rightarrow> ([], Some e, w1)
      | (Inr pid, w1) \<Rightarrow>
          (let started = [(event EventKindPID)\<lparr>evPID := pid\<rparr>]
           in case wzWait env pid w1 of
                (Some e, w2) \<Rightarrow> (started, Some e, w2)
              | (None, w2) \<Rightarrow>
                  (started, (if wzExitCode env pid w2 \<noteq> 0 then Some (ErrNonZeroExit (wzExitCode env pid w2)) else None), w2)))"

definition run_Execute ::
  "'w wz_env \<Rightarrow> Request \<Rightarrow> string Overrideable \<Rightarrow> string Overrideable \<Rightarrow> UIOptions option \<Rightarrow> 'w world \<Rightarrow> 'w handler_result" where
  "run_Execute env req cmd timeout ui w =
     (if rqWorkDir req = [] then ([], Some ErrNoWorkDir, w)
      else case WithTimeout (Overrideable_Resolve timeout (rqOSArch req)) of
             Some e \<Rightarrow> ([], Some e, w)
           | None \<Rightarrow>
               (let command = Expand (rqVars req) (Overrideable_Resolve cmd (rqOSArch req))
                in case openSurface env req ui w of
                     Inl e \<Rightarrow> ([], Some e, w)
                   | Inr (opened, closed) \<Rightarrow>
                       (let (evs, err, w') = run_process env command (rqWorkDir req) w
                        in (opened @ evs @ closed, err, w'))))"

section \<open>Signal, dependency, extract and portable steps\<close>

definition signal_Execute ::
  "'w wz_env \<Rightarrow> Request \<Rightarrow> SignalKind Overrideable \<Rightarrow> string Overrideable \<Rightarrow> 'w world \<Rightarrow> wiz_error option \<times> 'w world" where
  "signal_Execute env req sg timeout w =
     (case WithTimeout (Overrideable_Resolve timeout (rqOSArch req)) of
        Some e \<Rightarrow> (Some e, w)
      | None \<Rightarrow>
          if rqPID req \<le> 0 then (Some ErrNoProcess, w)
          else wzSignalPID env (rqPID req) (Overrideable_Resolve sg (rqOSArch req)) w)"

definition dependencies_Execute :: "'w wz_env \<Rightarrow> Request \<Rightarrow> Step \<Rightarrow> 'w world \<Rightarrow> wiz_error option \<times> 'w world" where
  "dependencies_Execute env req s w = (case wzDeps env of None \<Rightarrow> (None, w) | Some exec \<Rightarrow> exec req s w)"

definition extract_Execute ::
  "'w wz_env \<Rightarrow> Request \<Rightarrow> string Overrideable \<Rightarrow> string Overrideable \<Rightarrow> string Overrideable \<Rightarrow> 'w world
   \<Rightarrow> wiz_error option \<times> 'w world" where
  "extract_Execute env req fr to timeout w =
     (case WithTimeout (Overrideable_Resolve timeout (rqOSArch req)) of
        Some e \<Rightarrow> (Some e, w)
      | None \<Rightarrow>
          (let source = ResolvePath req (Overrideable_Resolve fr (rqOSArch req));
               target = ResolvePath req (Overrideable_Resolve to (rqOSArch req))
           in case wzOpen env source w of
                Some e \<Rightarrow> (Some e, w)
              | None \<Rightarrow>
                  (case wzDetect env source w of
                     Inl e \<Rightarrow> (Some e, w)
                   | Inr archive \<Rightarrow> if \<not> archive then (Some ErrPortableFormat, w) else wzUnpack env source target w)))"

definition portable_Execute ::
  "'w wz_env \<Rightarrow> Request \<Rightarrow> string Overrideable \<Rightarrow> string Overrideable \<Rightarrow> string Overrideable \<Rightarrow> string \<Rightarrow> 'w world
   \<Rightarrow> wiz_error option \<times> 'w world" where
  "portable_Execute env req fr to timeout name w =
     (case WithTimeout (Overrideable_Resolve timeout (rqOSArch req)) of
        Some e \<Rightarrow> (Some e, w)
      | None \<Rightarrow>
          wzInstall env req (ResolvePath req (Overrideable_Resolve fr (rqOSArch req)))
            (ResolvePath req (Overrideable_Resolve to (rqOSArch req))) name w)"

section \<open>Fetch steps\<close>

definition requireHTTP :: "'w wz_env \<Rightarrow> string \<Rightarrow> wiz_error option" where
  "requireHTTP env raw =
     (case wzScheme env raw of
        None \<Rightarrow> Some ErrUnsupportedURL
      | Some scheme \<Rightarrow> if scheme \<noteq> ''http'' \<and> scheme \<noteq> ''https'' then Some ErrUnsupportedURL else None)"

text \<open>\<open>strings.Fields\<close> and \<open>strings.Cut\<close> at a character.\<close>

definition is_space :: "char \<Rightarrow> bool" where
  "is_space c \<longleftrightarrow> c \<in> {CHR '' '', CHR 0x09, CHR 0x0A, CHR 0x0B, CHR 0x0C, CHR 0x0D}"

lemma field_shorter:
  assumes "dropWhile is_space s \<noteq> []"
  shows "length (dropWhile (\<lambda>c. \<not> is_space c) (dropWhile is_space s)) < length s"
proof -
  obtain c t where ct: "dropWhile is_space s = c # t" using assms by (cases "dropWhile is_space s") auto
  then have "\<not> is_space c" using hd_dropWhile [of is_space s] by simp
  then have "length (dropWhile (\<lambda>c. \<not> is_space c) (dropWhile is_space s)) \<le> length t"
    by (simp add: ct length_dropWhile_le)
  also have "length t < length s" using length_dropWhile_le [of is_space s] by (simp add: ct)
  finally show ?thesis .
qed

function Fields :: "string \<Rightarrow> string list" where
  "Fields s =
     (let t = dropWhile is_space s
      in if t = [] then [] else takeWhile (\<lambda>c. \<not> is_space c) t # Fields (dropWhile (\<lambda>c. \<not> is_space c) t))"
  by pat_completeness auto
termination
  by (relation "measure length") (simp_all add: field_shorter)

declare Fields.simps [simp del]

definition Cut :: "string \<Rightarrow> char \<Rightarrow> string \<times> string" where
  "Cut s c = (case cut_byte c s of Some (before, after) \<Rightarrow> (before, after) | None \<Rightarrow> (s, []))"

definition path_Base :: "string \<Rightarrow> string" where
  "path_Base p =
     (if p = [] then ''.''
      else let t = rev (dropWhile (\<lambda>c. c = CHR ''/'') (rev p))
           in if t = [] then ''/'' else List.last (Split t CHR ''/''))"

definition sums_line :: "string \<Rightarrow> string \<Rightarrow> string option" where
  "sums_line entry line =
     (let fields = Fields line
      in if length fields \<noteq> 2 then None
         else let name = TrimPrefix (TrimPrefix (fields ! 1) ''*'') ''./''
              in if name = TrimPrefix entry ''./'' then Some (fields ! 0) else None)"

definition publishedDigest :: "'w wz_env \<Rightarrow> string \<Rightarrow> string \<Rightarrow> 'w world \<Rightarrow> wiz_error + string" where
  "publishedDigest env listing src w =
     (let (sumsURL, entry) = Cut listing CHR ''#''
      in case requireHTTP env sumsURL of
           Some e \<Rightarrow> Inl e
         | None \<Rightarrow>
             (case (if entry = [] then map_option path_Base (wzURLPath env src) else Some entry) of
                None \<Rightarrow> Inl (WizOther ''parse'')
              | Some name \<Rightarrow>
                  (case wzFetch env sumsURL w of
                     Inl e \<Rightarrow> Inl e
                   | Inr body \<Rightarrow>
                       (case List.map_filter (sums_line name) (Split body CHR 0x0A) of
                          [] \<Rightarrow> Inl ErrChecksumEntryMissing
                        | digest # _ \<Rightarrow> Inr digest))))"

definition expectedDigest :: "'w wz_env \<Rightarrow> string \<Rightarrow> string \<Rightarrow> 'w world \<Rightarrow> wiz_error + string" where
  "expectedDigest env checksum0 src w =
     (let checksum = TrimSpace checksum0
      in case CutPrefix checksum ''sha256sums:'' of
           Some listing \<Rightarrow> publishedDigest env listing src w
         | None \<Rightarrow>
             (case cut_byte CHR '':'' checksum of
                None \<Rightarrow> Inr checksum
              | Some (algorithm, digest) \<Rightarrow>
                  if \<not> EqualFold algorithm ''sha256'' then Inl ErrUnsupportedChecksumAlgorithm else Inr digest))"

definition verifyChecksum :: "'w wz_env \<Rightarrow> string \<Rightarrow> string \<Rightarrow> string \<Rightarrow> 'w world \<Rightarrow> wiz_error option" where
  "verifyChecksum env path0 want src w =
     (case expectedDigest env want src w of
        Inl e \<Rightarrow> Some e
      | Inr expected \<Rightarrow>
          (case wFiles w path0 of
             None \<Rightarrow> Some (WizOther ''open'')
           | Some content \<Rightarrow> if EqualFold (wzSha256 env content) expected then None else Some ErrChecksumMismatch))"

definition verify_fetch ::
  "'w wz_env \<Rightarrow> Request \<Rightarrow> string Overrideable \<Rightarrow> string \<Rightarrow> string \<Rightarrow> 'w world \<Rightarrow> wiz_error option" where
  "verify_fetch env req ck src staged w =
     (let rawChecksum = Overrideable_Resolve ck (rqOSArch req); checksum = Expand (rqVars req) rawChecksum
      in if checksum \<noteq> [] then verifyChecksum env staged checksum src w
         else if Contains rawChecksum ''${'' then Some ErrChecksumUnresolved else None)"

text \<open>
  \<open>filepath.Split\<close>; \<open>os.Rename\<close> fails when the source is gone or the system refuses it, and
  \<open>os.Remove\<close> of a file that is not there changes nothing.
\<close>

definition filepath_Split :: "string \<Rightarrow> string \<times> string" where
  "filepath_Split p =
     (let base = rev (takeWhile (\<lambda>c. c \<noteq> CHR ''/'') (rev p)) in (take (length p - length base) p, base))"

definition os_Remove :: "string \<Rightarrow> 'w world \<Rightarrow> 'w world" where
  "os_Remove p w = w\<lparr>wFiles := (wFiles w)(p := None)\<rparr>"

definition os_Rename :: "'w wz_env \<Rightarrow> string \<Rightarrow> string \<Rightarrow> 'w world \<Rightarrow> bool \<times> 'w world" where
  "os_Rename env p q w =
     (if wFiles w p = None \<or> wzRenameErr env p q w then (False, w)
      else if p = q then (True, w)
      else (True, w\<lparr>wFiles := (wFiles w)(q := wFiles w p, p := None)\<rparr>))"

definition stagingMarker :: string where "stagingMarker = ''.fetch-''"
definition asideMarker :: string where "asideMarker = ''.replaced-''"

definition stagingPath :: "'w wz_env \<Rightarrow> string \<Rightarrow> 'w world \<Rightarrow> wiz_error + string" where
  "stagingPath env dst w =
     (if wzIsDir env dst w then Inl ErrDestinationIsDirectory
      else let (dir, base) = filepath_Split dst
           in Inr (dir @ ''.'' @ base @ stagingMarker @ wzSuffix env 0 w))"

definition replaceFile :: "'w wz_env \<Rightarrow> string \<Rightarrow> string \<Rightarrow> 'w world \<Rightarrow> wiz_error option \<times> 'w world" where
  "replaceFile env staged dst w =
     (case os_Rename env staged dst w of
        (True, w1) \<Rightarrow> (None, w1)
      | (False, w1) \<Rightarrow>
          (let aside = dst @ asideMarker @ wzSuffix env 1 w1
           in case os_Rename env dst aside w1 of
                (False, w2) \<Rightarrow> (Some ErrReplace, w2)
              | (True, w2) \<Rightarrow>
                  (case os_Rename env staged dst w2 of
                     (True, w3) \<Rightarrow> (None, w3)
                   | (False, w3) \<Rightarrow> (Some ErrReplace, snd (os_Rename env aside dst w3)))))"

definition stale_name :: "string \<Rightarrow> string \<Rightarrow> bool" where
  "stale_name dst p =
     (let (dir, base) = filepath_Split dst; (pdir, name) = filepath_Split p
      in pdir = dir \<and> (HasPrefix name (''.'' @ base @ stagingMarker) \<or> HasPrefix name (base @ asideMarker)))"

definition sweepStale :: "'w wz_env \<Rightarrow> string \<Rightarrow> 'w world \<Rightarrow> 'w world" where
  "sweepStale env dst w =
     w\<lparr>wFiles := (\<lambda>p. if stale_name dst p \<and> wzStale env p w then None else wFiles w p)\<rparr>"

definition download_Execute ::
  "'w wz_env \<Rightarrow> Request \<Rightarrow> string Overrideable \<Rightarrow> string Overrideable \<Rightarrow> string Overrideable \<Rightarrow> string Overrideable
   \<Rightarrow> 'w world \<Rightarrow> wiz_error option \<times> 'w world" where
  "download_Execute env req url to ck timeout w =
     (case WithTimeout (Overrideable_Resolve timeout (rqOSArch req)) of
        Some e \<Rightarrow> (Some e, w)
      | None \<Rightarrow>
     (let dst = ResolvePath req (Overrideable_Resolve to (rqOSArch req));
          src = Expand (rqVars req) (Overrideable_Resolve url (rqOSArch req))
      in case requireHTTP env src of
           Some e \<Rightarrow> (Some e, w)
         | None \<Rightarrow>
     (case stagingPath env dst w of
        Inl e \<Rightarrow> (Some e, w)
      | Inr staged \<Rightarrow>
     (let (content, err) = wzDownload env src w; w1 = w\<lparr>wFiles := (wFiles w)(staged := content)\<rparr>
      in case err of
           Some e \<Rightarrow> (Some e, os_Remove staged w1)
         | None \<Rightarrow>
             (case verify_fetch env req ck src staged w1 of
                Some e \<Rightarrow> (Some e, os_Remove staged w1)
              | None \<Rightarrow>
                  (case replaceFile env staged dst w1 of
                     (Some e, w2) \<Rightarrow> (Some e, os_Remove staged w2)
                   | (None, w2) \<Rightarrow> (None, os_Remove staged (sweepStale env dst w2))))))))"

section \<open>Expose steps\<close>

type_synonym slot = "ExposeKind option \<times> nat"

definition expose_kind :: "string \<Rightarrow> ExposeKind option" where
  "expose_kind k = (if k = ''desktop'' then Some ExposeKindDesktop else if k = ''cli'' then Some ExposeKindCLI else None)"

text \<open>What a step contributes: its entry, and the slot of its outcome or the error of its kind.\<close>

fun expose_collect ::
  "Step list \<Rightarrow> ExposeEntry list \<Rightarrow> ExposeEntry list \<Rightarrow> string
   \<Rightarrow> (ExposeEntry list \<times> ExposeEntry list \<times> string) \<times> (wiz_error + ExposeKind \<times> nat) list" where
  "expose_collect (ExposeStep b k name path icon cats media0 # steps) desktop cli media =
     (let entry = \<lparr>eName = name, ePath = path, eIcon = icon, eCategories = cats\<rparr>
      in case expose_kind k of
           Some ExposeKindDesktop \<Rightarrow>
             (let (blk, slots) = expose_collect steps (desktop @ [entry]) cli media0
              in (blk, Inr (ExposeKindDesktop, length desktop) # slots))
         | Some ExposeKindCLI \<Rightarrow>
             (let (blk, slots) = expose_collect steps desktop (cli @ [entry]) media0
              in (blk, Inr (ExposeKindCLI, length cli) # slots))
         | None \<Rightarrow>
             (let (blk, slots) = expose_collect steps desktop cli media0 in (blk, Inl ErrUnknownKind # slots)))"
| "expose_collect _ desktop cli media = ((desktop, cli, media), [])"

definition placed :: "Applied \<Rightarrow> ExposeKind \<times> nat \<Rightarrow> bool" where
  "placed applied sl \<longleftrightarrow> list_ex (\<lambda>e. aeKind e = fst sl \<and> aeIndex e = snd sl) (apEntries applied)"

definition expose_outcome :: "Applied \<Rightarrow> ExposeKind \<times> nat \<Rightarrow> wiz_error option \<Rightarrow> wiz_error option" where
  "expose_outcome applied sl applyErr =
     (let refusals = filter (\<lambda>r. rfKind r = fst sl \<and> rfIndex r = snd sl) (apRefused applied)
      in if refusals \<noteq> [] then Some (ErrRefused (map rfReason refusals))
         else if applyErr = None \<or> placed applied sl then None else applyErr)"

definition skipNote :: "Applied \<Rightarrow> ExposeKind \<times> nat \<Rightarrow> string" where
  "skipNote applied sl =
     (if placed applied sl then []
      else case find (\<lambda>s. rfKind s = fst sl \<and> rfIndex s = snd sl) (apSkipped applied) of
             None \<Rightarrow> [] | Some s \<Rightarrow> ''nothing exposed: '' @ rfReason s)"

definition Expose_results :: "'w wz_env \<Rightarrow> Request \<Rightarrow> Step list \<Rightarrow> 'w world \<Rightarrow> (wiz_error option \<times> string) list \<times> 'w world" where
  "Expose_results env req batch w =
     (let ((desktop, cli, media), slots) = expose_collect batch [] [] [];
          ((applied, err), w') = wzApply env (rqNSKey req) (rqWorkDir req) \<lparr>exCLI = Some cli, exDesktop = Some desktop\<rparr> media w
      in (map (\<lambda>sl. case sl of
             Inl e \<Rightarrow> (Some e, [])
           | Inr s \<Rightarrow> (case expose_outcome applied s err of Some e \<Rightarrow> (Some e, []) | None \<Rightarrow> (None, skipNote applied s))) slots, w'))"

section \<open>A run\<close>

definition stepRequest :: "'w wz_env \<Rightarrow> RunRequest \<Rightarrow> Request" where
  "stepRequest env req =
     \<lparr>rqNSKey = rrNamespace req, rqWorkDir = rrWorkDir req, rqVars = rrVariables req, rqOSArch = wzOS env, rqPID = rrPID req\<rparr>"

definition provisionApp :: "'w wz_env \<Rightarrow> Request \<Rightarrow> Step \<Rightarrow> 'w world \<Rightarrow> wiz_error + Request" where
  "provisionApp env sr s w =
     (case s of
        RunStep b cmd el tmo ui \<Rightarrow>
          if \<not> Contains (Overrideable_Resolve cmd (rqOSArch sr)) ''${ARROW_APP}'' then Inr sr
          else (case wzAppEntry env (rqWorkDir sr) w of
                  Inl e \<Rightarrow> Inl e
                | Inr app \<Rightarrow> Inr (sr\<lparr>rqVars := map_put (rqVars sr) ''ARROW_APP'' app\<rparr>))
      | _ \<Rightarrow> Inr sr)"

definition silent :: "wiz_error option \<times> 'w world \<Rightarrow> 'w handler_result" where
  "silent r = ([], fst r, snd r)"

text \<open>The dispatch table: an expose step has no handler of its own, its batch is applied in one pass.\<close>

definition dispatch :: "'w wz_env \<Rightarrow> Request \<Rightarrow> Step \<Rightarrow> 'w world \<Rightarrow> 'w handler_result" where
  "dispatch env req s w =
     (case s of
        RunStep b cmd el tmo ui \<Rightarrow> run_Execute env req cmd tmo ui w
      | FetchStep b url to ck tmo \<Rightarrow> silent (download_Execute env req url to ck tmo w)
      | SignalStep b sg tmo \<Rightarrow> silent (signal_Execute env req sg tmo w)
      | DependenciesStep b \<Rightarrow> silent (dependencies_Execute env req s w)
      | ExtractStep b fr to tmo \<Rightarrow> silent (extract_Execute env req fr to tmo w)
      | PortableStep b fr to tmo name \<Rightarrow> silent (portable_Execute env req fr to tmo name w)
      | UnexposeStep b \<Rightarrow> silent (wzRemove env (rqWorkDir req) w)
      | ExposeStep b k name path icon cats media \<Rightarrow> ([], Some ErrUnknownStepType, w))"

definition executeStep :: "'w wz_env \<Rightarrow> RunRequest \<Rightarrow> Step \<Rightarrow> 'w world \<Rightarrow> 'w handler_result" where
  "executeStep env req s w =
     (case s of
        ExposeStep b k name path icon cats media \<Rightarrow> ([], Some ErrUnknownStepType, w)
      | _ \<Rightarrow> (case provisionApp env (stepRequest env req) s w of
               Inl e \<Rightarrow> ([], Some e, w) | Inr sr \<Rightarrow> dispatch env sr s w))"

definition is_expose :: "Step \<Rightarrow> bool" where
  "is_expose s \<longleftrightarrow> (case s of ExposeStep b k name path icon cats media \<Rightarrow> True | _ \<Rightarrow> False)"

definition leadingExposeSteps :: "Step list \<Rightarrow> Step list" where
  "leadingExposeSteps steps = takeWhile is_expose steps"

definition expose_result_events :: "nat \<Rightarrow> (wiz_error option \<times> string) list \<Rightarrow> Event list" where
  "expose_result_events first results =
     concat (map (\<lambda>(k, err, note).
        [step_event EventKindStepStarted (first + k),
         (case err of
            Some e \<Rightarrow> (step_event EventKindStepFailed (first + k))\<lparr>evErr := Some e\<rparr>
          | None \<Rightarrow> (step_event EventKindStepCompleted (first + k))\<lparr>evNote := note\<rparr>)]) (enum results))"

function run_from :: "'w wz_env \<Rightarrow> RunRequest \<Rightarrow> nat \<Rightarrow> Step list \<Rightarrow> 'w world \<Rightarrow> Event list \<times> ExecutionOutcome \<times> 'w world" where
  "run_from env req i [] w =
     (let (cancelled, w1) = wzPoll env w
      in ([], (if cancelled then ExecutionOutcomeCancelled else ExecutionOutcomeSuccess), w1))"
| "run_from env req i (s # steps) w =
     (let (cancelled, w1) = wzPoll env w; batch = leadingExposeSteps (s # steps)
      in if cancelled then ([], ExecutionOutcomeCancelled, w1)
         else if batch \<noteq> [] then
           (let (results, w2) = Expose_results env (stepRequest env req) batch w1;
                (evs, res) = run_from env req (i + length batch) (drop (length batch) (s # steps)) w2
            in (expose_result_events i results @ evs, res))
         else
           (let (mid, err, w2) = executeStep env req s w1; begun = step_event EventKindStepStarted i # mid
            in case err of
                 None \<Rightarrow>
                   (let (evs, res) = run_from env req (Suc i) steps w2
                    in (begun @ step_event EventKindStepCompleted i # evs, res))
               | Some e \<Rightarrow>
                   (let (cancelled', w3) = wzPoll env w2;
                        failed = begun @ [(step_event EventKindStepFailed i)\<lparr>evErr := Some e\<rparr>]
                    in if cancelled' then (begun, ExecutionOutcomeCancelled, w3)
                       else if Step_ExitOnFailure s then (failed, ExecutionOutcomeFailed, w3)
                       else (let (evs, res) = run_from env req (Suc i) steps w3 in (failed @ evs, res)))))"
  by pat_completeness auto
termination
  by (relation "measure (\<lambda>(env, req, i, steps, w). length steps)") auto

definition runSteps :: "'w wz_env \<Rightarrow> RunRequest \<Rightarrow> 'w world \<Rightarrow> Event list \<times> ExecutionOutcome \<times> 'w world" where
  "runSteps env req w = run_from env req 0 (rrSteps req) w"

section \<open>Start, probe and shutdown\<close>

record wizard =
  wzWg :: int
  wzShutting :: bool

definition opensSurface :: "Step list \<Rightarrow> bool" where
  "opensSurface steps = list_ex (\<lambda>s. case s of RunStep b cmd el tmo (Some ui) \<Rightarrow> True | _ \<Rightarrow> False) steps"

definition oneShot :: "RunRequest \<Rightarrow> bool" where
  "oneShot req \<longleftrightarrow> IsOneShotMethod (rrMethod req) \<or> opensSurface (rrSteps req)"

text \<open>\<open>Start\<close>: the wizard, the execution of a refused run, and whether the run is waited for and cancelled.\<close>

definition wizard_Start :: "RunRequest \<Rightarrow> wizard \<Rightarrow> ExecutionImpl \<times> bool \<times> wizard" where
  "wizard_Start req wz =
     (if wzShutting wz then (Finish ExecutionOutcomeCancelled NewExecution, False, wz)
      else (NewExecution, oneShot req, if oneShot req then wz\<lparr>wzWg := wzWg wz + 1\<rparr> else wz))"

definition enterProbe :: "wizard \<Rightarrow> wiz_error option \<times> wizard" where
  "enterProbe wz = (if wzShutting wz then (Some ErrShuttingDown, wz) else (None, wz\<lparr>wzWg := wzWg wz + 1\<rparr>))"

definition wizard_Shutdown :: "wizard \<Rightarrow> bool \<times> wizard" where
  "wizard_Shutdown wz = (wzWg wz = 0, wz\<lparr>wzShutting := True\<rparr>)"

definition checkProbeAnswerable :: "'w wz_env \<Rightarrow> RunRequest \<Rightarrow> wiz_error option" where
  "checkProbeAnswerable env req =
     (if rrSteps req = [] then Some ErrVacuousProbe
      else if list_ex (\<lambda>s. case s of RunStep b cmd el tmo ui \<Rightarrow> Overrideable_Resolve cmd (wzOS env) = [] | _ \<Rightarrow> False) (rrSteps req)
           then Some ErrVacuousProbe else None)"

fun probe_steps :: "'w wz_env \<Rightarrow> RunRequest \<Rightarrow> Step list \<Rightarrow> 'w world \<Rightarrow> wiz_error option \<times> 'w world" where
  "probe_steps env req [] w = (None, w)"
| "probe_steps env req (s # steps) w =
     (let (cancelled, w1) = wzPoll env w
      in if cancelled then (Some ErrContext, w1)
         else (let (evs, err, w2) = executeStep env req s w1
               in case err of Some e \<Rightarrow> (Some e, w2) | None \<Rightarrow> probe_steps env req steps w2))"

text \<open>\<open>scratch\<close> is what making the scratch directory of a probe without a workdir gives.\<close>

definition Probe :: "'w wz_env \<Rightarrow> wiz_error + string \<Rightarrow> RunRequest \<Rightarrow> wizard \<Rightarrow> 'w world \<Rightarrow> wiz_error option \<times> wizard \<times> 'w world" where
  "Probe env scratch req wz w =
     (case checkProbeAnswerable env req of
        Some e \<Rightarrow> (Some e, wz, w)
      | None \<Rightarrow>
     (case enterProbe wz of
        (Some e, wz1) \<Rightarrow> (Some e, wz1, w)
      | (None, wz1) \<Rightarrow>
          (let left = wz1\<lparr>wzWg := wzWg wz1 - 1\<rparr>
           in case (if rrWorkDir req = [] then scratch else Inr (rrWorkDir req)) of
                Inl e \<Rightarrow> (Some e, left, w)
              | Inr dir \<Rightarrow>
                  (let (err, w1) = probe_steps env (req\<lparr>rrWorkDir := dir\<rparr>) (rrSteps req) w in (err, left, w1)))))"

section \<open>Laws of expansion\<close>

text \<open>A template is text and references; the reference definition of what a reference is, is the ruleset's.\<close>

datatype piece = Lit string | Ref_to string

function pieces :: "string \<Rightarrow> piece list" where
  "pieces raw =
     (case cut_open raw of
        None \<Rightarrow> [Lit raw]
      | Some (pre, body) \<Rightarrow>
          (case cut_byte CHR ''}'' body of
             None \<Rightarrow> [Lit raw]
           | Some (name, rest) \<Rightarrow> Lit pre # (if name = [] then Lit ''${}'' else Ref_to name) # pieces rest))"
  by pat_completeness auto
termination
  by (relation "measure length") (auto simp: cut_byte_Some dest!: cut_open_Some)

declare pieces.simps [simp del]

fun piece_text :: "piece \<Rightarrow> string" where
  "piece_text (Lit s) = s"
| "piece_text (Ref_to name) = ''${'' @ name @ ''}''"

fun piece_value :: "vars \<Rightarrow> piece \<Rightarrow> string" where
  "piece_value vs (Lit s) = s"
| "piece_value vs (Ref_to name) = (case map_of vs name of Some value \<Rightarrow> value | None \<Rightarrow> ''${'' @ name @ ''}'')"

definition piece_names :: "piece list \<Rightarrow> string list" where
  "piece_names ps = concat (map (\<lambda>p. case p of Lit s \<Rightarrow> [] | Ref_to name \<Rightarrow> [name]) ps)"

lemma piece_names_simps [simp]: "piece_names [] = []" "piece_names (Lit s # ps) = piece_names ps" "piece_names (Ref_to n # ps) = n # piece_names ps"
  by (simp_all add: piece_names_def)

lemma tokens_cut_None: "cut_open raw = None \<Longrightarrow> extractVarTokens raw = []"
  by (induction raw rule: cut_open.induct) (auto split: if_splits)

lemma tokens_cut_Some: "cut_open raw = Some (pre, body) \<Longrightarrow> extractVarTokens raw = extractVarTokens (''${'' @ body)"
  by (induction raw arbitrary: pre rule: cut_open.induct) (auto split: if_splits)

lemma tokens_unclosed: "CHR ''}'' \<notin> set s \<Longrightarrow> extractVarTokens s = []"
proof (induction s rule: length_induct)
  case (1 s)
  then show ?case
  proof (cases s)
    case (Cons c t)
    have "cut_byte CHR ''}'' (tl t) = None"
      using 1(2) Cons by (cases t) (auto simp: cut_byte_None)
    then show ?thesis using 1 Cons by auto
  qed simp
qed

lemma tokens_open:
  "cut_byte CHR ''}'' body = Some (name, rest) \<Longrightarrow>
   extractVarTokens (''${'' @ body) = (if name = [] then extractVarTokens rest else name # extractVarTokens rest)"
  by (auto simp: cut_byte_Some)

lemma pieces_spec:
  "concat (map piece_text (pieces raw)) = raw \<and> piece_names (pieces raw) = extractVarTokens raw \<and>
   (map_of vs [] = None \<longrightarrow> Expand vs raw = concat (map (piece_value vs) (pieces raw)))"
proof (induction raw rule: length_induct)
  case (1 raw)
  show ?case
  proof (cases "cut_open raw")
    case None
    then show ?thesis by (simp add: pieces.simps [of raw] Expand.simps [of vs raw] tokens_cut_None)
  next
    case (Some pb)
    obtain pre body where pb: "cut_open raw = Some (pre, body)" using Some by (cases pb) auto
    note raw = cut_open_Some [OF pb]
    show ?thesis
    proof (cases "cut_byte CHR ''}'' body")
      case None
      then have "extractVarTokens (''${'' @ body) = []" by (intro tokens_unclosed) (simp add: cut_byte_None)
      with None pb show ?thesis
        by (simp add: pieces.simps [of raw] Expand.simps [of vs raw] tokens_cut_Some [OF pb])
    next
      case (Some nr)
      obtain name rest where nr: "cut_byte CHR ''}'' body = Some (name, rest)" using Some by (cases nr) auto
      then have body: "body = name @ CHR ''}'' # rest" by (simp add: cut_byte_Some)
      have "length rest < length raw" using raw body by simp
      with 1 have IH: "concat (map piece_text (pieces rest)) = rest" "piece_names (pieces rest) = extractVarTokens rest"
        "map_of vs [] = None \<longrightarrow> Expand vs rest = concat (map (piece_value vs) (pieces rest))" by blast+
      have p: "pieces raw = Lit pre # (if name = [] then Lit ''${}'' else Ref_to name) # pieces rest"
        by (simp add: pieces.simps [of raw] pb nr)
      have e: "Expand vs raw = pre @ (case map_of vs name of Some value \<Rightarrow> value | None \<Rightarrow> ''${'' @ name @ ''}'') @ Expand vs rest"
        by (simp add: Expand.simps [of vs raw] pb nr)
      have t: "extractVarTokens raw = (if name = [] then extractVarTokens rest else name # extractVarTokens rest)"
        using tokens_cut_Some [OF pb] tokens_open [OF nr] by simp
      have "concat (map piece_text (pieces raw)) = raw" unfolding p using IH(1) raw body by simp
      then show ?thesis using IH(2,3) unfolding e t p by simp
    qed
  qed
qed

section \<open>Laws of a run\<close>

text \<open>
  The shape of the events of a run, from the step of index \<open>i\<close> on: every step is started, reports
  its process and its interface, and is then completed or failed, until the run ends.
\<close>

definition mid_events :: "Event list \<Rightarrow> bool" where
  "mid_events mid \<longleftrightarrow> map evKind mid \<in> {[], [EventKindPID], [EventKindSurface, EventKindSurfaceClosed],
     [EventKindSurface, EventKindPID, EventKindSurfaceClosed]}"

definition tolerated :: "Step \<Rightarrow> bool" where
  "tolerated s \<longleftrightarrow> \<not> Step_ExitOnFailure s \<or> is_expose s"

inductive run_trace :: "nat \<Rightarrow> Step list \<Rightarrow> Event list \<Rightarrow> ExecutionOutcome \<Rightarrow> bool" where
  ended: "run_trace i [] [] ExecutionOutcomeSuccess"
| cancelled: "run_trace i steps [] ExecutionOutcomeCancelled"
| interrupted: "mid_events mid \<Longrightarrow>
    run_trace i (s # steps) (step_event EventKindStepStarted i # mid) ExecutionOutcomeCancelled"
| completed: "mid_events mid \<Longrightarrow> evKind ev = EventKindStepCompleted \<Longrightarrow> evStepIndex ev = i \<Longrightarrow> run_trace (Suc i) steps evs out \<Longrightarrow>
    run_trace i (s # steps) (step_event EventKindStepStarted i # mid @ ev # evs) out"
| failed_on: "mid_events mid \<Longrightarrow> evKind ev = EventKindStepFailed \<Longrightarrow> evStepIndex ev = i \<Longrightarrow> tolerated s \<Longrightarrow> run_trace (Suc i) steps evs out \<Longrightarrow>
    run_trace i (s # steps) (step_event EventKindStepStarted i # mid @ ev # evs) out"
| failed: "mid_events mid \<Longrightarrow> evKind ev = EventKindStepFailed \<Longrightarrow> evStepIndex ev = i \<Longrightarrow> Step_ExitOnFailure s \<Longrightarrow>
    run_trace i (s # steps) (step_event EventKindStepStarted i # mid @ [ev]) ExecutionOutcomeFailed"

lemma event_sel [simp]: "evKind (event k) = k" "evKind (step_event k i) = k" "evStepIndex (step_event k i) = i"
  by (simp_all add: event_def step_event_def)

lemma run_process_mid: "run_process env command wd w = (evs, err, w') \<Longrightarrow> map evKind evs \<in> {[], [EventKindPID]}"
  by (auto simp: run_process_def Let_def split: sum.splits prod.splits option.splits)

lemma openSurface_mid:
  "openSurface env req ui w = Inr (opened, closed) \<Longrightarrow>
   (opened = [] \<and> closed = []) \<or> (map evKind opened = [EventKindSurface] \<and> map evKind closed = [EventKindSurfaceClosed])"
  by (auto simp: openSurface_def split: option.splits sum.splits)

lemma run_Execute_mid: "run_Execute env req cmd tmo ui w = (mid, err, w') \<Longrightarrow> mid_events mid"
  using run_process_mid [of env "Expand (rqVars req) (Overrideable_Resolve cmd (rqOSArch req))" "rqWorkDir req" w]
  by (auto simp: run_Execute_def mid_events_def Let_def split: if_splits option.splits sum.splits prod.splits
      dest!: openSurface_mid)

lemma executeStep_mid: "executeStep env req s w = (mid, err, w') \<Longrightarrow> mid_events mid"
  by (cases s) (auto simp: executeStep_def dispatch_def silent_def mid_events_def [of "[]"] split: sum.splits dest: run_Execute_mid)

lemma collect_slots:
  "list_all is_expose steps \<Longrightarrow> length (snd (expose_collect steps desktop cli media)) = length steps"
proof (induction steps arbitrary: desktop cli media)
  case (Cons s steps)
  then obtain b k name path icon cats m where "s = ExposeStep b k name path icon cats m"
    by (cases s) (auto simp: is_expose_def)
  with Cons show ?case by (simp add: Let_def split: option.splits ExposeKind.splits prod.splits) (metis snd_conv)
qed simp

lemma Expose_results_length:
  assumes "Expose_results env req batch w = (results, w')" "list_all is_expose batch"
  shows "length results = length batch"
  using assms(1) collect_slots [OF assms(2), of "[]" "[]" "[]"]
  by (auto simp: Expose_results_def Let_def split: prod.splits)

lemma expose_events_Cons:
  "expose_result_events i (r # rs) =
     [step_event EventKindStepStarted i,
      (case fst r of Some e \<Rightarrow> (step_event EventKindStepFailed i)\<lparr>evErr := Some e\<rparr>
       | None \<Rightarrow> (step_event EventKindStepCompleted i)\<lparr>evNote := snd r\<rparr>)] @ expose_result_events (Suc i) rs"
proof -
  have e: "enum (r # rs) = (0, r) # map (\<lambda>(k, x). (Suc k, x)) (enum rs)"
    by (simp add: enum_def upt_conv_Cons map_Suc_upt [symmetric] zip_map1 del: upt_Suc)
  show ?thesis unfolding expose_result_events_def e by (cases r) (auto simp: o_def split_def split: option.split intro!: arg_cong [where f = concat])
qed

lemma expose_trace:
  "length results = length batch \<Longrightarrow> list_all is_expose batch \<Longrightarrow> run_trace (i + length batch) steps evs out \<Longrightarrow>
   run_trace i (batch @ steps) (expose_result_events i results @ evs) out"
proof (induction batch arbitrary: i results)
  case Nil
  then show ?case by (simp add: expose_result_events_def enum_def)
next
  case (Cons s batch)
  then obtain r rs where r: "results = r # rs" "length rs = length batch" by (cases results) auto
  from Cons.IH [OF r(2), of "Suc i"] Cons.prems have rest: "run_trace (Suc i) (batch @ steps) (expose_result_events (Suc i) rs @ evs) out" by simp
  have s: "tolerated s" using Cons.prems by (simp add: tolerated_def)
  have m: "mid_events []" by (simp add: mid_events_def)
  show ?case
  proof (cases "fst r")
    case None
    show ?thesis using run_trace.completed [OF m _ _ rest, of "(step_event EventKindStepCompleted i)\<lparr>evNote := snd r\<rparr>" s]
      by (simp add: r expose_events_Cons None)
  next
    case (Some e)
    show ?thesis using run_trace.failed_on [OF m _ _ s rest, of "(step_event EventKindStepFailed i)\<lparr>evErr := Some e\<rparr>"]
      by (simp add: r expose_events_Cons Some)
  qed
qed

lemma failed_event_sel [simp]: "evKind ((step_event k i)\<lparr>evErr := e\<rparr>) = k" "evStepIndex ((step_event k i)\<lparr>evErr := e\<rparr>) = i"
  by (simp_all add: step_event_def event_def)

declare run_from.simps(2) [simp del]

lemma run_from_trace: "run_from env req i steps w = (evs, out, w') \<Longrightarrow> run_trace i steps evs out"
proof (induction env req i steps w arbitrary: evs out w' rule: run_from.induct)

  case (1 env req i w)
  then show ?case by (auto simp: Let_def intro: run_trace.intros split: if_splits prod.splits)
next
  case (2 env req i s steps w)
  obtain c w1 where poll: "wzPoll env w = (c, w1)" by (cases "wzPoll env w")
  let ?batch = "leadingExposeSteps (s # steps)"
  show ?case
  proof (cases c)
    case True
    with "2.prems" poll show ?thesis by (simp add: run_from.simps(2) Let_def run_trace.cancelled)
  next
    case c: False
    show ?thesis
    proof (cases "?batch = []")
      case False
      obtain results w2 where ex: "Expose_results env (stepRequest env req) ?batch w1 = (results, w2)"
        by (cases "Expose_results env (stepRequest env req) ?batch w1")
      obtain evs' r where rest: "run_from env req (i + length ?batch) (drop (length ?batch) (s # steps)) w2 = (evs', r)"
        by (cases "run_from env req (i + length ?batch) (drop (length ?batch) (s # steps)) w2")
      have "run_from env req i (s # steps) w = (expose_result_events i results @ evs', r)"
        by (subst run_from.simps) (simp only: poll c False ex rest Let_def prod.case if_False if_True not_False_eq_True)
      then have res: "evs = expose_result_events i results @ evs'" "r = (out, w')" using "2.prems" by auto
      have all: "list_all is_expose ?batch" unfolding leadingExposeSteps_def list_all_iff using set_takeWhileD by fast
      have IH: "run_trace (i + length ?batch) (drop (length ?batch) (s # steps)) evs' out"
        by (rule "2.IH"(1) [OF refl poll [symmetric] refl c False refl ex [symmetric] rest [unfolded res(2)]])
      have app: "?batch @ drop (length ?batch) (s # steps) = s # steps"
        by (metis leadingExposeSteps_def dropWhile_eq_drop takeWhile_dropWhile_id)
      from expose_trace [OF Expose_results_length [OF ex all] all IH] show ?thesis by (simp only: app res(1))
    next
      case b: True
      then have nb: "\<not> ?batch \<noteq> []" by simp
      obtain mid err w2 where ex: "executeStep env req s w1 = (mid, err, w2)" by (cases "executeStep env req s w1")
      note m = executeStep_mid [OF ex]
      have run: "run_from env req i (s # steps) w =
        (let begun = step_event EventKindStepStarted i # mid
         in case err of
              None \<Rightarrow> (let (evs, res) = run_from env req (Suc i) steps w2 in (begun @ step_event EventKindStepCompleted i # evs, res))
            | Some e \<Rightarrow> (let (cancelled', w3) = wzPoll env w2; failed = begun @ [(step_event EventKindStepFailed i)\<lparr>evErr := Some e\<rparr>]
                in if cancelled' then (begun, ExecutionOutcomeCancelled, w3)
                   else if Step_ExitOnFailure s then (failed, ExecutionOutcomeFailed, w3)
                   else (let (evs, res) = run_from env req (Suc i) steps w3 in (failed @ evs, res))))"
        by (subst run_from.simps) (simp only: poll c b ex Let_def prod.case if_False if_True simp_thms)
      show ?thesis
      proof (cases err)
        case None
        obtain evs' r where rest: "run_from env req (Suc i) steps w2 = (evs', r)" by (cases "run_from env req (Suc i) steps w2")
        have res: "evs = step_event EventKindStepStarted i # mid @ step_event EventKindStepCompleted i # evs'" "r = (out, w')"
          using "2.prems" unfolding run by (auto simp: None rest Let_def)
        have "run_trace (Suc i) steps evs' out"
          by (rule "2.IH"(2) [OF refl poll [symmetric] refl c nb refl ex [symmetric] refl refl None rest [unfolded res(2)]])
        from run_trace.completed [OF m _ _ this, of "step_event EventKindStepCompleted i"] show ?thesis by (simp add: res(1))
      next
        case (Some e)
        obtain c' w3 where poll': "wzPoll env w2 = (c', w3)" by (cases "wzPoll env w2")
        let ?f = "(step_event EventKindStepFailed i)\<lparr>evErr := Some e\<rparr>"
        consider "c'" | "\<not> c'" "Step_ExitOnFailure s" | "\<not> c'" "\<not> Step_ExitOnFailure s" by blast
        then show ?thesis
        proof cases
          case 1
          then show ?thesis using "2.prems" m unfolding run by (auto simp: Some poll' Let_def intro: run_trace.intros)
        next
          case 2
          then show ?thesis using "2.prems" run_trace.failed [OF m, of ?f i s steps] unfolding run
            by (auto simp: Some poll' Let_def)
        next
          case 3
          obtain evs' r where rest: "run_from env req (Suc i) steps w3 = (evs', r)" by (cases "run_from env req (Suc i) steps w3")
          have res: "evs = step_event EventKindStepStarted i # mid @ ?f # evs'" "r = (out, w')"
            using "2.prems" unfolding run by (auto simp: Some poll' 3 rest Let_def)
          have "run_trace (Suc i) steps evs' out"
              by (rule "2.IH"(3) [OF refl poll [symmetric] refl c nb refl ex [symmetric] refl refl Some refl poll' [symmetric] refl 3
                  rest [unfolded res(2)]])
          from run_trace.failed_on [OF m _ _ _ this, of ?f s] 3 show ?thesis by (simp add: res(1) tolerated_def)
        qed
      qed
    qed
  qed
qed

text \<open>What the indices of the events of a run say.\<close>

definition started_steps :: "Event list \<Rightarrow> nat list" where
  "started_steps evs = map evStepIndex (filter (\<lambda>ev. evKind ev = EventKindStepStarted) evs)"

definition finished_steps :: "Event list \<Rightarrow> nat list" where
  "finished_steps evs = map evStepIndex (filter (\<lambda>ev. evKind ev \<in> {EventKindStepCompleted, EventKindStepFailed}) evs)"

definition failed_steps :: "Event list \<Rightarrow> nat list" where
  "failed_steps evs = map evStepIndex (filter (\<lambda>ev. evKind ev = EventKindStepFailed) evs)"

lemmas step_lists = started_steps_def finished_steps_def failed_steps_def

lemma mid_unstepped:
  assumes "mid_events mid"
  shows "started_steps (mid @ evs) = started_steps evs" "finished_steps (mid @ evs) = finished_steps evs"
    "failed_steps (mid @ evs) = failed_steps evs"
proof -
  have "\<forall>ev \<in> set mid. evKind ev \<notin> {EventKindStepStarted, EventKindStepCompleted, EventKindStepFailed}"
  proof
    fix ev assume "ev \<in> set mid"
    then have "evKind ev \<in> set (map evKind mid)" by simp
    moreover have "set (map evKind mid) \<subseteq> {EventKindPID, EventKindSurface, EventKindSurfaceClosed}"
      using assms unfolding mid_events_def by (elim insertE emptyE) simp_all
    ultimately show "evKind ev \<notin> {EventKindStepStarted, EventKindStepCompleted, EventKindStepFailed}" by auto
  qed
  then show "started_steps (mid @ evs) = started_steps evs" "finished_steps (mid @ evs) = finished_steps evs"
    "failed_steps (mid @ evs) = failed_steps evs" unfolding step_lists by (auto simp: filter_empty_conv)
qed

lemma mid_unstepped_all:
  assumes "mid_events mid" shows "started_steps mid = []" "finished_steps mid = []" "failed_steps mid = []"
  using mid_unstepped [OF assms, of "[]"] by (simp_all add: step_lists)

lemma step_lists_Cons:
  "started_steps (ev # evs) = (if evKind ev = EventKindStepStarted then evStepIndex ev # started_steps evs else started_steps evs)"
  "finished_steps (ev # evs) =
     (if evKind ev = EventKindStepCompleted \<or> evKind ev = EventKindStepFailed then evStepIndex ev # finished_steps evs else finished_steps evs)"
  "failed_steps (ev # evs) = (if evKind ev = EventKindStepFailed then evStepIndex ev # failed_steps evs else failed_steps evs)"
  "started_steps [] = []" "finished_steps [] = []" "failed_steps [] = []"
  by (simp_all add: step_lists)

lemma trace_steps:
  "run_trace i steps evs out \<Longrightarrow>
   \<exists>k f. started_steps evs = [i..<i + k] \<and> finished_steps evs = [i..<i + f] \<and> k \<le> length steps \<and> f \<le> k \<and> k \<le> Suc f \<and>
     (out = ExecutionOutcomeSuccess \<longrightarrow> f = length steps \<and> (\<forall>j \<in> set (failed_steps evs). tolerated (steps ! (j - i)))) \<and>
     (out = ExecutionOutcomeFailed \<longrightarrow> 0 < k \<and> f = k \<and> last (failed_steps evs) = i + k - 1 \<and> failed_steps evs \<noteq> [] \<and>
        Step_ExitOnFailure (steps ! (k - 1))) \<and>
     out \<in> {ExecutionOutcomeSuccess, ExecutionOutcomeFailed, ExecutionOutcomeCancelled} \<and>
     set (failed_steps evs) \<subseteq> {i..<i + f}"
proof (induction rule: run_trace.induct)
  case (ended i)
  show ?case by (simp add: step_lists_Cons)
next
  case (cancelled i steps)
  show ?case by (rule exI [of _ 0], rule exI [of _ 0]) (simp add: step_lists_Cons)
next
  case (interrupted mid i s steps)
  show ?case
    by (rule exI [of _ 1], rule exI [of _ 0]) (simp add: step_lists_Cons mid_unstepped_all [OF interrupted])
next
  case (completed mid ev i steps evs out s)
  then obtain k f where kf: "started_steps evs = [Suc i..<Suc i + k]" "finished_steps evs = [Suc i..<Suc i + f]" "k \<le> length steps"
    "f \<le> k" "k \<le> Suc f"
    "out = ExecutionOutcomeSuccess \<longrightarrow> f = length steps \<and> (\<forall>j \<in> set (failed_steps evs). tolerated (steps ! (j - Suc i)))"
    "out = ExecutionOutcomeFailed \<longrightarrow> 0 < k \<and> f = k \<and> last (failed_steps evs) = Suc i + k - 1 \<and> failed_steps evs \<noteq> [] \<and>
        Step_ExitOnFailure (steps ! (k - 1))"
    "out \<in> {ExecutionOutcomeSuccess, ExecutionOutcomeFailed, ExecutionOutcomeCancelled}" "set (failed_steps evs) \<subseteq> {Suc i..<Suc i + f}"
    by blast
  have nth: "j \<in> set (failed_steps evs) \<Longrightarrow> (s # steps) ! (j - i) = steps ! (j - Suc i)" for j
    using kf(9) by (auto simp: nth_Cons' Suc_diff_Suc)
  show ?case
    using kf completed(2,3) mid_unstepped [OF completed(1), of "ev # evs"] nth
    by (intro exI [of _ "Suc k"] exI [of _ "Suc f"])
      (auto simp: step_lists_Cons upt_conv_Cons nth_Cons' simp del: upt_Suc split: if_splits)
next
  case (failed_on mid ev i s steps evs out)
  then obtain k f where kf: "started_steps evs = [Suc i..<Suc i + k]" "finished_steps evs = [Suc i..<Suc i + f]" "k \<le> length steps"
    "f \<le> k" "k \<le> Suc f"
    "out = ExecutionOutcomeSuccess \<longrightarrow> f = length steps \<and> (\<forall>j \<in> set (failed_steps evs). tolerated (steps ! (j - Suc i)))"
    "out = ExecutionOutcomeFailed \<longrightarrow> 0 < k \<and> f = k \<and> last (failed_steps evs) = Suc i + k - 1 \<and> failed_steps evs \<noteq> [] \<and>
        Step_ExitOnFailure (steps ! (k - 1))"
    "out \<in> {ExecutionOutcomeSuccess, ExecutionOutcomeFailed, ExecutionOutcomeCancelled}" "set (failed_steps evs) \<subseteq> {Suc i..<Suc i + f}"
    by blast
  have nth: "j \<in> set (failed_steps evs) \<Longrightarrow> (s # steps) ! (j - i) = steps ! (j - Suc i)" for j
    using kf(9) by (auto simp: nth_Cons' Suc_diff_Suc)
  show ?case
    using kf failed_on(2-4) mid_unstepped [OF failed_on(1), of "ev # evs"] nth
    by (intro exI [of _ "Suc k"] exI [of _ "Suc f"])
      (auto simp: step_lists_Cons upt_conv_Cons nth_Cons' simp del: upt_Suc split: if_splits)
next
  case (failed mid ev i s steps)
  show ?case
    using failed(2-4) mid_unstepped [OF failed(1), of "[ev]"]
    by (intro exI [of _ 1]) (simp add: step_lists_Cons)
qed

section \<open>Laws of a download\<close>

lemma staged_not_dst:
  "stagingPath env dst w = Inr staged \<Longrightarrow> staged \<noteq> dst"
proof
  assume a: "stagingPath env dst w = Inr staged" "staged = dst"
  have "length (fst (filepath_Split dst)) + length (snd (filepath_Split dst)) = length dst"
    using length_takeWhile_le [of "\<lambda>c. c \<noteq> CHR ''/''" "rev dst"] by (simp add: filepath_Split_def Let_def)
  moreover from a have "length dst = length (fst (filepath_Split dst)) + length (snd (filepath_Split dst)) + 8 + length (wzSuffix env 0 w)"
    by (auto simp: stagingPath_def stagingMarker_def split: if_splits prod.splits dest: arg_cong [where f = length])
  ultimately show False by simp
qed

lemma dst_not_stale: "\<not> stale_name dst dst"
  by (auto simp: stale_name_def Let_def HasPrefix_def stagingMarker_def asideMarker_def split: prod.splits
      dest!: arg_cong [where f = length])

lemma aside_not_dst: "dst @ asideMarker @ s \<noteq> dst"
  by (simp add: asideMarker_def)

lemma shifted_dot: "v \<noteq> c \<Longrightarrow> c # b @ c # u \<noteq> b @ c # v # r"
  by (induction b) auto

lemma staged_not_aside:
  assumes "stagingPath env dst w = Inr staged" shows "staged \<noteq> dst @ asideMarker @ s"
proof -
  let ?d = "fst (filepath_Split dst)" and ?b = "snd (filepath_Split dst)"
  have dst: "dst = ?d @ ?b"
  proof -
    have "rev (dropWhile (\<lambda>c. c \<noteq> CHR ''/'') (rev dst)) @ rev (takeWhile (\<lambda>c. c \<noteq> CHR ''/'') (rev dst)) = dst"
      by (metis rev_append rev_rev_ident takeWhile_dropWhile_id)
    then show ?thesis by (simp add: filepath_Split_def Let_def) (metis append_eq_conv_conj diff_add_inverse2 length_append length_rev)
  qed
  have st: "staged = ?d @ CHR ''.'' # ?b @ CHR ''.'' # ''fetch-'' @ wzSuffix env 0 w"
    using assms by (auto simp: stagingPath_def stagingMarker_def split: if_splits prod.splits)
  have as: "dst @ asideMarker @ s = ?d @ ?b @ CHR ''.'' # CHR ''r'' # ''eplaced-'' @ s"
    by (subst dst) (simp add: asideMarker_def)
  show ?thesis unfolding st as using shifted_dot [of "CHR ''r''" "CHR ''.''" ?b] by simp
qed

lemma replaceFile_cases:
  assumes "replaceFile env staged dst w = (err, w')" "stagingPath env dst w0 = Inr staged"
  shows "(err = None \<and> wFiles w' dst = wFiles w staged \<and> wFiles w staged \<noteq> None) \<or>
    (err = Some ErrReplace \<and> (wFiles w' dst = wFiles w dst \<or>
       (wFiles w' dst = None \<and> (\<exists>s. wFiles w' (dst @ asideMarker @ s) = wFiles w dst))))"
proof -
  note ne = staged_not_dst [OF assms(2)] staged_not_aside [OF assms(2)]
  show ?thesis
    using assms(1) ne
    by (auto simp: replaceFile_def os_Rename_def Let_def asideMarker_def split: if_splits prod.splits bool.splits)
qed

section \<open>Draining what a run reports\<close>

definition drained :: "(wiz_error \<Rightarrow> string) \<Rightarrow> Event \<Rightarrow> wizard_event" where
  "drained text ev =
     (case evKind ev of
        EventKindStepStarted \<Rightarrow> EventStepStarted (evStepIndex ev)
      | EventKindStepCompleted \<Rightarrow> EventStepCompleted (evStepIndex ev) (evNote ev)
      | EventKindStepFailed \<Rightarrow>
          EventStepFailed (evStepIndex ev) (map_option text (evErr ev)) (evErr ev = Some ErrChecksumMismatch)
      | EventKindPID \<Rightarrow> EventPID (evPID ev)
      | EventKindSurface \<Rightarrow> EventSurface (evSurface ev)
      | EventKindSurfaceClosed \<Rightarrow> EventSurfaceClosed
      | EventKindEnded \<Rightarrow> EventEnded)"

text \<open>The drain of a run nobody else writes to: the events in order, then the outcome.\<close>

definition drain_run :: "Namespace \<Rightarrow> string \<Rightarrow> string \<Rightarrow> wizard_event list \<Rightarrow> ExecutionOutcome \<Rightarrow> ArrowRuntime \<Rightarrow> drain_state" where
  "drain_run ns executionID method evs outcome rt =
     finishExecution ns executionID method outcome
       (run_sched ns executionID (map Drain evs)
          \<lparr>ds_runtime = Some rt, ds_report = \<lparr>superseded = False, checksumMismatch = False, surfaceReleased = False\<rparr>, ds_calls = []\<rparr>)"

text \<open>What an event does to the progress of the steps.\<close>

definition mark_step :: "wizard_event \<Rightarrow> StepProgress list \<Rightarrow> StepProgress list" where
  "mark_step evt sps =
     (case evt of
        EventStepStarted i \<Rightarrow> sps[i := (sps ! i)\<lparr>spStatus := StepStatusRunning, spError := None, spNote := None\<rparr>]
      | EventStepCompleted i note \<Rightarrow> sps[i := (sps ! i)\<lparr>spStatus := StepStatusCompleted, spError := None, spNote := note_opt note\<rparr>]
      | EventStepFailed i err b \<Rightarrow> sps[i := (sps ! i)\<lparr>spStatus := StepStatusFailed, spError := err, spNote := None\<rparr>]
      | _ \<Rightarrow> sps)"

definition running_as :: "string \<Rightarrow> string \<Rightarrow> StepProgress list \<Rightarrow> drain_state \<Rightarrow> bool" where
  "running_as i method sps ds \<longleftrightarrow> \<not> superseded (ds_report ds) \<and>
     (\<exists>rt ex. ds_runtime ds = Some rt \<and> rtRef rt \<noteq> [] \<and> rtExecution rt = Some ex \<and> exID ex = i \<and> exMethod ex = method \<and> exSteps ex = sps)"

lemma drain_event_running:
  assumes "running_as i m sps ds" shows "running_as i m (mark_step evt sps) (drain_event ns i evt ds)"
proof -
  obtain rt ex where r: "\<not> superseded (ds_report ds)" "ds_runtime ds = Some rt" "rtRef rt \<noteq> []" "rtExecution rt = Some ex" "exID ex = i"
    "exMethod ex = m" "exSteps ex = sps" using assms by (auto simp: running_as_def)
  have req: "requireCurrentExecution (Some rt) i = None" using r by (simp add: requireCurrentExecution_def)
  show ?thesis using r req
    by (cases evt)
      (auto simp: drain_event_def event_command_def drain_send_def agg_send_def rt_validate_def rt_emit_def command_defs observe_def
        Let_def mark_step_def running_as_def reject_unless_def list_update_beyond split: option.splits)
qed

lemma drain_events_running:
  "running_as i m sps ds \<Longrightarrow> running_as i m (foldl (\<lambda>s evt. mark_step evt s) sps evts) (run_sched ns i (map Drain evts) ds)"
  by (induction evts arbitrary: sps ds) (auto dest: drain_event_running)

lemma drain_run_settles:
  assumes "rtRef rt \<noteq> []" "rtExecution rt = Some ex" "exID ex = i" "exMethod ex = m"
  shows "\<exists>rt'. ds_runtime (drain_run ns i m evts out rt) = Some rt' \<and> rtExecution rt' = None \<and> rtState rt' = stateAfterEnd m out \<and>
    (\<exists>ret. rtLastReturn rt' = Some ret \<and> retOutcome ret = out \<and> retExecutionID ret = i \<and>
       retSteps ret = foldl (\<lambda>s evt. mark_step evt s) (exSteps ex) evts)"
proof -
  let ?ds = "run_sched ns i (map Drain evts)
          \<lparr>ds_runtime = Some rt, ds_report = \<lparr>superseded = False, checksumMismatch = False, surfaceReleased = False\<rparr>, ds_calls = []\<rparr>"
  have "running_as i m (foldl (\<lambda>s evt. mark_step evt s) (exSteps ex) evts) ?ds"
    by (rule drain_events_running) (use assms in \<open>simp add: running_as_def\<close>)
  then obtain rt1 ex1 where r: "\<not> superseded (ds_report ?ds)" "ds_runtime ?ds = Some rt1" "rtRef rt1 \<noteq> []" "rtExecution rt1 = Some ex1"
    "exID ex1 = i" "exMethod ex1 = m" "exSteps ex1 = foldl (\<lambda>s evt. mark_step evt s) (exSteps ex) evts"
    by (auto simp: running_as_def)
  have "requireCurrentExecution (Some rt1) i = None" using r by (simp add: requireCurrentExecution_def)
  then have "rt_send (CEndExecution ns i out) (Some rt1) =
      Inr (rt_emit (CEndExecution ns i out) (Some rt1))" by (simp add: agg_send_def rt_validate_def EndExecution_def)
  then show ?thesis using r
    by (auto simp: drain_run_def finishExecution_def Let_def rt_emit_def EndExecution_def)
qed

text \<open>A step that a successful run left behind: completed, or failed where a failure is tolerated.\<close>

definition settled :: "Step \<Rightarrow> StepProgress \<Rightarrow> bool" where
  "settled s sp \<longleftrightarrow> spStatus sp = StepStatusCompleted \<or> (spStatus sp = StepStatusFailed \<and> tolerated s)"

abbreviation marks :: "(wiz_error \<Rightarrow> string) \<Rightarrow> StepProgress list \<Rightarrow> Event list \<Rightarrow> StepProgress list" where
  "marks text sps evs \<equiv> foldl (\<lambda>s evt. mark_step evt s) sps (map (drained text) evs)"

lemma mark_length [simp]: "length (mark_step evt sps) = length sps"
  by (cases evt) (simp_all add: mark_step_def)

lemma marks_length [simp]: "length (marks text sps evs) = length sps"
  by (induction evs arbitrary: sps) simp_all

lemma mark_mid: "mid_events mid \<Longrightarrow> marks text sps mid = sps"
  unfolding mid_events_def
  by (elim insertE emptyE) (auto simp: map_eq_Cons_conv mark_step_def drained_def split: option.splits)

lemma mark_completed:
  "evKind ev = EventKindStepCompleted \<Longrightarrow> evStepIndex ev = i \<Longrightarrow> i < length sps \<Longrightarrow>
   spStatus (mark_step (drained text ev) sps ! i) = StepStatusCompleted \<and> (\<forall>j. j \<noteq> i \<longrightarrow> mark_step (drained text ev) sps ! j = sps ! j)"
  by (simp add: drained_def mark_step_def)

lemma mark_failed:
  "evKind ev = EventKindStepFailed \<Longrightarrow> evStepIndex ev = i \<Longrightarrow> i < length sps \<Longrightarrow>
   spStatus (mark_step (drained text ev) sps ! i) = StepStatusFailed \<and> (\<forall>j. j \<noteq> i \<longrightarrow> mark_step (drained text ev) sps ! j = sps ! j)"
  by (simp add: drained_def mark_step_def)

lemma mark_started: "j \<noteq> i \<Longrightarrow> mark_step (drained text (step_event EventKindStepStarted i)) sps ! j = sps ! j"
  by (simp add: drained_def mark_step_def)

lemma settled_from:
  assumes "length sps = i + length (s # steps)" "mid_events mid"
    and fin: "\<And>sps :: StepProgress list. i < length sps \<Longrightarrow> settled s (mark_step (drained text ev) sps ! i) \<and>
      (\<forall>j. j \<noteq> i \<longrightarrow> mark_step (drained text ev) sps ! j = sps ! j)"
    and IH: "\<And>sps. length sps = Suc i + length steps \<Longrightarrow> (\<forall>j < Suc i. marks text sps evs ! j = sps ! j) \<and>
      (\<forall>j < length steps. settled (steps ! j) (marks text sps evs ! (Suc i + j)))"
  shows "(\<forall>j < i. marks text sps (step_event EventKindStepStarted i # mid @ ev # evs) ! j = sps ! j) \<and>
    (\<forall>j < length (s # steps). settled ((s # steps) ! j) (marks text sps (step_event EventKindStepStarted i # mid @ ev # evs) ! (i + j)))"
proof -
  let ?s1 = "mark_step (drained text (step_event EventKindStepStarted i)) sps"
  let ?s2 = "mark_step (drained text ev) ?s1"
  have all: "marks text sps (step_event EventKindStepStarted i # mid @ ev # evs) = marks text ?s2 evs"
    by (simp add: mark_mid [OF assms(2)])
  have "length ?s2 = Suc i + length steps" using assms(1) by simp
  note IH = IH [OF this]
  have f: "settled s (?s2 ! i)" "\<forall>j. j \<noteq> i \<longrightarrow> ?s2 ! j = ?s1 ! j" using fin [of ?s1] assms(1) by simp_all
  show ?thesis unfolding all
  proof (intro conjI allI impI)
    fix j assume "j < i" then show "marks text ?s2 evs ! j = sps ! j" using IH f(2) by (simp add: mark_started)
  next
    fix j assume j: "j < length (s # steps)"
    show "settled ((s # steps) ! j) (marks text ?s2 evs ! (i + j))"
    proof (cases j)
      case 0
      then show ?thesis using IH f(1) by simp
    next
      case (Suc k)
      then show ?thesis using IH j by simp
    qed
  qed
qed

lemma trace_settles:
  "run_trace i steps evs out \<Longrightarrow> out = ExecutionOutcomeSuccess \<Longrightarrow> length sps = i + length steps \<Longrightarrow>
   (\<forall>j < i. marks text sps evs ! j = sps ! j) \<and> (\<forall>j < length steps. settled (steps ! j) (marks text sps evs ! (i + j)))"
proof (induction arbitrary: sps rule: run_trace.induct)
  case (completed mid ev i steps evs out s)
  have fin: "i < length sps \<Longrightarrow> settled s (mark_step (drained text ev) sps ! i) \<and>
      (\<forall>j. j \<noteq> i \<longrightarrow> mark_step (drained text ev) sps ! j = sps ! j)" for sps :: "StepProgress list"
    using mark_completed [OF completed(2,3)] by (simp add: settled_def)
  show ?case by (rule settled_from [OF completed.prems(2) completed(1) fin completed.IH [OF completed.prems(1)]])
next
  case (failed_on mid ev i s steps evs out)
  have fin: "i < length sps \<Longrightarrow> settled s (mark_step (drained text ev) sps ! i) \<and>
      (\<forall>j. j \<noteq> i \<longrightarrow> mark_step (drained text ev) sps ! j = sps ! j)" for sps :: "StepProgress list"
    using mark_failed [OF failed_on(2,3)] failed_on(4) by (simp add: settled_def)
  show ?case by (rule settled_from [OF failed_on.prems(2) failed_on(1) fin failed_on.IH [OF failed_on.prems(1)]])
qed simp_all

section \<open>Properties\<close>

text \<open>
  Expansion replaces references and nothing else: a template is text and references, the
  references are exactly the tokens the ruleset checks, and the expanded string is the template
  with each bound reference replaced by its value; text, and references nobody binds, stay as they are.
\<close>

theorem expand_replaces_references:
  assumes "map_of vs [] = None"
  shows "concat (map piece_text (pieces raw)) = raw \<and> piece_names (pieces raw) = extractVarTokens raw \<and>
    Expand vs raw = concat (map (piece_value vs) (pieces raw))"
  using pieces_spec [of raw vs] assms by blast

theorem expand_replaces_references_witness:
  "Expand [(''A'', ''1'')] ''x ${A} $HOME ${B}'' = ''x 1 $HOME ${B}'' \<and> piece_names (pieces ''x ${A} $HOME ${B}'') = [''A'', ''B'']"
proof -
  have e: "extractVarTokens ''x ${A} $HOME ${B}'' = [''A'', ''B'']" by code_simp
  have v: "Expand [(''A'', ''1'')] ''x ${A} $HOME ${B}'' = ''x 1 $HOME ${B}''" by code_simp
  from expand_replaces_references [of "[(''A'', ''1'')]" "''x ${A} $HOME ${B}''"] e v show ?thesis by simp
qed

text \<open>
  A run reports what it does, step by step: the steps are started in order without a gap,
  each is finished before the next begins, and the outcome tells the rest.  Success means every
  step finished and none failed but those whose failure is tolerated; failure means the last step
  begun failed and must not; there is no other outcome than these and cancellation.
\<close>

theorem run_reports_every_step:
  assumes "runSteps env req w = (evs, out, w')"
  shows "\<exists>k f. started_steps evs = [0..<k] \<and> finished_steps evs = [0..<f] \<and> k \<le> length (rrSteps req) \<and> f \<le> k \<and> k \<le> Suc f \<and>
     (out = ExecutionOutcomeSuccess \<longrightarrow> f = length (rrSteps req) \<and> (\<forall>j \<in> set (failed_steps evs). tolerated (rrSteps req ! j))) \<and>
     (out = ExecutionOutcomeFailed \<longrightarrow> 0 < k \<and> f = k \<and> last (failed_steps evs) = k - 1 \<and> Step_ExitOnFailure (rrSteps req ! (k - 1))) \<and>
     out \<in> {ExecutionOutcomeSuccess, ExecutionOutcomeFailed, ExecutionOutcomeCancelled}"
  using trace_steps [OF run_from_trace, of env req 0 "rrSteps req" w evs out w'] assms
  unfolding runSteps_def by auto

definition quiet_env :: "unit wz_env" where
  "quiet_env = \<lparr>wzOS = ''linux/amd64'', wzPoll = (\<lambda>w. (False, w)), wzStart = (\<lambda>c d w. (Inr 7, w)), wzWait = (\<lambda>p w. (None, w)),
     wzExitCode = (\<lambda>p w. 0), wzSignalPID = (\<lambda>p s w. (None, w)), wzDeps = None, wzOpen = (\<lambda>p w. None),
     wzDetect = (\<lambda>p w. Inr True), wzUnpack = (\<lambda>a b w. (None, w)), wzInstall = (\<lambda>r a b n w. (None, w)),
     wzApply = (\<lambda>n d e i w. ((\<lparr>apEntries = [], apRefused = [], apSkipped = []\<rparr>, None), w)), wzRemove = (\<lambda>d w. (None, w)),
     wzAppEntry = (\<lambda>d w. Inr ''/app''), wzEvalSymlinks = (\<lambda>p w. Some p), wzIsDir = (\<lambda>p w. False),
     wzDownload = (\<lambda>u w. (Some ''data'', None)), wzFetch = (\<lambda>u w. Inr []), wzScheme = (\<lambda>u. Some ''https''),
     wzURLPath = (\<lambda>u. Some u), wzSha256 = (\<lambda>c. c), wzRenameErr = (\<lambda>p q w. False), wzSuffix = (\<lambda>n w. ''00''),
     wzStale = (\<lambda>p w. False)\<rparr>"

definition quiet_request :: RunRequest where
  "quiet_request = \<lparr>rrNamespace = ''h/u/r'', rrMethod = MethodInstall, rrVariables = [], rrSteps =
     [FetchStep (newBasicStep StepTypeFetch ''Get'' True) (plain ''https://h/a.zip'') (plain ''a.zip'') (plain ''DATA'') (plain ''30s''),
      RunStep (newBasicStep StepTypeRun ''Run'' False) (plain ''echo'') (plain False) (plain []) None],
     rrWorkDir = ''/w'', rrPID = 0\<rparr>"

definition empty_world :: "unit world" where "empty_world = \<lparr>wFiles = (\<lambda>_. None), wRest = ()\<rparr>"

theorem run_reports_every_step_witness:
  "\<exists>evs. fst (runSteps quiet_env quiet_request empty_world) = evs \<and> finished_steps evs = [0, 1] \<and> failed_steps evs = []"
proof -
  let ?r = "runSteps quiet_env quiet_request empty_world"
  have ok: "fst (snd ?r) = ExecutionOutcomeSuccess \<and> map evStepIndex (fst ?r) = [0, 0, 1, 0, 1] \<and> failed_steps (fst ?r) = []" by code_simp
  have r: "?r = (fst ?r, ExecutionOutcomeSuccess, snd (snd ?r))" using ok by (metis prod.collapse)
  have n: "length (rrSteps quiet_request) = 2" by (simp add: quiet_request_def)
  from run_reports_every_step [OF r] have "finished_steps (fst ?r) = [0..<2]" unfolding n by auto
  then show ?thesis using ok by (simp add: upt_rec)
qed

text \<open>
  C33. A fetch step never puts a download it has not verified where later steps find it: when it
  succeeds the destination holds exactly what was downloaded and the content has the digest the
  step declares; when it fails the destination is what it was before, or, where the system refused
  even to put the old file back, is absent and the old file is kept beside it.  A checksum given by
  a reference that expands to nothing is a failure, never a skipped check.
\<close>

theorem fetched_file_verified:
  assumes "download_Execute env req url to ck timeout w = (err, w')"
    and "dst = ResolvePath req (Overrideable_Resolve to (rqOSArch req))" "src = Expand (rqVars req) (Overrideable_Resolve url (rqOSArch req))"
    and "raw = Overrideable_Resolve ck (rqOSArch req)" "checksum = Expand (rqVars req) raw"
  shows "case err of
      None \<Rightarrow> (\<exists>content. wFiles w' dst = Some content \<and> wzDownload env src w = (Some content, None) \<and>
        (if checksum = [] then \<not> Contains raw ''${''
         else \<exists>w1 digest. wRest w1 = wRest w \<and> expectedDigest env checksum src w1 = Inr digest \<and> EqualFold (wzSha256 env content) digest))
    | Some e \<Rightarrow> wFiles w' dst = wFiles w dst \<or>
        (e = ErrReplace \<and> wFiles w' dst = None \<and> (\<exists>s. wFiles w' (dst @ asideMarker @ s) = wFiles w dst))"
proof (cases "WithTimeout (Overrideable_Resolve timeout (rqOSArch req)) \<noteq> None \<or> requireHTTP env src \<noteq> None \<or>
    (\<exists>e. stagingPath env dst w = Inl e)")
  case True
  then show ?thesis using assms(1) by (auto simp: download_Execute_def assms(2-) Let_def split: option.splits sum.splits)
next
  case False
  then obtain staged where st: "stagingPath env dst w = Inr staged" and pre: "WithTimeout (Overrideable_Resolve timeout (rqOSArch req)) = None"
    "requireHTTP env src = None" by (cases "stagingPath env dst w") auto
  note ne = staged_not_dst [OF st] staged_not_aside [OF st]
  obtain content derr where dl: "wzDownload env src w = (content, derr)" by (cases "wzDownload env src w")
  define w1 where "w1 = w\<lparr>wFiles := (wFiles w)(staged := content)\<rparr>"
  have run: "download_Execute env req url to ck timeout w =
      (case derr of Some e \<Rightarrow> (Some e, os_Remove staged w1)
       | None \<Rightarrow> (case verify_fetch env req ck src staged w1 of
             Some e \<Rightarrow> (Some e, os_Remove staged w1)
           | None \<Rightarrow> (case replaceFile env staged dst w1 of
                 (Some e, w2) \<Rightarrow> (Some e, os_Remove staged w2)
               | (None, w2) \<Rightarrow> (None, os_Remove staged (sweepStale env dst w2)))))"
    using pre st dl unfolding download_Execute_def w1_def assms(2-3) by (simp add: Let_def)
  have keep: "wFiles (os_Remove staged w1) dst = wFiles w dst" "wFiles w1 dst = wFiles w dst" using ne by (simp_all add: os_Remove_def w1_def)
  show ?thesis
  proof (cases "derr \<noteq> None \<or> verify_fetch env req ck src staged w1 \<noteq> None")
    case True
    then show ?thesis using assms(1) keep unfolding run by (auto split: option.splits)
  next
    case False
    then have ver: "derr = None" "verify_fetch env req ck src staged w1 = None" by auto
    obtain rerr w2 where rep: "replaceFile env staged dst w1 = (rerr, w2)" by (cases "replaceFile env staged dst w1")
    have res: "(err, w') = (case rerr of Some e \<Rightarrow> (Some e, os_Remove staged w2) | None \<Rightarrow> (None, os_Remove staged (sweepStale env dst w2)))"
      using assms(1) unfolding run by (simp add: ver rep split: option.splits)
    show ?thesis
    proof (cases rerr)
      case None
      with replaceFile_cases [OF rep st] have c: "wFiles w2 dst = content" "content \<noteq> None" by (auto simp: w1_def)
      then obtain d where d: "content = Some d" by blast
      have "wFiles w' dst = Some d" "err = None" using res c d ne dst_not_stale [of dst]
        by (simp_all add: None os_Remove_def sweepStale_def)
      moreover have "if checksum = [] then \<not> Contains raw ''${''
         else \<exists>w1 digest. wRest w1 = wRest w \<and> expectedDigest env checksum src w1 = Inr digest \<and> EqualFold (wzSha256 env d) digest"
        using ver(2) unfolding verify_fetch_def Let_def assms(4,5) [symmetric]
        by (auto simp: verifyChecksum_def w1_def d split: if_splits sum.splits)
          (metis (no_types, lifting) world.select_convs(2) world.surjective world.update_convs(1))
      ultimately show ?thesis using dl d ver(1) by simp
    next
      case (Some e)
      have "wFiles w' x = wFiles w2 x" if "x \<noteq> staged" for x using res Some that by (simp add: os_Remove_def)
      with ne have "wFiles w' dst = wFiles w2 dst" "wFiles w' (dst @ asideMarker @ s) = wFiles w2 (dst @ asideMarker @ s)" for s by metis+
      moreover have "err = Some e" using res Some by simp
      ultimately show ?thesis using replaceFile_cases [OF rep st] keep(2) Some by auto
    qed
  qed
qed

theorem fetched_file_verified_witness:
  "\<exists>w'. download_Execute quiet_env (stepRequest quiet_env quiet_request) (plain ''https://h/a.zip'') (plain ''a.zip'') (plain ''DATA'')
     (plain ''30s'') empty_world = (None, w') \<and> wFiles w' ''/w/a.zip'' = Some ''data''"
proof -
  let ?d = "download_Execute quiet_env (stepRequest quiet_env quiet_request) (plain ''https://h/a.zip'') (plain ''a.zip'') (plain ''DATA'')
     (plain ''30s'') empty_world"
  have "fst ?d = None" by code_simp
  then have d: "?d = (None, snd ?d)" by (metis prod.collapse)
  have p: "ResolvePath (stepRequest quiet_env quiet_request) (Overrideable_Resolve (plain ''a.zip'') (rqOSArch (stepRequest quiet_env quiet_request))) = ''/w/a.zip''"
    by code_simp
  from fetched_file_verified [OF d p [symmetric] refl refl refl] obtain content where
    "wFiles (snd ?d) ''/w/a.zip'' = Some content" "wzDownload quiet_env (Expand (rqVars (stepRequest quiet_env quiet_request))
       (Overrideable_Resolve (plain ''https://h/a.zip'') (rqOSArch (stepRequest quiet_env quiet_request)))) empty_world = (Some content, None)"
    by (auto split: option.splits)
  then show ?thesis using d by (auto simp: quiet_env_def)
qed

text \<open>
  C32. Every run that nobody supersedes settles: while no other command writes the aggregate between
  the begin of the run and its end, and however many of the run's events the channel dropped, once
  the run has ended and its events are drained the aggregate runs nothing, is in the stable state
  its method and outcome call for, and keeps the outcome as its last return.  When nothing was
  dropped and the run succeeded, the last return shows every step completed, or failed where the
  failure is tolerated.  (A run another one superseded leaves the aggregate to it, which is the
  property of the inert superseded run.)
\<close>

theorem every_run_settles:
  assumes "runSteps env req w = (evs, out, w')" "subseq received evs"
    and "rtRef rt \<noteq> []" "rtExecution rt = Some ex" "exID ex = i" "exMethod ex = m" "exSteps ex = initialSteps (rrSteps req)"
  shows "\<exists>rt' ret. ds_runtime (drain_run ns i m (map (drained text) received) out rt) = Some rt' \<and> rtExecution rt' = None \<and>
    rtState rt' = stateAfterEnd m out \<and> rtLastReturn rt' = Some ret \<and> retOutcome ret = out \<and> retExecutionID ret = i \<and>
    (received = evs \<and> out = ExecutionOutcomeSuccess \<longrightarrow>
       (\<forall>j < length (rrSteps req). settled (rrSteps req ! j) (retSteps ret ! j)))"
proof -
  obtain rt' ret where r: "ds_runtime (drain_run ns i m (map (drained text) received) out rt) = Some rt'" "rtExecution rt' = None"
    "rtState rt' = stateAfterEnd m out" "rtLastReturn rt' = Some ret" "retOutcome ret = out" "retExecutionID ret = i"
    "retSteps ret = marks text (exSteps ex) received"
    using drain_run_settles [OF assms(3-6), of ns "map (drained text) received" out] by blast
  have "run_trace 0 (rrSteps req) evs out" using run_from_trace assms(1) unfolding runSteps_def by blast
  from trace_settles [OF this, of "initialSteps (rrSteps req)" "text"] have
    "received = evs \<and> out = ExecutionOutcomeSuccess \<longrightarrow> (\<forall>j < length (rrSteps req). settled (rrSteps req ! j) (retSteps ret ! j))"
    using r(7) assms(7) by (simp add: initialSteps_def enum_def)
  with r show ?thesis by blast
qed

definition begun_runtime :: ArrowRuntime where
  "begun_runtime = \<lparr>rtRef = ''h/u/r'', rtState = ArrowStateInstalling,
     rtExecution = Some (begun \<lparr>bgNamespace = ''h/u/r'', bgExecutionID = ''e1'', bgSteps = rrSteps quiet_request, bgVariables = [],
       bgWorkDir = ''/w''\<rparr> MethodInstall 0), rtLastReturn = None, rtPendingDepSync = None\<rparr>"

theorem every_run_settles_witness:
  "\<exists>rt' ret. ds_runtime (drain_run ''h/u/r'' ''e1'' MethodInstall
       (map (drained (\<lambda>_. [])) (fst (runSteps quiet_env quiet_request empty_world))) ExecutionOutcomeSuccess begun_runtime) = Some rt' \<and>
     rtState rt' = ArrowStateReady \<and> rtLastReturn rt' = Some ret \<and> spStatus (retSteps ret ! 0) = StepStatusCompleted"
proof -
  let ?r = "runSteps quiet_env quiet_request empty_world"
  have ok: "fst (snd ?r) = ExecutionOutcomeSuccess" by code_simp
  then have r: "?r = (fst ?r, ExecutionOutcomeSuccess, snd (snd ?r))" by (metis prod.collapse)
  have b: "rtRef begun_runtime \<noteq> []" "rtExecution begun_runtime = Some (begun \<lparr>bgNamespace = ''h/u/r'', bgExecutionID = ''e1'',
      bgSteps = rrSteps quiet_request, bgVariables = [], bgWorkDir = ''/w''\<rparr> MethodInstall 0)" by (simp_all add: begun_runtime_def)
  have n: "length (rrSteps quiet_request) = 2" "\<not> tolerated (rrSteps quiet_request ! 0)"
    by (simp_all add: quiet_request_def tolerated_def Step_ExitOnFailure_def newBasicStep_def is_expose_def)
  from every_run_settles [OF r subseq_order.order_refl b(1) b(2), of "''e1''" MethodInstall "''h/u/r''" "\<lambda>_. []"] n
  show ?thesis by (force simp: begun_def stateAfterEnd_def settled_def)
qed

text \<open>
  The ruleset bounds the form of a timeout, not its size: an accepted one can be refused by the
  run, before its step has done anything.
\<close>

lemma accepted_timeout_refused: "timeoutRe ''9999999999s'' \<and> ParseDuration ''9999999999s'' = None"
  by code_simp

end
