(* ===== verification/Manifold.thy ===== *)
theory Manifold
  imports Ruleset Versioning
begin

text \<open>
  The manifold (engine/manifold/manifold.go) over its fetchers (resolver, resolvers/http.go,
  resolvers/git.go), the collection half of the translator, and the fallback that drafts a manifest
  for a repository that ships none (fletcher/internal/fallback).  The git hosts, the network, the
  clone and the drafter are parameters; an error keeps what \<open>errors.Is\<close> can tell of it.
\<close>

section \<open>Fetching a manifest\<close>

datatype resolve_error =
    ErrNotFound | ErrManifestNotFound | ErrAbsentAtRef | ErrFetchFailed | InvalidNamespace ns_error | EmptyPath

definition is_not_found :: "resolve_error \<Rightarrow> bool" where
  "is_not_found e \<longleftrightarrow> e \<in> {ErrNotFound, ErrManifestNotFound, ErrAbsentAtRef}"

record Host =
  RawFileURL :: "Namespace \<Rightarrow> string \<Rightarrow> string \<Rightarrow> string option"
  DefaultBranches :: "string list"

text \<open>
  What the network answers: nothing, or a status and a body that may not be readable; and what a
  clone gives: no such repository, another failure, or the files of a work tree.
\<close>

datatype file_read = FileMissing | FileUnreadable | FileData string
datatype clone_result = RepositoryNotFound | CloneFailed | WorktreeFailed | Worktree "string \<Rightarrow> file_read"
datatype git_ref = HeadRef | TagRef string | BranchRef string

record fetch_env =
  feHosts :: "Namespace \<Rightarrow> Host option"
  feGet :: "string \<Rightarrow> (int \<times> string option) option"
  feClone :: "string \<Rightarrow> git_ref \<Rightarrow> clone_result"

definition fetchHTTP :: "fetch_env \<Rightarrow> string \<Rightarrow> resolve_error + string" where
  "fetchHTTP env rawURL =
     (case feGet env rawURL of
        None \<Rightarrow> Inl ErrFetchFailed
      | Some (status, body) \<Rightarrow>
          if status = 404 then Inl ErrNotFound
          else if status < 200 \<or> status \<ge> 300 then Inl ErrFetchFailed
          else (case body of None \<Rightarrow> Inl ErrFetchFailed | Some data \<Rightarrow> Inr data))"

fun fetchBranches :: "fetch_env \<Rightarrow> Host \<Rightarrow> Namespace \<Rightarrow> string \<Rightarrow> string list \<Rightarrow> resolve_error \<Rightarrow> resolve_error + string" where
  "fetchBranches env host ns filePath [] lastErr = Inl lastErr"
| "fetchBranches env host ns filePath (branch # branches) lastErr =
     (case RawFileURL host ns branch filePath of
        None \<Rightarrow> Inl ErrFetchFailed
      | Some rawURL \<Rightarrow>
          (case fetchHTTP env rawURL of
             Inr data \<Rightarrow> Inr data
           | Inl e \<Rightarrow> if \<not> is_not_found e then Inl e else fetchBranches env host ns filePath branches e))"

fun http_candidates ::
  "fetch_env \<Rightarrow> Host \<Rightarrow> Namespace \<Rightarrow> string list \<Rightarrow> string list \<Rightarrow> resolve_error option \<Rightarrow> resolve_error
   \<Rightarrow> (resolve_error option \<times> resolve_error) + string \<times> string" where
  "http_candidates env host ns branches [] failure lastErr = Inl (failure, lastErr)"
| "http_candidates env host ns branches (filePath # filePaths) failure lastErr =
     (case fetchBranches env host ns filePath branches ErrNotFound of
        Inr data \<Rightarrow> Inr (data, filePath)
      | Inl e \<Rightarrow>
          http_candidates env host ns branches filePaths
            (if failure = None \<and> \<not> is_not_found e then Some e else failure) e)"

definition http_Fetch :: "fetch_env \<Rightarrow> Namespace \<Rightarrow> string list \<Rightarrow> resolve_error + string \<times> string" where
  "http_Fetch env ns filePaths =
     (case feHosts env ns of
        None \<Rightarrow> Inl ErrNotFound
      | Some host \<Rightarrow>
          (let branches = (if Ref ns \<noteq> [] then [Ref ns] else DefaultBranches host)
           in case http_candidates env host ns branches filePaths None ErrNotFound of
                Inr found \<Rightarrow> Inr found
              | Inl (Some failure, lastErr) \<Rightarrow> Inl failure
              | Inl (None, lastErr) \<Rightarrow>
                  if Ref ns = [] \<or> filePaths = [] then Inl lastErr else Inl ErrAbsentAtRef))"

fun openFirstMatch :: "(string \<Rightarrow> file_read) \<Rightarrow> string list \<Rightarrow> resolve_error + string \<times> string" where
  "openFirstMatch fs [] = Inl ErrNotFound"
| "openFirstMatch fs (filePath # filePaths) =
     (case fs filePath of
        FileMissing \<Rightarrow> openFirstMatch fs filePaths
      | FileUnreadable \<Rightarrow> Inl ErrFetchFailed
      | FileData data \<Rightarrow> Inr (data, filePath))"

text \<open>A pinned ref is cloned as a tag and, that failing, as a branch.\<close>

definition clone_at :: "fetch_env \<Rightarrow> string \<Rightarrow> string \<Rightarrow> clone_result" where
  "clone_at env cloneURL ref =
     (if ref = [] then feClone env cloneURL HeadRef
      else case feClone env cloneURL (TagRef ref) of
             RepositoryNotFound \<Rightarrow> feClone env cloneURL (BranchRef ref)
           | CloneFailed \<Rightarrow> feClone env cloneURL (BranchRef ref)
           | opened \<Rightarrow> opened)"

definition fetchFile :: "fetch_env \<Rightarrow> string \<Rightarrow> string list \<Rightarrow> string \<Rightarrow> resolve_error + string \<times> string" where
  "fetchFile env cloneURL filePaths ref =
     (case clone_at env cloneURL ref of
        RepositoryNotFound \<Rightarrow> Inl ErrNotFound
      | CloneFailed \<Rightarrow> Inl ErrFetchFailed
      | WorktreeFailed \<Rightarrow> Inl ErrFetchFailed
      | Worktree fs \<Rightarrow> openFirstMatch fs filePaths)"

definition git_Fetch :: "fetch_env \<Rightarrow> Namespace \<Rightarrow> string list \<Rightarrow> resolve_error + string \<times> string" where
  "git_Fetch env ns filePaths = fetchFile env (CloneURL (BareNamespace ns)) filePaths (Ref ns)"

definition classifyFailure ::
  "resolve_error option \<Rightarrow> resolve_error option \<Rightarrow> resolve_error \<Rightarrow> resolve_error option \<times> resolve_error option" where
  "classifyFailure failure absence err =
     (if is_not_found err then (failure, Some err)
      else if failure = None then (Some err, absence) else (failure, absence))"

text \<open>The fetchers in order; each is a host that can resolve the namespace, or is passed over.\<close>

fun try_fetchers ::
  "(resolve_error + string \<times> string) list \<Rightarrow> resolve_error option \<Rightarrow> resolve_error option \<Rightarrow> resolve_error + string \<times> string" where
  "try_fetchers [] failure absence =
     (case failure of Some e \<Rightarrow> Inl e
      | None \<Rightarrow> (case absence of Some e \<Rightarrow> Inl ErrManifestNotFound | None \<Rightarrow> Inl ErrFetchFailed))"
| "try_fetchers (r # rs) failure absence =
     (case r of
        Inr found \<Rightarrow> Inr found
      | Inl e \<Rightarrow>
          if e = ErrAbsentAtRef then Inl ErrManifestNotFound
          else (let (failure', absence') = classifyFailure failure absence e in try_fetchers rs failure' absence'))"

definition fetchManifest :: "fetch_env \<Rightarrow> Namespace \<Rightarrow> string list \<Rightarrow> resolve_error + string \<times> string" where
  "fetchManifest env ns filePaths =
     try_fetchers ((if feHosts env ns \<noteq> None then [http_Fetch env ns filePaths] else []) @ [git_Fetch env ns filePaths]) None None"

definition rsv_ResolveArrow :: "fetch_env \<Rightarrow> Namespace \<Rightarrow> resolve_error + string \<times> string" where
  "rsv_ResolveArrow env ns =
     (case Namespace_Validate (BareNamespace ns) of
        Some e \<Rightarrow> Inl (InvalidNamespace e)
      | None \<Rightarrow> fetchManifest env ns [''ARROW.md'', ''arrow.yaml''])"

definition rsv_ResolveArrowAt :: "fetch_env \<Rightarrow> Namespace \<Rightarrow> string \<Rightarrow> resolve_error + string \<times> string" where
  "rsv_ResolveArrowAt env ns path =
     (case Namespace_Validate (BareNamespace ns) of
        Some e \<Rightarrow> Inl (InvalidNamespace e)
      | None \<Rightarrow> if path = [] then Inl EmptyPath else fetchManifest env ns [path @ ''.md'', path @ ''.yaml''])"

definition rsv_ResolveCollection :: "fetch_env \<Rightarrow> Namespace \<Rightarrow> resolve_error + string" where
  "rsv_ResolveCollection env ns =
     (case Namespace_Validate (BareNamespace ns) of
        Some e \<Rightarrow> Inl (InvalidNamespace e)
      | None \<Rightarrow> map_sum id fst (fetchManifest env ns [''COLLECTION.md'', ''collection.yaml'']))"

section \<open>The collection translator\<close>

datatype entry_node = EntryScalar string | EntryMapping string string string | EntryOther

record quiverV0 =
  q0Meta :: CollectionMeta
  q0Arrows :: "entry_node list"

definition arrowEntryV0_UnmarshalYAML :: "entry_node \<Rightarrow> CollectionArrowEntry option" where
  "arrowEntryV0_UnmarshalYAML n =
     (case n of
        EntryScalar v \<Rightarrow> Some \<lparr>cePath = [], ceAUID = [], ceNamespace = v\<rparr>
      | EntryMapping path ns auid \<Rightarrow> Some \<lparr>cePath = path, ceAUID = auid, ceNamespace = ns\<rparr>
      | EntryOther \<Rightarrow> None)"

definition toModule :: "CollectionMeta \<Rightarrow> CollectionArrowEntry list \<Rightarrow> Collection \<times> CollectionArrowEntry list" where
  "toModule meta entries =
     (\<lparr>coNamespace = [], coFollowedAt = zero_time, coFailedArrows = [], coMeta = meta, coArrows = []\<rparr>, entries)"

record collection_yaml =
  cySchema :: "string \<Rightarrow> temporaryManifest option"
  cyValid :: "string \<Rightarrow> bool"
  cyQuiver :: "string \<Rightarrow> quiverV0 option"

definition Map_collection :: "collection_yaml \<Rightarrow> string \<Rightarrow> parse_error + Collection \<times> CollectionArrowEntry list" where
  "Map_collection yaml data =
     (case cyQuiver yaml data of
        None \<Rightarrow> Inl BadYAML
      | Some raw \<Rightarrow>
          (let entries = map arrowEntryV0_UnmarshalYAML (q0Arrows raw)
           in if None \<in> set entries then Inl BadYAML else Inr (toModule (q0Meta raw) (map the entries))))"

definition translate_Collection :: "collection_yaml \<Rightarrow> string \<Rightarrow> parse_error + Collection \<times> CollectionArrowEntry list" where
  "translate_Collection yaml data =
     (let data = (case extractCollectionCodeblock data of Some y \<Rightarrow> y | None \<Rightarrow> data)
      in case extractManifestFromYAML (cySchema yaml) data of
           Inl e \<Rightarrow> Inl e
         | Inr m \<Rightarrow>
             if SchemaType m \<noteq> ''collection'' then Inl (SchemaMismatch (SchemaType m))
             else if miVersion m \<noteq> ''v0'' then Inl (UnsupportedManifest (ManifestKey m))
             else if \<not> cyValid yaml data then Inl SchemaInvalid
             else Map_collection yaml data)"

section \<open>The fallback\<close>

datatype Reason =
    ReasonHostUnsupported | ReasonNoReleaseAssets | ReasonNoUsableAsset | ReasonNoDigest | ReasonLowConfidence | ReasonNotARelease

datatype draft_error = NotFletchable Reason | DraftFetchFailed | DraftOther string

record releases =
  rlLatestStable :: "Namespace \<Rightarrow> draft_error + string option"
  rlChannels :: "Namespace \<Rightarrow> draft_error + ChannelInfo list"
  rlDefaultBranch :: "Namespace \<Rightarrow> draft_error + string"

record fallback =
  fbHosts :: "Namespace \<Rightarrow> Host option"
  fbReleases :: releases
  fbDraft :: "Namespace \<Rightarrow> string \<Rightarrow> draft_error + string"

text \<open>A source gives a tag, empty when there is none, and an error it met on the way.\<close>

definition latestStable :: "fallback \<Rightarrow> Namespace \<Rightarrow> string \<times> draft_error option" where
  "latestStable f ns =
     (case rlLatestStable (fbReleases f) ns of
        Inl e \<Rightarrow> ([], Some e) | Inr None \<Rightarrow> ([], None) | Inr (Some tag) \<Rightarrow> (tag, None))"

definition latestUnstable :: "fallback \<Rightarrow> Namespace \<Rightarrow> string \<times> draft_error option" where
  "latestUnstable f ns =
     (case rlChannels (fbReleases f) ns of
        Inl e \<Rightarrow> ([], Some e)
      | Inr channels \<Rightarrow>
          (case find (\<lambda>c. \<not> (ciName c = StableChannel \<or> ciIsDefaultBranchFallback c)) (NewestFirst channels) of
             None \<Rightarrow> ([], None) | Some c \<Rightarrow> (ciLatest c, None)))"

definition releaseMissing :: "draft_error + string \<Rightarrow> bool" where
  "releaseMissing r \<longleftrightarrow> r = Inl (NotFletchable ReasonNoReleaseAssets)"

definition isBranch :: "fallback \<Rightarrow> Namespace \<Rightarrow> string \<Rightarrow> bool" where
  "isBranch f ns ref \<longleftrightarrow>
     (case fbHosts f ns of None \<Rightarrow> False | Some host \<Rightarrow> ref \<in> set (DefaultBranches host)) \<or>
     rlDefaultBranch (fbReleases f) (BareNamespace ns) = Inr ref"

fun draft_sources ::
  "fallback \<Rightarrow> Namespace \<Rightarrow> (string \<times> draft_error option) list \<Rightarrow> string list \<Rightarrow> draft_error \<Rightarrow> draft_error option
   \<Rightarrow> draft_error + string \<times> string" where
  "draft_sources f ns [] seen err lookupErr = Inl (case lookupErr of Some e \<Rightarrow> e | None \<Rightarrow> err)"
| "draft_sources f ns ((tag, sourceErr) # sources) seen err lookupErr =
     (let lookupErr' = (case lookupErr of None \<Rightarrow> sourceErr | Some e \<Rightarrow> Some e)
      in if tag \<in> set seen then draft_sources f ns sources seen err lookupErr'
         else (let r = fbDraft f ns tag
               in if \<not> releaseMissing r then map_sum id (\<lambda>draft. (draft, tag)) r
                  else draft_sources f ns sources (tag # seen) (NotFletchable ReasonNoReleaseAssets) lookupErr'))"

definition draftFromReleases :: "fallback \<Rightarrow> Namespace \<Rightarrow> string \<Rightarrow> draft_error + string \<times> string" where
  "draftFromReleases f ns tried =
     draft_sources f ns [latestStable f (BareNamespace ns), latestUnstable f (BareNamespace ns)] [[], tried]
       (NotFletchable ReasonNoReleaseAssets) None"

definition draftAcrossTags :: "fallback \<Rightarrow> Namespace \<Rightarrow> draft_error + string \<times> string" where
  "draftAcrossTags f ns =
     (let ref = Ref ns
      in if ref = [] then draftFromReleases f ns ref
         else (let r = fbDraft f ns ref
               in if \<not> releaseMissing r \<or> \<not> isBranch f ns ref then map_sum id (\<lambda>draft. (draft, ref)) r
                  else draftFromReleases f ns ref))"

section \<open>The manifold\<close>

datatype manifold_error =
    ResolveFailed resolve_error
  | FallbackFailed resolve_error draft_error
  | InvalidManifest
  | ErrArrowNotInCollection
  | OwningCollection manifold_error
  | CollectionParse parse_error
  | CollectionRules "RuleError list"
  | EmptySegment string
  | NotARelease string
  | AtCommit manifold_error
  | ErrNoLatestStable
  | SnapshotFailed go_error
  | UnknownSelector

text \<open>\<open>errors.Is\<close> of the two kinds the callers tell apart.\<close>

fun is_invalid_manifest :: "manifold_error \<Rightarrow> bool" where
  "is_invalid_manifest InvalidManifest = True"
| "is_invalid_manifest (OwningCollection e) = is_invalid_manifest e"
| "is_invalid_manifest (AtCommit e) = is_invalid_manifest e"
| "is_invalid_manifest e = False"

fun is_manifest_not_found :: "manifold_error \<Rightarrow> bool" where
  "is_manifest_not_found (ResolveFailed e) = (e = ErrManifestNotFound)"
| "is_manifest_not_found (FallbackFailed e d) = (e = ErrManifestNotFound)"
| "is_manifest_not_found (OwningCollection e) = is_manifest_not_found e"
| "is_manifest_not_found (NotARelease r) = True"
| "is_manifest_not_found (AtCommit e) = is_manifest_not_found e"
| "is_manifest_not_found e = False"

definition fetchFailure :: "draft_error \<Rightarrow> manifold_error" where
  "fetchFailure err =
     (case err of NotFletchable r \<Rightarrow> FallbackFailed ErrManifestNotFound err | _ \<Rightarrow> FallbackFailed ErrFetchFailed err)"

definition Recover :: "fallback \<Rightarrow> Namespace \<Rightarrow> manifold_error \<Rightarrow> manifold_error + string \<times> string \<times> string" where
  "Recover f ns cause =
     (if \<not> is_manifest_not_found cause \<or> IsQuiverHosted (BareNamespace ns) then Inl cause
      else case draftAcrossTags f ns of
             Inl e \<Rightarrow> Inl (fetchFailure e)
           | Inr (draft, ref) \<Rightarrow> Inr (draft, ''ARROW.md'', ref))"

record manifold =
  mfFetch :: fetch_env
  mfArrowYaml :: yaml_lib
  mfCollectionYaml :: collection_yaml
  mfFletcher :: "fallback option"

definition ParseArrow :: "manifold \<Rightarrow> string \<Rightarrow> manifold_error + Arrow" where
  "ParseArrow m data =
     (case translate_Arrow (mfArrowYaml m) data of
        Inl e \<Rightarrow> Inl InvalidManifest
      | Inr (manifest, precompiled) \<Rightarrow>
          (let manifest = (case extractArrowReadme data of Some readme \<Rightarrow> manifest\<lparr>aReadme := readme\<rparr> | None \<Rightarrow> manifest)
           in if ValidatePrecompile manifest precompiled \<noteq> [] then Inl InvalidManifest
              else case Compile manifest precompiled of
                     Inl e \<Rightarrow> Inl InvalidManifest
                   | Inr compiled \<Rightarrow> if ValidateCompiled compiled \<noteq> [] then Inl InvalidManifest else Inr compiled))"

definition deriveArrow :: "CollectionArrowEntry \<Rightarrow> Namespace \<Rightarrow> string \<Rightarrow> manifold_error + CollectionArrow" where
  "deriveArrow e bare ref =
     (if ceNamespace e \<noteq> [] then Inr \<lparr>caNamespace = ceNamespace e, caIsLocal = False, caSourcePath = []\<rparr>
      else (let sourcePath = BareNamespace (TrimRight (TrimLeft (cePath e) ''/'') ''/'');
                auid = (if ceAUID e = [] then List.last (Split sourcePath CHR ''/'') else ceAUID e)
            in if auid = [] then Inl (EmptySegment (cePath e))
               else Inr \<lparr>caNamespace = WithRef (bare @ ''/'' @ auid) ref, caIsLocal = True, caSourcePath = sourcePath\<rparr>))"

definition deriveArrows :: "CollectionArrowEntry list \<Rightarrow> Namespace \<Rightarrow> manifold_error + CollectionArrow list" where
  "deriveArrows entries collNS = try_map (\<lambda>e. deriveArrow e (BareNamespace collNS) (Ref collNS)) entries"

definition ParseCollection :: "manifold \<Rightarrow> string \<Rightarrow> Namespace \<Rightarrow> manifold_error + Collection" where
  "ParseCollection m data ns =
     (case translate_Collection (mfCollectionYaml m) data of
        Inl e \<Rightarrow> Inl (CollectionParse e)
      | Inr (manifest, entries) \<Rightarrow>
          if CheckArrowEntries entries \<noteq> [] then Inl (CollectionRules (CheckArrowEntries entries))
          else (case deriveArrows entries ns of
                  Inl e \<Rightarrow> Inl e
                | Inr arrows \<Rightarrow>
                    (let coll = manifest\<lparr>coNamespace := ns, coArrows := arrows\<rparr>
                     in if ValidateCollection coll \<noteq> [] then Inl (CollectionRules (ValidateCollection coll)) else Inr coll)))"

definition ResolveCollection :: "manifold \<Rightarrow> Namespace \<Rightarrow> manifold_error + Collection" where
  "ResolveCollection m ns =
     (case rsv_ResolveCollection (mfFetch m) ns of
        Inl e \<Rightarrow> Inl (ResolveFailed e) | Inr data \<Rightarrow> ParseCollection m data ns)"

definition resolveLocalArrowPath :: "manifold \<Rightarrow> Namespace \<Rightarrow> manifold_error + string" where
  "resolveLocalArrowPath m ns =
     (let bare = BareNamespace ns; quid = WithRef (GetQUID bare) (Ref ns)
      in case ResolveCollection m quid of
           Inl e \<Rightarrow> Inl (OwningCollection e)
         | Inr coll \<Rightarrow>
             (case find (\<lambda>a. caIsLocal a \<and> BareNamespace (caNamespace a) = bare) (coArrows coll) of
                Some a \<Rightarrow> Inr (caSourcePath a) | None \<Rightarrow> Inl ErrArrowNotInCollection))"

definition resolveArrowBytes :: "manifold \<Rightarrow> Namespace \<Rightarrow> manifold_error + string \<times> string" where
  "resolveArrowBytes m ns =
     (if \<not> IsQuiverHosted (BareNamespace ns) then map_sum ResolveFailed id (rsv_ResolveArrow (mfFetch m) ns)
      else case resolveLocalArrowPath m ns of
             Inl e \<Rightarrow> Inl e
           | Inr path \<Rightarrow> map_sum ResolveFailed id (rsv_ResolveArrowAt (mfFetch m) ns path))"

definition ResolveArrow :: "manifold \<Rightarrow> Namespace \<Rightarrow> manifold_error + Arrow \<times> string \<times> string" where
  "ResolveArrow m ns =
     (case (case resolveArrowBytes m ns of
              Inr (raw, filename) \<Rightarrow> Inr (raw, filename, [])
            | Inl e \<Rightarrow> (case mfFletcher m of None \<Rightarrow> Inl e | Some f \<Rightarrow> Recover f ns e)) of
        Inl e \<Rightarrow> Inl e
      | Inr (raw, filename, draftedFrom) \<Rightarrow>
          (case ParseArrow m raw of
             Inl e \<Rightarrow> Inl e
           | Inr arrow \<Rightarrow>
               Inr (if draftedFrom \<noteq> [] then arrow\<lparr>aNamespace := WithRef ns draftedFrom\<rparr> else arrow, raw, filename)))"

definition ResolveArrowAt :: "manifold \<Rightarrow> Namespace \<Rightarrow> string \<Rightarrow> manifold_error + Arrow \<times> string \<times> string" where
  "ResolveArrowAt m ns path =
     (case rsv_ResolveArrowAt (mfFetch m) ns path of
        Inl e \<Rightarrow> Inl (ResolveFailed e)
      | Inr (raw, filename) \<Rightarrow> map_sum id (\<lambda>arrow. (arrow, raw, filename)) (ParseArrow m raw))"

definition DraftedElsewhere :: "Arrow \<Rightarrow> string \<Rightarrow> bool" where
  "DraftedElsewhere arrow ref \<longleftrightarrow>
     \<not> (aNamespace arrow = [] \<or> ref = [] \<or> Origin arrow \<noteq> ArrowOriginInferred) \<and>
     Ref (aNamespace arrow) \<noteq> ref \<and> \<not> EqualFold (Ref (aNamespace arrow)) ref"

definition ResolveArrowAtCommit :: "manifold \<Rightarrow> Namespace \<Rightarrow> string \<Rightarrow> string \<Rightarrow> manifold_error + Arrow \<times> string \<times> string" where
  "ResolveArrowAtCommit m ns ref commit =
     (let first = ResolveArrow m (WithRef ns commit)
      in case (case first of
                 Inr r \<Rightarrow> Inr r
               | Inl e \<Rightarrow>
                   if ref \<noteq> [] \<and> ref \<noteq> commit \<and> \<not> is_invalid_manifest e then ResolveArrow m (WithRef ns ref) else Inl e) of
           Inl e \<Rightarrow> Inl (AtCommit e)
         | Inr (arrow, raw, filename) \<Rightarrow>
             if DraftedElsewhere arrow ref then Inl (AtCommit (NotARelease (Ref (aNamespace arrow))))
             else Inr (arrow\<lparr>aNamespace := ns\<rparr>, raw, filename))"

text \<open>The answers taken from a snapshot; \<open>snap\<close> is the cache of Versioning.\<close>

definition ListChannels :: "go_error + RefSnapshot \<Rightarrow> manifold_error + ChannelInfo list" where
  "ListChannels snap = map_sum SnapshotFailed ChannelsOf snap"

definition ResolveLatestStable :: "go_error + RefSnapshot \<Rightarrow> manifold_error + string" where
  "ResolveLatestStable snap =
     (case snap of
        Inl e \<Rightarrow> Inl (SnapshotFailed e)
      | Inr s \<Rightarrow> (case LatestStable s of None \<Rightarrow> Inl ErrNoLatestStable | Some latest \<Rightarrow> Inr latest))"

definition ResolveDefaultBranch :: "go_error + RefSnapshot \<Rightarrow> manifold_error + string \<times> string" where
  "ResolveDefaultBranch snap =
     (case snap of
        Inl e \<Rightarrow> Inl (SnapshotFailed e)
      | Inr s \<Rightarrow> (case DefaultBranch s of None \<Rightarrow> Inl UnknownSelector | Some b \<Rightarrow> Inr b))"

section \<open>What the fetchers prove absent\<close>

lemma fetchHTTP_not_found:
  "fetchHTTP env url = Inl e \<Longrightarrow> is_not_found e \<Longrightarrow> e = ErrNotFound \<and> (\<exists>body. feGet env url = Some (404, body))"
  by (auto simp: fetchHTTP_def is_not_found_def split: option.splits if_splits)

text \<open>\<open>absent404 env host ns br p\<close>: the host answered 404 for path \<open>p\<close> on branch \<open>br\<close>.\<close>

definition absent404 :: "fetch_env \<Rightarrow> Host \<Rightarrow> Namespace \<Rightarrow> string \<Rightarrow> string \<Rightarrow> bool" where
  "absent404 env host ns br p \<longleftrightarrow>
     (case RawFileURL host ns br p of None \<Rightarrow> False
      | Some url \<Rightarrow> (case feGet env url of None \<Rightarrow> False | Some (status, body) \<Rightarrow> status = 404))"

lemma fetchBranches_not_found:
  "fetchBranches env host ns p brs l = Inl e \<Longrightarrow> is_not_found e \<Longrightarrow> l = ErrNotFound
   \<Longrightarrow> e = ErrNotFound \<and> (\<forall>br \<in> set brs. absent404 env host ns br p)"
proof (induction brs arbitrary: l)
  case Nil
  then show ?case by simp
next
  case (Cons br brs)
  from Cons.prems obtain url e' where url: "RawFileURL host ns br p = Some url" and e': "fetchHTTP env url = Inl e'"
    and nf: "is_not_found e'" and rest: "fetchBranches env host ns p brs e' = Inl e"
    by (auto simp: is_not_found_def split: option.splits sum.splits if_splits)
  from fetchHTTP_not_found[OF e' nf] obtain body where "e' = ErrNotFound" "feGet env url = Some (404, body)" by blast
  then show ?case
    using Cons.IH[OF rest Cons.prems(2)] url by (auto simp: absent404_def)
qed

lemma http_candidates_failure:
  "http_candidates env host ns brs ps (Some f) l = Inl (failure, l') \<Longrightarrow> failure = Some f"
  by (induction ps arbitrary: l) (auto split: sum.splits)

lemma http_candidates_not_found:
  "http_candidates env host ns brs ps None l = Inl (None, l') \<Longrightarrow> l = ErrNotFound
   \<Longrightarrow> l' = ErrNotFound \<and> (\<forall>p \<in> set ps. \<forall>br \<in> set brs. absent404 env host ns br p)"
proof (induction ps arbitrary: l)
  case (Cons p ps)
  from Cons.prems obtain e where e: "fetchBranches env host ns p brs ErrNotFound = Inl e"
    and rest: "http_candidates env host ns brs ps (if is_not_found e then None else Some e) e = Inl (None, l')"
    by (auto split: sum.splits if_splits)
  have nf: "is_not_found e"
    using http_candidates_failure rest by (metis option.distinct(1))
  with fetchBranches_not_found[OF e nf refl] Cons.IH[of e] rest show ?case
    by simp
qed simp

lemma http_candidates_error:
  "http_candidates env host ns brs ps None l = Inl (Some f, l') \<Longrightarrow> \<not> is_not_found f"
proof (induction ps arbitrary: l)
  case (Cons p ps)
  then show ?case
    by (auto split: sum.splits if_splits dest: http_candidates_failure)
qed simp

lemma http_Fetch_not_found:
  assumes "http_Fetch env ns ps = Inl e" "is_not_found e" "feHosts env ns = Some host"
  shows "(\<forall>p \<in> set ps. \<forall>br \<in> set (if Ref ns \<noteq> [] then [Ref ns] else DefaultBranches host). absent404 env host ns br p) \<and>
    e = (if Ref ns \<noteq> [] \<and> ps \<noteq> [] then ErrAbsentAtRef else ErrNotFound)"
proof -
  let ?brs = "if Ref ns \<noteq> [] then [Ref ns] else DefaultBranches host"
  obtain l' where c: "http_candidates env host ns ?brs ps None ErrNotFound = Inl (None, l')"
    and e: "e = (if Ref ns = [] \<or> ps = [] then l' else ErrAbsentAtRef)"
    using assms http_candidates_error
    by (auto simp: http_Fetch_def Let_def split: sum.splits option.splits if_splits)
  from http_candidates_not_found[OF c refl] e show ?thesis
    by auto
qed

text \<open>What a clone shows: no such repository, or a work tree without any of the files.\<close>

definition absent_in_clone :: "fetch_env \<Rightarrow> Namespace \<Rightarrow> string list \<Rightarrow> bool" where
  "absent_in_clone env ns ps \<longleftrightarrow>
     (case clone_at env (CloneURL (BareNamespace ns)) (Ref ns) of
        RepositoryNotFound \<Rightarrow> True | CloneFailed \<Rightarrow> False | WorktreeFailed \<Rightarrow> False | Worktree fs \<Rightarrow> \<forall>p \<in> set ps. fs p = FileMissing)"

lemma openFirstMatch_not_found:
  "openFirstMatch fs ps = Inl e \<Longrightarrow> is_not_found e \<Longrightarrow> e = ErrNotFound \<and> (\<forall>p \<in> set ps. fs p = FileMissing)"
  by (induction fs ps rule: openFirstMatch.induct) (auto simp: is_not_found_def split: file_read.splits)

lemma git_Fetch_not_found:
  "git_Fetch env ns ps = Inl e \<Longrightarrow> is_not_found e \<Longrightarrow> e = ErrNotFound \<and> absent_in_clone env ns ps"
  by (auto simp: git_Fetch_def fetchFile_def absent_in_clone_def is_not_found_def split: clone_result.splits
      dest!: openFirstMatch_not_found)

text \<open>\<open>absent_over_http\<close>: every path of every branch the host would be asked for was answered 404.\<close>

definition absent_over_http :: "fetch_env \<Rightarrow> Namespace \<Rightarrow> string list \<Rightarrow> bool" where
  "absent_over_http env ns ps \<longleftrightarrow>
     (case feHosts env ns of None \<Rightarrow> True
      | Some host \<Rightarrow>
          \<forall>p \<in> set ps. \<forall>br \<in> set (if Ref ns \<noteq> [] then [Ref ns] else DefaultBranches host). absent404 env host ns br p)"

text \<open>
  C34. A manifest is reported missing only on evidence: every path on every branch the host would be
  asked for was answered 404, and, unless the namespace pins a ref of a host that can be asked, the
  clone shows there is no such repository or its work tree has none of the files.  A refused
  connection, a server error, an unreadable body or a failed clone never counts as absence.
\<close>

theorem manifest_missing_only_on_evidence:
  assumes "fetchManifest env ns ps = Inl ErrManifestNotFound"
  shows "absent_over_http env ns ps \<and>
    (absent_in_clone env ns ps \<or> feHosts env ns \<noteq> None \<and> Ref ns \<noteq> [] \<and> ps \<noteq> [])"
proof (cases "feHosts env ns")
  case None
  with assms obtain e where "git_Fetch env ns ps = Inl e" "is_not_found e"
    by (auto simp: fetchManifest_def classifyFailure_def is_not_found_def split: sum.splits if_splits)
  with None git_Fetch_not_found show ?thesis by (auto simp: absent_over_http_def)
next
  case (Some host)
  show ?thesis
  proof (cases "http_Fetch env ns ps = Inl ErrAbsentAtRef")
    case True
    with Some http_Fetch_not_found[OF True _ Some] show ?thesis
      by (auto simp: absent_over_http_def is_not_found_def split: if_splits)
  next
    case False
    have "git_Fetch env ns ps \<noteq> Inl ErrAbsentAtRef"
      using git_Fetch_not_found by (fastforce simp: is_not_found_def)
    with False assms Some obtain e e' where
      "http_Fetch env ns ps = Inl e" "is_not_found e" "git_Fetch env ns ps = Inl e'" "is_not_found e'"
      by (auto simp: fetchManifest_def classifyFailure_def is_not_found_def split: sum.splits if_splits)
    with Some http_Fetch_not_found[OF _ _ Some] git_Fetch_not_found show ?thesis
      by (auto simp: absent_over_http_def split: if_splits)
  qed
qed

section \<open>Collections\<close>

lemma deriveArrow_local:
  assumes "deriveArrow e bare ref = Inr a" "caIsLocal a" "check_entry (i, e) = []"
  shows "\<exists>auid. auid \<noteq> [] \<and> CHR ''/'' \<notin> set auid \<and> CHR ''@'' \<notin> set auid \<and> caNamespace a = WithRef (bare @ ''/'' @ auid) ref"
proof -
  let ?path = "BareNamespace (TrimRight (TrimLeft (cePath e) ''/'') ''/'')"
  have path: "List.last (Split ?path CHR ''/'') \<in> set (Split ?path CHR ''/'')"
    by simp
  have no_at: "CHR ''@'' \<notin> set (List.last (Split ?path CHR ''/''))"
    using Split_sub[OF path] BareNamespace_no_at[of "TrimRight (TrimLeft (cePath e) ''/'') ''/''"] by blast
  have auid: "CHR ''/'' \<notin> set (ceAUID e) \<and> CHR ''@'' \<notin> set (ceAUID e)"
    using assms(3) by (auto simp: check_entry_def Let_def ContainsAny_def rule_err_def list_ex_iff split: if_splits)
  show ?thesis
    using assms(1,2) auid no_at Split_parts[OF path]
    by (auto simp: deriveArrow_def Let_def split: if_splits)
qed

lemma dup_namespaces_ok:
  "dup_namespaces seen as = [] \<longleftrightarrow> distinct (map caNamespace as) \<and> set (map caNamespace as) \<inter> set seen = {}"
  by (induction as arbitrary: seen) (auto simp: rule_err_def)

lemma ParseCollection_facts:
  assumes "ParseCollection m data ns = Inr coll"
  shows "coNamespace coll = ns \<and> distinct (map caNamespace (coArrows coll)) \<and>
    (\<forall>a \<in> set (coArrows coll). \<exists>e i. deriveArrow e (BareNamespace ns) (Ref ns) = Inr a \<and> check_entry (i, e) = [])"
proof -
  obtain manifest entries arrows where ok: "CheckArrowEntries entries = []" "deriveArrows entries ns = Inr arrows"
    and coll: "coll = manifest\<lparr>coNamespace := ns, coArrows := arrows\<rparr>" and valid: "ValidateCollection coll = []"
    using assms by (auto simp: ParseCollection_def Let_def split: sum.splits if_splits)
  have checked: "\<exists>i. check_entry (i, e) = []" if "e \<in> set entries" for e
    using ok(1) that by (auto simp: CheckArrowEntries_def enum_def set_zip in_set_conv_nth)
  have derived: "\<exists>e \<in> set entries. deriveArrow e (BareNamespace ns) (Ref ns) = Inr a" if "a \<in> set arrows" for a
    using ok(2) that by (auto simp: deriveArrows_def try_map_Inr_iff in_set_conv_nth list_all2_conv_all_nth)
      (metis nth_mem)
  show ?thesis
    using derived checked valid
    by (fastforce simp: coll ValidateCollection_def CheckDuplicateNamespaces_def dup_namespaces_ok rule_err_def
        split: if_splits)
qed

text \<open>
  C35. Of a followed collection, every local member is found again: resolving its namespace reads the
  owning collection at the same ref, picks that member and no other, and fetches the file the
  collection gave for it.
\<close>

theorem local_member_resolves_to_its_file:
  assumes "ResolveCollection m ns = Inr coll" "ns = WithRef ns (Ref ns)" "length (segments ns) = 3"
    "a \<in> set (coArrows coll)" "caIsLocal a"
  shows "resolveArrowBytes m (caNamespace a) =
    map_sum ResolveFailed id (rsv_ResolveArrowAt (mfFetch m) (caNamespace a) (caSourcePath a))"
proof -
  let ?bare = "BareNamespace ns"
  obtain data where "ParseCollection m data ns = Inr coll"
    using assms(1) by (auto simp: ResolveCollection_def split: sum.splits)
  note facts = ParseCollection_facts[OF this]
  have local: "\<exists>auid. auid \<noteq> [] \<and> CHR ''/'' \<notin> set auid \<and> CHR ''@'' \<notin> set auid \<and>
      caNamespace b = WithRef (?bare @ ''/'' @ auid) (Ref ns)" if "b \<in> set (coArrows coll)" "caIsLocal b" for b
    using facts deriveArrow_local that by blast
  then obtain auid where auid: "CHR ''/'' \<notin> set auid" "CHR ''@'' \<notin> set auid"
    "caNamespace a = WithRef (?bare @ ''/'' @ auid) (Ref ns)"
    using assms(4,5) by blast
  have bare: "BareNamespace (?bare @ ''/'' @ auid) = ?bare @ ''/'' @ auid"
    using auid by (intro BareNamespace_id) auto
  have segs: "segments (caNamespace a) = segments ns @ [auid]"
    using Split_snoc[OF auid(1)] by (simp add: auid(3) bare[simplified])
  have nonempty: "segments ns \<noteq> []"
    by simp
  have ref: "Ref (caNamespace b) = Ref ns" if "b \<in> set (coArrows coll)" "caIsLocal b" for b
    using local[OF that] by auto
  have quid: "WithRef (GetQUID (BareNamespace (caNamespace a))) (Ref (caNamespace a)) = ns"
  proof -
    have "GetQUID (BareNamespace (caNamespace a)) = ?bare"
      using segs assms(3) by (simp add: GetQUID_def)
    then show ?thesis
      using ref[OF assms(4,5)] assms(2) by (metis BareNamespace_idem WithRef_def)
  qed
  have same: "b = a" if "b \<in> set (coArrows coll)" "caIsLocal b" "BareNamespace (caNamespace b) = BareNamespace (caNamespace a)" for b
  proof -
    have "caNamespace b = caNamespace a"
      using local[OF that(1,2)] that(3) auid(3) by (auto dest: WithRef_cong)
    then show ?thesis
      using facts that(1) assms(4) by (auto simp: distinct_map dest: inj_onD)
  qed
  have "find (\<lambda>b. caIsLocal b \<and> BareNamespace (caNamespace b) = BareNamespace (caNamespace a)) (coArrows coll) = Some a"
    using same assms(4,5) by (cases "find (\<lambda>b. caIsLocal b \<and> BareNamespace (caNamespace b) = BareNamespace (caNamespace a)) (coArrows coll)")
      (auto simp: find_None_iff dest: find_SomeD)
  then show ?thesis
    using quid assms(1,3) segs by (simp add: resolveArrowBytes_def IsQuiverHosted_def resolveLocalArrowPath_def Let_def)
qed

section \<open>Arrows\<close>

lemma ParseArrow_error: "ParseArrow m raw = Inl e \<Longrightarrow> e = InvalidManifest"
  by (auto simp: ParseArrow_def Let_def split: sum.splits if_splits)

lemma ParseArrow_valid: "ParseArrow m raw = Inr a \<Longrightarrow> ValidateCompiled a = []"
  by (auto simp: ParseArrow_def Let_def split: sum.splits if_splits)

text \<open>
  A manifest the repository ships is never passed over: when the bytes at the commit are there but
  do not parse, compile or pass the rules, resolving at the commit fails as an invalid manifest.  It
  neither falls back to the ref nor drafts a replacement.
\<close>

lemma invalid_manifest_never_replaced:
  assumes "resolveArrowBytes m (WithRef ns commit) = Inr (raw, filename)" "ParseArrow m raw = Inl e"
  shows "ResolveArrowAtCommit m ns ref commit = Inl (AtCommit InvalidManifest)"
  using assms ParseArrow_error[OF assms(2)] by (simp add: ResolveArrowAtCommit_def ResolveArrow_def)

lemma ResolveArrow_drafts:
  assumes "ResolveArrow m ns = Inr (arrow, raw, filename)"
  shows "(\<exists>a. ParseArrow m raw = Inr a \<and> resolveArrowBytes m ns = Inr (raw, filename) \<and> arrow = a) \<or>
    (\<exists>f e tag a. mfFletcher m = Some f \<and> resolveArrowBytes m ns = Inl e \<and> is_manifest_not_found e \<and>
       \<not> IsQuiverHosted (BareNamespace ns) \<and> draftAcrossTags f ns = Inr (raw, tag) \<and> ParseArrow m raw = Inr a \<and>
       arrow = (if tag \<noteq> [] then a\<lparr>aNamespace := WithRef ns tag\<rparr> else a))"
  using assms
  by (auto simp: ResolveArrow_def Recover_def split: sum.splits option.splits if_splits)

text \<open>
  C36. What resolving at a commit returns was parsed and passed every rule, carries the namespace that
  was asked for, and is the repository's own manifest, at the commit or at the ref, or a draft made
  because no manifest was found there.
\<close>

theorem arrow_at_commit_sound:
  assumes "ResolveArrowAtCommit m ns ref commit = Inr (arrow, raw, filename)"
  shows "aNamespace arrow = ns \<and>
    (\<exists>a at. ParseArrow m raw = Inr a \<and> ValidateCompiled a = [] \<and> at \<in> {commit, ref} \<and> arrow = a\<lparr>aNamespace := ns\<rparr> \<and>
      (resolveArrowBytes m (WithRef ns at) = Inr (raw, filename) \<or>
       (\<exists>f e tag. mfFletcher m = Some f \<and> resolveArrowBytes m (WithRef ns at) = Inl e \<and> is_manifest_not_found e \<and>
          draftAcrossTags f (WithRef ns at) = Inr (raw, tag) \<and>
          (tag \<noteq> [] \<longrightarrow> ref \<noteq> [] \<longrightarrow> Origin a = ArrowOriginInferred \<longrightarrow> EqualFold tag ref))))"
proof -
  obtain got at where at: "at \<in> {commit, ref}" and r: "ResolveArrow m (WithRef ns at) = Inr (got, raw, filename)"
    and here: "\<not> DraftedElsewhere got ref" and arrow: "arrow = got\<lparr>aNamespace := ns\<rparr>"
    using assms by (force simp: ResolveArrowAtCommit_def Let_def split: sum.splits if_splits)
  show ?thesis
    using ResolveArrow_drafts[OF r]
  proof (elim disjE exE conjE)
    fix a assume a: "ParseArrow m raw = Inr a" "resolveArrowBytes m (WithRef ns at) = Inr (raw, filename)" "got = a"
    then show ?thesis
      using at arrow ParseArrow_valid[OF a(1)] by auto
  next
    fix f e tag a
    assume a: "ParseArrow m raw = Inr a" and got: "got = (if tag \<noteq> [] then a\<lparr>aNamespace := WithRef (WithRef ns at) tag\<rparr> else a)"
      and "mfFletcher m = Some f" "resolveArrowBytes m (WithRef ns at) = Inl e" "is_manifest_not_found e"
        "draftAcrossTags f (WithRef ns at) = Inr (raw, tag)"
    moreover have "EqualFold tag ref" if "tag \<noteq> []" "ref \<noteq> []" "Origin a = ArrowOriginInferred"
      using here that got by (auto simp: DraftedElsewhere_def Origin_def EqualFold_def WithRef_nonempty)
    moreover have "arrow = a\<lparr>aNamespace := ns\<rparr>"
      using got arrow by (cases a) auto
    ultimately show ?thesis
      using at ParseArrow_valid[OF a] by (intro conjI exI[of _ a] exI[of _ at] disjI2 exI[of _ f] exI[of _ e] exI[of _ tag]) simp_all
  qed
qed

section \<open>Concrete runs\<close>

definition no_steps :: lifecycleV0 where
  "no_steps = \<lparr>l0Install = None, l0Update = None, l0Execute = None, l0Stop = None, l0Uninstall = None, l0Preinstalled = None\<rparr>"

definition overridden :: "'a \<Rightarrow> 'a overrideableV0" where
  "overridden v = \<lparr>ovDefault = v, ovOSArch = []\<rparr>"

definition run_document :: arrowV0 where
  "run_document = \<lparr>a0Schema = ''arrow@v0'', a0Metadata = \<lparr>md0Name = ''Web'', md0Description = ''A server'', md0License = ''MIT'',
     md0URL = [], md0Maintainers = [], md0Credits = [], md0Media = \<lparr>m0Icon = [], m0Banner = []\<rparr>, md0Tags = [],
     md0Generator = \<lparr>g0Name = [], g0Confidence = [], g0Warnings = []\<rparr>\<rparr>, a0Variables = [], a0Netbridge = [],
     a0Targets = [(''*'', \<lparr>t0Base = [], t0Requirements = \<lparr>rq0CpuCores = None, rq0RamGB = None, rq0DiskGB = None\<rparr>, t0Tools = None,
       t0Services = None, t0Exports = [], t0Lifecycle = no_steps\<lparr>l0Execute := Some [\<lparr>s0Type = ''run'', s0Title = ''Start'',
         s0Command = overridden ''./web'', s0URL = overridden [], s0From = overridden [], s0To = overridden [], s0Signal = overridden [],
         s0Elevated = overridden False, s0Checksum = overridden [], s0Timeout = overridden [], s0Name = [], s0UI = None,
         s0ExitOnFailure = None\<rparr>]\<rparr>, t0Methods = [], t0Expose = \<lparr>ex0CLI = None, ex0Desktop = None\<rparr>\<rparr>)]\<rparr>"

definition serves :: "string list \<Rightarrow> fetch_env" where
  "serves files = \<lparr>feHosts = (\<lambda>ns. Some \<lparr>RawFileURL = (\<lambda>ns branch path. Some path), DefaultBranches = [''main'']\<rparr>),
     feGet = (\<lambda>url. Some (if url \<in> set files then (200, Some url) else (404, None))), feClone = (\<lambda>url r. RepositoryNotFound)\<rparr>"

definition sample_manifold :: "string list \<Rightarrow> manifold" where
  "sample_manifold files =
     \<lparr>mfFetch = serves files,
      mfArrowYaml = \<lparr>ylSchema = (\<lambda>_. Some \<lparr>tmSchema = ''arrow@v0'', tmManifest = []\<rparr>), ylValid = (\<lambda>_. True),
        ylArrow = (\<lambda>data. if data = ''ARROW.md'' then None else Some run_document)\<rparr>,
      mfCollectionYaml = \<lparr>cySchema = (\<lambda>_. Some \<lparr>tmSchema = ''collection@v0'', tmManifest = []\<rparr>), cyValid = (\<lambda>_. True),
        cyQuiver = (\<lambda>_. Some \<lparr>q0Meta = \<lparr>clName = ''Servers'', clDescription = ''All of them'', clURL = [], clMaintainers = [],
          clTags = [], clMedia = \<lparr>cmIcon = [], cmBanner = []\<rparr>\<rparr>,
          q0Arrows = [EntryMapping ''/servers/web/'' [] [], EntryScalar ''h/u/other@v1'']\<rparr>)\<rparr>,
      mfFletcher = None\<rparr>"

theorem manifest_missing_only_on_evidence_witness:
  "absent_over_http (serves []) ''h/u/r@v1'' [''ARROW.md'', ''arrow.yaml'']"
proof -
  have "fetchManifest (serves []) ''h/u/r@v1'' [''ARROW.md'', ''arrow.yaml''] = Inl ErrManifestNotFound" by code_simp
  from manifest_missing_only_on_evidence[OF this] show ?thesis by blast
qed

theorem local_member_resolves_to_its_file_witness:
  "map_sum id snd (resolveArrowBytes (sample_manifold [''COLLECTION.md'', ''servers/web.yaml'']) ''h/u/r/web@v2'') = Inr ''servers/web.yaml''"
proof -
  let ?m = "sample_manifold [''COLLECTION.md'', ''servers/web.yaml'']" and ?ns = "''h/u/r@v2''"
  let ?a = "\<lparr>caNamespace = ''h/u/r/web@v2'', caIsLocal = True, caSourcePath = ''servers/web''\<rparr>"
  have k: "case ResolveCollection ?m ?ns of Inl e \<Rightarrow> False | Inr coll \<Rightarrow> hd (coArrows coll) = ?a \<and> coArrows coll \<noteq> []"
    "?ns = WithRef ?ns (Ref ?ns)" "length (segments ?ns) = 3" by code_simp+
  then obtain coll where c: "ResolveCollection ?m ?ns = Inr coll" "?a \<in> set (coArrows coll)"
    by (auto split: sum.splits) (metis hd_in_set)
  from local_member_resolves_to_its_file[OF c(1) k(2,3) c(2)]
  have "resolveArrowBytes ?m ''h/u/r/web@v2'' = map_sum ResolveFailed id (rsv_ResolveArrowAt (mfFetch ?m) ''h/u/r/web@v2'' ''servers/web'')"
    by simp
  moreover have "map_sum id snd (rsv_ResolveArrowAt (mfFetch ?m) ''h/u/r/web@v2'' ''servers/web'') = Inr ''servers/web.yaml''"
    by code_simp
  ultimately show ?thesis by (cases "rsv_ResolveArrowAt (mfFetch ?m) ''h/u/r/web@v2'' ''servers/web''") auto
qed

theorem arrow_at_commit_sound_witness:
  "\<exists>arrow. ResolveArrowAtCommit (sample_manifold [''arrow.yaml'']) ''h/u/r@v1'' ''v1'' ''c1'' = Inr (arrow, ''arrow.yaml'', ''arrow.yaml'') \<and>
     aNamespace arrow = ''h/u/r@v1''"
proof -
  let ?m = "sample_manifold [''arrow.yaml'']"
  have "case ResolveArrowAtCommit ?m ''h/u/r@v1'' ''v1'' ''c1'' of Inl e \<Rightarrow> False | Inr (arrow, rest) \<Rightarrow> rest = (''arrow.yaml'', ''arrow.yaml'')"
    by code_simp
  then obtain arrow where a: "ResolveArrowAtCommit ?m ''h/u/r@v1'' ''v1'' ''c1'' = Inr (arrow, ''arrow.yaml'', ''arrow.yaml'')"
    by (auto split: sum.splits)
  from arrow_at_commit_sound[OF a] a show ?thesis by blast
qed

end
