(* ===== verification/Picker.thy ===== *)
theory Picker
  imports Manifold Wizard
begin

text \<open>
  Fletcher (engine/manifold/fletcher): the manifest drafted for a repository that ships none.  The
  picker chooses the release asset of a platform by its name (internal/picker), the confidence
  assessment drops picks that do not belong together (internal/confidence), the forge writes the
  document (internal/forge) and the drafter ties them (internal/gather).
\<close>

section \<open>Tokens\<close>

text \<open>
  The patterns of tokens.go are alternations of words; a word is a literal, or a literal followed by
  word characters or digits.  \<open>word_rests\<close> gives what may be left after a match at the head.
\<close>

datatype word_re = Lit string | WordMany string | WordSome string | DigitMany string | DigitOne string

definition word_char :: "char \<Rightarrow> bool" where
  "word_char c \<longleftrightarrow> is_letter c \<or> is_digit c \<or> c = CHR ''_''"

fun word_rests :: "word_re \<Rightarrow> string \<Rightarrow> string list" where
  "word_rests (Lit w) s = (case CutPrefix s w of None \<Rightarrow> [] | Some r \<Rightarrow> [r])"
| "word_rests (WordMany w) s = (case CutPrefix s w of None \<Rightarrow> [] | Some r \<Rightarrow> map snd (class_splits word_char r))"
| "word_rests (WordSome w) s =
     (case CutPrefix s w of None \<Rightarrow> [] | Some r \<Rightarrow> map snd (filter (\<lambda>(u, v). u \<noteq> []) (class_splits word_char r)))"
| "word_rests (DigitMany w) s =
     (case CutPrefix s w of None \<Rightarrow> [] | Some r \<Rightarrow> map snd (filter (\<lambda>(u, v). u \<noteq> []) (class_splits is_digit r)))"
| "word_rests (DigitOne w) s =
     (case CutPrefix s w of Some (c # r) \<Rightarrow> if is_digit c then [r] else [] | _ \<Rightarrow> [])"

definition word_full :: "word_re list \<Rightarrow> string \<Rightarrow> bool" where
  "word_full ws s \<longleftrightarrow> list_ex (\<lambda>w. [] \<in> set (word_rests w s)) ws"

definition boundaryEnd :: "string \<Rightarrow> bool" where
  "boundaryEnd s \<longleftrightarrow> s = [] \<or> hd s \<in> set ''-_. ''"

definition boundaryStart :: "char \<Rightarrow> bool" where
  "boundaryStart c \<longleftrightarrow> c \<in> set ''-_. /''"

definition word_at :: "word_re list \<Rightarrow> string \<Rightarrow> bool" where
  "word_at ws s \<longleftrightarrow> list_ex (\<lambda>w. list_ex boundaryEnd (word_rests w s)) ws"

fun bounded_from :: "word_re list \<Rightarrow> bool \<Rightarrow> string \<Rightarrow> bool" where
  "bounded_from ws start [] = (start \<and> word_at ws [])"
| "bounded_from ws start (c # s) = ((start \<and> word_at ws (c # s)) \<or> bounded_from ws (boundaryStart c) s)"

definition bounded :: "word_re list \<Rightarrow> string \<Rightarrow> bool" where
  "bounded ws s \<longleftrightarrow> bounded_from ws True s"

definition has_ext :: "string list \<Rightarrow> string \<Rightarrow> bool" where
  "has_ext exts s \<longleftrightarrow> list_ex (\<lambda>x. HasSuffix s (CHR ''.'' # x)) exts"

definition familyLinux :: string where "familyLinux = ''linux''"
definition familyDarwin :: string where "familyDarwin = ''darwin''"
definition familyWindows :: string where "familyWindows = ''windows''"
definition archNone :: string where "archNone = []"
definition archARM64 :: string where "archARM64 = ''arm64''"
definition archAMD64 :: string where "archAMD64 = ''amd64''"
definition archUniversal :: string where "archUniversal = ''universal''"
definition archOther :: string where "archOther = ''other''"

lemmas family_defs = familyLinux_def familyDarwin_def familyWindows_def
lemmas arch_defs = archNone_def archARM64_def archAMD64_def archUniversal_def archOther_def

definition skipExtensionSource :: "string list" where
  "skipExtensionSource =
     [''sha256'', ''sha512'', ''sha1'', ''md5'', ''sig'', ''asc'', ''pem'', ''crt'', ''sbom'', ''spdx'', ''json'', ''txt'',
      ''yml'', ''yaml'', ''blockmap'', ''intoto.jsonl'', ''bundle'', ''minisig'', ''pub'', ''sum'', ''cdx'', ''xml'', ''html'',
      ''md'', ''pdf'', ''sh'', ''ps1'', ''whl'', ''jar'', ''aar'', ''apk'', ''ipa'', ''aab'', ''vsix'', ''nupkg'', ''crx'',
      ''xpi'', ''zsync'', ''pkg.tar.zst'', ''sigstore'', ''cosign'', ''pom'', ''gem'', ''dll'', ''so'', ''dylib'', ''lib'',
      ''a'', ''h'', ''ttf'', ''otf'', ''woff2'', ''png'', ''svg'', ''wasm'', ''cab'', ''nsis.zip'', ''app.tar.gz'', ''msi.zip'',
      ''tar.gz.sig'']"

definition ignoredWordsSource :: "word_re list" where
  "ignoredWordsSource = map Lit
     [''checksum'', ''checksums'', ''sha256sum'', ''sha256sums'', ''sha512sum'', ''sha512sums'', ''sums'', ''src'', ''source'',
      ''sources'', ''debug'', ''symbols'', ''dbgsym'', ''pdb'', ''sbom'', ''provenance'', ''headers'', ''devel'', ''dev'',
      ''sdk'', ''doc'', ''docs'', ''manual'', ''javadoc'', ''dsym'', ''dsyms'', ''pdb'', ''pdbs'']"

definition archiveSource :: "string list" where
  "archiveSource =
     [''tar.gz'', ''tgz'', ''tar.xz'', ''txz'', ''tar.bz2'', ''tbz'', ''tbz2'', ''tar.zst'', ''zip'', ''gz'', ''xz'', ''bz2'',
      ''zst'', ''tar'']"

definition installerSource :: "string list" where
  "installerSource =
     [''pacman'', ''pkg'', ''msix'', ''msixbundle'', ''appx'', ''deb'', ''rpm'', ''snap'', ''flatpak'', ''flatpakref'']"

definition stemSource :: "string list" where
  "stemSource =
     [''tar.gz'', ''tgz'', ''tar.xz'', ''txz'', ''tar.bz2'', ''tbz2'', ''tbz'', ''tar.zst'', ''zip'', ''gz'', ''xz'', ''bz2'',
      ''zst'', ''tar'', ''dmg'', ''msi'', ''exe'', ''appimage'']"

definition linuxSource :: "word_re list" where
  "linuxSource = map Lit
     [''linux'', ''linux64'', ''lin64'', ''appimage'', ''musl'', ''gnu'', ''ubuntu'', ''debian'', ''fedora'', ''el7'', ''el8'',
      ''el9''] @ [WordMany ''manylinux'', Lit ''unknown-linux'']"

definition darwinSource :: "word_re list" where
  "darwinSource = map Lit [''darwin'', ''macos'', ''macosx'', ''mac'', ''osx'', ''apple'', ''mac64''] @ [DigitMany ''macos'']"

definition windowsSource :: "word_re list" where
  "windowsSource = map Lit
     [''windows'', ''win'', ''win32'', ''win64'', ''msvc'', ''mingw'', ''mingw64'', ''pc-windows'', ''x64-setup'', ''setup'']"

definition arm64Source :: "word_re list" where
  "arm64Source = map Lit [''arm64'', ''aarch64'', ''aarch_64'', ''armv8'', ''arm64e'', ''apple-silicon'', ''m1'', ''silicon'']"

definition amd64Source :: "word_re list" where
  "amd64Source = map Lit
     [''x86_64'', ''x86-64'', ''amd64'', ''x64'', ''64bit'', ''64-bit'', ''win64'', ''intel'', ''linux64'', ''mac64''] @
     [DigitOne ''x86_64-v'']"

definition universalSource :: "word_re list" where
  "universalSource = map Lit [''universal'', ''universal2'', ''fat'']"

definition otherArchSource :: "word_re list" where
  "otherArchSource = map Lit
     [''i386'', ''i586'', ''i686'', ''386'', ''x86'', ''32bit'', ''32-bit'', ''arm32'', ''armv7'', ''armv7l'', ''armv6'',
      ''armv6l''] @ [WordMany ''armv5''] @ map Lit
     [''arm5'', ''armhf'', ''armel'', ''arm'', ''ppc64le'', ''ppc64'', ''powerpc64le'', ''powerpc64'', ''sparc64'', ''s390x'',
      ''riscv64''] @ [WordMany ''mips'', WordSome ''loong'', Lit ''ia32'', Lit ''win32'']"

definition knownSource :: "word_re list" where
  "knownSource = [DigitMany ''v'', DigitMany []] @ map Lit
     [''linux'', ''linux64'', ''lin64'', ''darwin'', ''macos'', ''macosx''] @ [DigitMany ''macos''] @ map Lit
     [''mac'', ''mac64'', ''osx'', ''apple'', ''windows'', ''win'', ''win32'', ''win64'', ''pc'', ''msvc'', ''mingw'', ''mingw64'',
      ''gnu'', ''musl'', ''unknown'', ''ubuntu'', ''debian'', ''fedora'', ''el7'', ''el8'', ''el9''] @ [WordMany ''manylinux''] @
     map Lit
     [''x86'', ''x64'', ''x86_64'', ''amd64'', ''arm64'', ''arm64e'', ''armv8'', ''aarch'', ''aarch64'', ''m1'', ''universal'',
      ''universal2'', ''fat'', ''64'', ''bit'', ''64bit'', ''setup'', ''installer'', ''portable'', ''appimage'', ''exe'', ''zip'',
      ''tar'', ''gz'', ''tgz'', ''xz'', ''zst'', ''bz2'', ''7z'', ''dmg'', ''pkg'', ''msi'', ''deb'', ''rpm'', ''release'',
      ''static'', ''intel'', ''silicon'', ''gnueabihf'', ''x86-64'', ''1'']"

definition channelSource :: "word_re list" where
  "channelSource = map Lit [''nightly'', ''beta'', ''alpha'', ''rc''] @ [DigitMany ''rc''] @
     map Lit [''canary'', ''preview'', ''dev'', ''next'', ''edge'', ''stable'']"

definition companionSource :: "word_re list" where
  "companionSource = map Lit
     [''cli'', ''api'', ''server'', ''remote'', ''agent'', ''daemon'', ''client'', ''go'', ''py'', ''python'', ''plugin'',
      ''extension'', ''helper'', ''headless'', ''worker'', ''proxy'', ''bridge'', ''updater'']"

definition installerExeSource :: "string list" where
  "installerExeSource = [''desktop'', ''setup'', ''install'', ''nsis'', ''squirrel'']"

text \<open>\<open>separator.Split(s, -1)\<close>: cut at every run of separators.\<close>

fun separator_Split :: "bool \<Rightarrow> string \<Rightarrow> string list" where
  "separator_Split in_run [] = [[]]"
| "separator_Split in_run (c # s) =
     (if c \<in> set ''-_. '' then (if in_run then separator_Split True s else [] # separator_Split True s)
      else (case separator_Split False s of [] \<Rightarrow> [[c]] | p # ps \<Rightarrow> (c # p) # ps))"

text \<open>\<open>stemSuffix.ReplaceAllString\<close>: the longest final extension is cut off.\<close>

fun stem_of :: "string \<Rightarrow> string" where
  "stem_of [] = []"
| "stem_of (c # s) = (if c = CHR ''.'' \<and> s \<in> set stemSource then [] else c # stem_of s)"

section \<open>Classification\<close>

record ReleaseAsset =
  asName :: string
  asLabel :: string
  asURL :: string
  asDigest :: string

datatype Format = FormatArchive | FormatBinary | FormatAppImage | FormatDMG | FormatMSI
datatype Match = MatchExact | MatchAssumed | MatchEmulated

record classification =
  clAsset :: ReleaseAsset
  clFamily :: string
  clArch :: string
  clFormat :: Format
  clMusl :: bool
  clExe :: bool
  clPortable :: bool
  clStem :: string
  clProduct :: string
  clCompanions :: "string list"

definition named :: "classification \<Rightarrow> bool" where "named c \<longleftrightarrow> clProduct c \<noteq> []"
definition guiInstaller :: "classification \<Rightarrow> bool" where "guiInstaller c \<longleftrightarrow> clExe c \<and> \<not> clPortable c"
definition msi :: "classification \<Rightarrow> bool" where "msi c \<longleftrightarrow> clFormat c = FormatMSI"
definition notMSI :: "classification \<Rightarrow> bool" where "notMSI c \<longleftrightarrow> \<not> msi c"
definition supported :: "classification \<Rightarrow> bool" where "supported c \<longleftrightarrow> clArch c \<noteq> archOther"
definition archless :: "classification \<Rightarrow> bool" where "archless c \<longleftrightarrow> clArch c = archNone"
definition amd64 :: "classification \<Rightarrow> bool" where "amd64 c \<longleftrightarrow> clArch c = archAMD64"

definition shipsGUI :: "ReleaseAsset list \<Rightarrow> bool" where
  "shipsGUI assets \<longleftrightarrow> list_ex (\<lambda>a. has_ext [''dmg'', ''appimage''] (ToLower (asName a))) assets"

definition skipped :: "string \<Rightarrow> bool" where
  "skipped name \<longleftrightarrow> has_ext skipExtensionSource name \<or> bounded ignoredWordsSource name"

definition formatOf :: "string \<Rightarrow> Format option" where
  "formatOf name =
     (if HasSuffix name ''.appimage'' then Some FormatAppImage
      else if HasSuffix name ''.dmg'' then Some FormatDMG
      else if HasSuffix name ''.msi'' then Some FormatMSI
      else if has_ext installerSource name then None
      else if HasSuffix name ''.exe'' then (if list_ex (Contains name) installerExeSource then None else Some FormatBinary)
      else if has_ext archiveSource name then Some FormatArchive
      else if CHR ''.'' \<in> set (drop (length name - 6) name) then None else Some FormatBinary)"

definition familyOf :: "string \<Rightarrow> string \<Rightarrow> string option" where
  "familyOf name described =
     (if HasSuffix name ''.dmg'' then Some familyDarwin
      else if HasSuffix name ''.exe'' then Some familyWindows
      else if HasSuffix name ''.msi'' then Some familyWindows
      else if HasSuffix name ''.appimage'' then Some familyLinux
      else (case filter (\<lambda>(label, ws). bounded ws described)
              [(familyLinux, linuxSource), (familyDarwin, darwinSource), (familyWindows, windowsSource)] of
              [(label, ws)] \<Rightarrow> Some label
            | _ \<Rightarrow> None))"

definition archOf :: "string \<Rightarrow> string" where
  "archOf described =
     (if bounded arm64Source described then archARM64
      else if bounded amd64Source described then archAMD64
      else if bounded universalSource described then archUniversal
      else if bounded otherArchSource described then archOther else archNone)"

definition withoutInstallerWord :: "string \<Rightarrow> string" where
  "withoutInstallerWord token =
     (if HasSuffix token ''setup'' \<and> token \<noteq> ''setup'' then take (length token - 5) token
      else if HasSuffix token ''installer'' \<and> token \<noteq> ''installer'' then take (length token - 9) token
      else token)"

definition productTokens :: "string \<Rightarrow> string list" where
  "productTokens stem =
     map withoutInstallerWord
       (filter (\<lambda>t. \<not> (word_full knownSource t \<or> word_full otherArchSource t \<or> word_full channelSource t))
         (separator_Split False stem))"

definition companionsOf :: "string list \<Rightarrow> string list" where
  "companionsOf tokens = filter (word_full companionSource) tokens"

definition picker_normalize :: "string \<Rightarrow> string" where
  "picker_normalize s = filter (\<lambda>c. is_lower c \<or> is_digit c) (ToLower s)"

definition classify :: "ReleaseAsset \<Rightarrow> classification option" where
  "classify asset =
     (let name = ToLower (asName asset)
      in if asDigest asset = [] \<or> skipped name then None
         else (case formatOf name of
                 None \<Rightarrow> None
               | Some format \<Rightarrow>
                   (let described = TrimSpace (name @ '' '' @ ToLower (asLabel asset))
                    in case familyOf name described of
                         None \<Rightarrow> None
                       | Some family \<Rightarrow>
                           (let stem = stem_of name; tokens = productTokens stem
                            in Some \<lparr>clAsset = asset, clFamily = family, clArch = archOf described, clFormat = format,
                                 clMusl = Contains name ''musl'', clExe = HasSuffix name ''.exe'',
                                 clPortable = Contains name ''portable'', clStem = stem,
                                 clProduct = picker_normalize (concat tokens), clCompanions = companionsOf tokens\<rparr>))))"

definition picker_release :: "ReleaseAsset list \<Rightarrow> classification list" where
  "picker_release assets =
     filter (\<lambda>c. named c \<and> (\<not> shipsGUI assets \<or> \<not> guiInstaller c)) (List.map_filter classify assets)"

record repoIdentity =
  riName :: string
  riProduct :: string
  riTokens :: "string list"

definition identify :: "string \<Rightarrow> repoIdentity" where
  "identify repo =
     (let name = ToLower (List.last (Split repo CHR ''/''))
      in \<lparr>riName = name, riProduct = picker_normalize name, riTokens = separator_Split False name\<rparr>)"

definition accepts :: "repoIdentity \<Rightarrow> classification \<Rightarrow> bool" where
  "accepts ident c \<longleftrightarrow> list_all (\<lambda>companion. companion \<in> set (riTokens ident)) (clCompanions c)"

definition owns :: "repoIdentity \<Rightarrow> classification \<Rightarrow> bool" where
  "owns ident c \<longleftrightarrow> riProduct ident \<noteq> [] \<and> clProduct c = riProduct ident"

definition extends :: "repoIdentity \<Rightarrow> classification \<Rightarrow> bool" where
  "extends ident c \<longleftrightarrow> riProduct ident \<noteq> [] \<and> HasPrefix (clProduct c) (riProduct ident)"

definition mentionedIn :: "repoIdentity \<Rightarrow> classification \<Rightarrow> bool" where
  "mentionedIn ident c \<longleftrightarrow> Contains (ToLower (asName (clAsset c))) (riName ident)"

definition extras :: "repoIdentity \<Rightarrow> classification \<Rightarrow> int" where
  "extras ident c = int (length (clProduct c)) - int (length (riProduct ident))"

section \<open>Ranking\<close>

record target =
  tgFamily :: string
  tgArch :: string

definition targetOf :: "OS \<Rightarrow> target" where
  "targetOf platform =
     (if platform = OSLinuxAMD64 then \<lparr>tgFamily = familyLinux, tgArch = archAMD64\<rparr>
      else if platform = OSLinuxARM64 then \<lparr>tgFamily = familyLinux, tgArch = archARM64\<rparr>
      else if platform = OSDarwinAMD64 then \<lparr>tgFamily = familyDarwin, tgArch = archAMD64\<rparr>
      else if platform = OSDarwinARM64 then \<lparr>tgFamily = familyDarwin, tgArch = archARM64\<rparr>
      else if platform = OSWindowsAMD64 then \<lparr>tgFamily = familyWindows, tgArch = archAMD64\<rparr>
      else if platform = OSWindowsARM64 then \<lparr>tgFamily = familyWindows, tgArch = archARM64\<rparr>
      else \<lparr>tgFamily = [], tgArch = []\<rparr>)"

definition target_contains :: "target \<Rightarrow> classification \<Rightarrow> bool" where
  "target_contains t c \<longleftrightarrow> clFamily c = tgFamily t"

definition native :: "target \<Rightarrow> classification \<Rightarrow> bool" where
  "native t c \<longleftrightarrow> clArch c = tgArch t"

definition universal :: "target \<Rightarrow> classification \<Rightarrow> bool" where
  "universal t c \<longleftrightarrow> clArch c = archUniversal \<and> tgFamily t = familyDarwin"

definition assumesArch :: "target \<Rightarrow> bool" where
  "assumesArch t \<longleftrightarrow> tgFamily t \<noteq> familyLinux \<or> tgArch t \<noteq> archARM64"

definition emulates :: "target \<Rightarrow> bool" where
  "emulates t \<longleftrightarrow> tgArch t = archARM64 \<and> tgFamily t \<noteq> familyLinux"

definition hasPortableTwin :: "classification \<Rightarrow> classification list \<Rightarrow> bool" where
  "hasPortableTwin c siblings \<longleftrightarrow> list_ex (\<lambda>other. clFormat other \<noteq> FormatDMG \<and> clStem other = clStem c) siblings"

definition withGUIDMG :: "classification list \<Rightarrow> classification list \<Rightarrow> target \<Rightarrow> classification list" where
  "withGUIDMG tiered all t =
     (if tgFamily t \<noteq> familyDarwin then tiered
      else tiered @ filter (\<lambda>c. clFormat c = FormatDMG \<and> clArch c = archNone \<and> \<not> hasPortableTwin c all) all)"

text \<open>The empty match of an empty tier is never looked at; it is \<open>None\<close> here.\<close>

definition tier :: "classification list \<Rightarrow> target \<Rightarrow> classification list \<times> Match option" where
  "tier cs t =
     (if filter (native t) cs \<noteq> [] then (withGUIDMG (filter (native t) cs) cs t, Some MatchExact)
      else if filter (universal t) cs \<noteq> [] then (withGUIDMG (filter (universal t) cs) cs t, Some MatchExact)
      else if \<not> assumesArch t then ([], None)
      else if filter archless cs \<noteq> [] then (filter archless cs, Some MatchAssumed)
      else if \<not> emulates t then ([], None)
      else (filter amd64 cs, Some MatchEmulated))"

definition distinctStems :: "classification list \<Rightarrow> nat" where
  "distinctStems cs = length (remdups (map clStem cs))"

definition distinctProducts :: "classification list \<Rightarrow> nat" where
  "distinctProducts cs = length (remdups (map clProduct cs))"

definition eligible :: "classification list \<Rightarrow> classification list \<Rightarrow> repoIdentity \<Rightarrow> classification list" where
  "eligible family release ident =
     (if list_ex (accepts ident) release then filter (accepts ident) family
      else if distinctProducts (filter supported release) > 1 then [] else family)"

definition prefer_by :: "(classification \<Rightarrow> bool) \<Rightarrow> classification list \<Rightarrow> classification list" where
  "prefer_by p cs = (if filter p cs \<noteq> [] then filter p cs else cs)"

definition formatScore :: "classification \<Rightarrow> classification list \<Rightarrow> int" where
  "formatScore c siblings =
     (if clFormat c \<noteq> FormatDMG then 30 else if hasPortableTwin c siblings then 20 else 40)"

definition score :: "classification \<Rightarrow> classification list \<Rightarrow> int" where
  "score c siblings = (if clMusl c then formatScore c siblings + 2 else formatScore c siblings)"

definition MinInt :: int where "MinInt = - 9223372036854775808"
definition MaxInt :: int where "MaxInt = 9223372036854775807"

definition highestScored :: "classification list \<Rightarrow> classification list" where
  "highestScored cs =
     (let best = fold max (map (\<lambda>c. score c cs) cs) MinInt in filter (\<lambda>c. score c cs = best) cs)"

definition fewestExtras :: "classification list \<Rightarrow> repoIdentity \<Rightarrow> classification list" where
  "fewestExtras cs ident =
     (let related = filter (extends ident) cs
      in if related = [] then cs
         else (let fewest = fold min (map (extras ident) related) MaxInt in filter (\<lambda>c. extras ident c = fewest) related))"

definition rank :: "classification list \<Rightarrow> repoIdentity \<Rightarrow> classification list" where
  "rank cs ident = fewestExtras (prefer_by (mentionedIn ident) (highestScored (prefer_by (owns ident) cs))) ident"

definition packagingRank :: "classification \<Rightarrow> bool \<Rightarrow> target \<Rightarrow> int" where
  "packagingRank c gui t = (if (clFormat c = FormatAppImage) = (gui \<and> tgFamily t = familyLinux) then 0 else 1)"

definition packaged :: "classification \<Rightarrow> bool" where
  "packaged c \<longleftrightarrow> clFormat c = FormatArchive \<or> clFormat c = FormatAppImage"

definition preferPackaging :: "classification list \<Rightarrow> bool \<Rightarrow> target \<Rightarrow> classification list" where
  "preferPackaging cs gui t =
     (if distinctProducts cs \<noteq> 1 then cs
      else (let best = fold min (map (\<lambda>c. packagingRank c gui t) (filter packaged cs)) MaxInt
            in filter (\<lambda>c. \<not> packaged c \<or> packagingRank c gui t = best) cs))"

definition tieRank :: "classification \<Rightarrow> int" where
  "tieRank c =
     (case clFormat c of
        FormatArchive \<Rightarrow> 0 | FormatAppImage \<Rightarrow> 1 | FormatBinary \<Rightarrow> if clExe c then 3 else 2
      | FormatMSI \<Rightarrow> 5 | FormatDMG \<Rightarrow> 4)"

definition picker_preferred :: "classification \<Rightarrow> classification \<Rightarrow> int" where
  "picker_preferred a b =
     (let r = cmp_Compare (tieRank a) (tieRank b)
      in if r \<noteq> 0 then r else cmp_Compare (asName (clAsset a)) (asName (clAsset b)))"

fun dedupe_digests :: "string list \<Rightarrow> classification list \<Rightarrow> classification list" where
  "dedupe_digests seen [] = []"
| "dedupe_digests seen (c # cs) =
     (if asDigest (clAsset c) \<in> set seen then dedupe_digests seen cs
      else c # dedupe_digests (asDigest (clAsset c) # seen) cs)"

definition canonical :: "classification list \<Rightarrow> classification list" where
  "canonical cs = dedupe_digests [] (SortFunc picker_preferred cs)"

definition candidatesFor ::
  "classification list \<Rightarrow> classification list \<Rightarrow> repoIdentity \<Rightarrow> target \<Rightarrow> classification list \<times> Match option" where
  "candidatesFor release pool ident t = tier (eligible (filter (target_contains t) pool) release ident) t"

record Pick =
  pkAsset :: ReleaseAsset
  pkFormat :: Format
  pkMatch :: Match
  pkNameMatch :: bool
  pkGUI :: bool
  pkProduct :: string
  pkAccepted :: bool

definition pick_candidates :: "string \<Rightarrow> ReleaseAsset list \<Rightarrow> OS \<Rightarrow> classification list \<times> Match option" where
  "pick_candidates repo assets platform =
     (let t = targetOf platform; ident = identify repo; rel = picker_release assets; portable = filter notMSI rel;
          found = candidatesFor portable portable ident t
      in if fst found = [] then candidatesFor rel (filter msi rel) ident t else found)"

definition pick_ranked :: "string \<Rightarrow> ReleaseAsset list \<Rightarrow> OS \<Rightarrow> classification list" where
  "pick_ranked repo assets platform =
     (let ranked = canonical (rank (fst (pick_candidates repo assets platform)) (identify repo))
      in if distinctStems ranked > 1 then preferPackaging ranked (shipsGUI assets) (targetOf platform) else ranked)"

definition picker_Pick :: "string \<Rightarrow> ReleaseAsset list \<Rightarrow> OS \<Rightarrow> Pick option" where
  "picker_Pick repo assets platform =
     (case pick_candidates repo assets platform of
        ([], match) \<Rightarrow> None
      | (_, None) \<Rightarrow> None
      | (_, Some match) \<Rightarrow>
          (let ident = identify repo; ranked = pick_ranked repo assets platform
           in if distinctStems ranked \<noteq> 1 then None
              else (let chosen = hd ranked
                    in Some \<lparr>pkAsset = clAsset chosen, pkFormat = clFormat chosen,
                         pkMatch = (if clArch chosen = archNone \<and> match = MatchExact then MatchAssumed else match),
                         pkNameMatch = (owns ident chosen \<and> accepts ident chosen), pkGUI = shipsGUI assets,
                         pkProduct = clProduct chosen, pkAccepted = accepts ident chosen\<rparr>)))"

section \<open>The picker does not depend on the order of the assets\<close>

text \<open>
  Every stage is a filter whose criterion looks at the set of its input only, so it maps lists with
  the same elements to lists with the same elements (\<open>picker_perm\<close>), and every stage keeps a subset
  (\<open>picker_sub\<close>).
\<close>

named_theorems picker_perm
named_theorems picker_sub

lemma mset_Nil_cong: "mset xs = mset ys \<Longrightarrow> xs = [] \<longleftrightarrow> ys = []"
  by (metis mset_zero_iff)

lemma mset_filter_cong: "mset xs = mset ys \<Longrightarrow> (\<And>x. P x = Q x) \<Longrightarrow> mset (filter P xs) = mset (filter Q ys)"
  by simp

lemma list_ex_perm: "mset xs = mset ys \<Longrightarrow> list_ex P xs = list_ex P ys"
  by (metis list_ex_iff mset_eq_setD)

lemma shipsGUI_perm: "mset xs = mset ys \<Longrightarrow> shipsGUI xs = shipsGUI ys"
  unfolding shipsGUI_def by (rule list_ex_perm)

lemma hasPortableTwin_perm: "mset xs = mset ys \<Longrightarrow> hasPortableTwin c xs = hasPortableTwin c ys"
  unfolding hasPortableTwin_def by (rule list_ex_perm)

lemma distinct_count_perm:
  "mset xs = mset ys \<Longrightarrow> distinctProducts xs = distinctProducts ys"
  "mset xs = mset ys \<Longrightarrow> distinctStems xs = distinctStems ys"
  unfolding distinctProducts_def distinctStems_def length_remdups_card_conv set_map by (drule mset_eq_setD, simp)+

lemma fold_max_perm: "set xs = set ys \<Longrightarrow> fold max xs (m::int) = fold max ys m"
  using Max.set_eq_fold [of m xs] Max.set_eq_fold [of m ys] by simp

lemma fold_min_perm: "set xs = set ys \<Longrightarrow> fold min xs (m::int) = fold min ys m"
  using Min.set_eq_fold [of m xs] Min.set_eq_fold [of m ys] by simp

lemma release_perm [picker_perm]: "mset xs = mset ys \<Longrightarrow> mset (picker_release xs) = mset (picker_release ys)"
  unfolding picker_release_def by (intro mset_filter_cong mset_map_filter_cong) (auto dest: shipsGUI_perm)

lemma withGUIDMG_perm [picker_perm]:
  assumes "mset xs = mset ys" "mset as = mset bs"
  shows "mset (withGUIDMG xs as t) = mset (withGUIDMG ys bs t)"
proof -
  have "mset (filter (\<lambda>c. P c \<and> \<not> hasPortableTwin c as) as) = mset (filter (\<lambda>c. P c \<and> \<not> hasPortableTwin c bs) bs)" for P
    using assms(2) by (intro mset_filter_cong) (simp_all add: hasPortableTwin_perm [OF assms(2)])
  from this [of "\<lambda>c. clFormat c = FormatDMG \<and> clArch c = archNone"] assms(1) show ?thesis
    by (simp only: withGUIDMG_def mset_append conj_assoc split: if_splits) simp
qed

lemma tier_perm [picker_perm]:
  assumes "mset xs = mset ys"
  shows "mset (fst (tier xs t)) = mset (fst (tier ys t)) \<and> snd (tier xs t) = snd (tier ys t)"
proof -
  have f: "mset (filter P xs) = mset (filter P ys)" "filter P xs = [] \<longleftrightarrow> filter P ys = []" for P
    using assms mset_Nil_cong [of "filter P xs" "filter P ys"] by simp_all
  show ?thesis
    unfolding tier_def f(2) using f(1) withGUIDMG_perm [OF f(1) assms] by (simp split: if_splits del: mset_filter)
qed

lemma eligible_perm [picker_perm]:
  assumes "mset xs = mset ys" "mset rs = mset ss"
  shows "mset (eligible xs rs i) = mset (eligible ys ss i)"
proof -
  have "distinctProducts (filter supported rs) = distinctProducts (filter supported ss)"
    using assms by (intro distinct_count_perm) simp
  then show ?thesis using assms by (simp add: eligible_def list_ex_perm [OF assms(2)])
qed

lemma candidatesFor_perm [picker_perm]:
  assumes "mset xs = mset ys" "mset rs = mset ss"
  shows "mset (fst (candidatesFor rs xs i t)) = mset (fst (candidatesFor ss ys i t)) \<and>
    snd (candidatesFor rs xs i t) = snd (candidatesFor ss ys i t)"
  unfolding candidatesFor_def using assms by (intro tier_perm eligible_perm) simp_all

lemma prefer_by_perm [picker_perm]: "mset xs = mset ys \<Longrightarrow> mset (prefer_by p xs) = mset (prefer_by p ys)"
  using mset_Nil_cong [of "filter p xs" "filter p ys"] by (simp add: prefer_by_def)

lemma score_perm: "mset xs = mset ys \<Longrightarrow> score c xs = score c ys"
  using hasPortableTwin_perm [of xs ys c] by (simp add: score_def formatScore_def)

lemma highestScored_perm [picker_perm]:
  assumes "mset xs = mset ys"
  shows "mset (highestScored xs) = mset (highestScored ys)"
proof -
  have "fold max (map f xs) MinInt = fold max (map f ys) MinInt" for f
    using mset_eq_setD [OF assms] by (intro fold_max_perm) simp
  then show ?thesis using assms by (simp add: highestScored_def Let_def score_perm [OF assms])
qed

lemma fewestExtras_perm [picker_perm]:
  assumes "mset xs = mset ys"
  shows "mset (fewestExtras xs i) = mset (fewestExtras ys i)"
proof -
  have f: "mset (filter (extends i) xs) = mset (filter (extends i) ys)" using assms by simp
  have "fold min (map g (filter (extends i) xs)) MaxInt = fold min (map g (filter (extends i) ys)) MaxInt" for g
    using mset_eq_setD [OF f] by (intro fold_min_perm) simp
  then show ?thesis using assms mset_Nil_cong [OF f] by (simp add: fewestExtras_def Let_def)
qed

lemma rank_perm [picker_perm]: "mset xs = mset ys \<Longrightarrow> mset (rank xs i) = mset (rank ys i)"
  unfolding rank_def by (intro picker_perm)

lemma filter_sub: "set (filter P xs) \<subseteq> set xs"
  by auto

lemma prefer_by_sub [picker_sub]: "set (prefer_by p xs) \<subseteq> set xs"
  by (simp add: prefer_by_def filter_sub)

lemma highestScored_sub [picker_sub]: "set (highestScored xs) \<subseteq> set xs"
  by (simp add: highestScored_def Let_def filter_sub)

lemma fewestExtras_sub [picker_sub]: "set (fewestExtras xs i) \<subseteq> set xs"
  by (auto simp: fewestExtras_def Let_def)

lemma rank_sub [picker_sub]: "set (rank xs i) \<subseteq> set xs"
  unfolding rank_def using fewestExtras_sub prefer_by_sub highestScored_sub by blast

lemma tier_sub [picker_sub]: "set (fst (tier xs t)) \<subseteq> set xs"
  by (auto simp: tier_def withGUIDMG_def)

lemma eligible_sub [picker_sub]: "set (eligible xs rs i) \<subseteq> set xs"
  by (simp add: eligible_def filter_sub)

lemma candidatesFor_sub: "set (fst (candidatesFor rs xs i t)) \<subseteq> {c \<in> set xs. target_contains t c}"
  using tier_sub eligible_sub unfolding candidatesFor_def by fastforce

lemma pick_candidates_sub: "set (fst (pick_candidates repo as os)) \<subseteq> {c \<in> set (picker_release as). target_contains (targetOf os) c}"
  using candidatesFor_sub by (fastforce simp: pick_candidates_def Let_def split: if_splits)

lemma pick_candidates_perm:
  assumes "mset as = mset bs"
  shows "mset (fst (pick_candidates repo as os)) = mset (fst (pick_candidates repo bs os)) \<and>
    snd (pick_candidates repo as os) = snd (pick_candidates repo bs os)"
proof -
  let ?t = "targetOf os" and ?i = "identify repo" and ?r = picker_release
  have r: "mset (filter P (?r as)) = mset (filter P (?r bs))" for P
    using release_perm [OF assms] by simp
  note p = candidatesFor_perm [OF r r, of notMSI notMSI ?i ?t]
  note m = candidatesFor_perm [OF r release_perm [OF assms], of msi ?i ?t]
  show ?thesis
    using p m mset_Nil_cong [OF conjunct1 [OF p]] by (simp add: pick_candidates_def Let_def)
qed

lemma mem_release: "c \<in> set (picker_release as) \<longleftrightarrow>
    (\<exists>a \<in> set as. classify a = Some c) \<and> named c \<and> (\<not> shipsGUI as \<or> \<not> guiInstaller c)"
  by (auto simp: picker_release_def set_map_filter)

lemma classify_asset: "classify a = Some c \<Longrightarrow> clAsset c = a"
  by (auto simp: classify_def Let_def split: if_splits option.splits)

lemma list_eq_sorted_mset: "mset xs = mset ys \<Longrightarrow> sorted xs \<Longrightarrow> sorted ys \<Longrightarrow> xs = ys"
  by (metis properties_for_sort)

text \<open>Assets of different names are never tied, so the final order is determined by the elements.\<close>

lemma sorted_picker_preferred: "sorted (map (\<lambda>c. (tieRank c, asName (clAsset c))) (SortFunc picker_preferred cs))"
proof -
  let ?key = "\<lambda>c. (tieRank c, asName (clAsset c))"
  have le: "picker_preferred a b \<le> 0 \<longleftrightarrow> ?key a \<le> ?key b" for a b
    by (auto simp: picker_preferred_def Let_def cmp_Compare_def)
  have ins: "sorted (map ?key ys) \<Longrightarrow> sorted (map ?key (ins_cmp picker_preferred x ys))" for x ys
  proof (induction ys)
    case (Cons y ys)
    have "set (ins_cmp picker_preferred x ys) = insert x (set ys)"
      by (metis mset_ins_cmp set_mset_add_mset_insert set_mset_mset)
    with Cons show ?case using le [of x y] by (auto simp: less_eq_prod_def)
  qed simp
  show ?thesis by (induction cs) (simp_all add: SortFunc_simps ins)
qed

lemma canonical_perm:
  assumes "mset xs = mset ys" "inj_on (\<lambda>c. asName (clAsset c)) (set xs)"
  shows "canonical xs = canonical ys"
proof -
  let ?key = "\<lambda>c. (tieRank c, asName (clAsset c))"
  have "mset (map ?key (SortFunc picker_preferred xs)) = mset (map ?key (SortFunc picker_preferred ys))"
    using assms(1) by simp
  then have "map ?key (SortFunc picker_preferred xs) = map ?key (SortFunc picker_preferred ys)"
    by (intro list_eq_sorted_mset sorted_picker_preferred)
  moreover have "inj_on ?key (set (SortFunc picker_preferred xs) \<union> set (SortFunc picker_preferred ys))"
    using assms mset_eq_setD [OF assms(1)] by (auto simp: inj_on_def)
  ultimately have "SortFunc picker_preferred xs = SortFunc picker_preferred ys"
    by (rule map_inj_on)
  then show ?thesis by (simp add: canonical_def)
qed

text \<open>
  C37. The asset chosen for a platform does not depend on the order in which the host lists the assets
  of a release, as long as no two of them have the same name.
\<close>

theorem pick_order_independent:
  assumes "mset bs = mset as" "distinct (map asName as)"
  shows "picker_Pick repo bs os = picker_Pick repo as os"
proof -
  let ?cs = "\<lambda>as. fst (pick_candidates repo as os)"
  note c = pick_candidates_perm [OF assms(1), of repo os]
  have "inj_on (\<lambda>c. asName (clAsset c)) (set (picker_release bs))"
    using assms mset_eq_setD [OF assms(1)] classify_asset
    by (fastforce simp: inj_on_def mem_release distinct_map)
  then have "inj_on (\<lambda>c. asName (clAsset c)) (set (rank (?cs bs) (identify repo)))"
    using pick_candidates_sub rank_sub by (rule_tac inj_on_subset) fastforce+
  then have "canonical (rank (?cs bs) (identify repo)) = canonical (rank (?cs as) (identify repo))"
    using rank_perm c by (intro canonical_perm) blast+
  then have "pick_ranked repo bs os = pick_ranked repo as os"
    using shipsGUI_perm [OF assms(1)] by (simp add: pick_ranked_def Let_def)
  then show ?thesis
    using c mset_Nil_cong [OF conjunct1 [OF c]] shipsGUI_perm [OF assms(1)]
    by (auto simp: picker_Pick_def Let_def split: prod.splits list.splits option.splits)
qed

section \<open>What is picked runs on the platform\<close>

text \<open>What a tier says of its members: the match it reports fits their architecture.\<close>

definition arch_fits :: "target \<Rightarrow> Match \<Rightarrow> classification \<Rightarrow> bool" where
  "arch_fits t match c \<longleftrightarrow>
     (case match of
        MatchExact \<Rightarrow> clArch c = tgArch t \<or> clArch c = archUniversal \<and> tgFamily t = familyDarwin
      | MatchAssumed \<Rightarrow> clArch c = archNone \<and> t \<noteq> \<lparr>tgFamily = familyLinux, tgArch = archARM64\<rparr>
      | MatchEmulated \<Rightarrow> clArch c = archAMD64 \<and> tgArch t = archARM64 \<and> tgFamily t \<in> {familyDarwin, familyWindows})"

lemma targetOf_valid:
  "OS_IsValid os \<Longrightarrow> tgFamily (targetOf os) \<in> {familyLinux, familyDarwin, familyWindows} \<and> tgArch (targetOf os) \<in> {archAMD64, archARM64}"
  by (auto simp: targetOf_def OS_IsValid_def AllOS_def)

lemma targetOf_family:
  assumes "OS_IsValid os"
  shows "(tgFamily (targetOf os) = familyLinux \<longleftrightarrow> IsLinux os) \<and> (tgFamily (targetOf os) = familyDarwin \<longleftrightarrow> IsDarwin os) \<and>
    (tgFamily (targetOf os) = familyWindows \<longleftrightarrow> IsWindows os)"
  using assms by (auto simp: targetOf_def OS_IsValid_def AllOS_def IsLinux_def IsDarwin_def IsWindows_def family_defs OS_defs)

lemma tier_fits:
  assumes "c \<in> set (fst (tier cs t))" "tgFamily t \<in> {familyLinux, familyDarwin, familyWindows}"
  shows "\<exists>match. snd (tier cs t) = Some match \<and>
    arch_fits t (if clArch c = archNone \<and> match = MatchExact then MatchAssumed else match) c"
  using assms
  by (auto simp: tier_def withGUIDMG_def arch_fits_def native_def universal_def assumesArch_def emulates_def archless_def amd64_def
      arch_defs family_defs split: if_splits)

lemma pick_candidates_fit:
  assumes "c \<in> set (fst (pick_candidates repo as os))" "OS_IsValid os"
  shows "\<exists>match. snd (pick_candidates repo as os) = Some match \<and>
    arch_fits (targetOf os) (if clArch c = archNone \<and> match = MatchExact then MatchAssumed else match) c"
proof -
  note fits = tier_fits [OF _ conjunct1 [OF targetOf_valid [OF assms(2)]]]
  have "\<exists>xs. pick_candidates repo as os = tier xs (targetOf os)"
    by (auto simp: pick_candidates_def candidatesFor_def Let_def)
  then show ?thesis using assms(1) fits by metis
qed

lemma dedupe_sub: "set (dedupe_digests seen cs) \<subseteq> set cs"
  by (induction seen cs rule: dedupe_digests.induct) auto

lemma pick_ranked_sub: "set (pick_ranked repo as os) \<subseteq> set (fst (pick_candidates repo as os))"
proof -
  have "set (canonical (rank cs i)) \<subseteq> set cs" for cs i
    using dedupe_sub rank_sub by (fastforce simp: canonical_def)
  then show ?thesis by (auto simp: pick_ranked_def preferPackaging_def Let_def)
qed

lemma picker_Pick_Some:
  assumes "picker_Pick repo as os = Some p"
  shows "\<exists>c match. c \<in> set (pick_ranked repo as os) \<and> snd (pick_candidates repo as os) = Some match \<and>
    p = \<lparr>pkAsset = clAsset c, pkFormat = clFormat c,
      pkMatch = (if clArch c = archNone \<and> match = MatchExact then MatchAssumed else match),
      pkNameMatch = (owns (identify repo) c \<and> accepts (identify repo) c), pkGUI = shipsGUI as,
      pkProduct = clProduct c, pkAccepted = accepts (identify repo) c\<rparr>"
proof -
  have "distinctStems (pick_ranked repo as os) = 1"
    using assms by (auto simp: picker_Pick_def Let_def split: prod.splits list.splits option.splits if_splits)
  then have "hd (pick_ranked repo as os) \<in> set (pick_ranked repo as os)"
    by (cases "pick_ranked repo as os") (auto simp: distinctStems_def)
  then show ?thesis
    using assms by (auto simp: picker_Pick_def Let_def split: prod.splits list.splits option.splits if_splits)
qed

text \<open>
  C38. What is picked for a platform can run there: the asset is one of the release, carries a digest
  and is classified for the family of the platform, and its architecture is the platform's own or
  universal on macOS when the match is exact, unnamed when it is assumed (never on Linux ARM), and x86-64
  under emulation only on ARM machines that emulate it.
\<close>

theorem picked_asset_runs:
  assumes "picker_Pick repo as os = Some p" "OS_IsValid os"
  shows "pkAsset p \<in> set as \<and> asDigest (pkAsset p) \<noteq> [] \<and> \<not> skipped (ToLower (asName (pkAsset p))) \<and>
    (\<exists>c. classify (pkAsset p) = Some c \<and> pkFormat p = clFormat c \<and> pkProduct p = clProduct c \<and>
       (clFamily c = familyLinux \<longleftrightarrow> IsLinux os) \<and> (clFamily c = familyDarwin \<longleftrightarrow> IsDarwin os) \<and>
       (clFamily c = familyWindows \<longleftrightarrow> IsWindows os) \<and> arch_fits (targetOf os) (pkMatch p) c)"
proof -
  obtain c match where c: "c \<in> set (pick_ranked repo as os)" and m: "snd (pick_candidates repo as os) = Some match"
    and p: "pkAsset p = clAsset c" "pkFormat p = clFormat c" "pkProduct p = clProduct c"
      "pkMatch p = (if clArch c = archNone \<and> match = MatchExact then MatchAssumed else match)"
    using picker_Pick_Some [OF assms(1)] by auto
  then have c': "c \<in> set (fst (pick_candidates repo as os))" using pick_ranked_sub by blast
  then have rel: "c \<in> set (picker_release as)" "clFamily c = tgFamily (targetOf os)"
    using pick_candidates_sub by (auto simp: target_contains_def)
  then obtain a where a: "a \<in> set as" "classify a = Some c" by (auto simp: mem_release)
  then have "asDigest a \<noteq> []" "\<not> skipped (ToLower (asName a))"
    by (auto simp: classify_def Let_def split: if_splits)
  moreover have "arch_fits (targetOf os) (pkMatch p) c"
    using pick_candidates_fit [OF c' assms(2)] m p(4) by auto
  ultimately show ?thesis
    using a p classify_asset [OF a(2)] rel(2) targetOf_family [OF assms(2)] by auto
qed

section \<open>Confidence\<close>

definition WarningAssumedArch :: string where "WarningAssumedArch = ''assumed_arch''"
definition WarningEmulated :: string where "WarningEmulated = ''emulated''"
definition WarningWindowsExeUnverified :: string where "WarningWindowsExeUnverified = ''windows_exe_unverified''"
definition WarningNameMismatch :: string where "WarningNameMismatch = ''name_mismatch''"
definition WarningUnpinnedRollingTag :: string where "WarningUnpinnedRollingTag = ''unpinned_rolling_tag''"

lemmas warning_defs = WarningAssumedArch_def WarningEmulated_def WarningWindowsExeUnverified_def WarningNameMismatch_def
  WarningUnpinnedRollingTag_def

definition ConfidenceHigh :: string where "ConfidenceHigh = ''high''"
definition ConfidenceMedium :: string where "ConfidenceMedium = ''medium''"
definition ConfidenceLow :: string where "ConfidenceLow = ''low''"

lemmas confidence_defs = ConfidenceHigh_def ConfidenceMedium_def ConfidenceLow_def

type_synonym picks = "(OS \<times> Pick) list"

record Assessment =
  asLevel :: string
  asWarnings :: "string list"
  asPicks :: picks

definition KeepsAny :: "Assessment \<Rightarrow> bool" where
  "KeepsAny a \<longleftrightarrow> asPicks a \<noteq> []"

definition count_products :: "Pick list \<Rightarrow> (string \<times> int) list" where
  "count_products ps =
     fold (\<lambda>p m. map_put m (pkProduct p) ((case map_of m (pkProduct p) of Some n \<Rightarrow> n | None \<Rightarrow> 0) + 1)) ps []"

definition most_common_step :: "(string \<times> int) list \<Rightarrow> string \<Rightarrow> string \<times> int \<times> bool \<Rightarrow> string \<times> int \<times> bool" where
  "most_common_step counts product st =
     (let (best, top, tied) = st; n = the (map_of counts product)
      in if n > top then (product, n, False) else if n = top then (best, top, True) else st)"

definition mostCommon :: "(string \<times> int) list \<Rightarrow> string" where
  "mostCommon counts =
     (let (best, top, tied) = fold (most_common_step counts) (sort_Strings (keys counts)) ([], 0, False)
      in if tied then [] else best)"

definition dominantProduct :: "picks \<Rightarrow> string" where
  "dominantProduct ps =
     (let named = count_products (filter pkNameMatch (map snd ps)); all = count_products (map snd ps)
      in if named \<noteq> [] then mostCommon named else mostCommon all)"

definition consistent :: "picks \<Rightarrow> picks \<times> bool" where
  "consistent ps =
     (let product = dominantProduct ps;
          kept = filter (\<lambda>(platform, p). pkNameMatch p \<or> (pkAccepted p \<and> pkProduct p \<noteq> [] \<and> pkProduct p = product)) ps
      in (kept, length kept < length ps))"

definition matchWarning :: "Match \<Rightarrow> string" where
  "matchWarning m =
     (case m of MatchAssumed \<Rightarrow> WarningAssumedArch | MatchEmulated \<Rightarrow> WarningEmulated | MatchExact \<Rightarrow> [])"

definition isUnverifiedWindowsExe :: "OS \<Rightarrow> Pick \<Rightarrow> bool" where
  "isUnverifiedWindowsExe platform p \<longleftrightarrow>
     IsWindows platform \<and> pkFormat p = FormatBinary \<and> HasSuffix (ToLower (asName (pkAsset p))) ''.exe''"

definition pickWarnings :: "OS \<Rightarrow> Pick \<Rightarrow> string list" where
  "pickWarnings platform p =
     (if matchWarning (pkMatch p) \<noteq> [] then [matchWarning (pkMatch p)] else []) @
     (if isUnverifiedWindowsExe platform p then [WarningWindowsExeUnverified] else []) @
     (if \<not> pkNameMatch p then [WarningNameMismatch] else [])"

definition ordered :: "string list \<Rightarrow> string list" where
  "ordered raised =
     filter (\<lambda>w. w \<in> set raised)
       [WarningAssumedArch, WarningEmulated, WarningWindowsExeUnverified, WarningNameMismatch, WarningUnpinnedRollingTag]"

definition levelOf :: "nat \<Rightarrow> string list \<Rightarrow> string" where
  "levelOf kept warnings =
     (if kept = 0 then ConfidenceLow else if warnings \<noteq> [] then ConfidenceMedium else ConfidenceHigh)"

definition Assess :: "picks \<Rightarrow> bool \<Rightarrow> Assessment" where
  "Assess ps rolling =
     (let (kept, dropped) = consistent ps;
          raised = concat (map (\<lambda>(platform, p). pickWarnings platform p) kept) @
            (if dropped then [WarningNameMismatch] else []) @ (if rolling then [WarningUnpinnedRollingTag] else []);
          warnings = ordered raised
      in \<lparr>asLevel = levelOf (length kept) warnings, asWarnings = warnings, asPicks = kept\<rparr>)"

lemma count_one_product:
  assumes "ps \<noteq> []" "\<forall>p \<in> set ps. pkProduct p = q"
  shows "count_products ps = [(q, int (length ps))]"
proof -
  let ?f = "\<lambda>p m. map_put m (pkProduct p) ((case map_of m (pkProduct p) of Some n \<Rightarrow> n | None \<Rightarrow> 0) + 1)"
  have step: "\<forall>p \<in> set ps. pkProduct p = q \<Longrightarrow> fold ?f ps [(q, n)] = [(q, n + int (length ps))]" for ps n
    by (induction ps arbitrary: n) auto
  obtain p ps' where ps: "ps = p # ps'" using assms(1) by (cases ps) auto
  then show ?thesis using assms(2) step [of ps' 1] by (simp add: count_products_def)
qed

lemma mostCommon_one: "0 < n \<Longrightarrow> mostCommon [(q, n)] = q"
  by (simp add: mostCommon_def most_common_step_def sort_Strings_def SortFunc_simps)

lemma kept_one_product:
  assumes "\<forall>p \<in> snd ` set ps. pkNameMatch p \<longrightarrow> pkProduct p = q \<and> q \<noteq> [] \<and> pkAccepted p" "fst (consistent ps) \<noteq> []"
  shows "\<exists>product. product \<noteq> [] \<and> (\<forall>p \<in> snd ` set (fst (consistent ps)). pkProduct p = product \<and> pkAccepted p)"
proof (cases "filter pkNameMatch (map snd ps) = []")
  case True
  then have none: "\<not> pkNameMatch (snd x)" if "x \<in> set ps" for x
    using that by (auto simp: filter_empty_conv)
  have kept: "pkAccepted (snd x) \<and> pkProduct (snd x) \<noteq> [] \<and> pkProduct (snd x) = dominantProduct ps"
    if "x \<in> set (fst (consistent ps))" for x
    using that none by (auto simp: consistent_def Let_def)
  then have "dominantProduct ps \<noteq> []"
    using hd_in_set [OF assms(2)] by metis
  then show ?thesis using kept by (intro exI [of _ "dominantProduct ps"]) (simp add: image_iff)
next
  case False
  have "count_products (filter pkNameMatch (map snd ps)) = [(q, int (length (filter pkNameMatch (map snd ps))))]"
    using assms(1) by (intro count_one_product [OF False]) auto
  moreover have "0 < int (length (filter pkNameMatch (map snd ps)))"
    using False unfolding of_nat_0_less_iff length_greater_0_conv .
  ultimately have dom: "dominantProduct ps = q"
    using mostCommon_one by (simp only: dominantProduct_def Let_def) simp
  have named: "pkProduct (snd x) = q \<and> q \<noteq> [] \<and> pkAccepted (snd x)" if "x \<in> set ps" "pkNameMatch (snd x)" for x
    using assms(1) that by blast
  have "pkProduct (snd x) = q \<and> pkAccepted (snd x)" if "x \<in> set (fst (consistent ps))" for x
  proof -
    have "x \<in> set ps" "pkNameMatch (snd x) \<or> (pkAccepted (snd x) \<and> pkProduct (snd x) = q)"
      using that by (auto simp: consistent_def Let_def dom split_def)
    with named show ?thesis by blast
  qed
  moreover have "q \<noteq> []" using named False by (auto simp: filter_empty_conv)
  ultimately show ?thesis by blast
qed

lemma ordered_Nil: "ordered raised = [] \<longleftrightarrow>
    set raised \<inter> {WarningAssumedArch, WarningEmulated, WarningWindowsExeUnverified, WarningNameMismatch, WarningUnpinnedRollingTag} = {}"
  by (auto simp: ordered_def)

lemma pickWarnings_Nil:
  "pickWarnings os p = [] \<longleftrightarrow> pkMatch p = MatchExact \<and> \<not> isUnverifiedWindowsExe os p \<and> pkNameMatch p"
  by (auto simp: pickWarnings_def matchWarning_def warning_defs split: Match.splits)

lemma pickWarnings_known: "set (pickWarnings os p) \<subseteq>
    {WarningAssumedArch, WarningEmulated, WarningWindowsExeUnverified, WarningNameMismatch, WarningUnpinnedRollingTag}"
  by (auto simp: pickWarnings_def matchWarning_def split: Match.splits)

abbreviation known_warnings :: "string set" where
  "known_warnings \<equiv>
     {WarningAssumedArch, WarningEmulated, WarningWindowsExeUnverified, WarningNameMismatch, WarningUnpinnedRollingTag}"

lemma ordered_known: "set raised \<subseteq> known_warnings \<Longrightarrow> ordered raised = [] \<longleftrightarrow> raised = []"
  unfolding ordered_Nil by (metis inf.absorb1 set_empty)

lemma filter_same: "filter P xs = xs \<longleftrightarrow> \<not> length (filter P xs) < length xs"
  by (metis filter_id_conv length_filter_less less_irrefl)

lemma consistent_dropped: "snd (consistent ps) \<longleftrightarrow> fst (consistent ps) \<noteq> ps"
  unfolding consistent_def Let_def fst_conv snd_conv using filter_same by blast

lemma Assess_high:
  "asLevel (Assess ps rolling) = ConfidenceHigh \<longleftrightarrow>
    ps \<noteq> [] \<and> \<not> rolling \<and> asPicks (Assess ps rolling) = ps \<and> (\<forall>(os, p) \<in> set ps. pickWarnings os p = [])"
proof -
  obtain kept dropped where c: "consistent ps = (kept, dropped)" by fastforce
  let ?raised = "concat (map (\<lambda>(platform, p). pickWarnings platform p) kept) @
    (if dropped then [WarningNameMismatch] else []) @ (if rolling then [WarningUnpinnedRollingTag] else [])"
  have "ordered ?raised = [] \<longleftrightarrow> \<not> rolling \<and> \<not> dropped \<and> (\<forall>(os, p) \<in> set kept. pickWarnings os p = [])"
  proof -
    have "set ?raised \<subseteq> known_warnings"
      by (auto simp: split_def dest: subsetD [OF pickWarnings_known])
    from ordered_known [OF this] show ?thesis by auto
  qed
  moreover have "asLevel (Assess ps rolling) = ConfidenceHigh \<longleftrightarrow> kept \<noteq> [] \<and> ordered ?raised = []"
    by (auto simp: Assess_def c levelOf_def confidence_defs Let_def)
  moreover have "asPicks (Assess ps rolling) = kept" by (simp add: Assess_def c Let_def)
  moreover have "dropped \<longleftrightarrow> kept \<noteq> ps" using consistent_dropped [of ps] c by simp
  ultimately show ?thesis by auto
qed

text \<open>
  C39. The targets of a draft belong together: the picks that stay are all accepted assets of one
  product, whatever was picked per platform, and the confidence is high exactly when nothing
  was dropped, the tag is a release and every pick is an exact match named like the repository that is
  no bare Windows executable.
\<close>

theorem drafted_targets_one_product:
  assumes "\<forall>(os, p) \<in> set ps. picker_Pick repo as os = Some p"
  shows "(\<exists>product. \<forall>(os, p) \<in> set (asPicks (Assess ps rolling)). product \<noteq> [] \<and> pkProduct p = product \<and> pkAccepted p) \<and>
    (asLevel (Assess ps rolling) = ConfidenceHigh \<longleftrightarrow>
      ps \<noteq> [] \<and> \<not> rolling \<and> asPicks (Assess ps rolling) = ps \<and>
      (\<forall>(os, p) \<in> set ps. pkMatch p = MatchExact \<and> pkNameMatch p \<and> \<not> isUnverifiedWindowsExe os p))"
proof -
  let ?q = "riProduct (identify repo)"
  have "\<forall>p \<in> snd ` set ps. pkNameMatch p \<longrightarrow> pkProduct p = ?q \<and> ?q \<noteq> [] \<and> pkAccepted p"
    using assms by (fastforce dest!: picker_Pick_Some simp: owns_def)
  note kept = kept_one_product [OF this]
  have "asPicks (Assess ps rolling) = fst (consistent ps)"
    by (simp add: Assess_def Let_def split: prod.splits)
  then have "\<exists>product. \<forall>(os, p) \<in> set (asPicks (Assess ps rolling)). product \<noteq> [] \<and> pkProduct p = product \<and> pkAccepted p"
    using kept by (cases "fst (consistent ps) = []") (auto split: prod.splits, force)
  then show ?thesis
    using Assess_high [of ps rolling] pickWarnings_Nil by auto
qed

section \<open>Concrete runs of the picker\<close>

definition sample_asset :: ReleaseAsset where
  "sample_asset = \<lparr>asName = ''tool-linux-amd64.tar.gz'', asLabel = [], asURL = ''https://h/d/tool.tar.gz'', asDigest = ''sha256:aa''\<rparr>"

definition sample_class :: classification where
  "sample_class = \<lparr>clAsset = sample_asset, clFamily = ''linux'', clArch = ''amd64'', clFormat = FormatArchive, clMusl = False,
     clExe = False, clPortable = False, clStem = ''tool-linux-amd64'', clProduct = ''tool'', clCompanions = []\<rparr>"

definition sample_pick :: Pick where
  "sample_pick = \<lparr>pkAsset = sample_asset, pkFormat = FormatArchive, pkMatch = MatchExact, pkNameMatch = True, pkGUI = False,
     pkProduct = ''tool'', pkAccepted = True\<rparr>"

lemma sample_stages: "classify sample_asset = Some sample_class" "shipsGUI [sample_asset] = False"
  "identify ''tool'' = \<lparr>riName = ''tool'', riProduct = ''tool'', riTokens = [''tool'']\<rparr>" "named sample_class"
  by code_simp+

lemma sample_release: "picker_release [sample_asset] = [sample_class]"
  by (simp add: picker_release_def map_filter_simps sample_stages)

lemma sample_picks: "map (picker_Pick ''tool'' [sample_asset]) AllOS = [Some sample_pick, None, None, None, None, None]"
  unfolding picker_Pick_def pick_candidates_def pick_ranked_def sample_release sample_stages by code_simp

theorem pick_order_independent_witness:
  "picker_Pick ''tool'' [sample_asset\<lparr>asName := ''tool_linux_arm64.zip''\<rparr>, sample_asset] ''linux/amd64'' =
    picker_Pick ''tool'' [sample_asset, sample_asset\<lparr>asName := ''tool_linux_arm64.zip''\<rparr>] ''linux/amd64''"
  by (rule pick_order_independent) (simp_all add: sample_asset_def)

theorem picked_asset_runs_witness:
  "arch_fits (targetOf ''linux/amd64'') MatchExact sample_class"
proof -
  have p: "picker_Pick ''tool'' [sample_asset] ''linux/amd64'' = Some sample_pick"
    using sample_picks by (simp add: AllOS_def OSLinuxAMD64_def)
  have v: "OS_IsValid ''linux/amd64''" by code_simp
  from picked_asset_runs [OF p v] show ?thesis
    using sample_stages(1) by (simp add: sample_pick_def)
qed

theorem drafted_targets_one_product_witness:
  "asLevel (Assess [(''linux/amd64'', sample_pick)] False) = ConfidenceHigh \<longleftrightarrow>
    asPicks (Assess [(''linux/amd64'', sample_pick)] False) = [(''linux/amd64'', sample_pick)]"
proof -
  have "\<forall>(os, p) \<in> set [(''linux/amd64'', sample_pick)]. picker_Pick ''tool'' [sample_asset] os = Some p"
    using sample_picks by (simp add: AllOS_def OSLinuxAMD64_def)
  from drafted_targets_one_product [OF this, of False] show ?thesis
    by (simp add: sample_pick_def isUnverifiedWindowsExe_def)
qed

end
