(* ===== verification/Fletcher.thy ===== *)
theory Fletcher
  imports Picker
begin

text \<open>
  The fletcher writes a manifest for a repository that has none (internal/engine/manifold/fletcher).
  The forge (internal/forge) turns the picks of a release into a document: the names it gives, the
  steps and the exposed entries of each target, the prose with its fences neutralised.  Gathering
  (internal/gather) reads the release, the page and the readme of the repository through a host.
  The hosts, \<open>url.Parse\<close>, the SHA-256 sum and the YAML encoder are parameters; what the core makes of
  a draft is the manifold's \<open>ParseArrow\<close>.
\<close>

section \<open>The forge\<close>

text \<open>
  \<open>url.Parse\<close> is a parameter that gives the scheme and the escaped path of a URL, or fails.
\<close>

type_synonym url_parser = "string \<Rightarrow> (string \<times> string) option"

definition safeFileName :: "string \<Rightarrow> bool" where
  "safeFileName name \<longleftrightarrow> \<not> HasPrefix name ''.'' \<and> name \<noteq> [] \<and> list_all name_byte name"

definition LocalFile :: "url_parser \<Rightarrow> Pick \<Rightarrow> string option" where
  "LocalFile parse p =
     (if asDigest (pkAsset p) = [] then None
      else (case parse (asURL (pkAsset p)) of
              None \<Rightarrow> None
            | Some (scheme, path) \<Rightarrow>
                if scheme \<noteq> ''https'' \<and> scheme \<noteq> ''http'' then None
                else (case PathUnescape (path_Base path) of
                        None \<Rightarrow> None | Some name \<Rightarrow> if safeFileName name then Some name else None)))"

text \<open>The length of the UTF-8 sequence at the head; a byte that starts none is a rune of its own.\<close>

definition cont_byte :: "nat \<Rightarrow> bool" where "cont_byte b \<longleftrightarrow> 128 \<le> b \<and> b < 192"

definition rune_len :: "string \<Rightarrow> nat" where
  "rune_len s =
     (case map of_char (take 4 s) :: nat list of
        b0 # b1 # rest \<Rightarrow>
          (let three = (rest \<noteq> [] \<and> cont_byte (hd rest)); four = (three \<and> length rest = 2 \<and> cont_byte (rest ! 1))
           in if 194 \<le> b0 \<and> b0 < 224 \<and> cont_byte b1 then 2
              else if b0 = 224 \<and> 160 \<le> b1 \<and> b1 < 192 \<and> three then 3
              else if b0 = 237 \<and> 128 \<le> b1 \<and> b1 < 160 \<and> three then 3
              else if 225 \<le> b0 \<and> b0 < 240 \<and> b0 \<noteq> 237 \<and> cont_byte b1 \<and> three then 3
              else if b0 = 240 \<and> 144 \<le> b1 \<and> b1 < 192 \<and> four then 4
              else if 241 \<le> b0 \<and> b0 < 244 \<and> cont_byte b1 \<and> four then 4
              else if b0 = 244 \<and> 128 \<le> b1 \<and> b1 < 144 \<and> four then 4 else 1)
      | _ \<Rightarrow> 1)"

definition exposeRune :: "char \<Rightarrow> char" where
  "exposeRune c = (if name_byte c then c else CHR ''-'')"

function expose_runes :: "string \<Rightarrow> string" where
  "expose_runes [] = []"
| "expose_runes (c # s) = exposeRune c # expose_runes (drop (rune_len (c # s) - 1) s)"
  by pat_completeness auto
termination
  by (relation "measure length") auto

definition exposeNameLimit :: nat where "exposeNameLimit = 60"
definition exposeNameFallback :: string where "exposeNameFallback = ''app''"

definition exposeName :: "string \<Rightarrow> string" where
  "exposeName repo =
     (let name = TrimLeft (expose_runes repo) ''._+-'';
          name = (if IsWindowsReservedName name then exposeNameFallback @ ''-'' @ name else name);
          name = (if length name > exposeNameLimit then take exposeNameLimit name else name);
          name = TrimRight name ''.''
      in if name = [] then exposeNameFallback else name)"

definition singleLine :: "string \<Rightarrow> string" where
  "singleLine text = Join (Fields text) '' ''"

record exposeEntry =
  xeName :: string
  xePath :: string

record expose =
  xpCLI :: "exposeEntry list"
  xpDesktop :: "exposeEntry list"

definition newExpose :: "string \<Rightarrow> string \<Rightarrow> OS \<Rightarrow> Pick \<Rightarrow> expose" where
  "newExpose name binary platform p =
     (let entries = [\<lparr>xeName = name, xePath = ExposeAuto\<rparr>]
      in if pkFormat p = FormatBinary then \<lparr>xpCLI = [\<lparr>xeName = name, xePath = binary\<rparr>], xpDesktop = []\<rparr>
         else if pkFormat p = FormatDMG \<or> pkFormat p = FormatAppImage then \<lparr>xpCLI = [], xpDesktop = entries\<rparr>
         else if pkFormat p = FormatArchive \<and> (IsDarwin platform \<or> pkGUI p) then \<lparr>xpCLI = entries, xpDesktop = entries\<rparr>
         else \<lparr>xpCLI = entries, xpDesktop = []\<rparr>)"

record doc_step =
  dsType :: string
  dsTitle :: string
  dsURL :: string
  dsFrom :: string
  dsTo :: string
  dsName :: string
  dsChecksum :: string
  dsTimeout :: string
  dsCommand :: string
  dsSignal :: string
  dsExitOnFailure :: "bool option"

definition no_fields :: doc_step where
  "no_fields = \<lparr>dsType = [], dsTitle = [], dsURL = [], dsFrom = [], dsTo = [], dsName = [], dsChecksum = [], dsTimeout = [],
     dsCommand = [], dsSignal = [], dsExitOnFailure = None\<rparr>"

record doc_lifecycle =
  dlInstall :: "doc_step list"
  dlExecute :: "doc_step list"
  dlStop :: "doc_step list"

record doc_target =
  dtLifecycle :: doc_lifecycle
  dtExpose :: expose

definition downloadSuffix :: "Format \<Rightarrow> string" where
  "downloadSuffix format = (if format = FormatMSI then ''.msi'' else [])"

definition installDir :: "string \<Rightarrow> string" where
  "installDir name = ''${INSTALL_PATH}/'' @ name"

definition executableName :: "string \<Rightarrow> bool \<Rightarrow> string" where
  "executableName name windows = (if windows then name @ ''.exe'' else name)"

definition binaryPath :: "string \<Rightarrow> bool \<Rightarrow> string" where
  "binaryPath name windows = installDir name @ ''/'' @ executableName name windows"

definition installSteps :: "string \<Rightarrow> string \<Rightarrow> string \<Rightarrow> Pick \<Rightarrow> doc_step list" where
  "installSteps name executable file p =
     (let download = ''${INSTALL_PATH}/.'' @ name @ ''.download'' @ downloadSuffix (pkFormat p)
      in [no_fields\<lparr>dsType := ''fetch'', dsTitle := ''Download '' @ file, dsURL := asURL (pkAsset p), dsTo := download,
            dsChecksum := asDigest (pkAsset p), dsTimeout := ''15m''\<rparr>,
          no_fields\<lparr>dsType := ''portable'', dsTitle := ''Install '' @ file, dsFrom := download, dsTo := installDir name,
            dsName := executable, dsTimeout := ''15m''\<rparr>])"

definition newTarget :: "string \<Rightarrow> string \<Rightarrow> OS \<Rightarrow> Pick \<Rightarrow> doc_target" where
  "newTarget name file platform p =
     \<lparr>dtLifecycle = \<lparr>dlInstall = installSteps name (executableName name (IsWindows platform)) file p, dlExecute = [], dlStop = []\<rparr>,
      dtExpose = newExpose name (binaryPath name (IsWindows platform)) platform p\<rparr>"

definition startStopSteps :: "string \<Rightarrow> bool \<Rightarrow> doc_step list \<times> doc_step list" where
  "startStopSteps name windows =
     (let command = (if windows then ''\"${ARROW_APP}\"'' else ''exec \"${ARROW_APP}\"'')
      in ([no_fields\<lparr>dsType := ''run'', dsTitle := ''Start '' @ name, dsCommand := command\<rparr>],
          [no_fields\<lparr>dsType := ''signal'', dsTitle := ''Stop '' @ name, dsSignal := ''graceful'', dsTimeout := ''10s'',
             dsExitOnFailure := Some False\<rparr>]))"

definition forge_addStartStop :: "string \<Rightarrow> (string \<times> doc_target) list \<Rightarrow> (string \<times> doc_target) list" where
  "forge_addStartStop name targets =
     (if \<not> list_ex (\<lambda>(key, t). xpDesktop (dtExpose t) \<noteq> []) targets then targets
      else map (\<lambda>(key, t). (key, t\<lparr>dtLifecycle := (dtLifecycle t)\<lparr>
             dlExecute := fst (startStopSteps name (IsWindows key)), dlStop := snd (startStopSteps name (IsWindows key))\<rparr>\<rparr>)) targets)"

record Input =
  inRepo :: string
  inName :: string
  inDescription :: string
  inURL :: string
  inMedia :: ArrowMedia
  inReadme :: string
  inGenerator :: ArrowGenerator
  inPicks :: picks
  inUnpinned :: bool

record document =
  dcSchema :: string
  dcName :: string
  dcDescription :: string
  dcURL :: string
  dcMedia :: ArrowMedia
  dcGenerator :: ArrowGenerator
  dcTargets :: "(string \<times> doc_target) list"

definition checksummed :: "Pick \<Rightarrow> bool \<Rightarrow> Pick" where
  "checksummed p unpinned = (if unpinned then p\<lparr>pkAsset := (pkAsset p)\<lparr>asDigest := []\<rparr>\<rparr> else p)"

definition newDocument :: "url_parser \<Rightarrow> Input \<Rightarrow> document" where
  "newDocument parse inp =
     (let name = exposeName (inRepo inp);
          targets = List.map_filter (\<lambda>(platform, p). map_option (\<lambda>file.
            (platform, newTarget name file platform (checksummed p (inUnpinned inp)))) (LocalFile parse p)) (inPicks inp)
      in \<lparr>dcSchema = ''arrow@v0'', dcName = singleLine (inName inp), dcDescription = singleLine (inDescription inp),
          dcURL = singleLine (inURL inp),
          dcMedia = \<lparr>mediaIcon = singleLine (mediaIcon (inMedia inp)), mediaBanner = singleLine (mediaBanner (inMedia inp))\<rparr>,
          dcGenerator = inGenerator inp, dcTargets = forge_addStartStop name targets\<rparr>)"

definition proseText :: "Input \<Rightarrow> string" where
  "proseText inp =
     (if TrimSpace (inReadme inp) \<noteq> [] then TrimSpace (inReadme inp)
      else if singleLine (inDescription inp) \<noteq> [] then singleLine (inDescription inp) else singleLine (inName inp))"

definition neutralize_line :: "string \<Rightarrow> string" where
  "neutralize_line line =
     (let trimmed = TrimSpace line
      in if \<not> HasPrefix trimmed ''```'' then line
         else takeWhile (\<lambda>c. c \<in> {CHR '' '', CHR 0x09}) line @
              map (\<lambda>_. CHR ''~'') (takeWhile (\<lambda>c. c = CHR ''`'') trimmed) @ dropWhile (\<lambda>c. c = CHR ''`'') trimmed)"

definition NeutralizeFences :: "string \<Rightarrow> string" where
  "NeutralizeFences s = Join (map neutralize_line (Split s newline)) [newline]"

definition prose :: "Input \<Rightarrow> string" where
  "prose inp = NeutralizeFences (proseText inp)"

text \<open>The YAML encoder is a parameter.\<close>

definition Render :: "url_parser \<Rightarrow> (document \<Rightarrow> string) \<Rightarrow> Input \<Rightarrow> string" where
  "Render parse enc inp =
     prose inp @ [newline, newline] @ ''```arrow'' @ [newline] @ enc (newDocument parse inp) @ ''```'' @ [newline]"

section \<open>The names the forge gives\<close>

lemma name_byte_chars: "name_byte CHR ''.''" "name_byte CHR ''-''" "name_byte CHR ''e''" "name_byte CHR ''x''"
  "name_byte CHR ''a''" "name_byte CHR ''p''"
  by code_simp+

lemma exposeRune_name_byte: "name_byte (exposeRune c)"
  by (simp add: exposeRune_def name_byte_chars)

lemma expose_runes_name_byte: "list_all name_byte (expose_runes s)"
  by (induction s rule: expose_runes.induct) (simp_all add: exposeRune_name_byte)

lemma TrimLeft_drop: "\<exists>k. TrimLeft s cs = drop k s"
  by (metis TrimLeft_def dropWhile_eq_drop)

lemma TrimRight_take: "\<exists>k. TrimRight s cs = take k s"
  by (metis TrimRight_def dropWhile_eq_drop rev_drop rev_rev_ident)

abbreviation stem_part :: "string \<Rightarrow> string" where
  "stem_part name \<equiv> takeWhile (\<lambda>c. c \<noteq> CHR ''.'') name"

lemma cut_stem: "(case cut_byte CHR ''.'' name of Some (u, v) \<Rightarrow> u | None \<Rightarrow> name) = stem_part name"
proof (cases "cut_byte CHR ''.'' name")
  case None
  then have "\<forall>c \<in> set name. c \<noteq> CHR ''.''" by (auto simp: cut_byte_None)
  then have "stem_part name = name" by (subst takeWhile_eq_all_conv)
  with None show ?thesis by (simp only: option.case)
next
  case (Some p)
  then obtain u v where uv: "cut_byte CHR ''.'' name = Some (u, v)" by (cases p) auto
  then have n: "name = u @ CHR ''.'' # v" "\<And>c. c \<in> set u \<Longrightarrow> c \<noteq> CHR ''.''" by (auto simp: cut_byte_Some)
  then have "stem_part name = u" by (simp add: takeWhile_append2)
  with uv show ?thesis by simp
qed

lemma reserved_stem: "IsWindowsReservedName name \<Longrightarrow> length (stem_part name) \<in> {3, 4}"
  unfolding IsWindowsReservedName_def cut_stem Let_def
  by (auto simp: ToUpper_def dest!: arg_cong [where f = length] split: if_splits)

lemma reserved_iff: "IsWindowsReservedName m \<Longrightarrow> stem_part m = stem_part n \<Longrightarrow> IsWindowsReservedName n"
  unfolding IsWindowsReservedName_def cut_stem by simp

lemma takeWhile_of_take: "takeWhile P (take n xs) = take n (takeWhile P xs)"
  by (induction xs arbitrary: n) (auto simp: take_Cons split: nat.split)

text \<open>Cutting a name short and trimming its final dots keeps its stem, or leaves a longer one than a device has.\<close>

lemma trimmed_not_reserved:
  assumes "\<not> IsWindowsReservedName name"
  shows "\<not> IsWindowsReservedName (TrimRight (take 60 name) ''.'')"
proof
  let ?n = "TrimRight (take 60 name) ''.''"
  assume r: "IsWindowsReservedName ?n"
  have t: "stem_part (TrimRight s ''.'') = stem_part s" for s
    by (induction s rule: rev_induct) (auto simp: TrimRight_def takeWhile_append)
  have "stem_part ?n = stem_part (take 60 name)" by (rule t)
  moreover have "stem_part (take 60 name) = take 60 (stem_part name)"
    by (rule takeWhile_of_take)
  ultimately have s: "stem_part ?n = take 60 (stem_part name)" by simp
  with reserved_stem [OF r] have "length (take 60 (stem_part name)) \<in> {3, 4}" by simp
  then have "take 60 (stem_part name) = stem_part name" by auto
  with s r assms show False using reserved_iff by metis
qed

lemma fallback_not_reserved: "\<not> IsWindowsReservedName (''app-'' @ name)" "\<not> IsWindowsReservedName ''app''"
proof -
  show "\<not> IsWindowsReservedName (''app-'' @ name)"
  proof
    assume r: "IsWindowsReservedName (''app-'' @ name)"
    from reserved_stem [OF r] have "stem_part name = []" by auto
    then have "stem_part (''app-'' @ name) = stem_part ''app-''" by simp
    from reserved_iff [OF r this] show False by code_simp
  qed
  show "\<not> IsWindowsReservedName ''app''" by code_simp
qed


lemma name_byte_head: "name_byte c \<Longrightarrow> c \<notin> set ''._+-'' \<Longrightarrow> is_letter c \<or> is_digit c"
  by (auto simp: name_byte_def)

definition plain_name :: "string \<Rightarrow> bool" where
  "plain_name n \<longleftrightarrow> n \<noteq> [] \<and> list_all name_byte n \<and> (is_letter (hd n) \<or> is_digit (hd n)) \<and> \<not> IsWindowsReservedName n"

lemma plain_name_trimmed:
  assumes "plain_name name"
  shows "plain_name (TrimRight (take 60 name) ''.'') \<and> \<not> HasSuffix (TrimRight (take 60 name) ''.'') ''.'' \<and>
    length (TrimRight (take 60 name) ''.'') \<le> 60"
proof -
  let ?n = "TrimRight (take 60 name) ''.''"
  obtain c s where name: "name = c # s" "is_letter c \<or> is_digit c"
    using assms by (cases name) (auto simp: plain_name_def)
  have dot: "c \<noteq> CHR ''.''" using name(2) by (auto simp: is_letter_def is_digit_def is_lower_def is_upper_def)
  obtain k where k: "?n = take k (take 60 name)" using TrimRight_take by blast
  have "?n \<noteq> []"
    using dot name(1) by (auto simp: TrimRight_def dropWhile_eq_Nil_conv)
  with k name have "\<exists>j. ?n = c # take j s" by (cases k) (auto simp: take_Cons split: nat.splits)
  then have hd: "?n \<noteq> []" "hd ?n = c" by auto
  have "set ?n \<subseteq> set name" using k by (metis set_take_subset subset_trans)
  then have "list_all name_byte ?n" using assms by (auto simp: plain_name_def list_all_iff)
  moreover have "\<not> HasSuffix ?n ''.''"
  proof
    assume "HasSuffix ?n ''.''"
    then have "\<exists>u. ?n = u @ ''.''" by (auto simp: HasSuffix_def HasPrefix_iff dest: arg_cong [where f = rev])
    then have "hd (rev ?n) = CHR ''.''" by auto
    moreover have "rev ?n \<noteq> []" using hd by simp
    ultimately show False
      using hd_dropWhile [of "\<lambda>c. c \<in> set ''.''" "rev (take 60 name)"] by (auto simp: TrimRight_def)
  qed
  moreover have "length ?n \<le> 60" using k by simp
  ultimately show ?thesis
    using hd name(2) trimmed_not_reserved [of name] assms by (simp add: plain_name_def)
qed

lemma exposeName_plain:
  "plain_name (exposeName repo) \<and> \<not> HasSuffix (exposeName repo) ''.'' \<and> length (exposeName repo) \<le> 60"
proof -
  let ?t = "TrimLeft (expose_runes repo) ''._+-''"
  let ?n = "if IsWindowsReservedName ?t then ''app-'' @ ?t else ?t"
  have cut: "(if length s > 60 then take 60 s else s) = take 60 s" for s :: string
    by simp
  have e: "exposeName repo = (if TrimRight (take 60 ?n) ''.'' = [] then ''app'' else TrimRight (take 60 ?n) ''.'')"
    by (simp add: exposeName_def exposeNameFallback_def exposeNameLimit_def Let_def)
  have app: "plain_name ''app'' \<and> \<not> HasSuffix ''app'' ''.'' \<and> length ''app'' \<le> 60" by code_simp
  have bytes: "list_all name_byte ?t"
    using expose_runes_name_byte TrimLeft_drop by (metis list_all_iff set_drop_subset subset_iff)
  show ?thesis
  proof (cases "?t = []")
    case True
    have "\<not> IsWindowsReservedName []" by code_simp
    with True e app show ?thesis by (simp add: TrimRight_def)
  next
    case False
    have "hd ?t \<notin> set ''._+-''"
      using False hd_dropWhile [of "\<lambda>c. c \<in> set ''._+-''" "expose_runes repo"] by (simp add: TrimLeft_def)
    moreover have "name_byte (hd ?t)" using bytes False by (cases ?t) auto
    ultimately have "is_letter (hd ?t) \<or> is_digit (hd ?t)" by (rule name_byte_head [rotated])
    moreover have "list_all name_byte ''app-''" "is_letter CHR ''a''" by code_simp+
    ultimately have "plain_name ?n"
      using bytes False fallback_not_reserved by (auto simp: plain_name_def)
    with plain_name_trimmed [OF this] e show ?thesis by (simp add: plain_name_def)
  qed
qed

section \<open>A draft reads back\<close>

text \<open>
  What the translator's YAML decoder makes of the document the forge encodes: the keys are the same,
  an omitted one is the zero value or nil.
\<close>

definition decoded_step :: "doc_step \<Rightarrow> stepV0" where
  "decoded_step s =
     \<lparr>s0Type = dsType s, s0Title = dsTitle s, s0Command = overridden (dsCommand s), s0URL = overridden (dsURL s),
      s0From = overridden (dsFrom s), s0To = overridden (dsTo s), s0Signal = overridden (dsSignal s),
      s0Elevated = overridden False, s0Checksum = overridden (dsChecksum s), s0Timeout = overridden (dsTimeout s),
      s0Name = dsName s, s0UI = None, s0ExitOnFailure = dsExitOnFailure s\<rparr>"

definition omit_empty :: "'a list \<Rightarrow> 'a list option" where
  "omit_empty xs = (if xs = [] then None else Some xs)"

definition decoded_entries :: "exposeEntry list \<Rightarrow> exposeEntryV0 list option" where
  "decoded_entries es = omit_empty (map (\<lambda>e. \<lparr>ee0Name = xeName e, ee0Path = xePath e, ee0Icon = [], ee0Categories = []\<rparr>) es)"

definition decoded_target :: "doc_target \<Rightarrow> targetV0" where
  "decoded_target t =
     \<lparr>t0Base = [], t0Requirements = \<lparr>rq0CpuCores = None, rq0RamGB = None, rq0DiskGB = None\<rparr>, t0Tools = None,
      t0Services = None, t0Exports = [], t0Lifecycle = \<lparr>l0Install = Some (map decoded_step (dlInstall (dtLifecycle t))),
        l0Update = None, l0Execute = omit_empty (map decoded_step (dlExecute (dtLifecycle t))),
        l0Stop = omit_empty (map decoded_step (dlStop (dtLifecycle t))), l0Uninstall = None, l0Preinstalled = None\<rparr>,
      t0Methods = [], t0Expose = \<lparr>ex0CLI = decoded_entries (xpCLI (dtExpose t)), ex0Desktop = decoded_entries (xpDesktop (dtExpose t))\<rparr>\<rparr>"

definition decoded :: "document \<Rightarrow> arrowV0" where
  "decoded d =
     \<lparr>a0Schema = dcSchema d, a0Metadata = \<lparr>md0Name = dcName d, md0Description = dcDescription d, md0License = [],
        md0URL = dcURL d, md0Maintainers = [], md0Credits = [],
        md0Media = \<lparr>m0Icon = mediaIcon (dcMedia d), m0Banner = mediaBanner (dcMedia d)\<rparr>, md0Tags = [],
        md0Generator = \<lparr>g0Name = gName (dcGenerator d), g0Confidence = gConfidence (dcGenerator d),
          g0Warnings = gWarnings (dcGenerator d)\<rparr>\<rparr>,
      a0Variables = [], a0Netbridge = [], a0Targets = map (\<lambda>(k, t). (k, decoded_target t)) (dcTargets d)\<rparr>"

section \<open>The compiled draft\<close>

definition download_to :: "string \<Rightarrow> Format \<Rightarrow> string" where
  "download_to name f = ''${INSTALL_PATH}/.'' @ name @ ''.download'' @ downloadSuffix f"

definition drafted_install :: "string \<Rightarrow> string \<Rightarrow> OS \<Rightarrow> Pick \<Rightarrow> Step list" where
  "drafted_install name file os p =
     (let download = plain (download_to name (pkFormat p))
      in [FetchStep (newBasicStep StepTypeFetch (''Download '' @ file) True) (plain (asURL (pkAsset p))) download
            (plain (asDigest (pkAsset p))) (plain ''15m''),
          PortableStep (newBasicStep StepTypePortable (''Install '' @ file) True) download (plain (installDir name)) (plain ''15m'')
            (executableName name (IsWindows os))])"

definition drafted_start :: "string \<Rightarrow> OS \<Rightarrow> Step list" where
  "drafted_start name os =
     [RunStep (newBasicStep StepTypeRun (''Start '' @ name) True) (plain (start_command os)) (plain False) (plain []) None]"

definition drafted_stop :: "string \<Rightarrow> Step list" where
  "drafted_stop name = [SignalStep (newBasicStep StepTypeSignal (''Stop '' @ name) False) (plain SignalKindGraceful) (plain ''10s'')]"

definition drafted_expose :: "string \<Rightarrow> OS \<Rightarrow> Pick \<Rightarrow> Expose" where
  "drafted_expose name os p =
     (let e = newExpose name (binaryPath name (IsWindows os)) os p
      in \<lparr>exCLI = toExposeEntries (decoded_entries (xpCLI e)), exDesktop = toExposeEntries (decoded_entries (xpDesktop e))\<rparr>)"

definition drafted_lifecycle :: "string \<Rightarrow> string \<Rightarrow> OS \<Rightarrow> Pick \<Rightarrow> bool \<Rightarrow> TargetLifecycle" where
  "drafted_lifecycle name file os p app =
     \<lparr>Install = Some (drafted_install name file os p), Update = None, Execute = (if app then Some (drafted_start name os) else None),
      Stop = (if app then Some (drafted_stop name) else None), Uninstall = None, Preinstalled = None\<rparr>"

definition drafted_pre :: "string \<Rightarrow> string \<Rightarrow> OS \<Rightarrow> Pick \<Rightarrow> bool \<Rightarrow> PrecompiledTarget" where
  "drafted_pre name file os p app =
     \<lparr>pcBase = [], pcRequirements = \<lparr>CpuCores = 0, MemoryGB = 0, DiskGB = 0\<rparr>, pcTools = None, pcServices = None, pcExports = [],
      pcLifecycle = drafted_lifecycle name file os p app, pcMethods = [], pcExpose = drafted_expose name os p\<rparr>"

definition drafted_target :: "string \<Rightarrow> string \<Rightarrow> OS \<Rightarrow> Pick \<Rightarrow> bool \<Rightarrow> Target" where
  "drafted_target name file os p app =
     \<lparr>Requirements = \<lparr>CpuCores = 0, MemoryGB = 0, DiskGB = 0\<rparr>, Tools = [], Services = [], Exports = [],
      Lifecycle = drafted_lifecycle name file os p app, Methods = [], tExpose = drafted_expose name os p\<rparr>"

definition doc_target_of :: "string \<Rightarrow> string \<Rightarrow> OS \<Rightarrow> Pick \<Rightarrow> bool \<Rightarrow> doc_target" where
  "doc_target_of name file os p app =
     (let t = newTarget name file os p
      in if app then t\<lparr>dtLifecycle := (dtLifecycle t)\<lparr>dlExecute := fst (startStopSteps name (IsWindows os)),
           dlStop := snd (startStopSteps name (IsWindows os))\<rparr>\<rparr> else t)"

lemma decoded_scalar: "toStepOverrideable (overridden v) = plain v" "toStepOverrideableBool (overridden b) = plain b"
  "toSignalOverrideable (overridden s) = plain (to_SignalKind s)"
  by (simp_all add: toStepOverrideable_def toStepOverrideableBool_def toSignalOverrideable_def overridden_def plain_def)

lemma toTarget_decoded: "toTarget (decoded_target (doc_target_of name file os p app)) = Inr (drafted_pre name file os p app)"
  by (simp add: toTarget_def decoded_target_def doc_target_of_def newTarget_def drafted_pre_def toLifecycle_def toStepList_def
      installSteps_def startStopSteps_def omit_empty_def toStep_def decoded_step_def no_fields_def decoded_scalar Let_def
      toFromToTimeout_def resolveExitOnFailure_def drafted_lifecycle_def drafted_install_def download_to_def drafted_start_def drafted_stop_def
      start_command_def to_SignalKind_def toMethods_def toRequirement_def toNamespaces_def toExports_def toExpose_def drafted_expose_def)

lemma resolve_plain: "resolveField (plain v) os = Inr (plain v)"
  by (simp add: resolveField_def resolveOverrideable_def plain_def)

lemma resolve_drafted: "buildResolvedTarget (drafted_pre name file os p app) os' = Inr (drafted_target name file os p app)"
  by (simp add: buildResolvedTarget_def drafted_pre_def drafted_target_def drafted_lifecycle_def resolveExports_def
      resolveLifecycle_def resolveStepList_def drafted_install_def drafted_start_def drafted_stop_def resolveRunStep_def
      resolveFetchStep_def resolvePortableStep_def resolveFromToTimeout_def resolveSignalStep_def resolve_plain resolveMethods_def
      toDepEdges_def Let_def)

lemma platform_keys:
  "list_all (\<lambda>k. \<not> IsAbstractTarget k \<and> specificity k = 3 \<and> k \<noteq> [] \<and>
     list_all (\<lambda>os. matchesTarget k os \<longleftrightarrow> k = os) AllOS) AllOS"
  by code_simp

lemma updateBest_platform:
  assumes "key \<in> set AllOS" "os \<in> set AllOS"
  shows "key \<noteq> os \<Longrightarrow> updateBest st key os = st" "updateBest ([], [], -1) os os = (os, [], 3)"
proof -
  have "matchesTarget key os \<longleftrightarrow> key = os" "\<not> IsAbstractTarget os" "specificity os = 3" "matchesTarget os os"
    using platform_keys assms by (auto simp: list_all_iff)
  then show "key \<noteq> os \<Longrightarrow> updateBest st key os = st" "updateBest ([], [], -1) os os = (os, [], 3)"
    by (cases st; simp add: Let_def)+
qed

lemma findWinner_platform:
  assumes "set (keys ts) \<subseteq> set AllOS" "distinct (keys ts)" "os \<in> set AllOS"
  shows "findWinner ts os = (if os \<in> set (keys ts) then Inr os else Inl ErrNoTargetForOS)"
proof -
  have other: "foldl (\<lambda>b key. updateBest b key os) st ks = st" if "set ks \<subseteq> set AllOS" "os \<notin> set ks" for st ks
    using that
  proof (induction ks)
    case (Cons k ks)
    then have "updateBest st k os = st" by (intro updateBest_platform(1) [OF _ assms(3)]) auto
    with Cons show ?case by (simp del: updateBest.simps)
  qed simp
  have best: "foldl (\<lambda>b key. updateBest b key os) ([], [], -1) ks = (if os \<in> set ks then (os, [], 3) else ([], [], -1))"
    if "set ks \<subseteq> set AllOS" "distinct ks" for ks
    using that
  proof (induction ks)
    case (Cons k ks)
    show ?case
    proof (cases "k = os")
      case True
      then show ?thesis using Cons.prems other [of ks] updateBest_platform(2) [OF assms(3,3)] by (simp del: updateBest.simps)
    next
      case False
      then show ?thesis using Cons updateBest_platform(1) [OF _ assms(3) False] by (simp del: updateBest.simps)
    qed
  qed simp
  have "os \<noteq> []" using platform_keys assms(3) by (auto simp: list_all_iff)
  then show ?thesis using best [OF assms(1,2)] by (simp add: findWinner_def)
qed

text \<open>A draft's targets are named by platforms, so each compiles to itself.\<close>

lemma compile_drafted:
  assumes "set (keys ts) \<subseteq> set AllOS" "distinct (keys ts)" "set oss \<subseteq> set AllOS"
    "\<And>os t. (os, t) \<in> set ts \<Longrightarrow> pcBase t = [] \<and> buildResolvedTarget t os = Inr (f os)"
  shows "compile_targets ts oss = Inr (map (\<lambda>os. (os, f os)) (filter (\<lambda>os. os \<in> set (keys ts)) oss))"
  using assms(3)
proof (induction oss)
  case (Cons os oss)
  have "SelectTarget ts os = (if os \<in> set (keys ts) then Inr (f os) else Inl ErrNoTargetForOS)"
  proof (cases "os \<in> set (keys ts)")
    case True
    then obtain t where t: "map_of ts os = Some t" by (metis map_of_eq_None_iff not_None_eq image_set)
    then have "pcBase t = []" "buildResolvedTarget t os = Inr (f os)" using assms(4) map_of_SomeD by fastforce+
    with t True show ?thesis
      using findWinner_platform [OF assms(1,2)] Cons.prems
      by (simp add: SelectTarget_def flattenBaseChain_def walkBaseChain.simps)
  next
    case False
    then show ?thesis using findWinner_platform [OF assms(1,2)] Cons.prems by (simp add: SelectTarget_def)
  qed
  with Cons show ?case by simp
qed simp

section \<open>The rules hold of a draft\<close>

lemma tokens_plain: "CHR 0x24 \<notin> set s \<Longrightarrow> extractVarTokens s = []"
  by (induction s) auto

lemma tokens_install: "extractVarTokens (''${INSTALL_PATH}'' @ s) = ''INSTALL_PATH'' # extractVarTokens s"
  by simp

lemma name_no_dollar: "list_all name_byte n \<Longrightarrow> CHR 0x24 \<notin> set n"
  by (auto simp: list_all_iff name_byte_def is_letter_def is_digit_def is_lower_def is_upper_def)

lemma dots_Cons: "Contains (c # s) ''..'' \<longleftrightarrow> c = CHR ''.'' \<and> s \<noteq> [] \<and> hd s = CHR ''.'' \<or> Contains s ''..''"
  by (cases s) (auto simp: HasPrefix_def)

lemma dots_append:
  "Contains (s @ t) ''..'' \<longleftrightarrow>
     Contains s ''..'' \<or> Contains t ''..'' \<or> s \<noteq> [] \<and> t \<noteq> [] \<and> last s = CHR ''.'' \<and> hd t = CHR ''.''"
proof (induction s)
  case Nil
  show ?case by simp
next
  case (Cons c s)
  then show ?case by (cases s) (auto simp: dots_Cons simp del: Contains.simps)
qed

definition forge_name :: "string \<Rightarrow> bool" where
  "forge_name n \<longleftrightarrow> plain_name n \<and> \<not> HasSuffix n ''.'' \<and> length n \<le> 60 \<and> \<not> Contains n ''..''"

lemma forge_name_facts:
  assumes "forge_name n"
  shows "n \<noteq> []" "hd n \<noteq> CHR ''.''" "List.last n \<noteq> CHR ''.''" "\<not> Contains n ''..''" "CHR 0x24 \<notin> set n" "list_all name_byte n"
    "length n \<le> 60"
proof -
  have p: "plain_name n" "\<not> HasSuffix n ''.''" using assms by (simp_all add: forge_name_def)
  then show "n \<noteq> []" "list_all name_byte n" "CHR 0x24 \<notin> set n" by (simp_all add: plain_name_def name_no_dollar)
  show "hd n \<noteq> CHR ''.''" using p(1) by (auto simp: plain_name_def is_letter_def is_digit_def is_lower_def is_upper_def)
  show "List.last n \<noteq> CHR ''.''"
    using p \<open>n \<noteq> []\<close> by (cases n rule: rev_cases) (auto simp: HasSuffix_def HasPrefix_def)
  show "\<not> Contains n ''..''" "length n \<le> 60" using assms by (simp_all add: forge_name_def)
qed

lemmas drafted_defs = drafted_target_def drafted_lifecycle_def drafted_install_def drafted_start_def drafted_stop_def

text \<open>The paths of a draft, anchored in the install directory and free of two dots in a row.\<close>

lemma install_path_dots: "\<not> Contains ''${INSTALL_PATH}/'' ''..''" "\<not> Contains ''.download'' ''..''" "\<not> Contains ''.msi'' ''..''"
  "\<not> Contains ''.exe'' ''..''" "\<not> Contains ''${INSTALL_PATH}/.'' ''..''"
  by code_simp+

lemma download_path:
  assumes "forge_name n"
  shows "isWorkdirAnchoredValue (download_to n f)"
proof -
  note n = forge_name_facts [OF assms]
  have "\<not> Contains (''.download'' @ downloadSuffix f) ''..''"
    using install_path_dots unfolding dots_append by (auto simp: downloadSuffix_def)
  moreover have "hd (''.download'' @ downloadSuffix f) = CHR ''.''" by simp
  ultimately have "\<not> Contains (n @ ''.download'' @ downloadSuffix f) ''..''"
    using n unfolding dots_append [of n] by simp
  then have "\<not> Contains (''${INSTALL_PATH}/.'' @ n @ ''.download'' @ downloadSuffix f) ''..''"
    using n install_path_dots(5) unfolding dots_append [of "''${INSTALL_PATH}/.''"] by (simp add: hd_append del: Contains.simps)
  moreover have "isAnchoredByPrefix (''${INSTALL_PATH}/.'' @ s) ''${INSTALL_PATH}''" for s
    by (simp add: isAnchoredByPrefix_def HasPrefix_def)
  ultimately show ?thesis by (simp only: isWorkdirAnchoredValue_def containsPathTraversal_def download_to_def) blast
qed

lemma install_dir:
  assumes "forge_name n"
  shows "isWorkdirAnchoredValue (installDir n)" "\<not> Contains (binaryPath n w) ''..''" "workdirAnchored (binaryPath n w)"
proof -
  note n = forge_name_facts [OF assms]
  have d: "\<not> Contains (installDir n) ''..''"
    using n install_path_dots(1) unfolding installDir_def dots_append by simp
  moreover have "isAnchoredByPrefix (installDir n) ''${INSTALL_PATH}''"
    by (simp add: installDir_def isAnchoredByPrefix_def HasPrefix_def)
  ultimately show "isWorkdirAnchoredValue (installDir n)"
    by (simp only: isWorkdirAnchoredValue_def containsPathTraversal_def) blast
  have "\<not> Contains (executableName n w) ''..''"
    using n install_path_dots(4) unfolding executableName_def by (cases w) (simp_all add: dots_append del: Contains.simps)
  moreover have "executableName n w \<noteq> []" "hd (executableName n w) \<noteq> CHR ''.''"
    using n by (auto simp: executableName_def)
  moreover have "\<not> Contains ''/'' ''..''" by code_simp
  ultimately have "\<not> Contains (''/'' @ executableName n w) ''..''"
    unfolding dots_append by simp
  then show "\<not> Contains (binaryPath n w) ''..''"
    using d n unfolding binaryPath_def dots_append [of "installDir n"] by (simp del: Contains.simps)
  show "workdirAnchored (binaryPath n w)"
    by (simp add: workdirAnchored_def binaryPath_def installDir_def HasPrefix_def)
qed

lemma forge_names_valid:
  assumes "forge_name n"
  shows "exposeNameRe n" "validPortableName (executableName n w)"
proof -
  note n = forge_name_facts [OF assms]
  obtain c cs where c: "n = c # cs" using n(1) by (cases n) auto
  have p: "is_letter c \<or> is_digit c" "list_all name_byte cs" "\<not> IsWindowsReservedName n" "length cs \<le> 59"
    using assms c by (auto simp: forge_name_def plain_name_def)
  then show "exposeNameRe n" by (simp add: c exposeNameRe_def)
  have ext: "list_all name_byte ''.exe''" "\<not> HasSuffix (n @ ''.exe'') ''.''" by (code_simp, simp add: HasSuffix_def HasPrefix_def)
  have "stem_part (n @ ''.exe'') = stem_part n" 
    by (simp add: takeWhile_tail)
  then have "\<not> IsWindowsReservedName (n @ ''.exe'')" using p(3) reserved_iff by blast
  then show "validPortableName (executableName n w)"
    using p ext assms by (auto simp: executableName_def validPortableName_def c exposeNameRe_def forge_name_def)
qed

text \<open>
  A target of a draft: the name the forge gave, a platform, and a download URL that mentions no
  variable.  The rules find nothing to say of it.
\<close>

definition draft_ok :: "string \<Rightarrow> OS \<Rightarrow> Pick \<Rightarrow> bool" where
  "draft_ok name os p \<longleftrightarrow> forge_name name \<and> os \<in> set AllOS \<and> asURL (pkAsset p) \<noteq> [] \<and> extractVarTokens (asURL (pkAsset p)) = []"

lemma draft_name: "draft_ok name os p \<Longrightarrow> forge_name name"
  by (simp add: draft_ok_def)

lemma draft_url: "draft_ok name os p \<Longrightarrow> extractVarTokens (asURL (pkAsset p)) = []"
  by (simp add: draft_ok_def)

lemma drafted_tokens:
  assumes "draft_ok name os p"
  shows "extractVarTokens (download_to name f) = [''INSTALL_PATH'']"
  "extractVarTokens (installDir name) = [''INSTALL_PATH'']" "extractVarTokens (start_command os) = [''ARROW_APP'']"
proof -
  have "CHR 0x24 \<notin> set (''/.'' @ name @ ''.download'' @ downloadSuffix f)" "CHR 0x24 \<notin> set (''/'' @ name)"
    using forge_name_facts(5) [OF draft_name [OF assms]] by (auto simp: downloadSuffix_def)
  from this [THEN tokens_plain]
  show "extractVarTokens (download_to name f) = [''INSTALL_PATH'']"
    "extractVarTokens (installDir name) = [''INSTALL_PATH'']"
    using tokens_install [of "''/.'' @ name @ ''.download'' @ downloadSuffix f"] tokens_install [of "''/'' @ name"]
    by (simp_all add: installDir_def download_to_def)
  show "extractVarTokens (start_command os) = [''ARROW_APP'']"
    by (cases "IsWindows os") (simp_all add: start_command_def)
qed

lemma plain_values: "overrideableValues (plain v) = [v]"
  by (simp add: overrideableValues_def plain_def)

lemma drafted_variable_refs:
  assumes "draft_ok name os p" "{''INSTALL_PATH'', ''ARROW_APP''} \<subseteq> set known"
  shows "checkCompiledTargetVariableRefs os (drafted_target name f os p app) known pk = []"
  using assms(2)
  by (simp add: checkCompiledTargetVariableRefs_def checkCompiledStepVars_def drafted_defs checkStepListVars_def checkVarTokens_def checkSingleValueTokens_def
      plain_values drafted_tokens [OF assms(1)] draft_url [OF assms(1)] Let_def)

lemma drafted_lifecycle_pairs:
  assumes "draft_ok name os p"
  shows "checkLifecyclePairs os (drafted_target name f os p app) = []"
  using download_path [OF draft_name [OF assms]] install_dir(1) [OF draft_name [OF assms]]
  by (simp add: checkLifecyclePairs_def drafted_defs isWorkdirOnlyInstall_def isWorkdirAnchoredPlacement_def isWorkdirAnchoredTo_def
      plain_def Let_def)

lemma drafted_timeouts:
  assumes "draft_ok name os p"
  shows "checkTimeoutFormat os (drafted_target name f os p app) = []"
proof -
  have "timeoutRe ''15m''" "timeoutRe ''10s''" by code_simp+
  then show ?thesis
    by (simp add: checkTimeoutFormat_def phases_def drafted_defs checkStepListTimeouts_def check_step_timeout_def enum_def
        extractStepTimeout_def plain_def Let_def)
qed

lemma drafted_no_dependencies:
  assumes "draft_ok name os p"
  shows "checkNoDepsSteps os (drafted_target name f os p app) = []"
  by (simp add: checkNoDepsSteps_def phases_def drafted_defs enum_def Step_Type_def newBasicStep_def Let_def)

lemma drafted_run_ui:
  assumes "draft_ok name os p"
  shows "collect (\<lambda>(name, steps). checkRunUIGroup os name steps) (runUIGroups (drafted_target name f os p app)) = []"
proof -
  have "\<not> Contains (start_command os) uiListenVarRef"
    by (cases "IsWindows os") (simp_all add: start_command_def uiListenVarRef_def HasPrefix_def)
  then show ?thesis
    by (simp add: runUIGroups_def phases_def drafted_defs checkRunUIGroup_def check_run_ui_def enum_def overrideableMentions_def
        plain_values Let_def)
qed

lemma drafted_portable_names:
  assumes "draft_ok name os p"
  shows "checkPortableNames os (drafted_target name f os p app) = []"
  using forge_names_valid(2) [OF draft_name [OF assms]]
  by (simp add: checkPortableNames_def phases_def drafted_defs checkStepListPortableNames_def check_portable_name_def enum_def Let_def)

lemma drafted_expose:
  assumes "draft_ok name os p"
  shows "checkExpose os (drafted_target name f os p app) = []"
  using forge_names_valid(1) [OF draft_name [OF assms]] install_dir(2,3) [OF draft_name [OF assms]]
  by (simp add: checkExpose_def drafted_target_def drafted_expose_def newExpose_def decoded_entries_def omit_empty_def
      toExposeEntries_def checkExposeEntries_def checkExposeName_def checkExposePath_def checkExposeIcon_def isValidExposeIcon_def
      containsPathTraversal_def enum_def Let_def checkDuplicates_Nil)

lemma drafted_keys: "checkTargetKeys os (drafted_pre name f os p app) = []"
  by (simp add: checkTargetKeys_def drafted_pre_def phases_def drafted_defs checkStepListKeys_def enum_def check_step_keys_def
      checkStringKeys_def checkBoolKeys_def checkSignalKindKeys_def plain_def Let_def)

lemma drafted_coverage:
  assumes "draft_ok name os p"
  shows "checkTargetCoverage os (drafted_pre name f os p app) = []"
proof -
  have "start_command os \<noteq> []" by (simp add: start_command_def)
  then show ?thesis using assms
    by (simp add: checkTargetCoverage_def drafted_pre_def phases_def drafted_defs checkStepListCoverage_def enum_def
        check_step_coverage_def checkStringCoverage_def check_populated_def isPopulated_def plain_def draft_ok_def download_to_def
        installDir_def Let_def)
qed

lemma pre_base: "pcBase (drafted_pre name f os p app) = []"
  by (simp add: drafted_pre_def)

lemma no_bases: "\<forall>(k, t) \<in> set pre. pcBase t = [] \<Longrightarrow> BaseIntegrityRule pre = []"
  by (force simp: BaseIntegrityRule_def checkBaseChain_def split: option.splits dest!: map_of_SomeD)

text \<open>The picks of a draft whose assets can be downloaded, and whether one of them exposes an app.\<close>

definition usable :: "url_parser \<Rightarrow> Input \<Rightarrow> (OS \<times> string \<times> Pick) list" where
  "usable parse inp =
     List.map_filter (\<lambda>(os, p). map_option (\<lambda>f. (os, f, checksummed p (inUnpinned inp))) (LocalFile parse p)) (inPicks inp)"

definition draft_app :: "url_parser \<Rightarrow> Input \<Rightarrow> bool" where
  "draft_app parse inp \<longleftrightarrow>
     list_ex (\<lambda>(os, f, p). xpDesktop (newExpose (exposeName (inRepo inp)) (binaryPath (exposeName (inRepo inp)) (IsWindows os)) os p) \<noteq> [])
       (usable parse inp)"

lemma newDocument_targets:
  "dcTargets (newDocument parse inp) =
     map (\<lambda>(os, f, p). (os, doc_target_of (exposeName (inRepo inp)) f os p (draft_app parse inp))) (usable parse inp)"
proof -
  let ?n = "exposeName (inRepo inp)"
  have "List.map_filter (\<lambda>(os, p). map_option (\<lambda>f. (os, newTarget ?n f os (checksummed p (inUnpinned inp)))) (LocalFile parse p)) ps =
      map (\<lambda>(os, f, p). (os, newTarget ?n f os p))
        (List.map_filter (\<lambda>(os, p). map_option (\<lambda>f. (os, f, checksummed p (inUnpinned inp))) (LocalFile parse p)) ps)" for ps
    by (induction ps) (auto simp: map_filter_simps split: option.split)
  then show ?thesis
    by (auto simp: newDocument_def forge_addStartStop_def usable_def [symmetric] draft_app_def list_ex_iff doc_target_of_def newTarget_def
        Let_def split: prod.splits)
qed

definition draft_pre :: "url_parser \<Rightarrow> Input \<Rightarrow> (string \<times> PrecompiledTarget) list" where
  "draft_pre parse inp =
     map (\<lambda>(os, f, p). (os, drafted_pre (exposeName (inRepo inp)) f os p (draft_app parse inp))) (usable parse inp)"

lemma toTargets_draft: "toTargets (a0Targets (decoded (newDocument parse inp))) = Inr (draft_pre parse inp)"
  by (auto simp: toTargets_def decoded_def newDocument_targets draft_pre_def try_map_Inr_iff list_all2_map1 list_all2_map2
      toTarget_decoded intro!: list_all2_refl split: prod.splits)

text \<open>What a draft is made of: platforms once each, at least one usable pick, URLs that mention no variable.\<close>

definition draftable :: "url_parser \<Rightarrow> Input \<Rightarrow> bool" where
  "draftable parse inp \<longleftrightarrow>
     distinct (map fst (inPicks inp)) \<and> set (map fst (inPicks inp)) \<subseteq> set AllOS \<and> usable parse inp \<noteq> [] \<and>
     \<not> Contains (exposeName (inRepo inp)) ''..'' \<and>
     (\<forall>(os, p) \<in> set (inPicks inp). asURL (pkAsset p) \<noteq> [] \<and> extractVarTokens (asURL (pkAsset p)) = [])"

lemma usable_facts:
  assumes "draftable parse inp"
  shows "distinct (map fst (usable parse inp))" "set (map fst (usable parse inp)) \<subseteq> set AllOS"
    "(os, f, p) \<in> set (usable parse inp) \<Longrightarrow> draft_ok (exposeName (inRepo inp)) os p"
proof -
  have "map fst (List.map_filter (\<lambda>(os, p). map_option (\<lambda>f. (os, f, g p)) (LocalFile parse p)) ps) =
      map fst (filter (\<lambda>(os, p). LocalFile parse p \<noteq> None) ps)" for g :: "Pick \<Rightarrow> Pick" and ps
    by (induction ps) (auto simp: map_filter_simps split: option.split)
  then have "map fst (usable parse inp) = map fst (filter (\<lambda>(os, p). LocalFile parse p \<noteq> None) (inPicks inp))"
    unfolding usable_def .
  then show "distinct (map fst (usable parse inp))" "set (map fst (usable parse inp)) \<subseteq> set AllOS"
    using assms distinct_map_filter [of fst "inPicks inp"] by (auto simp: draftable_def)
  have "forge_name (exposeName (inRepo inp))"
    using exposeName_plain assms by (auto simp: forge_name_def draftable_def)
  then show "draft_ok (exposeName (inRepo inp)) os p" if u: "(os, f, p) \<in> set (usable parse inp)"
  proof -
    obtain q where q: "(os, q) \<in> set (inPicks inp)" "p = checksummed q (inUnpinned inp)"
      using u by (auto simp: usable_def set_map_filter)
    then have "asURL (pkAsset p) = asURL (pkAsset q)" by (simp add: checksummed_def)
    moreover have "os \<in> set AllOS" "asURL (pkAsset q) \<noteq> [] \<and> extractVarTokens (asURL (pkAsset q)) = []"
      using q(1) assms by (auto simp: draftable_def)
    ultimately show ?thesis using \<open>forge_name _\<close> by (simp add: draft_ok_def)
  qed
qed


definition drafted_for :: "url_parser \<Rightarrow> Input \<Rightarrow> OS \<Rightarrow> Target" where
  "drafted_for parse inp os =
     (case map_of (usable parse inp) os of
        Some (f, p) \<Rightarrow> drafted_target (exposeName (inRepo inp)) f os p (draft_app parse inp)
      | None \<Rightarrow> drafted_target [] [] [] undefined False)"

definition draft_targets :: "url_parser \<Rightarrow> Input \<Rightarrow> (OS \<times> Target) list" where
  "draft_targets parse inp = map (\<lambda>os. (os, drafted_for parse inp os)) (filter (\<lambda>os. os \<in> set (map fst (usable parse inp))) AllOS)"

lemma drafted_for_usable:
  assumes "draftable parse inp" "(os, f, p) \<in> set (usable parse inp)"
  shows "drafted_for parse inp os = drafted_target (exposeName (inRepo inp)) f os p (draft_app parse inp)"
  using usable_facts(1) [OF assms(1)] assms(2) by (simp add: drafted_for_def)

lemma draft_targets_mem:
  assumes "draftable parse inp" "(os, t) \<in> set (draft_targets parse inp)"
  shows "\<exists>f p. (os, f, p) \<in> set (usable parse inp) \<and> draft_ok (exposeName (inRepo inp)) os p \<and>
    t = drafted_target (exposeName (inRepo inp)) f os p (draft_app parse inp)"
proof -
  obtain f p where "(os, f, p) \<in> set (usable parse inp)" "t = drafted_for parse inp os"
    using assms(2) by (auto simp: draft_targets_def)
  then show ?thesis using drafted_for_usable [OF assms(1)] usable_facts(3) [OF assms(1)] by blast
qed

lemma draft_targets_start:
  assumes "draftable parse inp"
  shows "addStartStop (draft_targets parse inp) = draft_targets parse inp"
proof (cases "draft_app parse inp")
  case True
  obtain os f p where "(os, f, p) \<in> set (usable parse inp)"
    using assms by (cases "usable parse inp") (auto simp: draftable_def)
  then have "(os, drafted_for parse inp os) \<in> set (draft_targets parse inp)"
    using usable_facts(2) [OF assms] by (force simp: draft_targets_def)
  moreover have "elems (Execute (Lifecycle t)) \<noteq> []" if "(os, t) \<in> set (draft_targets parse inp)" for os t
    using draft_targets_mem [OF assms that] True by (auto simp: drafted_defs)
  ultimately show ?thesis by (force simp: addStartStop_def list_ex_iff)
next
  case False
  have "elems (exDesktop (tExpose t)) = []" if "(os, t) \<in> set (draft_targets parse inp)" for os t
    using draft_targets_mem [OF assms that] False
    by (force simp: draft_app_def list_ex_iff drafted_target_def drafted_expose_def decoded_entries_def omit_empty_def toExposeEntries_def Let_def)
  then show ?thesis by (force simp: addStartStop_def list_ex_iff)
qed

lemma Compile_draft:
  assumes "draftable parse inp"
  shows "Compile m (draft_pre parse inp) = Inr (m\<lparr>aTargets := draft_targets parse inp\<rparr>)"
proof -
  have k: "keys (draft_pre parse inp) = map fst (usable parse inp)" by (auto simp: draft_pre_def)
  then have d: "set (keys (draft_pre parse inp)) \<subseteq> set AllOS" "distinct (keys (draft_pre parse inp))"
    using usable_facts(1,2) [OF assms] by (simp_all only: k)
  have "compile_targets (draft_pre parse inp) AllOS = Inr (draft_targets parse inp)"
    unfolding draft_targets_def k [symmetric]
    using drafted_for_usable [OF assms]
    by (intro compile_drafted d order_refl) (auto simp: draft_pre_def resolve_drafted pre_base)
  with draft_targets_start [OF assms] show ?thesis by (simp add: Compile_def)
qed

lemma draft_targets_valid:
  assumes "draftable parse inp" "aTargets c = draft_targets parse inp"
  shows "ValidateCompiled c = []"
proof -
  have rule: "collect (\<lambda>(os, t). r os t) (aTargets c) = []"
    if "\<And>os f p. draft_ok (exposeName (inRepo inp)) os p \<Longrightarrow> r os (drafted_target (exposeName (inRepo inp)) f os p (draft_app parse inp)) = []" for r
    using draft_targets_mem [OF assms(1)] that assms(2) by fastforce
  have known: "{''INSTALL_PATH'', ''ARROW_APP''} \<subseteq> set (buildKnownVars c)" by (simp add: buildKnownVars_def)
  have "Execute (Lifecycle t) \<noteq> None \<longleftrightarrow> draft_app parse inp" if "(os, t) \<in> set (aTargets c)" for os t
    using draft_targets_mem [OF assms(1), of os t] assms(2) that by (auto simp: drafted_defs split: if_splits)
  then have "ServicePackageRule c = []" by (fastforce simp: ServicePackageRule_def list_ex_iff Let_def)
  moreover have "ToolsServicesRule c = []" "ExportStaticRule c = []" "ServiceConsumerLifecycleRule c = []" "MethodStatesRule c = []"
    unfolding ToolsServicesRule_def ExportStaticRule_def ServiceConsumerLifecycleRule_def MethodStatesRule_def
    by (rule rule; simp add: checkTargetToolServiceOverlap_def checkTargetExportStaticValues_def checkServiceConsumerLifecycle_def
        checkMethodStates_def drafted_target_def)+
  moreover have "VariableRefsRule c = []" "LifecyclePairsRule c = []" "TimeoutFormatRule c = []" "NoDependenciesStepRule c = []"
    "RunUIRule c = []" "ExposeEntriesRule c = []" "PortableNameRule c = []"
    unfolding VariableRefsRule_def LifecyclePairsRule_def TimeoutFormatRule_def NoDependenciesStepRule_def RunUIRule_def
      ExposeEntriesRule_def PortableNameRule_def
    by (rule rule; intro drafted_variable_refs [OF _ known] drafted_lifecycle_pairs drafted_timeouts drafted_no_dependencies
        drafted_run_ui drafted_expose drafted_portable_names; assumption)+
  moreover have "aTargets c \<noteq> []"
    using assms usable_facts(2) [OF assms(1)] by (cases "usable parse inp") (auto simp: draftable_def draft_targets_def filter_empty_conv)
  ultimately show ?thesis by (simp add: ValidateCompiled_def RunCompiled_def AllCompiled_def)
qed

lemma draft_aggregate:
  assumes "draftable parse inp" "gName (inGenerator inp) \<noteq> []"
  shows "\<exists>a. toAggregate (decoded (newDocument parse inp)) = Inr (a, draft_pre parse inp) \<and> mName (aMeta a) = singleLine (inName inp) \<and>
    mDescription (aMeta a) = singleLine (inDescription inp) \<and> mGenerator (aMeta a) = Some (inGenerator inp) \<and>
    aVariables a = [] \<and> aNetbridge a = [] \<and> aReadme a = []"
proof -
  have "a0Targets (decoded (newDocument parse inp)) \<noteq> []"
    using assms(1) by (simp add: decoded_def newDocument_targets draftable_def)
  then show ?thesis
    using toTargets_draft [of parse inp] assms(2)
    by (auto simp: toAggregate_def decoded_def newDocument_def toGenerator_def toVariables_def toPorts_def Let_def no_arrow_def)
qed

lemma draft_accepted:
  assumes "draftable parse inp" "gName (inGenerator inp) \<noteq> []" "length (singleLine (inName inp)) \<in> {1..255}"
    "length (singleLine (inDescription inp)) \<le> 1000" "length (aReadme m) \<le> 256000"
    and meta: "mName (aMeta m) = singleLine (inName inp)" "mDescription (aMeta m) = singleLine (inDescription inp)"
      "mGenerator (aMeta m) = Some (inGenerator inp)" "aVariables m = []" "aNetbridge m = []"
  shows "\<exists>c. ValidatePrecompile m (draft_pre parse inp) = [] \<and> Compile m (draft_pre parse inp) = Inr c \<and> ValidateCompiled c = [] \<and>
    Origin c = ArrowOriginInferred \<and> aTargets c = draft_targets parse inp \<and>
    set (keys (aTargets c)) = {os. \<exists>p. (os, p) \<in> set (inPicks inp) \<and> LocalFile parse p \<noteq> None}"
proof -
  have "MetadataRule m = []"
    using assms(3-5) meta by (auto simp: MetadataRule_def MaxNameLength_def MaxDescriptionLength_def MaxReadmeLength_def)
  moreover have "VariablesRule m = []" "NetbridgeRule m = []"
    using meta by (simp_all add: VariablesRule_def NetbridgeRule_def enum_def checkDuplicates_Nil)
  moreover have "BaseIntegrityRule (draft_pre parse inp) = []"
    by (intro no_bases) (auto simp: draft_pre_def drafted_pre_def)
  moreover have "OverrideableKeysRule (draft_pre parse inp) = []" "OverrideableCoverageRule (draft_pre parse inp) = []"
    using drafted_coverage [OF usable_facts(3) [OF assms(1)]]
    by (auto simp: OverrideableKeysRule_def OverrideableCoverageRule_def draft_pre_def drafted_keys)
  ultimately have "ValidatePrecompile m (draft_pre parse inp) = []"
    by (simp add: ValidatePrecompile_def RunPrecompile_def)
  moreover have "set (keys (draft_targets parse inp)) = {os. \<exists>p. (os, p) \<in> set (inPicks inp) \<and> LocalFile parse p \<noteq> None}"
  proof -
    have "set (keys (draft_targets parse inp)) = set (map fst (usable parse inp))"
      using usable_facts(2) [OF assms(1)] by (auto simp: draft_targets_def)
    also have "\<dots> = {os. \<exists>p. (os, p) \<in> set (inPicks inp) \<and> LocalFile parse p \<noteq> None}"
      by (force simp: usable_def set_map_filter)
    finally show ?thesis .
  qed
  moreover have "Origin (m\<lparr>aTargets := draft_targets parse inp\<rparr>) = ArrowOriginInferred"
    using meta(3) assms(2) by (simp add: Origin_def)
  ultimately show ?thesis
    using Compile_draft [OF assms(1), of m] draft_targets_valid [OF assms(1), of "m\<lparr>aTargets := draft_targets parse inp\<rparr>"]
    by (intro exI [of _ "m\<lparr>aTargets := draft_targets parse inp\<rparr>"]) simp
qed

text \<open>The first step of a target fetches the asset of a pick.\<close>

definition fetches_pick :: "Pick \<Rightarrow> Target \<Rightarrow> bool" where
  "fetches_pick p t \<longleftrightarrow>
     (case elems (Install (Lifecycle t)) of
        FetchStep b url to ck tmo # rest \<Rightarrow> url = plain (asURL (pkAsset p))
      | _ \<Rightarrow> False)"

lemma draft_target_fetches:
  assumes "draftable parse inp" "(os, t) \<in> set (draft_targets parse inp)"
  shows "\<exists>p. (os, p) \<in> set (inPicks inp) \<and> fetches_pick p t"
proof -
  obtain f p where u: "(os, f, p) \<in> set (usable parse inp)"
    and t: "t = drafted_target (exposeName (inRepo inp)) f os p (draft_app parse inp)"
    using draft_targets_mem [OF assms] by blast
  from u obtain q where q: "(os, q) \<in> set (inPicks inp)" "p = checksummed q (inUnpinned inp)"
    by (auto simp: usable_def set_map_filter)
  have "fetches_pick q t"
    by (simp add: fetches_pick_def t q(2) drafted_defs checksummed_def Let_def)
  with q(1) show ?thesis by blast
qed

section \<open>The description of a repository page\<close>

definition containsFold :: "string \<Rightarrow> string \<Rightarrow> bool" where
  "containsFold s sub \<longleftrightarrow> Contains (ToLower s) (ToLower sub)"

definition trimSuffixFold :: "string \<Rightarrow> string \<Rightarrow> string" where
  "trimSuffixFold s sfx =
     (if length s < length sfx \<or> \<not> EqualFold (drop (length s - length sfx) s) sfx then s
      else take (length s - length sfx) s)"

text \<open>\<open>unicode.IsSpace\<close> of a single byte taken as a rune.\<close>

definition byte_space :: "char \<Rightarrow> bool" where
  "byte_space c \<longleftrightarrow> is_space c \<or> c = CHR 0x85 \<or> c = CHR 0xA0"

fun sentences_from :: "string \<Rightarrow> string \<Rightarrow> string list" where
  "sentences_from cur [] = [cur]"
| "sentences_from cur [c] = [cur @ [c]]"
| "sentences_from cur (c # d # s) =
     (if c \<in> set ''.!?'' \<and> byte_space d then (cur @ [c]) # sentences_from [] (d # s)
      else sentences_from (cur @ [c]) (d # s))"

definition sentences :: "string \<Rightarrow> string list" where
  "sentences s = sentences_from [] s"

definition cleanDescription :: "string \<Rightarrow> string \<Rightarrow> string" where
  "cleanDescription description slug =
     (let s = TrimSpace (trimSuffixFold (TrimSpace description) ('' - '' @ slug))
      in if \<not> containsFold s slug then s
         else TrimSpace (Join (map TrimSpace (filter (\<lambda>x. \<not> containsFold x slug) (sentences s))) '' ''))"

text \<open>\<open>truncate\<close> counts runes, after a first look at the bytes.\<close>

function runes :: "string \<Rightarrow> string list" where
  "runes [] = []"
| "runes (c # s) = (c # take (rune_len (c # s) - 1) s) # runes (drop (rune_len (c # s) - 1) s)"
  by pat_completeness auto
termination
  by (relation "measure length") auto

definition readme_truncate :: "string \<Rightarrow> nat \<Rightarrow> string" where
  "readme_truncate s limit =
     (if length s \<le> limit then s else if length (runes s) \<le> limit then s else concat (take limit (runes s)))"

section \<open>The drafter\<close>

definition coordinates :: "Namespace \<Rightarrow> string \<times> string" where
  "coordinates ns = (let parts = segments ns @ [[], []] in (parts ! 1, parts ! 2))"

definition isRolling :: "string \<Rightarrow> bool" where
  "isRolling tag \<longleftrightarrow> tag \<noteq> [] \<and> \<not> HasVersionCore tag"

definition standInDigest :: string where
  "standInDigest = ''sha256:0000000000000000000000000000000000000000000000000000000000000000''"

text \<open>
  What a git host answers: the assets of a release, the Open Graph description and social image of the
  repository page, and the readme as its filters leave it.  These and SHA-256, in hexadecimal, are parameters.
\<close>

record draft_host =
  dhReleaseAssets :: "Namespace \<Rightarrow> string \<Rightarrow> draft_error + ReleaseAsset list"
  dhPageMeta :: "Namespace \<Rightarrow> draft_error + string \<times> string"
  dhReadme :: "Namespace \<Rightarrow> string \<Rightarrow> draft_error + string"
  dhMedia :: "Namespace \<Rightarrow> string \<Rightarrow> string \<Rightarrow> ArrowMedia"
  dhPageMetaURL :: "Namespace \<Rightarrow> string"

record drafter =
  drLookup :: "Namespace \<Rightarrow> draft_host option"
  drParse :: url_parser
  drSum256 :: "string \<Rightarrow> string"
  drEncode :: "document \<Rightarrow> string"

definition withStandInDigests :: "drafter \<Rightarrow> ReleaseAsset list \<Rightarrow> ReleaseAsset list" where
  "withStandInDigests d assets =
     map (\<lambda>a. if asDigest a = [] then a\<lparr>asDigest := ''sha256:'' @ drSum256 d (asURL a @ [CHR 0x00] @ asName a)\<rparr> else a) assets"

definition usablePick :: "drafter \<Rightarrow> string \<Rightarrow> ReleaseAsset list \<Rightarrow> OS \<Rightarrow> Pick option" where
  "usablePick d repo assets platform =
     (case picker_Pick repo assets platform of
        None \<Rightarrow> None | Some p \<Rightarrow> if LocalFile (drParse d) p \<noteq> None then Some p else None)"

definition all_picks :: "drafter \<Rightarrow> string \<Rightarrow> ReleaseAsset list \<Rightarrow> picks" where
  "all_picks d repo assets = List.map_filter (\<lambda>os. map_option (Pair os) (usablePick d repo assets os)) AllOS"

definition digestWasTheBlocker :: "drafter \<Rightarrow> string \<Rightarrow> ReleaseAsset list \<Rightarrow> bool" where
  "digestWasTheBlocker d repo assets \<longleftrightarrow>
     list_ex (\<lambda>a. asDigest a = []) assets \<and>
     list_ex (\<lambda>os. usablePick d repo (map (\<lambda>a. if asDigest a = [] then a\<lparr>asDigest := standInDigest\<rparr> else a) assets) os \<noteq> None) AllOS"

definition pickAll :: "drafter \<Rightarrow> draft_host \<Rightarrow> Namespace \<Rightarrow> string \<Rightarrow> draft_error + picks" where
  "pickAll d host ns tag =
     (case dhReleaseAssets host ns tag of
        Inl e \<Rightarrow> Inl e
      | Inr assets \<Rightarrow>
          (let assets = (if isRolling tag then withStandInDigests d assets else assets);
               repo = snd (coordinates ns); picks = all_picks d repo assets
           in if assets = [] then Inl (NotFletchable ReasonNoReleaseAssets)
              else if picks \<noteq> [] then Inr picks
              else if digestWasTheBlocker d repo assets then Inl (NotFletchable ReasonNoDigest)
              else Inl (NotFletchable ReasonNoUsableAsset)))"

text \<open>\<open>draft\<close> assesses the picks, stamps the generator and renders what stays.\<close>

definition draft_assessed :: "Input \<Rightarrow> draft_error + Input" where
  "draft_assessed inp =
     (let assessment = Assess (inPicks inp) (inUnpinned inp)
      in if \<not> KeepsAny assessment then Inl (NotFletchable ReasonLowConfidence)
         else Inr (inp\<lparr>inPicks := asPicks assessment,
                inGenerator := \<lparr>gName = ''fletcher/1'', gConfidence = asLevel assessment, gWarnings = asWarnings assessment\<rparr>\<rparr>))"

definition draft :: "drafter \<Rightarrow> Input \<Rightarrow> draft_error + string" where
  "draft d inp = map_sum id (Render (drParse d) (drEncode d)) (draft_assessed inp)"

text \<open>
  \<open>gather\<close> runs its probes side by side; of their errors the one about the assets comes first, then
  the page's, then the readme's.
\<close>

definition parsePage :: "Namespace \<Rightarrow> string \<times> string \<Rightarrow> string \<times> string" where
  "parsePage ns meta = (cleanDescription (fst meta) (fst (coordinates ns) @ ''/'' @ snd (coordinates ns)), snd meta)"

definition draft_input :: "draft_host \<Rightarrow> Namespace \<Rightarrow> string \<Rightarrow> picks \<Rightarrow> string \<times> string \<Rightarrow> string \<Rightarrow> Input" where
  "draft_input host ns tag picks page readme =
     (let repo = snd (coordinates ns)
      in \<lparr>inRepo = repo, inName = repo, inDescription = fst page, inURL = dhPageMetaURL host ns,
          inMedia = dhMedia host ns tag (snd page), inReadme = readme_truncate readme (nat MaxReadmeLength),
          inGenerator = \<lparr>gName = [], gConfidence = [], gWarnings = []\<rparr>, inPicks = picks, inUnpinned = isRolling tag\<rparr>)"

definition gathered :: "drafter \<Rightarrow> Namespace \<Rightarrow> string \<Rightarrow> draft_error + Input" where
  "gathered d ns tag =
     (case drLookup d ns of
        None \<Rightarrow> Inl (NotFletchable ReasonHostUnsupported)
      | Some host \<Rightarrow>
          (case pickAll d host ns tag of Inl e \<Rightarrow> Inl e | Inr picks \<Rightarrow>
           (case dhPageMeta host ns of Inl e \<Rightarrow> Inl e | Inr meta \<Rightarrow>
            (case dhReadme host ns tag of Inl e \<Rightarrow> Inl e | Inr readme \<Rightarrow> Inr (draft_input host ns tag picks (parsePage ns meta) readme)))))"

definition Draft :: "drafter \<Rightarrow> Namespace \<Rightarrow> string \<Rightarrow> draft_error + string" where
  "Draft d ns tag = (case gathered d ns tag of Inl e \<Rightarrow> Inl e | Inr inp \<Rightarrow> draft d inp)"

section \<open>Every draft is a manifest\<close>

lemma map_fst_all_picks: "map fst (all_picks d repo as) = filter (\<lambda>os. usablePick d repo as os \<noteq> None) AllOS"
proof -
  have "map fst (List.map_filter (\<lambda>os. map_option (Pair os) (g os)) oss) = filter (\<lambda>os. g os \<noteq> None) oss" for g and oss :: "OS list"
    by (induction oss) (auto simp: map_filter_simps split: option.split)
  then show ?thesis by (simp add: all_picks_def)
qed

lemma distinct_AllOS: "distinct AllOS"
  by code_simp

lemma all_picks_mem: "(os, p) \<in> set (all_picks d repo as) \<Longrightarrow> picker_Pick repo as os = Some p \<and> LocalFile (drParse d) p \<noteq> None"
  by (auto simp: all_picks_def set_map_filter usablePick_def split: option.splits if_splits)

lemma picked_from_release: "picker_Pick repo as os = Some p \<Longrightarrow> pkAsset p \<in> set as"
proof -
  assume "picker_Pick repo as os = Some p"
  from picker_Pick_Some [OF this] obtain c where c: "c \<in> set (pick_ranked repo as os)" "pkAsset p = clAsset c" by auto
  then have "c \<in> set (picker_release as)" using pick_ranked_sub pick_candidates_sub by blast
  then obtain a where "a \<in> set as" "classify a = Some c" by (auto simp: mem_release)
  with c(2) classify_asset show ?thesis by metis
qed

text \<open>What is known of the document of a draft that was made.\<close>

lemma Draft_document:
  assumes "gathered d ns tag = Inr found" "draft_assessed found = Inr inp"
  shows "inRepo inp = snd (coordinates ns) \<and> inName inp = snd (coordinates ns) \<and> gName (inGenerator inp) \<noteq> [] \<and>
    usable (drParse d) inp \<noteq> [] \<and> distinct (map fst (inPicks inp)) \<and>
    (\<exists>host assets. drLookup d ns = Some host \<and> dhReleaseAssets host ns tag = Inr assets \<and>
      (\<forall>(os, p) \<in> set (inPicks inp). os \<in> set AllOS \<and> asURL (pkAsset p) \<in> asURL ` set assets \<and> LocalFile (drParse d) p \<noteq> None))"
proof -
  obtain host picks meta readme where h: "drLookup d ns = Some host" "pickAll d host ns tag = Inr picks"
      and found: "found = draft_input host ns tag picks (parsePage ns meta) readme"
    using assms(1) by (cases "drLookup d ns") (auto simp: gathered_def split: sum.splits)
  obtain assets where as: "dhReleaseAssets host ns tag = Inr assets"
      "picks = all_picks d (snd (coordinates ns)) (if isRolling tag then withStandInDigests d assets else assets)"
    using h(2) by (auto simp: pickAll_def Let_def split: sum.splits if_splits)
  let ?a = "Assess picks (isRolling tag)"
  let ?inp = "found\<lparr>inPicks := asPicks ?a, inGenerator := \<lparr>gName = ''fletcher/1'', gConfidence = asLevel ?a, gWarnings = asWarnings ?a\<rparr>\<rparr>"
  have kept: "asPicks ?a \<noteq> []" "inp = ?inp"
    using assms(2) found by (auto simp: draft_assessed_def draft_input_def KeepsAny_def Let_def split: if_splits)
  have sub: "asPicks ?a = filter (\<lambda>(os, p). pkNameMatch p \<or> (pkAccepted p \<and> pkProduct p \<noteq> [] \<and> pkProduct p = dominantProduct picks)) picks"
    by (simp add: Assess_def consistent_def Let_def)
  have mem: "os \<in> set AllOS \<and> asURL (pkAsset p) \<in> asURL ` set assets \<and> LocalFile (drParse d) p \<noteq> None"
    if "(os, p) \<in> set (asPicks ?a)" for os p
  proof -
    have p: "(os, p) \<in> set picks" using that sub by auto
    then have "pkAsset p \<in> set (if isRolling tag then withStandInDigests d assets else assets)" "LocalFile (drParse d) p \<noteq> None"
      using all_picks_mem picked_from_release as(2) by blast+
    moreover have "os \<in> set AllOS" using p as(2) map_fst_all_picks by (metis filter_is_subset image_eqI fst_conv image_set subsetD)
    ultimately show ?thesis by (auto simp: withStandInDigests_def split: if_splits)
  qed
  have "distinct (map fst picks)" using as(2) distinct_AllOS by (simp add: map_fst_all_picks)
  then have "distinct (map fst (asPicks ?a))" unfolding sub by (rule distinct_map_filter)
  moreover have "usable (drParse d) ?inp \<noteq> []"
  proof -
    obtain os p where "(os, p) \<in> set (asPicks ?a)" using kept(1) by (metis list.set_intros(1) neq_Nil_conv surj_pair)
    with mem obtain f where "(os, f, checksummed p (inUnpinned ?inp)) \<in> set (usable (drParse d) ?inp)"
      by (fastforce simp: usable_def set_map_filter)
    then show ?thesis by (metis list.set(1) empty_iff)
  qed
  ultimately show ?thesis
    using h(1) as(1) kept(2) mem
    by (intro conjI exI [of _ host] exI [of _ assets]) (auto simp: found draft_input_def Let_def)
qed

lemma HasPrefix_TrimSpace: "HasPrefix l ''```'' \<Longrightarrow> HasPrefix (TrimSpace l) ''```''"
proof -
  assume "HasPrefix l ''```''"
  then obtain t where l: "l = ''```'' @ t" by (auto simp: HasPrefix_iff)
  have "TrimRight (''```'' @ t) ws = ''```'' @ TrimRight t ws" if "CHR ''`'' \<notin> set ws" for ws
    using that dropWhile_append3 [of "\<lambda>c. c \<in> set ws" "CHR ''`''" "rev t" "''``''"] by (simp add: TrimRight_def)
  then show ?thesis by (simp add: TrimSpace_def l TrimLeft_def Let_def HasPrefix_def)
qed

lemma neutralize_no_fence: "TrimRight (neutralize_line l) carriage \<noteq> ''```arrow''"
proof
  assume f: "TrimRight (neutralize_line l) carriage = ''```arrow''"
  obtain k where "''```arrow'' = take k (neutralize_line l)" using TrimRight_take f by metis
  then obtain t where t: "neutralize_line l = ''```arrow'' @ t" by (metis append_take_drop_id)
  show False
  proof (cases "HasPrefix (TrimSpace l) ''```''")
    case False
    with t have "HasPrefix l ''```''" by (simp add: neutralize_line_def Let_def HasPrefix_def)
    with HasPrefix_TrimSpace False show False by blast
  next
    case True
    then obtain r where "TrimSpace l = ''```'' @ r" by (auto simp: HasPrefix_iff)
    then obtain rest where rest: "neutralize_line l = takeWhile (\<lambda>c. c \<in> {CHR '' '', CHR 0x09}) l @ CHR ''~'' # rest"
      using True by (auto simp: neutralize_line_def Let_def)
    show False
    proof (cases "takeWhile (\<lambda>c. c \<in> {CHR '' '', CHR 0x09}) l")
      case Nil
      with t rest show False by simp
    next
      case (Cons c w)
      with t rest have "c = CHR ''`''" by simp
      moreover have "c \<in> {CHR '' '', CHR 0x09}"
        using Cons set_takeWhileD [of c "\<lambda>c. c \<in> {CHR '' '', CHR 0x09}" l] by (metis list.set_intros(1))
      ultimately show False by simp
    qed
  qed
qed

lemma neutralize_newline: "newline \<notin> set l \<Longrightarrow> newline \<notin> set (neutralize_line l)"
proof -
  assume n: "newline \<notin> set l"
  have "set (TrimSpace l) \<subseteq> set l"
    by (auto simp: TrimSpace_def Let_def TrimLeft_def TrimRight_def dest!: set_dropWhileD)
  with n have "newline \<notin> set (TrimSpace l)" by blast
  then show ?thesis using n
    by (auto simp: neutralize_line_def Let_def newline_def dest: set_takeWhileD set_dropWhileD)
qed

lemma Join_append: "xs \<noteq> [] \<Longrightarrow> ys \<noteq> [] \<Longrightarrow> Join (xs @ ys) sep = Join xs sep @ sep @ Join ys sep"
proof (induction xs)
  case (Cons x xs)
  then show ?case by (cases "xs = []") (simp_all add: Join_Cons)
qed simp

text \<open>What the YAML library makes of the encoding of a document.\<close>

definition yaml_reads :: "yaml_lib \<Rightarrow> (document \<Rightarrow> string) \<Rightarrow> document \<Rightarrow> bool" where
  "yaml_reads yaml enc doc \<longleftrightarrow>
     (let body = butlast (enc doc)
      in enc doc \<noteq> [] \<and> List.last (enc doc) = newline \<and>
         list_all (\<lambda>l. TrimRight l carriage = l \<and> \<not> HasPrefix l ''```'') (Split body newline) \<and>
         ylSchema yaml body = Some \<lparr>tmSchema = dcSchema doc, tmManifest = []\<rparr> \<and> ylValid yaml body \<and>
         ylArrow yaml body = Some (decoded doc))"

lemma Render_block:
  assumes "yaml_reads yaml enc (newDocument parse inp)"
  shows "extractArrowCodeblock (Render parse enc inp) = Some (butlast (enc (newDocument parse inp)))"
proof -
  let ?body = "butlast (enc (newDocument parse inp))" and ?pre = "map neutralize_line (Split (proseText inp) newline)"
  define ls where "ls = Split ?body newline"
  have body: "Join ls [newline] = ?body" by (simp add: ls_def)
  have enc: "enc (newDocument parse inp) = Join ls [newline] @ [newline]"
    using assms unfolding body by (simp add: yaml_reads_def Let_def) (metis append_butlast_last_id)
  have ls: "\<forall>l \<in> set ls. TrimRight l carriage = l \<and> \<not> HasPrefix l ''```''" "ls \<noteq> []"
    using assms by (simp_all add: yaml_reads_def Let_def list_all_iff ls_def)
  have "Render parse enc inp = Join (?pre @ [[], ''```arrow''] @ ls @ [''```'', []]) [newline]"
    using ls(2) unfolding Render_def prose_def NeutralizeFences_def enc by (simp add: Join_append Join_Cons)
  moreover have "\<forall>l \<in> set (?pre @ [[], ''```arrow''] @ ls @ [''```'', []]). newline \<notin> set l"
    using Split_parts neutralize_newline by (auto simp: newline_def ls_def)
  ultimately have s: "Split (Render parse enc inp) newline = (?pre @ [[]]) @ ''```arrow'' # ls @ [''```'', []]"
    by (simp add: Split_Join)
  have out: "\<forall>l \<in> set (?pre @ [[]]). TrimRight l carriage \<noteq> ''```arrow''"
    using neutralize_no_fence by (auto simp: TrimRight_def carriage_def)
  have c: "TrimRight ''```arrow'' carriage = ''```arrow''" "HasPrefix (TrimRight ''```'' carriage) ''```''" by code_simp+
  have "fenced_lines ''```arrow'' False [] (Split (Render parse enc inp) newline) = Some ls"
    unfolding s fenced_outside [OF out] using c by (simp add: fenced_inside [OF ls(1)])
  then show ?thesis by (simp add: extractArrowCodeblock_def extractFencedCodeblock_def body)
qed

text \<open>
  The limits the rules set, in bytes.  Nothing in the drafter ensures them: \<open>parsePage\<close> never cuts a
  description and \<open>truncate\<close> cuts a readme to its limit in runes.  They are a hypothesis of what follows.
\<close>

definition manifest_bounds :: "url_parser \<Rightarrow> (document \<Rightarrow> string) \<Rightarrow> Input \<Rightarrow> bool" where
  "manifest_bounds parse enc inp \<longleftrightarrow>
     length (singleLine (inName inp)) \<in> {1..255} \<and> length (singleLine (inDescription inp)) \<le> 1000 \<and>
     (case extractArrowReadme (Render parse enc inp) of None \<Rightarrow> True | Some readme \<Rightarrow> length readme \<le> 256000)"


section \<open>A concrete draft\<close>

definition sample_host :: draft_host where
  "sample_host =
     \<lparr>dhReleaseAssets = (\<lambda>_ _. Inr [sample_asset]), dhPageMeta = (\<lambda>_. Inr (''A tool'', [])), dhReadme = (\<lambda>_ _. Inr ''Tool''),
      dhMedia = (\<lambda>_ _ _. \<lparr>mediaIcon = [], mediaBanner = []\<rparr>), dhPageMetaURL = (\<lambda>_. ''https://h/o/tool'')\<rparr>"

definition sample_drafter :: drafter where
  "sample_drafter =
     \<lparr>drLookup = (\<lambda>_. Some sample_host), drParse = (\<lambda>_. Some (''https'', ''/d/tool.tar.gz'')), drSum256 = (\<lambda>s. s),
      drEncode = (\<lambda>_. ''schema: arrow@v0'' @ [newline])\<rparr>"

definition sample_input :: Input where
  "sample_input =
     \<lparr>inRepo = ''tool'', inName = ''tool'', inDescription = ''A tool'', inURL = ''https://h/o/tool'',
      inMedia = \<lparr>mediaIcon = [], mediaBanner = []\<rparr>, inReadme = ''Tool'',
      inGenerator = \<lparr>gName = ''fletcher/1'', gConfidence = ConfidenceHigh, gWarnings = []\<rparr>,
      inPicks = [(''linux/amd64'', sample_pick)], inUnpinned = False\<rparr>"

lemma sample_gathered:
  "gathered sample_drafter ''h/o/tool'' ''v1.0.0'' = Inr (sample_input\<lparr>inGenerator := \<lparr>gName = [], gConfidence = [], gWarnings = []\<rparr>\<rparr>)"
proof -
  have c: "snd (coordinates ''h/o/tool'') = ''tool''" "isRolling ''v1.0.0'' = False"
    "LocalFile (\<lambda>_. Some (''https'', ''/d/tool.tar.gz'')) sample_pick = Some ''tool.tar.gz''"
    "parsePage ''h/o/tool'' (''A tool'', []) = (''A tool'', [])" by code_simp+
  have "all_picks sample_drafter ''tool'' [sample_asset] = [(''linux/amd64'', sample_pick)]"
    using sample_picks c(3) by (simp add: all_picks_def usablePick_def AllOS_def sample_drafter_def OSLinuxAMD64_def map_filter_simps)
  then show ?thesis
    using c by (simp add: gathered_def pickAll_def sample_drafter_def sample_host_def draft_input_def sample_input_def readme_truncate_def
        MaxReadmeLength_def Let_def)
qed

text \<open>A repository whose name has two dots in a row and whose asset is a bare binary drafts a manifest the rules refuse.\<close>

lemma draft_of_dotted_repo:
  "exposeName ''a..b'' = ''a..b'' \<and>
   ExposeEntriesRule (no_arrow\<lparr>aTargets := [(''linux/amd64'',
     drafted_target ''a..b'' ''tool'' ''linux/amd64'' (sample_pick\<lparr>pkFormat := FormatBinary\<rparr>) False)]\<rparr>) \<noteq> []"
  by code_simp


end
