(* ===== verification/Graph.thy ===== *)
theory Graph
  imports DepTree
begin

text \<open>
  The dependency graph (app/repositories/graph): the plan an arrow installs, the edges of the
  catalogued arrows in their SQL table, and the difference between two manifests.
\<close>

section \<open>Declared edges\<close>

fun dedup_by :: "('a \<Rightarrow> 'b) \<Rightarrow> 'b list \<Rightarrow> 'a list \<Rightarrow> 'a list" where
  "dedup_by key seen [] = []"
| "dedup_by key seen (x # xs) = (if key x \<in> set seen then dedup_by key seen xs else x # dedup_by key (key x # seen) xs)"

definition DedupNamespaces :: "Namespace list \<Rightarrow> Namespace list" where
  "DedupNamespaces ns = dedup_by (\<lambda>n. n) [] ns"

definition CollectEdgesForOS :: "Arrow option \<Rightarrow> OS \<Rightarrow> DependencyEdge list" where
  "CollectEdgesForOS arrow os =
     (case arrow of None \<Rightarrow> []
      | Some a \<Rightarrow> (case map_of (aTargets a) os of None \<Rightarrow> []
                 | Some t \<Rightarrow> dedup_by (\<lambda>e. BareNamespace (deNamespace e)) [] (Tools t @ Services t)))"

definition declaredSelector :: "DependencyEdge \<Rightarrow> string" where
  "declaredSelector edge = (if deConstraint edge \<noteq> [] then deConstraint edge else Ref (deNamespace edge))"

definition dependencyIdentity :: "DependencyEdge \<Rightarrow> Namespace" where
  "dependencyIdentity edge =
     (let bare = BareNamespace (deNamespace edge); selector = declaredSelector edge
      in if selector = [] then bare else WithRef bare selector)"

section \<open>The plan\<close>

record PlanEntry =
  peNamespace :: Namespace
  peType :: DepType

type_synonym manifests = "Namespace \<Rightarrow> go_error + Arrow"

definition typed_children :: "OS \<Rightarrow> Arrow \<Rightarrow> (Namespace \<times> DepType) list" where
  "typed_children os m =
     (case map_of (aTargets m) os of None \<Rightarrow> []
      | Some t \<Rightarrow> map (\<lambda>e. (dependencyIdentity e, ToolDep)) (Tools t) @ map (\<lambda>e. (dependencyIdentity e, ServiceDep)) (Services t))"

definition graph_resolver :: "OS \<Rightarrow> manifests \<Rightarrow> ResolverFunc" where
  "graph_resolver os manifests depNs = map_sum id (\<lambda>m. DedupNamespaces (map fst (typed_children os m))) (manifests depNs)"

text \<open>
  The traversal asks the resolver for a namespace when it first meets it: \<open>called\<close> lists these
  questions in their order, from a worklist.  Each step takes one entry off the worklist, so one unit
  of fuel for the root and for every declared child is enough.
\<close>

fun called :: "nat \<Rightarrow> ResolverFunc \<Rightarrow> Namespace list \<Rightarrow> Namespace list \<Rightarrow> Namespace list" where
  "called 0 resolver work seen = seen"
| "called (Suc fuel) resolver [] seen = seen"
| "called (Suc fuel) resolver (n # work) seen =
     (if n \<in> set seen then called fuel resolver work seen
      else called fuel resolver ((case resolver n of Inl e \<Rightarrow> [] | Inr deps \<Rightarrow> deps) @ work) (seen @ [n]))"

definition typeIndex :: "OS \<Rightarrow> manifests \<Rightarrow> Namespace list \<Rightarrow> Namespace \<Rightarrow> DepType option" where
  "typeIndex os manifests calls =
     map_of (rev (concat (map (\<lambda>n. case manifests n of Inl e \<Rightarrow> [] | Inr m \<Rightarrow> typed_children os m) calls)))"

definition graph_Resolve :: "nat \<Rightarrow> (nat \<Rightarrow> go_error option) \<Rightarrow> OS \<Rightarrow> manifests \<Rightarrow> Namespace
      \<Rightarrow> (dep_error + PlanEntry list) option" where
  "graph_Resolve fuel ctx os manifests ns =
     (let resolver = graph_resolver os manifests
      in case Resolve fuel ctx resolver ns of
           None \<Rightarrow> None
         | Some (Inl e) \<Rightarrow> Some (Inl e)
         | Some (Inr ordered) \<Rightarrow>
             (let pushed = sum_list (map (\<lambda>n. case resolver n of Inl e \<Rightarrow> 0 | Inr deps \<Rightarrow> length deps) ordered);
                  types = typeIndex os manifests (called (pushed + 2) resolver [ns] [])
              in Some (Inr (map (\<lambda>dep. \<lparr>peNamespace = dep, peType = (case types dep of Some t \<Rightarrow> t | None \<Rightarrow> ToolDep)\<rparr>)
                   (filter (\<lambda>dep. dep \<noteq> ns) ordered)))))"

definition Unplan :: "nat \<Rightarrow> (nat \<Rightarrow> go_error option) \<Rightarrow> OS \<Rightarrow> manifests \<Rightarrow> Namespace
      \<Rightarrow> (dep_error + PlanEntry list) option" where
  "Unplan fuel ctx os manifests ns = map_option (map_sum id rev) (graph_Resolve fuel ctx os manifests ns)"

section \<open>The table of edges\<close>

record DepEdgeRow =
  erFromNamespace :: string
  erFromVersion :: string
  erToNamespace :: string
  erToVersion :: string
  erConstraint :: string
  erDepType :: DepType

type_synonym edge_table = "DepEdgeRow list"

definition edge_key :: "DepEdgeRow \<Rightarrow> string \<times> string \<times> string" where
  "edge_key r = (erFromNamespace r, erFromVersion r, erToNamespace r)"

definition DeleteFrom :: "string \<Rightarrow> string \<Rightarrow> edge_table \<Rightarrow> edge_table" where
  "DeleteFrom fromNs fromVersion db = filter (\<lambda>r. \<not> (erFromNamespace r = fromNs \<and> erFromVersion r = fromVersion)) db"

definition DeleteTo :: "string \<Rightarrow> string \<Rightarrow> edge_table \<Rightarrow> edge_table" where
  "DeleteTo toNs toVersion db = filter (\<lambda>r. \<not> (erToNamespace r = toNs \<and> erToVersion r = toVersion)) db"

text \<open>\<open>Save\<close> is one transaction; a row whose primary key is taken rolls it back.\<close>

definition edges_Save :: "string \<Rightarrow> string \<Rightarrow> DepEdgeRow list \<Rightarrow> edge_table \<Rightarrow> edge_table option" where
  "edges_Save fromNs fromVersion rows db =
     (let kept = DeleteFrom fromNs fromVersion db
      in if distinct (map edge_key rows) \<and> edge_key ` set rows \<inter> edge_key ` set kept = {} then Some (kept @ rows) else None)"

definition EdgesToBare :: "string \<Rightarrow> edge_table \<Rightarrow> DepEdgeRow list" where
  "EdgesToBare toNs db = filter (\<lambda>r. erToNamespace r = toNs) db"

definition HasAnyDependents :: "string \<Rightarrow> string \<Rightarrow> edge_table \<Rightarrow> bool" where
  "HasAnyDependents toNs excludeFromNs db \<longleftrightarrow> list_ex (\<lambda>r. erToNamespace r = toNs \<and> erFromNamespace r \<noteq> excludeFromNs) db"

definition SyncDependencies :: "OS \<Rightarrow> Namespace \<Rightarrow> Arrow option \<Rightarrow> edge_table \<Rightarrow> edge_table option" where
  "SyncDependencies os ns arrow db =
     edges_Save (BareNamespace ns) (Ref ns)
       (map (\<lambda>e. \<lparr>erFromNamespace = BareNamespace ns, erFromVersion = Ref ns, erToNamespace = BareNamespace (deNamespace e),
          erToVersion = declaredSelector e, erConstraint = deConstraint e, erDepType = deType e\<rparr>) (CollectEdgesForOS arrow os)) db"

definition RemoveDependencies :: "Namespace \<Rightarrow> edge_table \<Rightarrow> edge_table" where
  "RemoveDependencies ns db = DeleteTo (BareNamespace ns) (Ref ns) (DeleteFrom (BareNamespace ns) (Ref ns) db)"

definition HasDependents :: "Namespace \<Rightarrow> Namespace \<Rightarrow> edge_table \<Rightarrow> bool" where
  "HasDependents ns excludeNs db = HasAnyDependents (BareNamespace ns) (BareNamespace excludeNs) db"

definition GetDependents :: "Namespace \<Rightarrow> edge_table \<Rightarrow> Namespace list" where
  "GetDependents ns db = map (\<lambda>r. WithRef (erFromNamespace r) (erFromVersion r)) (EdgesToBare (BareNamespace ns) db)"

definition Orphans :: "nat \<Rightarrow> (nat \<Rightarrow> go_error option) \<Rightarrow> OS \<Rightarrow> manifests \<Rightarrow> Namespace \<Rightarrow> edge_table
      \<Rightarrow> (dep_error + Namespace list) option" where
  "Orphans fuel ctx os manifests ns db =
     map_option (map_sum id (\<lambda>plan. filter (\<lambda>dep. \<not> HasDependents dep ns db) (map peNamespace plan)))
       (graph_Resolve fuel ctx os manifests ns)"

section \<open>The difference between two manifests\<close>

record ConstrainedDep =
  cdNamespace :: Namespace
  cdOldConstraint :: string
  cdNewConstraint :: string

record DepDiff =
  ddAdded :: "DependencyEdge list"
  ddRemoved :: "DependencyEdge list"
  ddConstrained :: "ConstrainedDep list"

text \<open>The maps are walked in one of the orders Go may choose, that of the declarations.\<close>

definition edge_for :: "DependencyEdge list \<Rightarrow> Namespace \<Rightarrow> DependencyEdge option" where
  "edge_for edges bare = map_of (rev (map (\<lambda>e. (BareNamespace (deNamespace e), e)) edges)) bare"

definition DiffDeps :: "OS \<Rightarrow> Arrow option \<Rightarrow> Arrow option \<Rightarrow> DepDiff" where
  "DiffDeps os old new =
     (let oldEdges = CollectEdgesForOS old os; newEdges = CollectEdgesForOS new os
      in \<lparr>ddAdded = filter (\<lambda>e. edge_for oldEdges (BareNamespace (deNamespace e)) = None) newEdges,
          ddRemoved = filter (\<lambda>e. edge_for newEdges (BareNamespace (deNamespace e)) = None) oldEdges,
          ddConstrained = List.map_filter (\<lambda>e. case edge_for newEdges (BareNamespace (deNamespace e)) of
             None \<Rightarrow> None
           | Some e' \<Rightarrow> if deConstraint e = deConstraint e' then None
                else Some \<lparr>cdNamespace = BareNamespace (deNamespace e), cdOldConstraint = deConstraint e, cdNewConstraint = deConstraint e'\<rparr>)
             oldEdges\<rparr>)"

section \<open>The table holds the declarations\<close>

lemma dedup_by_sub: "set (dedup_by key seen xs) \<subseteq> set xs"
  by (induction xs arbitrary: seen) (auto split: if_splits)

lemma dedup_by_unseen: "x \<in> set (dedup_by key seen xs) \<Longrightarrow> key x \<notin> set seen"
  by (induction xs arbitrary: seen) (force split: if_splits)+

lemma dedup_by_distinct: "distinct (map key (dedup_by key seen xs))"
proof (induction xs arbitrary: seen)
  case (Cons y xs)
  have "key y \<notin> key ` set (dedup_by key (key y # seen) xs)" using dedup_by_unseen [of _ key "key y # seen" xs] by fastforce
  with Cons.IH show ?case by simp
qed simp

lemma CollectEdges_distinct: "distinct (map (\<lambda>e. BareNamespace (deNamespace e)) (CollectEdgesForOS arrow os))"
  unfolding CollectEdgesForOS_def by (cases arrow; cases "map_of (aTargets (the arrow)) os") (simp_all add: dedup_by_distinct)

text \<open>What a table stands for: the declarations of every arrow, by its namespace and selector.\<close>

type_synonym declarations = "string \<times> string \<Rightarrow> (string \<times> string) set"

definition declared_by :: "edge_table \<Rightarrow> declarations" where
  "declared_by db d = {(erToNamespace r, erToVersion r) | r. r \<in> set db \<and> (erFromNamespace r, erFromVersion r) = d}"

definition declares :: "OS \<Rightarrow> Arrow option \<Rightarrow> (string \<times> string) set" where
  "declares os arrow = {(BareNamespace (deNamespace e), declaredSelector e) | e. e \<in> set (CollectEdgesForOS arrow os)}"

datatype graph_op = SyncOp Namespace "Arrow option" | RemoveOp Namespace

fun graph_step :: "OS \<Rightarrow> graph_op \<Rightarrow> edge_table \<Rightarrow> edge_table option" where
  "graph_step os (SyncOp ns arrow) db = SyncDependencies os ns arrow db"
| "graph_step os (RemoveOp ns) db = Some (RemoveDependencies ns db)"

fun graph_run :: "OS \<Rightarrow> graph_op list \<Rightarrow> edge_table \<Rightarrow> edge_table option" where
  "graph_run os [] db = Some db"
| "graph_run os (c # cs) db = (case graph_step os c db of None \<Rightarrow> None | Some db' \<Rightarrow> graph_run os cs db')"

fun spec_step :: "OS \<Rightarrow> graph_op \<Rightarrow> declarations \<Rightarrow> declarations" where
  "spec_step os (SyncOp ns arrow) D = D((BareNamespace ns, Ref ns) := declares os arrow)"
| "spec_step os (RemoveOp ns) D =
     (\<lambda>d. if d = (BareNamespace ns, Ref ns) then {} else D d - {(BareNamespace ns, Ref ns)})"

lemma Sync_table:
  "\<exists>db'. SyncDependencies os ns arrow db = Some db' \<and>
     declared_by db' = (declared_by db)((BareNamespace ns, Ref ns) := declares os arrow)"
proof -
  let ?rows = "map (\<lambda>e. \<lparr>erFromNamespace = BareNamespace ns, erFromVersion = Ref ns, erToNamespace = BareNamespace (deNamespace e),
      erToVersion = declaredSelector e, erConstraint = deConstraint e, erDepType = deType e\<rparr>) (CollectEdgesForOS arrow os)"
  have "distinct (map edge_key ?rows)"
    using CollectEdges_distinct [of arrow os] by (auto simp: edge_key_def distinct_map inj_on_def)
  moreover have "edge_key ` set ?rows \<inter> edge_key ` set (DeleteFrom (BareNamespace ns) (Ref ns) db) = {}"
    by (auto simp: edge_key_def DeleteFrom_def)
  ultimately have "SyncDependencies os ns arrow db = Some (DeleteFrom (BareNamespace ns) (Ref ns) db @ ?rows)"
    by (simp add: SyncDependencies_def edges_Save_def Let_def)
  moreover have "declared_by (DeleteFrom (BareNamespace ns) (Ref ns) db @ ?rows) =
      (declared_by db)((BareNamespace ns, Ref ns) := declares os arrow)"
    by (force simp: declared_by_def declares_def DeleteFrom_def fun_eq_iff)
  ultimately show ?thesis by blast
qed

lemma Remove_table: "declared_by (RemoveDependencies ns db) = spec_step os (RemoveOp ns) (declared_by db)"
  by (auto simp: RemoveDependencies_def DeleteFrom_def DeleteTo_def declared_by_def fun_eq_iff)

lemma HasDependents_declared:
  "HasDependents ns excl db \<longleftrightarrow> (\<exists>b v w. b \<noteq> BareNamespace excl \<and> (BareNamespace ns, w) \<in> declared_by db (b, v))"
proof -
  have "HasDependents ns excl db \<longleftrightarrow> (\<exists>r \<in> set db. erToNamespace r = BareNamespace ns \<and> erFromNamespace r \<noteq> BareNamespace excl)"
    by (simp add: HasDependents_def HasAnyDependents_def list_ex_iff)
  also have "\<dots> \<longleftrightarrow> (\<exists>b v w. b \<noteq> BareNamespace excl \<and> (BareNamespace ns, w) \<in> declared_by db (b, v))"
    by (simp add: declared_by_def) metis
  finally show ?thesis .
qed

lemma GetDependents_declared:
  "set (GetDependents ns db) = {WithRef b v | b v. \<exists>w. (BareNamespace ns, w) \<in> declared_by db (b, v)}"
  by (force simp: GetDependents_def EdgesToBare_def declared_by_def)

text \<open>
  C17. The table of edges holds what the catalogued arrows declare: no sequence of additions, manifest
  changes and removals fails on the table's key, each arrow's edges are those its last manifest declares
  for the platform, less the ones to an arrow removed since, and the dependents of an arrow are read from
  them.
\<close>

theorem graph_refines_declarations:
  "\<exists>db'. graph_run os cs db = Some db' \<and> declared_by db' = fold (spec_step os) cs (declared_by db) \<and>
    (\<forall>ns excl. HasDependents ns excl db' \<longleftrightarrow>
       (\<exists>b v w. b \<noteq> BareNamespace excl \<and> (BareNamespace ns, w) \<in> fold (spec_step os) cs (declared_by db) (b, v))) \<and>
    (\<forall>ns. set (GetDependents ns db') =
       {WithRef b v | b v. \<exists>w. (BareNamespace ns, w) \<in> fold (spec_step os) cs (declared_by db) (b, v)})"
proof -
  have "\<exists>db'. graph_run os cs db = Some db' \<and> declared_by db' = fold (spec_step os) cs (declared_by db)"
  proof (induction cs arbitrary: db)
    case (Cons c cs)
    show ?case
    proof (cases c)
      case (SyncOp ns arrow)
      with Sync_table [of os ns arrow db] Cons.IH show ?thesis by (metis fold_simps(2) graph_run.simps(2) graph_step.simps(1) option.simps(5) spec_step.simps(1))
    next
      case (RemoveOp ns)
      with Remove_table [of ns db os] Cons.IH [of "RemoveDependencies ns db"] show ?thesis by simp
    qed
  qed simp
  then obtain db' where db': "graph_run os cs db = Some db'" "declared_by db' = fold (spec_step os) cs (declared_by db)" by blast
  show ?thesis
    using db' HasDependents_declared [of _ _ db'] GetDependents_declared [of _ db'] by (intro exI [of _ db']) simp
qed

text \<open>Forgetting one ref of a namespace leaves who depends on another ref of it as it was.\<close>

lemma remove_keeps_other_refs:
  assumes "w \<noteq> Ref ns" "d \<noteq> (BareNamespace ns, Ref ns)"
  shows "(BareNamespace ns, w) \<in> declared_by (RemoveDependencies ns db) d \<longleftrightarrow> (BareNamespace ns, w) \<in> declared_by db d"
  using assms by (auto simp: Remove_table [where os = "[]"])

text \<open>
  A manifest that names another selector of a dependency it already had neither adds nor removes one.
\<close>

lemma edge_for_None: "edge_for es b = None \<longleftrightarrow> b \<notin> (\<lambda>e. BareNamespace (deNamespace e)) ` set es"
  by (auto simp: edge_for_def map_of_eq_None_iff image_iff)

lemma selector_change_not_added:
  assumes "(\<lambda>e. BareNamespace (deNamespace e)) ` set (CollectEdgesForOS old os) =
    (\<lambda>e. BareNamespace (deNamespace e)) ` set (CollectEdgesForOS new os)"
  shows "ddAdded (DiffDeps os old new) = [] \<and> ddRemoved (DiffDeps os old new) = []"
  using assms by (auto simp: DiffDeps_def edge_for_None filter_empty_conv Let_def)

end
