(* ===== verification/Orchestrator.thy ===== *)
theory Orchestrator
  imports Graph Catalog
begin

text \<open>
  The lifecycle orchestrator (app/repositories/lifecycle): installs with their dependencies,
  uninstalls, stops, the update bracket and the settling of an update.  It talks to the catalog, the
  runtime repository, the graph and the brackets through interfaces; a record of operations on a world
  of its own type stands for them, so that any other goroutine may change the world between two
  calls.  An operation gives its result, the calls it made with their answers in order, and the world.
\<close>

section \<open>Operations and the calls they make\<close>

datatype lc_error =
    LcNotFound | LcFetchFailed | LcStateViolation | LcDependentsExist | LcInvalidManifest | LcCyclic
  | LcInstallFailed | LcContext | LcOther go_error

datatype (plugins only: code) lc_event =
    EvState Namespace "go_error + ArrowState"
  | EvRuntime Namespace "go_error + ArrowRuntime option"
  | EvBeginInstall Namespace "lc_error + unit"
  | EvBeginExecution Namespace string "lc_error + unit"
  | EvBeginUpdate Namespace string "lc_error + unit"
  | EvBeginStop Namespace "lc_error + unit"
  | EvBeginUninstall Namespace "lc_error + unit"
  | EvMarkOutdated Namespace "Namespace list" "Namespace list" "lc_error + unit"
  | EvForget Namespace "lc_error + unit"
  | EvListen Namespace "lc_error + unit"
  | EvEnded Namespace "lc_error + ArrowRuntime"
  | EvCatalogued Namespace "lc_error + Namespace"
  | EvExists Namespace "go_error + bool"
  | EvRow Namespace "go_error + Arrow option"
  | EvAdded Namespace "lc_error + Namespace"
  | EvCheck Namespace "lc_error + Available option"
  | EvAdvance Namespace Available "lc_error + unit"
  | EvRefresh Namespace Available "lc_error + Arrow"
  | EvUnmoved Namespace Available "go_error + bool"
  | EvPlan Namespace "lc_error + PlanEntry list"
  | EvHasDependents Namespace "lc_error + bool"
  | EvDependents Namespace "lc_error + Namespace list"
  | EvOpen Namespace "go_error + unit"
  | EvClose Namespace
  | EvSettling Namespace bool
  | EvPut Namespace Available
  | EvUndo Namespace Available
  | EvTake Namespace "Available option"
  | EvPending Namespace bool
  | EvGaveUp bool
  | EvAborted bool
  | EvCommitBegin Namespace bool
  | EvReleased Namespace

type_synonym ('s, 'r) op = "'s \<Rightarrow> 'r \<times> lc_event list \<times> 's"
type_synonym ('s, 'r) query = "Namespace \<Rightarrow> 's \<Rightarrow> 'r \<times> 's"

record 's arrow_catalog =
  arCatalogued :: "('s, lc_error + Namespace) query"
  arExists :: "('s, go_error + bool) query"
  arRow :: "('s, go_error + Arrow option) query"
  arAdd :: "('s, lc_error + Namespace) query"
  arCheck :: "('s, lc_error + Available option) query"
  arAdvance :: "Available \<Rightarrow> ('s, lc_error + unit) query"
  arRefresh :: "Available \<Rightarrow> ('s, lc_error + Arrow) query"
  arUnmoved :: "Available \<Rightarrow> ('s, go_error + bool) query"

record 's runtime_repository =
  rrState :: "('s, go_error + ArrowState) query"
  rrRuntime :: "('s, go_error + ArrowRuntime option) query"
  rrBeginInstall :: "vars \<Rightarrow> ('s, lc_error + unit) query"
  rrBeginExecution :: "string \<Rightarrow> vars \<Rightarrow> ('s, lc_error + unit) query"
  rrBeginUpdate :: "vars \<Rightarrow> string \<Rightarrow> ('s, lc_error + unit) query"
  rrBeginStop :: "('s, lc_error + unit) query"
  rrBeginUninstall :: "vars \<Rightarrow> ('s, lc_error + unit) query"
  rrMarkOutdated :: "Namespace list \<Rightarrow> Namespace list \<Rightarrow> ('s, lc_error + unit) query"
  rrForget :: "('s, lc_error + unit) query"
  rrListen :: "('s, lc_error + unit) query"
  rrEnded :: "('s, lc_error + ArrowRuntime) query"

record 's dependency_graph =
  grPlan :: "('s, lc_error + PlanEntry list) query"
  grHasDependents :: "('s, lc_error + bool) query"
  grDependents :: "('s, lc_error + Namespace list) query"

record 's row_brackets =
  brOpen :: "('s, go_error + unit) query"
  brClose :: "('s, unit) query"
  brSettling :: "('s, bool) query"
  brPut :: "Available \<Rightarrow> ('s, unit) query"
  brUndo :: "Available \<Rightarrow> ('s, unit) query"
  brTake :: "('s, Available option) query"
  brPending :: "('s, bool) query"
  brGaveUp :: "'s \<Rightarrow> bool \<times> 's"
  brAborted :: "'s \<Rightarrow> bool \<times> 's"
  brCommitBegin :: "('s, bool) query"
  brRelease :: "('s, unit) query"

record 's app =
  apOS :: OS
  apArrow :: "'s arrow_catalog"
  apRuntimes :: "'s runtime_repository"
  apGraph :: "'s dependency_graph"
  apBrackets :: "'s row_brackets"

abbreviation apCatalogued where "apCatalogued ap \<equiv> arCatalogued (apArrow ap)"
abbreviation apExists where "apExists ap \<equiv> arExists (apArrow ap)"
abbreviation apRow where "apRow ap \<equiv> arRow (apArrow ap)"
abbreviation apAdd where "apAdd ap \<equiv> arAdd (apArrow ap)"
abbreviation apCheck where "apCheck ap \<equiv> arCheck (apArrow ap)"
abbreviation apAdvance where "apAdvance ap \<equiv> arAdvance (apArrow ap)"
abbreviation apRefresh where "apRefresh ap \<equiv> arRefresh (apArrow ap)"
abbreviation apUnmoved where "apUnmoved ap \<equiv> arUnmoved (apArrow ap)"
abbreviation apState where "apState ap \<equiv> rrState (apRuntimes ap)"
abbreviation apRuntime where "apRuntime ap \<equiv> rrRuntime (apRuntimes ap)"
abbreviation apBeginInstall where "apBeginInstall ap \<equiv> rrBeginInstall (apRuntimes ap)"
abbreviation apBeginExecution where "apBeginExecution ap \<equiv> rrBeginExecution (apRuntimes ap)"
abbreviation apBeginUpdate where "apBeginUpdate ap \<equiv> rrBeginUpdate (apRuntimes ap)"
abbreviation apBeginStop where "apBeginStop ap \<equiv> rrBeginStop (apRuntimes ap)"
abbreviation apBeginUninstall where "apBeginUninstall ap \<equiv> rrBeginUninstall (apRuntimes ap)"
abbreviation apMarkOutdated where "apMarkOutdated ap \<equiv> rrMarkOutdated (apRuntimes ap)"
abbreviation apForget where "apForget ap \<equiv> rrForget (apRuntimes ap)"
abbreviation apListen where "apListen ap \<equiv> rrListen (apRuntimes ap)"
abbreviation apEnded where "apEnded ap \<equiv> rrEnded (apRuntimes ap)"
abbreviation apPlan where "apPlan ap \<equiv> grPlan (apGraph ap)"
abbreviation apHasDependents where "apHasDependents ap \<equiv> grHasDependents (apGraph ap)"
abbreviation apDependents where "apDependents ap \<equiv> grDependents (apGraph ap)"
abbreviation apOpen where "apOpen ap \<equiv> brOpen (apBrackets ap)"
abbreviation apClose where "apClose ap \<equiv> brClose (apBrackets ap)"
abbreviation apSettling where "apSettling ap \<equiv> brSettling (apBrackets ap)"
abbreviation apPut where "apPut ap \<equiv> brPut (apBrackets ap)"
abbreviation apUndo where "apUndo ap \<equiv> brUndo (apBrackets ap)"
abbreviation apTake where "apTake ap \<equiv> brTake (apBrackets ap)"
abbreviation apPending where "apPending ap \<equiv> brPending (apBrackets ap)"
abbreviation apGaveUp where "apGaveUp ap \<equiv> brGaveUp (apBrackets ap)"
abbreviation apAborted where "apAborted ap \<equiv> brAborted (apBrackets ap)"
abbreviation apCommitBegin where "apCommitBegin ap \<equiv> brCommitBegin (apBrackets ap)"
abbreviation apRelease where "apRelease ap \<equiv> brRelease (apBrackets ap)"

definition ret :: "'r \<Rightarrow> ('s, 'r) op" where
  "ret r w = (r, [], w)"

definition call :: "('s \<Rightarrow> 'r \<times> 's) \<Rightarrow> ('r \<Rightarrow> lc_event) \<Rightarrow> ('s, 'r) op" where
  "call f ev w = (case f w of (r, w') \<Rightarrow> (r, [ev r], w'))"

definition after :: "('s, 'a) op \<Rightarrow> ('a \<Rightarrow> ('s, 'b) op) \<Rightarrow> ('s, 'b) op" where
  "after m k w = (case m w of (a, es, w1) \<Rightarrow> case k a w1 of (b, es', w2) \<Rightarrow> (b, es @ es', w2))"

definition andThen :: "('s, 'e + 'a) op \<Rightarrow> ('a \<Rightarrow> ('s, 'e + 'b) op) \<Rightarrow> ('s, 'e + 'b) op" where
  "andThen m k = after m (\<lambda>r. case r of Inl e \<Rightarrow> ret (Inl e) | Inr a \<Rightarrow> k a)"

definition wrapping :: "('e \<Rightarrow> 'f) \<Rightarrow> ('s, 'e + 'a) op \<Rightarrow> ('s, 'f + 'a) op" where
  "wrapping g m = after m (\<lambda>r. ret (map_sum g id r))"

definition read_state :: "'s app \<Rightarrow> Namespace \<Rightarrow> ('s, lc_error + ArrowState) op" where
  "read_state ap ns = wrapping LcOther (call (apState ap ns) (EvState ns))"

definition read_row :: "'s app \<Rightarrow> Namespace \<Rightarrow> ('s, lc_error + Arrow option) op" where
  "read_row ap ns = wrapping LcOther (call (apRow ap ns) (EvRow ns))"

definition open_bracket :: "'s app \<Rightarrow> Namespace \<Rightarrow> ('s, lc_error + unit) op" where
  "open_bracket ap ns = wrapping LcOther (call (apOpen ap ns) (EvOpen ns))"

definition closing :: "'s app \<Rightarrow> Namespace \<Rightarrow> ('s, 'r) op \<Rightarrow> ('s, 'r) op" where
  "closing ap ns m = after m (\<lambda>r. after (call (apClose ap ns) (\<lambda>_. EvClose ns)) (\<lambda>_. ret r))"

section \<open>Installing with dependencies\<close>

definition no_state :: ArrowState where
  "no_state = ArrowStateOther []"

definition needsInstall :: "ArrowState \<Rightarrow> bool" where
  "needsInstall st \<longleftrightarrow> st \<in> {no_state, ArrowStateAbsent, ArrowStateInstalling, ArrowStateRemoved}"

text \<open>Whether it tried, and the error.\<close>

definition beginInstallHeld :: "'s app \<Rightarrow> Namespace \<Rightarrow> vars \<Rightarrow> ('s, bool \<times> lc_error option) op" where
  "beginInstallHeld ap ns vars =
     after (read_state ap ns) (\<lambda>r. case r of
        Inl e \<Rightarrow> ret (False, Some e)
      | Inr st \<Rightarrow>
          if \<not> needsInstall st then ret (False, None)
          else after (call (apBeginInstall ap vars ns) (EvBeginInstall ns)) (\<lambda>r. ret (True, case r of Inl e \<Rightarrow> Some e | Inr _ \<Rightarrow> None)))"

definition beginInstall :: "'s app \<Rightarrow> Namespace \<Rightarrow> vars \<Rightarrow> ('s, bool \<times> lc_error option) op" where
  "beginInstall ap ns vars =
     after (read_state ap ns) (\<lambda>r. case r of
        Inl e \<Rightarrow> ret (False, Some e)
      | Inr st \<Rightarrow>
          if \<not> needsInstall st then ret (False, None)
          else after (open_bracket ap ns) (\<lambda>r. case r of
                 Inl e \<Rightarrow> ret (False, Some e)
               | Inr _ \<Rightarrow> closing ap ns (beginInstallHeld ap ns vars)))"

definition run_failed :: "ArrowRuntime \<Rightarrow> bool" where
  "run_failed rt \<longleftrightarrow> (case rtLastReturn rt of None \<Rightarrow> False | Some r \<Rightarrow> retOutcome r \<noteq> ExecutionOutcomeSuccess)"

definition installOneDep :: "'s app \<Rightarrow> Namespace \<Rightarrow> ('s, lc_error + unit) op" where
  "installOneDep ap depNs =
     andThen (call (apListen ap depNs) (EvListen depNs)) (\<lambda>_.
     after (beginInstall ap depNs []) (\<lambda>(tried, err).
       if err \<noteq> None \<and> err \<noteq> Some LcStateViolation then ret (Inl (the err))
       else if \<not> tried then ret (Inr ())
       else andThen (call (apEnded ap depNs) (EvEnded depNs)) (\<lambda>rt.
              ret (if run_failed rt then Inl LcInstallFailed else Inr ()))))"

definition startServiceDep :: "'s app \<Rightarrow> Namespace \<Rightarrow> ('s, lc_error + unit) op" where
  "startServiceDep ap depNs =
     andThen (read_state ap depNs) (\<lambda>st.
       if st = ArrowStateRunning then ret (Inr ())
       else after (call (apBeginExecution ap MethodExecute [] depNs) (EvBeginExecution depNs MethodExecute)) (\<lambda>r.
              ret (if r = Inl LcStateViolation then Inr () else r)))"

definition isCatalogued :: "'s app \<Rightarrow> Namespace \<Rightarrow> ('s, lc_error + bool) op" where
  "isCatalogued ap declared =
     (if Ref declared = [] then ret (Inr False) else wrapping LcOther (call (apExists ap declared) (EvExists declared)))"

definition ensureDependency :: "'s app \<Rightarrow> Namespace \<Rightarrow> ('s, lc_error + Namespace) op" where
  "ensureDependency ap declared =
     andThen (isCatalogued ap declared) (\<lambda>catalogued.
       if catalogued then ret (Inr declared) else call (apAdd ap declared) (EvAdded declared))"

fun ensure_all :: "'s app \<Rightarrow> Namespace list \<Rightarrow> ('s, lc_error + (Namespace \<times> Namespace) list) op" where
  "ensure_all ap [] = ret (Inr [])"
| "ensure_all ap (n # ns) =
     andThen (ensureDependency ap n) (\<lambda>identity.
     andThen (ensure_all ap ns) (\<lambda>identities. ret (Inr ((n, identity) # identities))))"

definition identity_of :: "(Namespace \<times> Namespace) list \<Rightarrow> Namespace \<Rightarrow> Namespace" where
  "identity_of identities n = (case map_of (rev identities) n of Some i \<Rightarrow> i | None \<Rightarrow> [])"

fun each_ok :: "('a \<Rightarrow> ('s, 'e + unit) op) \<Rightarrow> 'a list \<Rightarrow> ('s, 'e + unit) op" where
  "each_ok f [] = ret (Inr ())"
| "each_ok f (x # xs) = andThen (f x) (\<lambda>_. each_ok f xs)"

definition install_entry :: "'s app \<Rightarrow> Namespace \<Rightarrow> DepType \<Rightarrow> ('s, lc_error + unit) op" where
  "install_entry ap depNs t =
     andThen (installOneDep ap depNs) (\<lambda>_. if t \<noteq> ServiceDep then ret (Inr ()) else startServiceDep ap depNs)"

definition installPlan :: "'s app \<Rightarrow> PlanEntry list \<Rightarrow> ('s, lc_error + unit) op" where
  "installPlan ap plan = andThen (ensure_all ap (map peNamespace plan)) (\<lambda>identities.
     each_ok (\<lambda>entry. install_entry ap (identity_of identities (peNamespace entry)) (peType entry)) plan)"

definition installDeps :: "'s app \<Rightarrow> Namespace \<Rightarrow> ('s, lc_error + unit) op" where
  "installDeps ap ns = andThen (call (apPlan ap ns) (EvPlan ns)) (installPlan ap)"

definition advanceToAvailable :: "'s app \<Rightarrow> Namespace \<Rightarrow> ('s, lc_error + unit) op" where
  "advanceToAvailable ap ns =
     andThen (read_state ap ns) (\<lambda>st.
       if st \<notin> {no_state, ArrowStateAbsent, ArrowStateRemoved} then ret (Inr ())
       else andThen (read_row ap ns) (\<lambda>row.
         case Option.bind row aAvailable of
           None \<Rightarrow> ret (Inr ())
         | Some recorded \<Rightarrow>
             after (call (apCheck ap ns) (EvCheck ns)) (\<lambda>checked.
               case (case checked of Inl e \<Rightarrow> Some recorded | Inr target \<Rightarrow> target) of
                 None \<Rightarrow> ret (Inr ())
               | Some target \<Rightarrow>
                   after (call (apAdvance ap target ns) (EvAdvance ns target)) (\<lambda>r.
                     ret (if r \<in> {Inl LcNotFound, Inl LcFetchFailed} then Inr () else r)))))"

definition Install :: "'s app \<Rightarrow> Namespace \<Rightarrow> vars \<Rightarrow> ('s, lc_error + bool) op" where
  "Install ap declared vars =
     andThen (call (apCatalogued ap declared) (EvCatalogued declared)) (\<lambda>ns.
     andThen (wrapping LcOther (call (apExists ap ns) (EvExists ns))) (\<lambda>exists.
       if \<not> exists then ret (Inl LcNotFound)
       else andThen (read_state ap ns) (\<lambda>st.
         if \<not> needsInstall st then andThen (installDeps ap ns) (\<lambda>_. ret (Inr False))
         else andThen (open_bracket ap ns) (\<lambda>_.
           closing ap ns
             (andThen (advanceToAvailable ap ns) (\<lambda>_.
              andThen (installDeps ap ns) (\<lambda>_.
              after (beginInstallHeld ap ns vars) (\<lambda>(began, err).
                ret (case err of Some e \<Rightarrow> Inl e | None \<Rightarrow> Inr began)))))))))"

section \<open>Uninstalling and stopping\<close>

definition lc_Uninstall :: "'s app \<Rightarrow> Namespace \<Rightarrow> vars \<Rightarrow> ('s, lc_error + unit) op" where
  "lc_Uninstall ap declared vars =
     andThen (call (apCatalogued ap declared) (EvCatalogued declared)) (\<lambda>ns.
     andThen (call (apHasDependents ap ns) (EvHasDependents ns)) (\<lambda>hasDeps.
       if hasDeps then ret (Inl LcDependentsExist) else call (apBeginUninstall ap vars ns) (EvBeginUninstall ns)))"

definition lc_Stop :: "'s app \<Rightarrow> Namespace \<Rightarrow> ('s, lc_error + unit) op" where
  "lc_Stop ap declared =
     andThen (call (apCatalogued ap declared) (EvCatalogued declared)) (\<lambda>ns. call (apBeginStop ap ns) (EvBeginStop ns))"

definition StopIfRunning :: "'s app \<Rightarrow> Namespace \<Rightarrow> ('s, lc_error + unit) op" where
  "StopIfRunning ap ns =
     andThen (read_state ap ns) (\<lambda>st.
       if st \<noteq> ArrowStateRunning then ret (Inr ())
       else andThen (call (apListen ap ns) (EvListen ns)) (\<lambda>_.
            andThen (call (apBeginStop ap ns) (EvBeginStop ns)) (\<lambda>_.
            andThen (call (apEnded ap ns) (EvEnded ns)) (\<lambda>rt. ret (Inr ())))))"

section \<open>Syncing the dependencies of a target\<close>

definition retireRemovedDep :: "'s app \<Rightarrow> Namespace \<Rightarrow> ('s, unit) op" where
  "retireRemovedDep ap declared =
     after (call (apCatalogued ap declared) (EvCatalogued declared)) (\<lambda>r. case r of Inl e \<Rightarrow> ret () | Inr depNs \<Rightarrow>
     after (call (apRow ap depNs) (EvRow depNs)) (\<lambda>r. case r of Inl e \<Rightarrow> ret () | Inr None \<Rightarrow> ret () | Inr (Some arrow) \<Rightarrow>
       if aUserInstalled arrow then ret ()
       else
     after (call (apHasDependents ap depNs) (EvHasDependents depNs)) (\<lambda>r. case r of Inl e \<Rightarrow> ret () | Inr hasDeps \<Rightarrow>
       if hasDeps then ret ()
       else
     after (call (apState ap depNs) (EvState depNs)) (\<lambda>r. case r of Inl e \<Rightarrow> ret () | Inr st \<Rightarrow>
       if st \<in> {ArrowStateReady, ArrowStateOutdated}
       then after (call (apBeginUninstall ap [] depNs) (EvBeginUninstall depNs)) (\<lambda>_. ret ())
       else if st \<in> {ArrowStateRunning, ArrowStateStopping}
       then after (call (apBeginStop ap depNs) (EvBeginStop depNs)) (\<lambda>_. ret ())
       else ret ()))))"

fun each :: "('a \<Rightarrow> ('s, unit) op) \<Rightarrow> 'a list \<Rightarrow> ('s, unit) op" where
  "each f [] = ret ()"
| "each f (x # xs) = after (f x) (\<lambda>_. each f xs)"

fun ensureAddedDeps :: "'s app \<Rightarrow> Namespace \<Rightarrow> Namespace list \<Rightarrow> ('s, lc_error + (Namespace \<times> Namespace) list) op" where
  "ensureAddedDeps ap ns [] = ret (Inr [])"
| "ensureAddedDeps ap ns (n # added) =
     andThen (ensureDependency ap n) (\<lambda>identity.
       if identity = ns then ret (Inl LcInvalidManifest)
       else andThen (ensureAddedDeps ap ns added) (\<lambda>identities. ret (Inr ((n, identity) # identities))))"

definition syncDeps :: "'s app \<Rightarrow> Namespace \<Rightarrow> ('s, lc_error + unit) op" where
  "syncDeps ap ns =
     andThen (wrapping LcOther (call (apRuntime ap ns) (EvRuntime ns))) (\<lambda>found. case found of
        None \<Rightarrow> ret (Inl LcStateViolation)
      | Some rt \<Rightarrow>
          if rtState rt \<noteq> ArrowStateOutdated then ret (Inl LcStateViolation)
          else case rtPendingDepSync rt of
            None \<Rightarrow> ret (Inr ())
          | Some info \<Rightarrow>
              andThen (ensureAddedDeps ap ns (AddedDeps info)) (\<lambda>identities.
              after (call (apPlan ap ns) (EvPlan ns)) (\<lambda>plan.
                if plan = Inl LcCyclic then ret (Inl LcInvalidManifest)
                else andThen (each_ok (\<lambda>n. installOneDep ap (identity_of identities n)) (AddedDeps info)) (\<lambda>_.
                     andThen (case plan of
                         Inl e \<Rightarrow> ret (Inr ())
                       | Inr entries \<Rightarrow>
                           each_ok (\<lambda>n. if map_of (rev (map (\<lambda>e. (peNamespace e, peType e)) entries)) n = Some ServiceDep
                             then startServiceDep ap (identity_of identities n) else ret (Inr ())) (AddedDeps info)) (\<lambda>_.
                     after (each (retireRemovedDep ap) (RemovedDeps info)) (\<lambda>_. ret (Inr ())))))))"

definition SyncTargetDeps :: "'s app \<Rightarrow> Namespace \<Rightarrow> Arrow option \<Rightarrow> Arrow \<Rightarrow> ('s, lc_error + unit) op" where
  "SyncTargetDeps ap ns current target =
     (let diff = DiffDeps (apOS ap) current (Some target);
          added = map deNamespace (ddAdded diff); removed = map deNamespace (ddRemoved diff)
      in andThen (if added \<noteq> [] \<or> removed \<noteq> []
                  then call (apMarkOutdated ap added removed ns) (EvMarkOutdated ns added removed) else ret (Inr ())) (\<lambda>_.
         andThen (read_state ap ns) (\<lambda>st.
           if st \<noteq> ArrowStateOutdated then ret (Inr ()) else syncDeps ap ns)))"

section \<open>Reactions to the end of a run\<close>

definition stateless :: "ArrowState \<Rightarrow> bool" where
  "stateless st \<longleftrightarrow> st \<in> {ArrowStateAbsent, ArrowStateRemoved, no_state}"

text \<open>An error counts as no state.\<close>

fun countRunning :: "'s app \<Rightarrow> Namespace list \<Rightarrow> ('s, nat) op" where
  "countRunning ap [] = ret 0"
| "countRunning ap (n # ns) =
     after (call (apState ap n) (EvState n)) (\<lambda>r.
     after (countRunning ap ns) (\<lambda>k.
       ret (if stateless (case r of Inl e \<Rightarrow> no_state | Inr st \<Rightarrow> st) then k else Suc k)))"

definition maybeAutoUninstallStopped :: "'s app \<Rightarrow> Namespace \<Rightarrow> ('s, unit) op" where
  "maybeAutoUninstallStopped ap ns =
     after (call (apRow ap ns) (EvRow ns)) (\<lambda>r. case r of Inl e \<Rightarrow> ret () | Inr None \<Rightarrow> ret () | Inr (Some arrow) \<Rightarrow>
       if aUserInstalled arrow then ret ()
       else
     after (call (apDependents ap ns) (EvDependents ns)) (\<lambda>r. case r of Inl e \<Rightarrow> ret () | Inr parents \<Rightarrow>
     after (countRunning ap parents) (\<lambda>k.
       if k > 0 then ret ()
       else after (call (apBeginUninstall ap [] ns) (EvBeginUninstall ns)) (\<lambda>_. ret ()))))"

definition stop_service :: "'s app \<Rightarrow> Namespace \<Rightarrow> PlanEntry \<Rightarrow> ('s, unit) op" where
  "stop_service ap ended entry =
     (if peType entry \<noteq> ServiceDep then ret ()
      else let depNs = peNamespace entry in
     after (call (apState ap depNs) (EvState depNs)) (\<lambda>r. case r of Inl e \<Rightarrow> ret () | Inr st \<Rightarrow>
       if st \<noteq> ArrowStateRunning \<and> st \<noteq> ArrowStateStopping then ret ()
       else
     after (call (apDependents ap depNs) (EvDependents depNs)) (\<lambda>r. case r of Inl e \<Rightarrow> ret () | Inr parents \<Rightarrow>
     after (countRunning ap (filter (\<lambda>p. p \<noteq> ended) parents)) (\<lambda>k.
       if k = 0 then after (call (apBeginStop ap depNs) (EvBeginStop depNs)) (\<lambda>_. ret ()) else ret ()))))"

definition onStopEnded :: "'s app \<Rightarrow> ArrowRuntime \<Rightarrow> ('s, unit) op" where
  "onStopEnded ap rt =
     after (call (apPlan ap (rtRef rt)) (EvPlan (rtRef rt))) (\<lambda>r. case r of Inl e \<Rightarrow> ret () | Inr plan \<Rightarrow>
     after (each (stop_service ap (rtRef rt)) plan) (\<lambda>_. maybeAutoUninstallStopped ap (rtRef rt)))"

definition retire_dependency :: "'s app \<Rightarrow> Namespace \<Rightarrow> PlanEntry \<Rightarrow> ('s, unit) op" where
  "retire_dependency ap ended entry =
     after (call (apCatalogued ap (peNamespace entry)) (EvCatalogued (peNamespace entry))) (\<lambda>r. case r of Inl e \<Rightarrow> ret () | Inr depNs \<Rightarrow>
     after (call (apState ap depNs) (EvState depNs)) (\<lambda>r. case r of Inl e \<Rightarrow> ret () | Inr st \<Rightarrow>
       if stateless st then ret ()
       else
     after (call (apDependents ap depNs) (EvDependents depNs)) (\<lambda>r. case r of Inl e \<Rightarrow> ret () | Inr parents \<Rightarrow>
     after (countRunning ap (filter (\<lambda>p. p \<noteq> ended) parents)) (\<lambda>k.
       if k > 0 then ret ()
       else
     after (call (apRow ap depNs) (EvRow depNs)) (\<lambda>r. case r of Inl e \<Rightarrow> ret () | Inr None \<Rightarrow> ret () | Inr (Some arrow) \<Rightarrow>
       if aUserInstalled arrow then ret ()
       else if st \<in> {ArrowStateRunning, ArrowStateStopping}
       then after (call (apBeginStop ap depNs) (EvBeginStop depNs)) (\<lambda>_. ret ())
       else if st \<in> {ArrowStateReady, ArrowStateOutdated}
       then after (call (apBeginUninstall ap [] depNs) (EvBeginUninstall depNs)) (\<lambda>_. ret ())
       else ret ())))))"

definition onUninstallEnded :: "'s app \<Rightarrow> ArrowRuntime \<Rightarrow> ('s, unit) op" where
  "onUninstallEnded ap rt =
     after (call (apPlan ap (rtRef rt)) (EvPlan (rtRef rt))) (\<lambda>r. case r of Inl e \<Rightarrow> ret () | Inr plan \<Rightarrow>
       each (retire_dependency ap (rtRef rt)) plan)"

section \<open>The update bracket\<close>

text \<open>\<open>RestoreAbandoned\<close> and \<open>OnUpdateEnded\<close> release a row through \<open>releaseSettled\<close>, of theory Settle.\<close>

definition restoreInstalled :: "'s app \<Rightarrow> Namespace \<Rightarrow> ('s, unit) op" where
  "restoreInstalled ap ns =
     after (call (apRow ap ns) (EvRow ns)) (\<lambda>r. case r of Inl e \<Rightarrow> ret () | Inr None \<Rightarrow> ret () | Inr (Some row) \<Rightarrow>
       if rCommit (aResolved row) = [] then ret ()
       else (let installed = \<lparr>avRef = rRef (aResolved row), avCommit = rCommit (aResolved row)\<rparr>
             in after (call (apRefresh ap installed ns) (EvRefresh ns installed)) (\<lambda>_. ret ())))"

definition RestoreAbandoned :: "'s app \<Rightarrow> Namespace \<Rightarrow> ('s, unit) op" where
  "RestoreAbandoned ap ns =
     after (call (apCommitBegin ap ns) (EvCommitBegin ns)) (\<lambda>admitted.
       if \<not> admitted then ret ()
       else after (restoreInstalled ap ns) (\<lambda>_. call (apRelease ap ns) (\<lambda>_. EvReleased ns)))"

definition updateBegan :: "'s app \<Rightarrow> Namespace \<Rightarrow> ('s, bool) op" where
  "updateBegan ap ns =
     after (call (apPending ap ns) (EvPending ns)) (\<lambda>pending.
       if \<not> pending then ret True
       else after (call (apState ap ns) (EvState ns)) (\<lambda>st. ret (st = Inr ArrowStateUpdating)))"

definition stageAndBegin :: "'s app \<Rightarrow> Namespace \<Rightarrow> Arrow option \<Rightarrow> Available \<Rightarrow> vars \<Rightarrow> ('s, lc_error + unit) op" where
  "stageAndBegin ap ns current available vars =
     after (call (apRefresh ap available ns) (EvRefresh ns available)) (\<lambda>staged. case staged of
        Inl e \<Rightarrow> after (call (apCheck ap ns) (EvCheck ns)) (\<lambda>_. ret (Inl e))
      | Inr target \<Rightarrow>
          after (SyncTargetDeps ap ns current target) (\<lambda>synced. case synced of
             Inl e \<Rightarrow> after (RestoreAbandoned ap ns) (\<lambda>_. ret (Inl e))
           | Inr _ \<Rightarrow>
               after (call (apPut ap available ns) (\<lambda>_. EvPut ns available)) (\<lambda>_.
               after (call (apBeginUpdate ap vars (avRef available) ns) (EvBeginUpdate ns (avRef available))) (\<lambda>begun. case begun of
                  Inr _ \<Rightarrow> ret (Inr ())
                | Inl e \<Rightarrow>
                    after (call (apGaveUp ap) EvGaveUp) (\<lambda>gaveUp.
                    after (if gaveUp then updateBegan ap ns else ret False) (\<lambda>began.
                      if began then ret (Inl e)
                      else after (call (apUndo ap available ns) (\<lambda>_. EvUndo ns available)) (\<lambda>_.
                           after (RestoreAbandoned ap ns) (\<lambda>_. ret (Inl e)))))))))"

definition executeUpdate :: "'s app \<Rightarrow> Namespace \<Rightarrow> vars \<Rightarrow> ('s, lc_error + bool) op" where
  "executeUpdate ap ns vars =
     andThen (open_bracket ap ns) (\<lambda>_. closing ap ns (
       after (call (apSettling ap ns) (EvSettling ns)) (\<lambda>settling.
       if settling then ret (Inl LcStateViolation)
       else andThen (read_state ap ns) (\<lambda>st.
         if st \<notin> {ArrowStateReady, ArrowStateOutdated, ArrowStateRunning}
         then andThen (call (apBeginExecution ap MethodUpdate vars ns) (EvBeginExecution ns MethodUpdate)) (\<lambda>_. ret (Inr True))
         else andThen (read_row ap ns) (\<lambda>current.
              andThen (call (apCheck ap ns) (EvCheck ns)) (\<lambda>available. case available of
                None \<Rightarrow> ret (Inr False)
              | Some target \<Rightarrow>
                  andThen (StopIfRunning ap ns) (\<lambda>_.
                  andThen (stageAndBegin ap ns current target vars) (\<lambda>_. ret (Inr True)))))))))"

definition lc_Execute :: "'s app \<Rightarrow> Namespace \<Rightarrow> string \<Rightarrow> vars \<Rightarrow> ('s, lc_error + unit) op" where
  "lc_Execute ap declared method vars =
     andThen (call (apCatalogued ap declared) (EvCatalogued declared)) (\<lambda>ns.
       if method = MethodUpdate then andThen (executeUpdate ap ns vars) (\<lambda>_. ret (Inr ()))
       else call (apBeginExecution ap method vars ns) (EvBeginExecution ns method))"

definition lc_Update :: "'s app \<Rightarrow> Namespace \<Rightarrow> vars \<Rightarrow> ('s, lc_error + bool) op" where
  "lc_Update ap declared vars =
     andThen (call (apCatalogued ap declared) (EvCatalogued declared)) (\<lambda>ns. executeUpdate ap ns vars)"

definition lc_Reset :: "'s app \<Rightarrow> Namespace \<Rightarrow> ('s, lc_error + unit) op" where
  "lc_Reset ap ns =
     andThen (call (apForget ap ns) (EvForget ns)) (\<lambda>_.
     after (call (apTake ap ns) (EvTake ns)) (\<lambda>_. ret (Inr ())))"

section \<open>Advancing a row nothing is installed from\<close>

record UpdateResult =
  urAvailable :: "Available option"
  urAdded :: "Namespace list"
  urRemoved :: "Namespace list"
  urConstrained :: "ConstrainedDep list"

definition no_result :: UpdateResult where
  "no_result = \<lparr>urAvailable = None, urAdded = [], urRemoved = [], urConstrained = []\<rparr>"

definition isInstalled :: "ArrowState \<Rightarrow> bool" where
  "isInstalled st \<longleftrightarrow> \<not> stateless st"

definition lc_installed :: "'s app \<Rightarrow> Namespace \<Rightarrow> ('s, lc_error + bool) op" where
  "lc_installed ap ns = andThen (read_state ap ns) (\<lambda>st. ret (Inr (isInstalled st)))"

definition advanceCatalogued :: "'s app \<Rightarrow> Namespace \<Rightarrow> Arrow option \<Rightarrow> Available \<Rightarrow> ('s, lc_error + UpdateResult) op" where
  "advanceCatalogued ap ns current target =
     andThen (open_bracket ap ns) (\<lambda>_. closing ap ns (
       andThen (lc_installed ap ns) (\<lambda>installed.
         if installed then ret (Inr (no_result\<lparr>urAvailable := Some target\<rparr>))
         else andThen (call (apAdvance ap target ns) (EvAdvance ns target)) (\<lambda>_.
              andThen (read_row ap ns) (\<lambda>advanced.
                let diff = DiffDeps (apOS ap) current advanced
                in ret (Inr (no_result\<lparr>urAdded := map deNamespace (ddAdded diff), urRemoved := map deNamespace (ddRemoved diff),
                     urConstrained := ddConstrained diff\<rparr>)))))))"

definition Recheck :: "'s app \<Rightarrow> Namespace \<Rightarrow> ('s, lc_error + UpdateResult) op" where
  "Recheck ap declared =
     andThen (call (apCatalogued ap declared) (EvCatalogued declared)) (\<lambda>ns.
     andThen (read_row ap ns) (\<lambda>current.
     andThen (call (apCheck ap ns) (EvCheck ns)) (\<lambda>available. case available of
        None \<Rightarrow> ret (Inr no_result)
      | Some target \<Rightarrow>
          andThen (lc_installed ap ns) (\<lambda>installed.
            if installed then ret (Inr (no_result\<lparr>urAvailable := Some target\<rparr>)) else advanceCatalogued ap ns current target))))"

section \<open>Settling an update\<close>

definition commitUpdate :: "'s app \<Rightarrow> Namespace \<Rightarrow> Available \<Rightarrow> ('s, bool) op" where
  "commitUpdate ap ns target =
     after (call (apUnmoved ap target ns) (EvUnmoved ns target)) (\<lambda>r.
       if r \<noteq> Inr True then ret False
       else after (call (apAdvance ap target ns) (EvAdvance ns target)) (\<lambda>r. ret (r = Inr ())))"

definition run_succeeded :: "ArrowRuntime \<Rightarrow> bool" where
  "run_succeeded rt \<longleftrightarrow> (case rtLastReturn rt of None \<Rightarrow> False | Some r \<Rightarrow> retOutcome r = ExecutionOutcomeSuccess)"

text \<open>What closes a settling; \<open>afterSettle\<close> refuses once the settling ran out during a drain: \<open>apAborted\<close> answers for it.\<close>

definition restore_unless_aborted :: "'s app \<Rightarrow> Namespace \<Rightarrow> ('s, unit) op" where
  "restore_unless_aborted ap ns =
     after (call (apAborted ap) EvAborted) (\<lambda>aborted. if aborted then ret () else restoreInstalled ap ns)"

definition settleUpdate :: "'s app \<Rightarrow> ArrowRuntime \<Rightarrow> Available option \<Rightarrow> ('s, unit) op" where
  "settleUpdate ap rt recorded =
     (case recorded of
        None \<Rightarrow> ret ()
      | Some target \<Rightarrow>
          after (if run_succeeded rt then commitUpdate ap (rtRef rt) target else ret False) (\<lambda>committed.
            if committed then ret () else restore_unless_aborted ap (rtRef rt)))"

definition OnUpdateEnded :: "'s app \<Rightarrow> ArrowRuntime \<Rightarrow> ('s, unit) op" where
  "OnUpdateEnded ap rt =
     after (call (apCommitBegin ap (rtRef rt)) (EvCommitBegin (rtRef rt))) (\<lambda>admitted.
     after (call (apTake ap (rtRef rt)) (EvTake (rtRef rt))) (\<lambda>recorded.
       if \<not> admitted then ret ()
       else after (settleUpdate ap rt recorded) (\<lambda>_. call (apRelease ap (rtRef rt)) (\<lambda>_. EvReleased (rtRef rt)))))"

definition OnRuntimeEnded :: "'s app \<Rightarrow> ArrowRuntime \<Rightarrow> ('s, unit) op" where
  "OnRuntimeEnded ap rt =
     (case rtLastReturn rt of
        None \<Rightarrow> ret ()
      | Some r \<Rightarrow>
          if retMethod r = MethodStop then onStopEnded ap rt
          else if retMethod r = MethodUninstall then onUninstallEnded ap rt
          else if retMethod r = MethodUpdate then OnUpdateEnded ap rt
          else ret ())"

section \<open>What an operation does, whatever the others answer\<close>

text \<open>\<open>emits m Q\<close>: in every world the result of \<open>m\<close> and the calls it makes satisfy \<open>Q\<close>.\<close>

definition emits :: "('s, 'r) op \<Rightarrow> ('r \<Rightarrow> lc_event list \<Rightarrow> bool) \<Rightarrow> bool" where
  "emits m Q \<longleftrightarrow> (\<forall>w. Q (fst (m w)) (fst (snd (m w))))"

named_theorems emits

lemma emitsD: "emits m Q \<Longrightarrow> m w = (r, es, w') \<Longrightarrow> Q r es"
  by (metis emits_def fst_conv snd_conv)

lemma emits_conseq: "emits m P \<Longrightarrow> (\<And>r es. P r es \<Longrightarrow> Q r es) \<Longrightarrow> emits m Q"
  by (simp add: emits_def)

lemma emits_ret [emits]: "Q r [] \<Longrightarrow> emits (ret r) Q"
  by (simp add: emits_def ret_def)

lemma emits_call [emits]: "(\<And>r. Q r [ev r]) \<Longrightarrow> emits (call f ev) Q"
  by (simp add: emits_def call_def split: prod.split)

lemma emits_after [emits]: "emits m (\<lambda>r es. emits (k r) (\<lambda>r' es'. Q r' (es @ es'))) \<Longrightarrow> emits (after m k) Q"
  unfolding emits_def
proof (intro allI)
  fix w assume h: "\<forall>w. \<forall>w'. Q (fst (k (fst (m w)) w')) (fst (snd (m w)) @ fst (snd (k (fst (m w)) w')))"
  obtain a es w1 where m: "m w = (a, es, w1)" by (cases "m w")
  obtain b es' w2 where k: "k a w1 = (b, es', w2)" by (cases "k a w1")
  from h [rule_format, of w w1] show "Q (fst (after m k w)) (fst (snd (after m k w)))" by (simp add: after_def m k)
qed

lemma emits_andThen [emits]:
  "emits m (\<lambda>r es. (\<forall>e. r = Inl e \<longrightarrow> Q (Inl e) es) \<and> (\<forall>a. r = Inr a \<longrightarrow> emits (k a) (\<lambda>r' es'. Q r' (es @ es')))) \<Longrightarrow>
   emits (andThen m k) Q"
  unfolding andThen_def
  by (rule emits_after, erule emits_conseq) (auto intro!: emits_ret split: sum.split)

lemma emits_wrapping [emits]: "emits m (\<lambda>r es. Q (map_sum g id r) es) \<Longrightarrow> emits (wrapping g m) Q"
  unfolding wrapping_def by (rule emits_after, erule emits_conseq) (auto intro!: emits_ret)

lemma emits_closing [emits]: "emits m (\<lambda>r es. Q r (es @ [EvClose ns])) \<Longrightarrow> emits (closing ap ns m) Q"
  unfolding closing_def by (rule emits_after, erule emits_conseq) (auto intro!: emits_after emits_call emits_ret)

lemma emits_read_state [emits]: "(\<And>r. Q (map_sum LcOther id r) [EvState ns r]) \<Longrightarrow> emits (read_state ap ns) Q"
  unfolding read_state_def by (auto intro!: emits_wrapping emits_call)

lemma emits_read_row [emits]: "(\<And>r. Q (map_sum LcOther id r) [EvRow ns r]) \<Longrightarrow> emits (read_row ap ns) Q"
  unfolding read_row_def by (auto intro!: emits_wrapping emits_call)

lemma emits_open [emits]: "(\<And>r. Q (map_sum LcOther id r) [EvOpen ns r]) \<Longrightarrow> emits (open_bracket ap ns) Q"
  unfolding open_bracket_def by (auto intro!: emits_wrapping emits_call)

lemma emits_if [emits]: "(b \<Longrightarrow> emits m Q) \<Longrightarrow> (\<not> b \<Longrightarrow> emits n Q) \<Longrightarrow> emits (if b then m else n) Q"
  by simp

lemma emits_sum [emits]:
  "(\<And>e. r = Inl e \<Longrightarrow> emits (f e) Q) \<Longrightarrow> (\<And>a. r = Inr a \<Longrightarrow> emits (g a) Q) \<Longrightarrow> emits (case r of Inl e \<Rightarrow> f e | Inr a \<Rightarrow> g a) Q"
  by (cases r) auto

lemma emits_option [emits]:
  "(r = None \<Longrightarrow> emits m Q) \<Longrightarrow> (\<And>a. r = Some a \<Longrightarrow> emits (g a) Q) \<Longrightarrow> emits (case r of None \<Rightarrow> m | Some a \<Rightarrow> g a) Q"
  by (cases r) auto

lemma emits_pair [emits]: "(\<And>a b. r = (a, b) \<Longrightarrow> emits (g a b) Q) \<Longrightarrow> emits (case r of (a, b) \<Rightarrow> g a b) Q"
  by (cases r) auto

lemma map_sum_cases [simp]:
  "map_sum f g r = Inl e \<longleftrightarrow> (\<exists>x. r = Inl x \<and> e = f x)" "map_sum f g r = Inr a \<longleftrightarrow> (\<exists>x. r = Inr x \<and> a = g x)"
  by (cases r; auto)+

text \<open>\<open>only P m\<close>: every call \<open>m\<close> makes satisfies \<open>P\<close>.\<close>

abbreviation only :: "(lc_event \<Rightarrow> bool) \<Rightarrow> ('s, 'r) op \<Rightarrow> bool" where
  "only P m \<equiv> emits m (\<lambda>r es. list_all P es)"

named_theorems only

lemma only_after [only]: "only P m \<Longrightarrow> (\<And>r. only P (k r)) \<Longrightarrow> only P (after m k)"
  by (rule emits_after, erule emits_conseq, rule emits_conseq, assumption) simp

lemma only_ret [only]: "only P (ret r)"
  by (simp add: emits_ret)

lemma only_andThen [only]: "only P m \<Longrightarrow> (\<And>r. only P (k r)) \<Longrightarrow> only P (andThen m k)"
  unfolding andThen_def by (intro only emits_sum)

lemma only_wrapping [only]: "only P m \<Longrightarrow> only P (wrapping g m)"
  unfolding wrapping_def by (intro only)

lemma only_call [only]: "(\<And>r. P (ev r)) \<Longrightarrow> only P (call f ev)"
  by (simp add: emits_call)

lemma only_closing [only]: "only P m \<Longrightarrow> P (EvClose ns) \<Longrightarrow> only P (closing ap ns m)"
  unfolding closing_def by (intro only) simp_all

lemma only_reads [only]:
  "(\<And>r. P (EvState ns r)) \<Longrightarrow> only P (read_state ap ns)" "(\<And>r. P (EvRow ns r)) \<Longrightarrow> only P (read_row ap ns)"
  "(\<And>r. P (EvOpen ns r)) \<Longrightarrow> only P (open_bracket ap ns)"
  unfolding read_state_def read_row_def open_bracket_def by (intro only; simp)+

lemma only_each_ok [only]: "(\<And>x. only P (f x)) \<Longrightarrow> only P (each_ok f xs)"
  by (induction xs) (auto intro!: only)

lemma only_each [only]: "(\<And>x. only P (f x)) \<Longrightarrow> only P (each f xs)"
  by (induction xs) (auto intro!: only)

lemma emits_both: "emits m P \<Longrightarrow> emits m Q \<Longrightarrow> emits m (\<lambda>r es. P r es \<and> Q r es)"
  by (simp add: emits_def)

section \<open>Dependencies are installed first\<close>

definition installed_in :: "lc_event list \<Rightarrow> Namespace \<Rightarrow> bool" where
  "installed_in es i \<longleftrightarrow>
     (\<exists>st. EvState i (Inr st) \<in> set es \<and> \<not> needsInstall st) \<or> (\<exists>rt. EvEnded i (Inr rt) \<in> set es \<and> \<not> run_failed rt)"

definition started_in :: "lc_event list \<Rightarrow> Namespace \<Rightarrow> bool" where
  "started_in es i \<longleftrightarrow>
     EvState i (Inr ArrowStateRunning) \<in> set es \<or>
     (\<exists>r. EvBeginExecution i MethodExecute r \<in> set es \<and> r \<in> {Inr (), Inl LcStateViolation})"

definition catalogued_in :: "lc_event list \<Rightarrow> Namespace \<Rightarrow> Namespace \<Rightarrow> bool" where
  "catalogued_in es n i \<longleftrightarrow> i = n \<and> EvExists n (Inr True) \<in> set es \<or> EvAdded n (Inr i) \<in> set es"

fun catalog_event :: "lc_event \<Rightarrow> bool" where
  "catalog_event (EvExists n r) = True"
| "catalog_event (EvAdded n r) = True"
| "catalog_event e = False"

lemma evidence_append [simp]:
  "installed_in (es @ es') i \<longleftrightarrow> installed_in es i \<or> installed_in es' i"
  "started_in (es @ es') i \<longleftrightarrow> started_in es i \<or> started_in es' i"
  "catalogued_in (es @ es') n i \<longleftrightarrow> catalogued_in es n i \<or> catalogued_in es' n i"
  by (auto simp: installed_in_def started_in_def catalogued_in_def)

lemma installOneDep_installed: "emits (installOneDep ap i) (\<lambda>r es. r = Inr () \<longrightarrow> installed_in es i)"
  unfolding installOneDep_def beginInstall_def beginInstallHeld_def
  by (intro emits conjI allI impI) (auto intro!: emits simp: installed_in_def split: sum.splits)

lemma startServiceDep_started: "emits (startServiceDep ap i) (\<lambda>r es. r = Inr () \<longrightarrow> started_in es i)"
  unfolding startServiceDep_def
  by (intro emits conjI allI impI) (auto simp: started_in_def split: sum.splits)

lemma ensureDependency_catalogued:
  "emits (ensureDependency ap n) (\<lambda>r es. list_all catalog_event es \<and> (\<forall>i. r = Inr i \<longrightarrow> catalogued_in es n i))"
  unfolding ensureDependency_def isCatalogued_def
  by (intro emits conjI allI impI) (auto simp: catalogued_in_def split: sum.splits)

lemma ensure_all_catalogued:
  "emits (ensure_all ap ns) (\<lambda>r es. list_all catalog_event es \<and>
     (\<forall>ids. r = Inr ids \<longrightarrow> map fst ids = ns \<and> (\<forall>(n, i) \<in> set ids. catalogued_in es n i)))"
proof (induction ns)
  case (Cons n ns)
  show ?case
    unfolding ensure_all.simps
    by (intro emits conjI allI impI emits_conseq [OF ensureDependency_catalogued] emits_conseq [OF Cons.IH]) auto
qed (auto intro!: emits)

lemma identity_of_mem: "n \<in> set (map fst ids) \<Longrightarrow> (n, identity_of ids n) \<in> set ids"
proof -
  assume "n \<in> set (map fst ids)"
  then obtain i where "map_of (rev ids) n = Some i" by (metis map_of_eq_None_iff not_None_eq set_map set_rev)
  then show ?thesis using map_of_SomeD [of "rev ids" n i] by (simp add: identity_of_def)
qed

definition entry_ready :: "lc_event list \<Rightarrow> Namespace \<Rightarrow> DepType \<Rightarrow> bool" where
  "entry_ready es i t \<longleftrightarrow> installed_in es i \<and> (t = ServiceDep \<longrightarrow> started_in es i)"

lemma entry_ready_append: "entry_ready es i t \<Longrightarrow> entry_ready (es @ es') i t" "entry_ready es' i t \<Longrightarrow> entry_ready (es @ es') i t"
  by (auto simp: entry_ready_def)

lemma install_entry_ready: "emits (install_entry ap i t) (\<lambda>r es. r = Inr () \<longrightarrow> entry_ready es i t)"
  unfolding install_entry_def
proof (intro emits conjI allI impI emits_conseq [OF installOneDep_installed] emits_conseq [OF startServiceDep_started], goal_cases)
  case 2
  then show ?case by (simp add: entry_ready_def)
next
  case 3
  then show ?case by (simp add: entry_ready_def)
qed simp_all

lemma each_ok_all:
  assumes "\<And>x. emits (f x) (\<lambda>r es. r = Inr () \<longrightarrow> G x es)" "\<And>x es es'. G x es \<or> G x es' \<Longrightarrow> G x (es @ es')"
  shows "emits (each_ok f xs) (\<lambda>r es. r = Inr () \<longrightarrow> (\<forall>x \<in> set xs. G x es))"
proof (induction xs)
  case Nil
  show ?case by (simp add: emits_ret)
next
  case (Cons x xs)
  show ?case
    unfolding each_ok.simps
    by (rule emits_andThen, rule emits_conseq [OF assms(1) [of x]]) (auto intro!: assms(2) emits_conseq [OF Cons.IH])
qed

lemma install_entries_ready:
  "emits (each_ok (\<lambda>entry. install_entry ap (identity_of ids (peNamespace entry)) (peType entry)) plan) (\<lambda>r es. r = Inr () \<longrightarrow>
     (\<forall>entry \<in> set plan. entry_ready es (identity_of ids (peNamespace entry)) (peType entry)))"
  by (rule each_ok_all) (auto intro: install_entry_ready entry_ready_append)

definition plan_ready :: "PlanEntry list \<Rightarrow> lc_event list \<Rightarrow> lc_event list \<Rightarrow> bool" where
  "plan_ready plan cat inst \<longleftrightarrow> list_all catalog_event cat \<and>
     (\<forall>entry \<in> set plan. \<exists>i. catalogued_in cat (peNamespace entry) i \<and> entry_ready inst i (peType entry))"

text \<open>
  Only the brackets of dependencies are closed: the row's own only if the catalog takes one of its
  dependencies for the row itself.
\<close>

definition bracket_kept :: "Namespace \<Rightarrow> PlanEntry list \<Rightarrow> lc_event list \<Rightarrow> lc_event list \<Rightarrow> bool" where
  "bracket_kept ns plan cat inst \<longleftrightarrow> EvClose ns \<notin> set cat \<and>
     (EvClose ns \<in> set inst \<longrightarrow> (\<exists>entry \<in> set plan. catalogued_in cat (peNamespace entry) ns))"

lemma install_entry_closes: "only (\<lambda>e. \<forall>n. e = EvClose n \<longrightarrow> n = i) (install_entry ap i t)"
  unfolding install_entry_def installOneDep_def beginInstall_def beginInstallHeld_def startServiceDep_def
  by (intro only emits_sum emits_pair emits_if; simp)

lemma install_entries_close:
  "only (\<lambda>e. \<forall>n. e = EvClose n \<longrightarrow> (\<exists>entry \<in> set plan. n = identity_of ids (peNamespace entry)))
     (each_ok (\<lambda>entry. install_entry ap (identity_of ids (peNamespace entry)) (peType entry)) plan)"
proof -
  have "only (\<lambda>e. \<forall>n. e = EvClose n \<longrightarrow> (\<exists>entry \<in> A. n = identity_of ids (peNamespace entry)))
     (each_ok (\<lambda>entry. install_entry ap (identity_of ids (peNamespace entry)) (peType entry)) es)" if "set es \<subseteq> A" for es A
    using that
  proof (induction es)
    case Nil
    show ?case by (simp add: only_ret)
  next
    case (Cons entry es)
    have "only (\<lambda>e. \<forall>n. e = EvClose n \<longrightarrow> (\<exists>entry \<in> A. n = identity_of ids (peNamespace entry)))
        (install_entry ap (identity_of ids (peNamespace entry)) (peType entry))"
      by (rule emits_conseq [OF install_entry_closes]) (use Cons.prems in \<open>auto simp: list_all_iff\<close>)
    then show ?case unfolding each_ok.simps by (rule only_andThen) (use Cons in simp)
  qed
  then show ?thesis by blast
qed

lemma catalog_no_close: "list_all catalog_event es \<Longrightarrow> EvClose ns \<notin> set es"
  by (auto simp: list_all_iff)

lemma installDeps_ready:
  "emits (installDeps ap ns) (\<lambda>r es. r = Inr () \<longrightarrow>
     (\<exists>plan cat inst. es = EvPlan ns (Inr plan) # cat @ inst \<and> plan_ready plan cat inst \<and> bracket_kept row plan cat inst))"
proof -
  have "emits (installPlan ap plan) (\<lambda>r es. r = Inr () \<longrightarrow>
      (\<exists>cat inst. es = cat @ inst \<and> plan_ready plan cat inst \<and> bracket_kept row plan cat inst))" for plan
    unfolding installPlan_def
  proof (intro emits emits_conseq [OF ensure_all_catalogued] conjI allI impI, goal_cases)
    case (2 r es ids)
    show ?case
    proof (rule emits_conseq [OF emits_both [OF install_entries_ready install_entries_close]], elim conjE, intro impI)
      fix r' es'
      assume h: "r' = Inr () \<longrightarrow> (\<forall>entry \<in> set plan. entry_ready es' (identity_of ids (peNamespace entry)) (peType entry))"
        and c: "list_all (\<lambda>e. \<forall>n. e = EvClose n \<longrightarrow> (\<exists>entry \<in> set plan. n = identity_of ids (peNamespace entry))) es'"
        and ok: "r' = Inr ()"
      have i: "catalogued_in es (peNamespace entry) (identity_of ids (peNamespace entry))" if "entry \<in> set plan" for entry
        using 2 that identity_of_mem [of "peNamespace entry" ids] by fastforce
      with h ok 2(1) have "plan_ready plan es es'" unfolding plan_ready_def by blast
      moreover have "bracket_kept row plan es es'"
        unfolding bracket_kept_def using c i catalog_no_close 2(1) unfolding list_all_iff by metis
      ultimately show "\<exists>cat inst. es @ es' = cat @ inst \<and> plan_ready plan cat inst \<and> bracket_kept row plan cat inst" by blast
    qed
  qed auto
  then show ?thesis
    unfolding installDeps_def
    by (intro emits conjI allI impI) (auto elim!: emits_conseq)
qed

lemma beginInstallHeld_events:
  "emits (beginInstallHeld ap ns vars) (\<lambda>r es. r = (True, None) \<longrightarrow>
     (\<exists>st. es = [EvState ns (Inr st), EvBeginInstall ns (Inr ())] \<and> needsInstall st))"
  unfolding beginInstallHeld_def by (intro emits conjI allI impI) (auto split: sum.splits)


section \<open>What cascades leave alone\<close>

text \<open>\<open>guarded G past es\<close>: each call was made on what \<open>G\<close> finds in the calls before it.\<close>

fun guarded :: "(lc_event set \<Rightarrow> lc_event \<Rightarrow> bool) \<Rightarrow> lc_event set \<Rightarrow> lc_event list \<Rightarrow> bool" where
  "guarded G past [] = True"
| "guarded G past (e # es) \<longleftrightarrow> G past e \<and> guarded G (insert e past) es"

lemma guarded_append [simp]: "guarded G past (es @ es') \<longleftrightarrow> guarded G past es \<and> guarded G (past \<union> set es) es'"
  by (induction es arbitrary: past) simp_all

lemma guarded_mono:
  assumes "\<And>past past' e. G past e \<Longrightarrow> past \<subseteq> past' \<Longrightarrow> G past' e" "guarded G past es" "past \<subseteq> past'"
  shows "guarded G past' es"
  using assms(2,3)
proof (induction es arbitrary: past past')
  case (Cons e es)
  then have "G past' e" "guarded G (insert e past) es" "insert e past \<subseteq> insert e past'" using assms(1) by auto
  with Cons.IH show ?case by simp
qed simp

text \<open>
  An arrow is uninstalled by a cascade only after its row was read and found not installed by the user,
  and either nothing depends on it or every dependent but the one whose run ended was looked at and none
  was seen installed.
\<close>

definition seen_uninstalled :: "go_error + ArrowState \<Rightarrow> bool" where
  "seen_uninstalled r \<longleftrightarrow> (case r of Inl e \<Rightarrow> True | Inr st \<Rightarrow> stateless st)"

definition unneeded :: "Namespace \<Rightarrow> Namespace \<Rightarrow> lc_event set \<Rightarrow> bool" where
  "unneeded ended i past \<longleftrightarrow>
     EvHasDependents i (Inr False) \<in> past \<or>
     (\<exists>parents. EvDependents i (Inr parents) \<in> past \<and>
        (\<forall>p \<in> set parents. p \<noteq> ended \<longrightarrow> (\<exists>r. EvState p r \<in> past \<and> seen_uninstalled r)))"

fun spared :: "Namespace \<Rightarrow> lc_event set \<Rightarrow> lc_event \<Rightarrow> bool" where
  "spared ended past (EvBeginUninstall i r) =
     ((\<exists>row. EvRow i (Inr (Some row)) \<in> past \<and> \<not> aUserInstalled row) \<and> unneeded ended i past)"
| "spared ended past e = True"

lemma unneeded_mono: "unneeded ended i past \<Longrightarrow> past \<subseteq> past' \<Longrightarrow> unneeded ended i past'"
  unfolding unneeded_def by (elim disjE exE conjE) (simp add: subsetD, metis subsetD)

lemma spared_mono: "spared ended past e \<Longrightarrow> past \<subseteq> past' \<Longrightarrow> spared ended past' e"
  by (cases e) (auto intro: unneeded_mono)

lemma guarded_spared: "guarded (spared ended) {} es \<Longrightarrow> guarded (spared ended) past es"
  by (rule guarded_mono [OF spared_mono]) auto

lemma each_spared:
  assumes "\<And>x. emits (f x) (\<lambda>r es. guarded (spared ended) {} es)"
  shows "emits (each f xs) (\<lambda>r es. guarded (spared ended) {} es)"
proof (induction xs)
  case (Cons x xs)
  show ?case
    unfolding each.simps
    by (rule emits_after, rule emits_conseq [OF assms(1)], rule emits_conseq [OF Cons.IH]) (simp add: guarded_spared)
qed (simp add: emits_ret)

lemma countRunning_reads:
  "emits (countRunning ap ns) (\<lambda>k es. guarded (spared ended) {} es \<and>
     (k = 0 \<longrightarrow> (\<forall>n \<in> set ns. \<exists>r. EvState n r \<in> set es \<and> seen_uninstalled r)))"
proof (induction ns)
  case (Cons n ns)
  show ?case
    unfolding countRunning.simps
  proof (intro emits emits_conseq [OF Cons.IH], goal_cases)
    case (1 r k es)
    have "seen_uninstalled r" if "stateless (case r of Inl e \<Rightarrow> no_state | Inr st \<Rightarrow> st)"
      using that by (cases r) (simp_all add: seen_uninstalled_def)
    with 1 show ?case by (auto simp: guarded_spared)
  qed
qed (simp add: emits_ret)

lemma parents_seen:
  assumes "EvDependents i (Inr parents) \<in> past" "\<forall>n \<in> set (filter (\<lambda>p. p \<noteq> ended) parents). \<exists>r. EvState n r \<in> past \<and> seen_uninstalled r"
  shows "unneeded ended i past"
  using assms unfolding unneeded_def by auto

lemma stop_service_spared: "emits (stop_service ap ended entry) (\<lambda>r es. guarded (spared ended) {} es)"
  unfolding stop_service_def Let_def
  by (intro emits emits_conseq [OF countRunning_reads [where ended = ended]]) (simp_all add: guarded_spared)

lemma maybeAuto_spared: "emits (maybeAutoUninstallStopped ap ns) (\<lambda>r es. guarded (spared ended) {} es)"
  unfolding maybeAutoUninstallStopped_def
proof (intro emits emits_conseq [OF countRunning_reads [where ended = ended]], goal_cases)
  case (6 r row arrow s parents k es t)
  then have "unneeded ended ns ({EvRow ns r, EvDependents ns s} \<union> set es)"
    by (intro parents_seen [of _ parents]) auto
  with 6 show ?case by (auto simp: guarded_spared insert_commute)
qed (auto simp: guarded_spared)

abbreviation spares :: "Namespace \<Rightarrow> ('s, 'r) op \<Rightarrow> bool" where
  "spares ended m \<equiv> emits m (\<lambda>r es. guarded (spared ended) {} es)"

named_theorems spares

lemma spares_after [spares]: "spares ended m \<Longrightarrow> (\<And>r. spares ended (k r)) \<Longrightarrow> spares ended (after m k)"
  by (rule emits_after, erule emits_conseq, rule emits_conseq, assumption) (simp add: guarded_spared)

lemma spares_ret [spares]: "spares ended (ret r)"
  by (simp add: emits_ret)

lemma spares_andThen [spares]: "spares ended m \<Longrightarrow> (\<And>r. spares ended (k r)) \<Longrightarrow> spares ended (andThen m k)"
  unfolding andThen_def by (intro spares emits_sum)

lemma spares_wrapping [spares]: "spares ended m \<Longrightarrow> spares ended (wrapping g m)"
  unfolding wrapping_def by (intro spares)

lemma spares_call [spares]: "(\<And>past r. spared ended past (ev r)) \<Longrightarrow> spares ended (call f ev)"
  by (simp add: emits_call)

lemma spares_closing [spares]: "spares ended m \<Longrightarrow> spares ended (closing ap ns m)"
  unfolding closing_def by (intro spares) simp_all

lemma spares_reads [spares]: "spares ended (read_state ap ns)" "spares ended (read_row ap ns)" "spares ended (open_bracket ap ns)"
  unfolding read_state_def read_row_def open_bracket_def by (intro spares; simp)+

lemma spares_each_ok [spares]: "(\<And>x. spares ended (f x)) \<Longrightarrow> spares ended (each_ok f xs)"
  by (induction xs) (auto intro!: spares)

declare maybeAuto_spared [spares] stop_service_spared [spares]

lemma retire_dependency_spared [spares]: "spares ended (retire_dependency ap ended entry)"
  unfolding retire_dependency_def
proof (intro emits emits_conseq [OF countRunning_reads [where ended = ended]], goal_cases)
  case (10 c depNs s st p parents k es r row arrow u)
  then have "unneeded ended depNs ({EvCatalogued (peNamespace entry) c, EvState depNs s, EvDependents depNs p, EvRow depNs r} \<union> set es)"
    by (intro parents_seen [of _ parents]) auto
  with 10 show ?case by (auto simp: guarded_spared insert_commute)
qed (auto simp: guarded_spared)

lemma retireRemovedDep_spared [spares]: "spares ended (retireRemovedDep ap declared)"
  unfolding retireRemovedDep_def by (intro emits) (auto simp: unneeded_def)

lemma installOneDep_spares [spares]: "spares ended (installOneDep ap i)"
  unfolding installOneDep_def beginInstall_def beginInstallHeld_def
  by (intro spares emits_sum emits_pair emits_if; simp)

lemma startServiceDep_spares [spares]: "spares ended (startServiceDep ap i)"
  unfolding startServiceDep_def by (intro spares emits_if; simp)

lemma ensureAddedDeps_spares [spares]: "spares ended (ensureAddedDeps ap ns added)"
  by (induction added) (auto intro!: spares emits_if simp: ensureDependency_def isCatalogued_def)

lemma syncDeps_spares: "spares ended (SyncTargetDeps ap ns current target)"
  unfolding SyncTargetDeps_def syncDeps_def Let_def
  by (intro spares each_spared emits_sum emits_option emits_if; simp)

lemma restore_spares [spares]: "spares ended (restoreInstalled ap ns)"
  unfolding restoreInstalled_def Let_def by (intro spares emits_sum emits_option emits_if; simp)

lemma OnUpdateEnded_spares: "spares ended (OnUpdateEnded ap rt)"
  unfolding OnUpdateEnded_def settleUpdate_def commitUpdate_def restore_unless_aborted_def
  by (intro spares emits_option emits_if; simp)

lemma OnRuntimeEnded_spares: "spares (rtRef rt) (OnRuntimeEnded ap rt)"
  unfolding OnRuntimeEnded_def onStopEnded_def onUninstallEnded_def
  by (intro spares each_spared OnUpdateEnded_spares emits_option emits_sum emits_if; simp)

lemma guarded_split: "guarded G past (pre @ e # post) \<Longrightarrow> G (past \<union> set pre) e"
  by (induction pre arbitrary: past) auto

text \<open>
  C19. Cascades spare what is needed: when the end of a run or the sync of an update's dependencies
  uninstalls an arrow, it had read the arrow's row and found that the user did not install it, and it
  had found that nothing depends on it, or had looked at every dependent other than the arrow whose run
  ended and seen none of them installed.
\<close>

theorem cascade_spares_needed:
  assumes "OnRuntimeEnded ap rt w = (u, es, w') \<or> SyncTargetDeps ap (rtRef rt) current target w = (res, es, w')"
    and "es = pre @ EvBeginUninstall i r # post"
  shows "(\<exists>row. EvRow i (Inr (Some row)) \<in> set pre \<and> \<not> aUserInstalled row) \<and>
    (EvHasDependents i (Inr False) \<in> set pre \<or>
     (\<exists>parents. EvDependents i (Inr parents) \<in> set pre \<and>
        (\<forall>p \<in> set parents. p \<noteq> rtRef rt \<longrightarrow> (\<exists>s. EvState p s \<in> set pre \<and> seen_uninstalled s))))"
proof -
  have "guarded (spared (rtRef rt)) {} es"
    using assms(1) emitsD [OF OnRuntimeEnded_spares] emitsD [OF syncDeps_spares] by metis
  then have "spared (rtRef rt) (set pre) (EvBeginUninstall i r)"
    using guarded_split [of "spared (rtRef rt)" "{}" pre] by (simp add: assms(2))
  then show ?thesis by (simp add: unneeded_def)
qed

text \<open>
  A stop does not stop the services declared without a selector: the plan names the declaration, and no
  runtime is kept under it.
\<close>

lemma bare_service_not_stopped:
  assumes "\<forall>w. fst (apState ap (peNamespace entry) w) = Inr ArrowStateAbsent"
  shows "emits (stop_service ap ended entry) (\<lambda>r es. \<forall>n s. EvBeginStop n s \<notin> set es)"
proof -
  have s: "emits (call (apState ap (peNamespace entry)) (EvState (peNamespace entry)))
      (\<lambda>r es. r = Inr ArrowStateAbsent \<and> es = [EvState (peNamespace entry) (Inr ArrowStateAbsent)])"
    using assms by (auto simp: emits_def call_def split: prod.split) (metis fst_conv)+
  show ?thesis
    unfolding stop_service_def Let_def
    by (intro emits_if emits_ret emits_after emits_conseq [OF s]) (auto intro: emits_ret)
qed

section \<open>The bracket of an update\<close>

fun dependency_event :: "Namespace \<Rightarrow> lc_event \<Rightarrow> bool" where
  "dependency_event ns (EvRefresh n t r) = False"
| "dependency_event ns (EvPut n t) = False"
| "dependency_event ns (EvUndo n t) = False"
| "dependency_event ns (EvCommitBegin n b) = False"
| "dependency_event ns (EvGaveUp b) = False"
| "dependency_event ns (EvPending n b) = False"
| "dependency_event ns (EvBeginUpdate n t r) = False"
| "dependency_event ns e = True"

lemma installOneDep_only [only]: "only (dependency_event ns) (installOneDep ap i)"
  unfolding installOneDep_def beginInstall_def beginInstallHeld_def
  by (intro only emits_sum emits_pair emits_if; simp)

lemma ensureAddedDeps_only [only]: "only (dependency_event ns) (ensureAddedDeps ap n added)"
  by (induction added) (auto intro!: only emits_if simp: ensureDependency_def isCatalogued_def)

lemma SyncTargetDeps_only: "only (dependency_event ns) (SyncTargetDeps ap n current target)"
  unfolding SyncTargetDeps_def syncDeps_def retireRemovedDep_def startServiceDep_def Let_def
  by (intro only emits_sum emits_option emits_if; simp)

lemma StopIfRunning_only: "only (dependency_event ns) (StopIfRunning ap n)"
  unfolding StopIfRunning_def by (intro only emits_if; simp)

text \<open>
  What follows the read of a row to put its manifest back: the refresh to the release it records, and
  nothing when the row cannot be read, is gone or records no commit, in which case the staged manifest stays.
\<close>

definition restaged :: "Namespace \<Rightarrow> go_error + Arrow option \<Rightarrow> lc_event list \<Rightarrow> bool" where
  "restaged ns r mid \<longleftrightarrow>
     (case r of
        Inr (Some row) \<Rightarrow>
          (if rCommit (aResolved row) = [] then mid = []
           else \<exists>x. mid = [EvRefresh ns \<lparr>avRef = rRef (aResolved row), avCommit = rCommit (aResolved row)\<rparr> x])
      | _ \<Rightarrow> mid = [])"

definition restoring :: "Namespace \<Rightarrow> lc_event list \<Rightarrow> bool" where
  "restoring ns es \<longleftrightarrow> es = [EvCommitBegin ns False] \<or>
     (\<exists>r mid. es = EvCommitBegin ns True # EvRow ns r # mid @ [EvReleased ns] \<and> restaged ns r mid)"

lemma restoreInstalled_events:
  "emits (restoreInstalled ap ns) (\<lambda>u es. \<exists>r mid. es = EvRow ns r # mid \<and> restaged ns r mid)"
  unfolding restoreInstalled_def Let_def restaged_def by (intro emits) auto

lemma RestoreAbandoned_restoring: "emits (RestoreAbandoned ap ns) (\<lambda>u es. restoring ns es)"
  unfolding RestoreAbandoned_def
proof (intro emits emits_conseq [OF restoreInstalled_events], goal_cases)
  case (2 b u es v)
  then show ?case by (fastforce simp: restoring_def)
qed (simp add: restoring_def)

text \<open>How the calls of a bracket end that fails after staging a target.\<close>

definition undone :: "Namespace \<Rightarrow> lc_event list \<Rightarrow> bool" where
  "undone ns es \<longleftrightarrow>
     (\<exists>pre rest. es = pre @ rest \<and> restoring ns rest \<and> (\<forall>target. EvPut ns target \<in> set pre \<longrightarrow> List.last pre = EvUndo ns target))"

definition began_anyway :: "Namespace \<Rightarrow> lc_event list \<Rightarrow> bool" where
  "began_anyway ns es \<longleftrightarrow>
     (\<exists>pre. es = pre @ [EvGaveUp True, EvPending ns False] \<or>
        es = pre @ [EvGaveUp True, EvPending ns True, EvState ns (Inr ArrowStateUpdating)])"

lemma undone_append: "list_all (dependency_event ns) pre \<Longrightarrow> undone ns es \<Longrightarrow> undone ns (pre @ es)"
proof -
  assume p: "list_all (dependency_event ns) pre" and "undone ns es"
  then obtain q rest where q: "es = q @ rest" "restoring ns rest" "\<And>target. EvPut ns target \<in> set q \<Longrightarrow> List.last q = EvUndo ns target"
    unfolding undone_def by blast
  have "EvPut ns target \<notin> set pre" for target using p by (auto simp: list_all_iff)
  then have "EvPut ns target \<in> set (pre @ q) \<longrightarrow> List.last (pre @ q) = EvUndo ns target" for target
    using q(3) [of target] by (cases "q = []") auto
  then show ?thesis unfolding undone_def using q(1,2) by (intro exI [of _ "pre @ q"] exI [of _ rest]) simp
qed

lemma began_append: "began_anyway ns es \<Longrightarrow> began_anyway ns (pre @ es)"
  unfolding began_anyway_def by (metis append_assoc)

lemma updateBegan_events:
  "emits (updateBegan ap ns) (\<lambda>r es. (r \<longrightarrow> es = [EvPending ns False] \<or> es = [EvPending ns True, EvState ns (Inr ArrowStateUpdating)]) \<and>
     (\<forall>target. EvPut ns target \<notin> set es))"
  unfolding updateBegan_def by (intro emits) auto

lemma undone_undo:
  "restoring ns rest \<Longrightarrow> \<forall>t. EvPut ns t \<in> set pre \<longrightarrow> t = target \<Longrightarrow> undone ns (pre @ EvUndo ns target # rest)"
  unfolding undone_def by (intro exI [of _ "pre @ [EvUndo ns target]"] exI [of _ rest]) auto

lemma stageAndBegin_fails:
  "emits (stageAndBegin ap ns current target vars) (\<lambda>r es. \<forall>e. r = Inl e \<longrightarrow>
     (\<exists>x c. es = [EvRefresh ns target (Inl x), EvCheck ns c]) \<or> undone ns es \<or> began_anyway ns es)"
  unfolding stageAndBegin_def
proof (intro emits emits_conseq [OF SyncTargetDeps_only [where ns = ns]] emits_conseq [OF RestoreAbandoned_restoring]
    emits_conseq [OF updateBegan_events], goal_cases)
  case (2 s staged d es e u rs)
  have "EvPut ns t \<notin> set (EvRefresh ns target s # es)" for t using 2 by (auto simp: list_all_iff)
  with 2 have "undone ns ((EvRefresh ns target s # es) @ rs)" unfolding undone_def by blast
  then show ?case by simp
next
  case (3 s staged d es x p b e g g' es')
  then have "g = True" "began_anyway ns ([EvGaveUp True] @ es')" by (auto simp: began_anyway_def)
  then show ?case using began_append [of ns "EvGaveUp g # es'" "EvRefresh ns target s # es @ [EvPut ns target, EvBeginUpdate ns (avRef target) b]"]
    by simp
next
  case (4 s staged d es x p b e g g' es' v u rs)
  then have "\<forall>t. EvPut ns t \<in> set (EvRefresh ns target s # es @ [EvPut ns target, EvBeginUpdate ns (avRef target) b, EvGaveUp g] @ es') \<longrightarrow>
      t = target" by (auto simp: list_all_iff)
  from undone_undo [OF _ this] 4 show ?case by simp
next
  case (6 s staged d es x p b e g v u rs)
  then have "\<forall>t. EvPut ns t \<in> set (EvRefresh ns target s # es @ [EvPut ns target, EvBeginUpdate ns (avRef target) b, EvGaveUp g]) \<longrightarrow>
      t = target" by (auto simp: list_all_iff)
  from undone_undo [OF _ this] 6 show ?case by simp
qed auto

lemma executeUpdate_fails:
  "emits (executeUpdate ap ns vars) (\<lambda>r es. \<forall>e t staged. r = Inl e \<longrightarrow> EvRefresh ns t (Inr staged) \<in> set es \<longrightarrow>
     (\<exists>body. es = EvOpen ns (Inr ()) # body @ [EvClose ns] \<and> (undone ns body \<or> began_anyway ns body)))"
proof -
  define P where "P = (\<lambda>es. \<forall>t staged. EvRefresh ns t (Inr staged) \<in> set es \<longrightarrow>
    (\<exists>body. es = EvOpen ns (Inr ()) # body @ [EvClose ns] \<and> (undone ns body \<or> began_anyway ns body)))"
  have none: "P es" if "list_all (\<lambda>e. \<forall>t staged. e \<noteq> EvRefresh ns t (Inr staged)) es" for es
    using that by (auto simp: P_def list_all_iff)
  have stop: "list_all (\<lambda>e. \<forall>t staged. e \<noteq> EvRefresh ns t (Inr staged)) es" if "list_all (dependency_event ns) es" for es
    using that by (auto simp: list_all_iff)
  have "emits (executeUpdate ap ns vars) (\<lambda>r es. \<forall>e. r = Inl e \<longrightarrow> P es)"
    unfolding executeUpdate_def
  proof (intro emits conjI allI impI emits_conseq [OF StopIfRunning_only [where ns = ns]] emits_conseq [OF stageAndBegin_fails], goal_cases)
    case (10 o' v settling st x row current checked ac target stopped es ad staged esa e e')
    then have o: "o' = Inr ()" by auto
    let ?pre = "[EvSettling ns settling, EvState ns st, EvRow ns row, EvCheck ns checked] @ es"
    have pre: "list_all (dependency_event ns) ?pre" using 10 by simp
    from 10 consider (fetch) x c where "esa = [EvRefresh ns target (Inl x), EvCheck ns c]"
      | (undone) "undone ns esa" | (began) "began_anyway ns esa" by blast
    then show ?case
    proof cases
      case fetch
      with stop [of es] 10 show ?thesis by (intro none) simp
    next
      case undone
      from undone_append [OF pre this] show ?thesis
        unfolding P_def by (intro allI impI exI [of _ "?pre @ esa"]) (auto simp: o)
    next
      case began
      from began_append [OF this, of ?pre] show ?thesis
        unfolding P_def by (intro allI impI exI [of _ "?pre @ esa"]) (auto simp: o)
    qed
  qed (auto intro!: none dest!: stop)
  then show ?thesis unfolding P_def by (rule emits_conseq) blast
qed

section \<open>Settling an update\<close>

lemma commitUpdate_events:
  "emits (commitUpdate ap ns target) (\<lambda>r es. (\<exists>u. es = [EvUnmoved ns target u] \<and> u \<noteq> Inr True \<and> \<not> r) \<or>
     (\<exists>x. es = [EvUnmoved ns target (Inr True), EvAdvance ns target x] \<and> (r \<longleftrightarrow> x = Inr ())))"
  unfolding commitUpdate_def by (intro emits) auto

text \<open>The installed release's manifest is put back, unless a drain aborted the settling.\<close>

definition put_back :: "Namespace \<Rightarrow> lc_event list \<Rightarrow> bool" where
  "put_back ns es \<longleftrightarrow> es = [EvAborted True] \<or> (\<exists>r mid. es = EvAborted False # EvRow ns r # mid \<and> restaged ns r mid)"

definition settles :: "ArrowRuntime \<Rightarrow> Available option \<Rightarrow> lc_event list \<Rightarrow> bool" where
  "settles rt recorded es \<longleftrightarrow>
     (case recorded of
        None \<Rightarrow> es = []
      | Some target \<Rightarrow>
          (if run_succeeded rt
           then (\<exists>u rest. es = EvUnmoved (rtRef rt) target u # rest \<and> u \<noteq> Inr True \<and> put_back (rtRef rt) rest) \<or>
             es = [EvUnmoved (rtRef rt) target (Inr True), EvAdvance (rtRef rt) target (Inr ())] \<or>
             (\<exists>e rest. es = EvUnmoved (rtRef rt) target (Inr True) # EvAdvance (rtRef rt) target (Inl e) # rest \<and> put_back (rtRef rt) rest)
           else put_back (rtRef rt) es))"

lemma restore_put_back:
  "emits (restore_unless_aborted ap ns) (\<lambda>u es. put_back ns es)"
  unfolding restore_unless_aborted_def by (intro emits emits_conseq [OF restoreInstalled_events]) (auto simp: put_back_def)

lemma settleUpdate_settles: "emits (settleUpdate ap rt recorded) (\<lambda>u es. settles rt recorded es)"
proof (cases recorded)
  case None
  then show ?thesis by (simp add: settleUpdate_def settles_def emits_ret)
next
  case (Some target)
  show ?thesis
  proof (cases "run_succeeded rt")
    case False
    then show ?thesis unfolding settleUpdate_def Some
      by (simp only: option.case if_False) (intro emits_after emits_ret, simp, rule emits_conseq [OF restore_put_back],
          simp add: settles_def Some)
  next
    case True
    show ?thesis unfolding settleUpdate_def Some
    proof (simp only: option.case True if_True, intro emits_after emits_conseq [OF commitUpdate_events] emits_if emits_ret
        emits_conseq [OF restore_put_back], goal_cases)
      case (1 r es)
      with True show ?case by (auto simp: settles_def)
    next
      case (2 r es u es')
      then consider (moved) v where "es = [EvUnmoved (rtRef rt) target v]" "v \<noteq> Inr True"
        | (failed) e where "es = [EvUnmoved (rtRef rt) target (Inr True), EvAdvance (rtRef rt) target (Inl e)]"
        by (metis old.unit.exhaust sum.exhaust)
      then show ?case using 2 True by cases (simp_all add: settles_def)
    qed
  qed
qed



section \<open>Concrete runs\<close>

definition sample_row :: Arrow where
  "sample_row = no_arrow\<lparr>aResolved := \<lparr>rRef = ''v1'', rCommit = ''c1'', rFingerprint = []\<rparr>\<rparr>"

text \<open>A world that answers the same at every call: states by namespace, one dependency, one release ahead.\<close>

definition constant_app :: "(Namespace \<Rightarrow> ArrowState) \<Rightarrow> (lc_error + unit) \<Rightarrow> unit app" where
  "constant_app states begins =
     \<lparr>apOS = ''linux/amd64'',
      apArrow = \<lparr>arCatalogued = (\<lambda>n w. (Inr n, w)), arExists = (\<lambda>n w. (Inr True, w)), arRow = (\<lambda>n w. (Inr (Some sample_row), w)),
        arAdd = (\<lambda>n w. (Inr n, w)), arCheck = (\<lambda>n w. (Inr (Some \<lparr>avRef = ''v2'', avCommit = ''c2''\<rparr>), w)),
        arAdvance = (\<lambda>t n w. (Inr (), w)), arRefresh = (\<lambda>t n w. (Inr sample_row, w)), arUnmoved = (\<lambda>t n w. (Inr True, w))\<rparr>,
      apRuntimes = \<lparr>rrState = (\<lambda>n w. (Inr (states n), w)), rrRuntime = (\<lambda>n w. (Inr None, w)), rrBeginInstall = (\<lambda>v n w. (begins, w)),
        rrBeginExecution = (\<lambda>m v n w. (begins, w)), rrBeginUpdate = (\<lambda>v t n w. (begins, w)), rrBeginStop = (\<lambda>n w. (begins, w)),
        rrBeginUninstall = (\<lambda>v n w. (begins, w)), rrMarkOutdated = (\<lambda>a r n w. (Inr (), w)), rrForget = (\<lambda>n w. (Inr (), w)),
        rrListen = (\<lambda>n w. (Inr (), w)), rrEnded = (\<lambda>n w. (Inl LcContext, w))\<rparr>,
      apGraph = \<lparr>grPlan = (\<lambda>n w. (Inr [\<lparr>peNamespace = ''h/o/dep@v1'', peType = ToolDep\<rparr>], w)), grHasDependents = (\<lambda>n w. (Inr False, w)),
        grDependents = (\<lambda>n w. (Inr [''h/o/app@v1''], w))\<rparr>,
      apBrackets = \<lparr>brOpen = (\<lambda>n w. (Inr (), w)), brClose = (\<lambda>n w. ((), w)), brSettling = (\<lambda>n w. (False, w)), brPut = (\<lambda>t n w. ((), w)),
        brUndo = (\<lambda>t n w. ((), w)), brTake = (\<lambda>n w. (Some \<lparr>avRef = ''v2'', avCommit = ''c2''\<rparr>, w)), brPending = (\<lambda>n w. (True, w)),
        brGaveUp = (\<lambda>w. (False, w)), brAborted = (\<lambda>w. (False, w)), brCommitBegin = (\<lambda>n w. (True, w)), brRelease = (\<lambda>n w. ((), w))\<rparr>\<rparr>"

definition dep_ready :: "Namespace \<Rightarrow> ArrowState" where
  "dep_ready n = (if n = ''h/o/dep@v1'' then ArrowStateReady else ArrowStateAbsent)"

definition ended_run :: "string \<Rightarrow> ArrowRuntime" where
  "ended_run method =
     \<lparr>rtRef = ''h/o/app@v1'', rtState = ArrowStateAbsent, rtExecution = None,
      rtLastReturn = Some \<lparr>retExecutionID = [], retMethod = method, retOutcome = ExecutionOutcomeSuccess, retSteps = [], retVariables = []\<rparr>,
      rtPendingDepSync = None\<rparr>"

lemmas op_defs = ret_def call_def after_def andThen_def wrapping_def read_state_def read_row_def open_bracket_def closing_def
  constant_app_def

definition is_uninstall :: "Namespace \<Rightarrow> lc_event \<Rightarrow> bool" where
  "is_uninstall n e \<longleftrightarrow> (case e of EvBeginUninstall i r \<Rightarrow> i = n | _ \<Rightarrow> False)"

definition is_staging :: "Namespace \<Rightarrow> lc_event \<Rightarrow> bool" where
  "is_staging n e \<longleftrightarrow> (case e of EvRefresh i t r \<Rightarrow> i = n \<and> (case r of Inl x \<Rightarrow> False | Inr s \<Rightarrow> True) | _ \<Rightarrow> False)"

lemma is_uninstallE: "is_uninstall n e \<Longrightarrow> \<exists>r. e = EvBeginUninstall n r"
  by (cases e) (auto simp: is_uninstall_def)

lemma is_stagingE: "is_staging n e \<Longrightarrow> \<exists>t s. e = EvRefresh n t (Inr s)"
  by (cases e) (auto simp: is_staging_def split: sum.splits)


theorem cascade_spares_needed_witness:
  "\<exists>row. EvRow ''h/o/dep@v1'' (Inr (Some row)) \<in>
     set (fst (snd (OnRuntimeEnded (constant_app dep_ready (Inr ())) (ended_run MethodUninstall) ()))) \<and> \<not> aUserInstalled row"
proof -
  let ?r = "OnRuntimeEnded (constant_app dep_ready (Inr ())) (ended_run MethodUninstall) ()"
  have "list_ex (is_uninstall ''h/o/dep@v1'') (fst (snd ?r))" by code_simp
  then obtain x where "EvBeginUninstall ''h/o/dep@v1'' x \<in> set (fst (snd ?r))" using is_uninstallE unfolding list_ex_iff by metis
  then obtain pre post where es: "fst (snd ?r) = pre @ EvBeginUninstall ''h/o/dep@v1'' x # post" by (metis split_list)
  have r: "?r = ((), fst (snd ?r), snd (snd ?r)) \<or> SyncTargetDeps (constant_app dep_ready (Inr ())) (rtRef (ended_run MethodUninstall)) None sample_row () = (Inr (), fst (snd ?r), snd (snd ?r))"
    by (intro disjI1) (simp add: prod_eq_iff)
  from cascade_spares_needed [OF r es] show ?thesis unfolding es by auto
qed



end
