(* ===== verification/Settle.thy ===== *)
theory Settle
  imports Domain "HOL-Library.Multiset"
begin

text \<open>
  The settling of updates (lifecycle/internal/bracket/targets.go, commits/commits.go,
  settle/settler.go, settle/holds.go): what keeps two updates of a row apart, and the badge of a row
  that settles.  Every operation under a mutex is one step; \<open>settle_step\<close> interleaves the goroutines that
  call them, any number of them for any number of rows.
\<close>

section \<open>Targets, commits and holds\<close>

record rows =
  rwTargets :: "Namespace \<Rightarrow> (Available \<times> nat) option"
  rwNext :: nat
  rwBrackets :: "Namespace \<Rightarrow> bool"
  cmRunning :: "Namespace \<Rightarrow> nat"
  cmDraining :: bool
  hdDirty :: "Namespace \<Rightarrow> bool"
  hdLocked :: bool

definition NewRows :: rows where
  "NewRows = \<lparr>rwTargets = (\<lambda>_. None), rwNext = 0, rwBrackets = (\<lambda>_. False), cmRunning = (\<lambda>_. 0), cmDraining = False,
     hdDirty = (\<lambda>_. False), hdLocked = False\<rparr>"

text \<open>The channel of a bracket holds one token; an \<open>Open\<close> that finds it there waits.\<close>

definition targets_Open :: "Namespace \<Rightarrow> rows \<Rightarrow> rows option" where
  "targets_Open ns r = (if rwBrackets r ns then None else Some (r\<lparr>rwBrackets := (rwBrackets r)(ns := True)\<rparr>))"

definition targets_Close :: "Namespace \<Rightarrow> rows \<Rightarrow> rows" where
  "targets_Close ns r = r\<lparr>rwBrackets := (rwBrackets r)(ns := False)\<rparr>"

definition targets_Pending :: "Namespace \<Rightarrow> rows \<Rightarrow> bool" where
  "targets_Pending ns r \<longleftrightarrow> rwTargets r ns \<noteq> None"

text \<open>\<open>Put\<close> gives its token and what it replaced, which its undo restores.\<close>

definition targets_Put :: "Namespace \<Rightarrow> Available \<Rightarrow> rows \<Rightarrow> nat \<times> (Available \<times> nat) option \<times> rows" where
  "targets_Put ns target r =
     (let token = rwNext r + 1
      in (token, rwTargets r ns, r\<lparr>rwNext := token, rwTargets := (rwTargets r)(ns := Some (target, token))\<rparr>))"

definition targets_Undo :: "Namespace \<Rightarrow> nat \<Rightarrow> (Available \<times> nat) option \<Rightarrow> rows \<Rightarrow> rows" where
  "targets_Undo ns token previous r =
     (case rwTargets r ns of
        None \<Rightarrow> r
      | Some (target, current) \<Rightarrow> if current \<noteq> token then r else r\<lparr>rwTargets := (rwTargets r)(ns := previous)\<rparr>)"

definition targets_Take :: "Namespace \<Rightarrow> rows \<Rightarrow> Available option \<times> rows" where
  "targets_Take ns r = (map_option fst (rwTargets r ns), r\<lparr>rwTargets := (rwTargets r)(ns := None)\<rparr>)"

definition targets_Peek :: "Namespace \<Rightarrow> rows \<Rightarrow> Available option" where
  "targets_Peek ns r = map_option fst (rwTargets r ns)"

definition commits_Begin :: "Namespace \<Rightarrow> rows \<Rightarrow> bool \<times> rows" where
  "commits_Begin ns r = (if cmDraining r then (False, r) else (True, r\<lparr>cmRunning := (cmRunning r)(ns := cmRunning r ns + 1)\<rparr>))"

definition commits_Done :: "Namespace \<Rightarrow> rows \<Rightarrow> rows" where
  "commits_Done ns r = r\<lparr>cmRunning := (cmRunning r)(ns := cmRunning r ns - 1)\<rparr>"

definition commits_InFlight :: "Namespace \<Rightarrow> rows \<Rightarrow> bool" where
  "commits_InFlight ns r \<longleftrightarrow> cmRunning r ns > 0"

definition commits_drain :: "rows \<Rightarrow> rows" where
  "commits_drain r = r\<lparr>cmDraining := True\<rparr>"

definition Settling :: "Namespace \<Rightarrow> rows \<Rightarrow> bool" where
  "Settling ns r \<longleftrightarrow> targets_Pending ns r \<or> commits_InFlight ns r"

definition mark_dirty :: "Namespace \<Rightarrow> bool \<Rightarrow> rows \<Rightarrow> rows" where
  "mark_dirty ns b r = r\<lparr>hdDirty := (hdDirty r)(ns := b)\<rparr>"

definition holds_lock :: "bool \<Rightarrow> rows \<Rightarrow> rows" where
  "holds_lock b r = r\<lparr>hdLocked := b\<rparr>"

section \<open>The goroutines\<close>

text \<open>
  What a goroutine is about to do.  An update bracket (\<open>executeUpdate\<close>): wait for the bracket, read
  \<open>Pending\<close>, then \<open>InFlight\<close>, work up to \<open>Put\<close>, begin the update; when its caller gave up meanwhile
  read \<open>Pending\<close>, then the state of the runtime (\<open>updateBegan\<close>); and on failure undo, restore and release; its run, accepted by the runtime; the end of a run (\<open>OnUpdateEnded\<close>): begin the commit, take
  the target, settle, release; \<open>releaseSettled\<close>: clear the mark, reconcile the badge, look at the mark
  again, the flag telling whether its goroutine holds the bracket; and a version check asking \<open>HoldBadge\<close>.
\<close>

datatype goroutine =
    Waiting Namespace | Opened Namespace | SawNoTarget Namespace | Admitted Namespace
  | Remembering Namespace nat "(Available \<times> nat) option" | Accepted Namespace nat "(Available \<times> nat) option"
  | GivingUp Namespace nat "(Available \<times> nat) option" | ReadingState Namespace nat "(Available \<times> nat) option"
  | Failed Namespace | Closing Namespace | RunningUpdate Namespace
  | Ended Namespace | EndRefused Namespace | SettlingRow Namespace
  | Clearing Namespace bool | Reconciling Namespace bool | Deciding Namespace bool
  | CheckSawNoTarget Namespace

text \<open>
  The last component is a ghost, what became of the badge of a row: derived from the row after the last
  check that was held, a check held since, or tried again since and the write failed, which
  \<open>reconcileBadge\<close> only logs.
\<close>

datatype badge = Derived | Owes | Unwritten

type_synonym sys = "rows \<times> goroutine multiset \<times> (Namespace \<Rightarrow> badge)"

inductive settle_step :: "sys \<Rightarrow> sys \<Rightarrow> bool" where
  update_called: "settle_step (r, M, owed) (r, add_mset (Waiting ns) M, owed)"
| gives_up: "settle_step (r, add_mset (Waiting ns) M, owed) (r, M, owed)"
| opens: "targets_Open ns r = Some r' \<Longrightarrow> settle_step (r, add_mset (Waiting ns) M, owed) (r', add_mset (Opened ns) M, owed)"
| sees_target: "targets_Pending ns r \<Longrightarrow> settle_step (r, add_mset (Opened ns) M, owed) (r, add_mset (Closing ns) M, owed)"
| sees_no_target: "\<not> targets_Pending ns r \<Longrightarrow> settle_step (r, add_mset (Opened ns) M, owed) (r, add_mset (SawNoTarget ns) M, owed)"
| sees_commit: "commits_InFlight ns r \<Longrightarrow> settle_step (r, add_mset (SawNoTarget ns) M, owed) (r, add_mset (Closing ns) M, owed)"
| sees_no_commit: "\<not> commits_InFlight ns r \<Longrightarrow> settle_step (r, add_mset (SawNoTarget ns) M, owed) (r, add_mset (Admitted ns) M, owed)"
| nothing_staged: "settle_step (r, add_mset (Admitted ns) M, owed) (r, add_mset (Closing ns) M, owed)"
| other_state: "settle_step (r, add_mset (Admitted ns) M, owed) (r, add_mset (RunningUpdate ns) (add_mset (Closing ns) M), owed)"
| sync_fails: "settle_step (r, add_mset (Admitted ns) M, owed) (r, add_mset (Failed ns) M, owed)"
| puts: "targets_Put ns target r = (token, previous, r') \<Longrightarrow>
    settle_step (r, add_mset (Admitted ns) M, owed) (r', add_mset (Remembering ns token previous) M, owed)"
| accepted: "settle_step (r, add_mset (Remembering ns token previous) M, owed)
    (r, add_mset (RunningUpdate ns) (add_mset (Accepted ns token previous) M), owed)"
| returns: "settle_step (r, add_mset (Accepted ns token previous) M, owed) (r, add_mset (Closing ns) M, owed)"
| rejected: "settle_step (r, add_mset (Remembering ns token previous) M, owed)
    (targets_Undo ns token previous r, add_mset (Failed ns) M, owed)"
| given_up: "settle_step (r, add_mset (Remembering ns token previous) M, owed) (r, add_mset (GivingUp ns token previous) M, owed)"
| given_up_accepted: "settle_step (r, add_mset (Accepted ns token previous) M, owed) (r, add_mset (GivingUp ns token previous) M, owed)"
| target_gone: "\<not> targets_Pending ns r \<Longrightarrow> settle_step (r, add_mset (GivingUp ns token previous) M, owed) (r, add_mset (Closing ns) M, owed)"
| target_there: "targets_Pending ns r \<Longrightarrow> settle_step (r, add_mset (GivingUp ns token previous) M, owed)
    (r, add_mset (ReadingState ns token previous) M, owed)"
| reads_updating: "settle_step (r, add_mset (ReadingState ns token previous) M, owed) (r, add_mset (Closing ns) M, owed)"
| reads_other: "settle_step (r, add_mset (ReadingState ns token previous) M, owed)
    (targets_Undo ns token previous r, add_mset (Failed ns) M, owed)"
| restores: "commits_Begin ns r = (True, r') \<Longrightarrow> settle_step (r, add_mset (Failed ns) M, owed) (r', add_mset (Clearing ns True) M, owed)"
| restore_refused: "commits_Begin ns r = (False, r') \<Longrightarrow> settle_step (r, add_mset (Failed ns) M, owed) (r', add_mset (Closing ns) M, owed)"
| closes: "settle_step (r, add_mset (Closing ns) M, owed) (targets_Close ns r, M, owed)"
| run_ends: "commits_Begin ns r = (True, r') \<Longrightarrow> settle_step (r, add_mset (RunningUpdate ns) M, owed) (r', add_mset (Ended ns) M, owed)"
| run_ends_draining: "commits_Begin ns r = (False, r') \<Longrightarrow>
    settle_step (r, add_mset (RunningUpdate ns) M, owed) (r', add_mset (EndRefused ns) M, owed)"
| takes: "targets_Take ns r = (recorded, r') \<Longrightarrow> settle_step (r, add_mset (Ended ns) M, owed) (r', add_mset (SettlingRow ns) M, owed)"
| takes_draining: "targets_Take ns r = (recorded, r') \<Longrightarrow> settle_step (r, add_mset (EndRefused ns) M, owed) (r', M, owed)"
| settled: "settle_step (r, add_mset (SettlingRow ns) M, owed) (r, add_mset (Clearing ns False) M, owed)"
| clears: "\<not> hdLocked r \<Longrightarrow> settle_step (r, add_mset (Clearing ns b) M, owed) (mark_dirty ns False r, add_mset (Reconciling ns b) M, owed)"
| reconciles: "settle_step (r, add_mset (Reconciling ns b) M, owed) (r, add_mset (Deciding ns b) M, owed(ns := Derived))"
| reconcile_fails: "settle_step (r, add_mset (Reconciling ns b) M, owed) (r, add_mset (Deciding ns b) M, owed(ns := Unwritten))"
| reconcile_aborted: "cmDraining r \<Longrightarrow> settle_step (r, add_mset (Reconciling ns b) M, owed) (r, add_mset (Deciding ns b) M, owed)"
| clears_again: "\<not> hdLocked r \<Longrightarrow> hdDirty r ns \<Longrightarrow>
    settle_step (r, add_mset (Deciding ns b) M, owed) (r, add_mset (Clearing ns b) M, owed)"
| releases_row: "\<not> hdLocked r \<Longrightarrow> \<not> hdDirty r ns \<Longrightarrow> settle_step (r, add_mset (Deciding ns b) M, owed)
    (commits_Done ns r, (if b then add_mset (Closing ns) M else M), owed)"
| held_by_target: "\<not> hdLocked r \<Longrightarrow> targets_Pending ns r \<Longrightarrow> settle_step (r, M, owed) (mark_dirty ns True r, M, owed(ns := Owes))"
| check_reads: "\<not> hdLocked r \<Longrightarrow> \<not> targets_Pending ns r \<Longrightarrow>
    settle_step (r, M, owed) (holds_lock True r, add_mset (CheckSawNoTarget ns) M, owed)"
| held_by_commit: "commits_InFlight ns r \<Longrightarrow> settle_step (r, add_mset (CheckSawNoTarget ns) M, owed)
    (holds_lock False (mark_dirty ns True r), M, owed(ns := Owes))"
| not_held: "\<not> commits_InFlight ns r \<Longrightarrow> settle_step (r, add_mset (CheckSawNoTarget ns) M, owed) (holds_lock False r, M, owed)"
| resets: "targets_Take ns r = (recorded, r') \<Longrightarrow> settle_step (r, M, owed) (r', M, owed(ns := Derived))"
| drains: "settle_step (r, M, owed) (commits_drain r, M, owed)"

definition settle_init :: sys where
  "settle_init = (NewRows, {#}, (\<lambda>_. Derived))"

section \<open>Invariants\<close>

fun bracket_of :: "goroutine \<Rightarrow> Namespace option" where
  "bracket_of (Opened ns) = Some ns"
| "bracket_of (SawNoTarget ns) = Some ns"
| "bracket_of (Admitted ns) = Some ns"
| "bracket_of (Remembering ns t p) = Some ns"
| "bracket_of (Accepted ns t p) = Some ns"
| "bracket_of (GivingUp ns t p) = Some ns"
| "bracket_of (ReadingState ns t p) = Some ns"
| "bracket_of (Failed ns) = Some ns"
| "bracket_of (Closing ns) = Some ns"
| "bracket_of (Clearing ns b) = (if b then Some ns else None)"
| "bracket_of (Reconciling ns b) = (if b then Some ns else None)"
| "bracket_of (Deciding ns b) = (if b then Some ns else None)"
| "bracket_of g = None"

fun commit_of :: "goroutine \<Rightarrow> Namespace option" where
  "commit_of (Ended ns) = Some ns"
| "commit_of (SettlingRow ns) = Some ns"
| "commit_of (Clearing ns b) = Some ns"
| "commit_of (Reconciling ns b) = Some ns"
| "commit_of (Deciding ns b) = Some ns"
| "commit_of g = None"

definition tally :: "(goroutine \<Rightarrow> Namespace option) \<Rightarrow> goroutine multiset \<Rightarrow> Namespace \<Rightarrow> nat" where
  "tally f M ns = count (image_mset f M) (Some ns)"

lemma tally_simps [simp]: "tally f {#} ns = 0" "tally f (add_mset g M) ns = (if f g = Some ns then Suc (tally f M ns) else tally f M ns)"
  by (simp_all add: tally_def)

lemma tally_pos: "tally f M ns > 0 \<longleftrightarrow> (\<exists>g \<in># M. f g = Some ns)"
  unfolding tally_def by (metis (no_types, lifting) count_greater_zero_iff image_iff set_image_mset)

definition one_holder :: "Namespace \<Rightarrow> sys \<Rightarrow> bool" where
  "one_holder ns s \<longleftrightarrow> (case s of (r, M, owed) \<Rightarrow> tally bracket_of M ns = (if rwBrackets r ns then 1 else 0))"

definition commits_counted :: "Namespace \<Rightarrow> sys \<Rightarrow> bool" where
  "commits_counted ns s \<longleftrightarrow> (case s of (r, M, owed) \<Rightarrow> tally commit_of M ns = cmRunning r ns)"

lemmas row_ops = targets_Open_def targets_Close_def targets_Pending_def targets_Put_def targets_Undo_def targets_Take_def
  commits_Begin_def commits_Done_def commits_InFlight_def commits_drain_def mark_dirty_def holds_lock_def

lemma one_holder_step: "settle_step s s' \<Longrightarrow> one_holder ns s \<Longrightarrow> one_holder ns s'"
  by (induction rule: settle_step.induct) (auto simp: one_holder_def row_ops Let_def split: if_splits option.splits)

lemma commits_counted_step: "settle_step s s' \<Longrightarrow> commits_counted ns s \<Longrightarrow> commits_counted ns s'"
  by (induction rule: settle_step.induct) (auto simp: commits_counted_def row_ops Let_def split: if_splits option.splits)

definition no_target_seen :: "Namespace \<Rightarrow> sys \<Rightarrow> bool" where
  "no_target_seen ns s \<longleftrightarrow> (case s of (r, M, owed) \<Rightarrow>
     (SawNoTarget ns \<in># M \<or> Admitted ns \<in># M \<longrightarrow> rwTargets r ns = None) \<and>
     (\<forall>token previous. Remembering ns token previous \<in># M \<or> Accepted ns token previous \<in># M \<or>
       GivingUp ns token previous \<in># M \<or> ReadingState ns token previous \<in># M \<longrightarrow> previous = None))"

definition refused_draining :: "Namespace \<Rightarrow> sys \<Rightarrow> bool" where
  "refused_draining ns s \<longleftrightarrow> (case s of (r, M, owed) \<Rightarrow> EndRefused ns \<in># M \<longrightarrow> cmDraining r)"

lemma alone: "tally bracket_of (add_mset g M) ns \<le> 1 \<Longrightarrow> bracket_of g = Some ns \<Longrightarrow> g' \<in># M \<Longrightarrow> bracket_of g' \<noteq> Some ns"
  using tally_pos [of bracket_of M ns] by auto

lemma holder_alone:
  "one_holder ns (r, add_mset g M, owed) \<Longrightarrow> bracket_of g = Some ns \<Longrightarrow> g' \<in># M \<Longrightarrow> bracket_of g' \<noteq> Some ns"
  by (rule alone) (auto simp: one_holder_def split: if_splits)

lemma no_target_seen_step: "settle_step s s' \<Longrightarrow> one_holder ns s \<Longrightarrow> no_target_seen ns s \<Longrightarrow> no_target_seen ns s'"
proof (induction rule: settle_step.induct)
  case (puts n target r token previous r' M owed)
  show ?case
  proof (cases "n = ns")
    case True
    with puts.prems(1) have "SawNoTarget ns \<notin># M" "Admitted ns \<notin># M"
      using holder_alone [of ns r "Admitted n" M owed "SawNoTarget ns"] holder_alone [of ns r "Admitted n" M owed "Admitted ns"] by auto
    with puts True show ?thesis by (auto simp: no_target_seen_def row_ops Let_def)
  next
    case False
    with puts show ?thesis by (auto simp: no_target_seen_def row_ops Let_def)
  qed
next
  case (sees_no_target n r M owed)
  then show ?case by (cases "rwTargets r n") (auto simp: no_target_seen_def row_ops)
qed (auto simp: no_target_seen_def row_ops Let_def split: if_splits option.splits)

lemma refused_draining_step: "settle_step s s' \<Longrightarrow> refused_draining ns s \<Longrightarrow> refused_draining ns s'"
  by (induction rule: settle_step.induct) (auto simp: refused_draining_def row_ops Let_def split: if_splits option.splits)

text \<open>Who will derive the badge of a row again.\<close>

definition settler_of :: "Namespace \<Rightarrow> goroutine \<Rightarrow> bool" where
  "settler_of ns g \<longleftrightarrow> g \<in> {Failed ns, Ended ns, SettlingRow ns} \<or> (\<exists>b. g = Clearing ns b \<or> g = Deciding ns b)"

definition promised :: "Namespace \<Rightarrow> sys \<Rightarrow> bool" where
  "promised ns s \<longleftrightarrow> (case s of (r, M, owed) \<Rightarrow> owed ns = Owes \<longrightarrow> cmDraining r \<or> (\<exists>b. Reconciling ns b \<in># M) \<or>
     hdDirty r ns \<and> (rwTargets r ns \<noteq> None \<or> (\<exists>g \<in># M. settler_of ns g)))"

lemma commit_settles: "commit_of g = Some ns \<Longrightarrow> settler_of ns g \<or> (\<exists>b. g = Reconciling ns b)"
  by (cases g) (auto simp: settler_of_def)

lemma promised_step:
  "settle_step s s' \<Longrightarrow> commits_counted ns s \<Longrightarrow> refused_draining ns s \<Longrightarrow> promised ns s \<Longrightarrow> promised ns s'"
proof (induction rule: settle_step.induct)
  case (held_by_commit n r M owed)
  show ?case
  proof (cases "n = ns")
    case True
    with held_by_commit obtain g where "g \<in># M" "commit_of g = Some ns"
      using tally_pos [of commit_of M ns] by (auto simp: commits_counted_def row_ops)
    with commit_settles [of g ns] True show ?thesis by (auto simp: promised_def row_ops)
  next
    case False
    with held_by_commit show ?thesis by (auto simp: promised_def row_ops settler_of_def)
  qed
next
  case (takes_draining n r recorded r' M owed)
  then show ?case by (auto simp: promised_def row_ops refused_draining_def settler_of_def)
qed (auto simp: promised_def row_ops settler_of_def Let_def split: if_splits option.splits)


lemma no_target: "\<not> targets_Pending ns r \<longleftrightarrow> rwTargets r ns = None"
  by (cases "rwTargets r ns") (auto simp: targets_Pending_def)

lemma reachable_invariants:
  assumes "settle_step\<^sup>*\<^sup>* settle_init s"
  shows "one_holder ns s \<and> commits_counted ns s \<and> no_target_seen ns s \<and> refused_draining ns s \<and> promised ns s"
  using assms
proof (induction rule: rtranclp_induct)
  case base
  show ?case
    by (simp add: settle_init_def NewRows_def one_holder_def commits_counted_def no_target_seen_def refused_draining_def promised_def)
next
  case (step s s')
  then show ?case
    using one_holder_step commits_counted_step no_target_seen_step refused_draining_step promised_step by blast
qed

text \<open>
  C22. Updates of a row never overlap: whatever other goroutines do, when a bracket finds no commit in
  flight after it found no target remembered, no target of that row is remembered, no update of it is
  settling, and no other goroutine is between opening and closing a bracket of the row; and from then until
  it remembers its own target none is remembered, so that no target is ever replaced.
\<close>

theorem updates_never_overlap:
  assumes "settle_step\<^sup>*\<^sup>* settle_init (r, add_mset g M, owed)"
    and "g = SawNoTarget ns \<and> \<not> commits_InFlight ns r \<or> g = Admitted ns"
  shows "rwTargets r ns = None \<and> (\<forall>g' \<in># M. bracket_of g' \<noteq> Some ns) \<and>
    (g = SawNoTarget ns \<longrightarrow> \<not> Settling ns r \<and> (\<forall>g' \<in># M. commit_of g' \<noteq> Some ns))"
proof -
  note i = reachable_invariants [OF assms(1), of ns]
  have t: "rwTargets r ns = None" using i assms(2) by (auto simp: no_target_seen_def)
  have b: "bracket_of g = Some ns" using assms(2) by auto
  have "\<forall>g' \<in># M. commit_of g' \<noteq> Some ns" if "g = SawNoTarget ns"
  proof -
    have "tally commit_of M ns = 0" using i assms(2) that by (auto simp: commits_counted_def commits_InFlight_def)
    then show ?thesis using tally_pos [of commit_of M ns] by simp
  qed
  moreover have "\<not> Settling ns r" if "g = SawNoTarget ns"
    using assms(2) that t by (auto simp: Settling_def targets_Pending_def)
  ultimately show ?thesis using t i holder_alone [OF _ b] by blast
qed

text \<open>
  C23. No held version check is forgotten: once a row neither has a target remembered nor a commit in
  flight and no bracket of it is open, its badge was derived from the row after every check that was held
  while the row settled, or the last attempt to do so, made after every such check, could not write
  the badge and was only logged; unless a shutdown drains or the runtime was reset since.
\<close>

theorem held_checks_are_reconciled:
  assumes "settle_step\<^sup>*\<^sup>* settle_init (r, M, owed)" "\<not> Settling ns r" "\<not> rwBrackets r ns" "\<not> cmDraining r"
  shows "owed ns \<in> {Derived, Unwritten}"
proof -
  have "owed ns \<noteq> Owes"
  proof
    assume o: "owed ns = Owes"
    note i = reachable_invariants [OF assms(1), of ns]
    have c: "tally commit_of M ns = 0" "rwTargets r ns = None" using i assms(2)
      by (simp_all add: commits_counted_def Settling_def no_target commits_InFlight_def)
    have b: "tally bracket_of M ns = 0" using i assms(3) by (simp add: one_holder_def)
    from i o assms(4) c(2) obtain g where g: "g \<in># M" "settler_of ns g \<or> (\<exists>b. g = Reconciling ns b)"
      by (auto simp: promised_def)
    then have "commit_of g = Some ns \<or> bracket_of g = Some ns" by (auto simp: settler_of_def)
    with g(1) b c(1) tally_pos [of commit_of M ns] tally_pos [of bracket_of M ns] show False by auto
  qed
  then show ?thesis by (cases "owed ns") simp_all
qed

section \<open>Concrete runs\<close>

definition opened_row :: rows where
  "opened_row = NewRows\<lparr>rwBrackets := (\<lambda>_. False)(''h/o/app@v1'' := True)\<rparr>"

lemma run_on: "settle_step\<^sup>*\<^sup>* s t \<Longrightarrow> settle_step t u \<Longrightarrow> settle_step\<^sup>*\<^sup>* s u"
  by (rule rtranclp.rtrancl_into_rtrancl)

lemma sample_bracket: "settle_step\<^sup>*\<^sup>* settle_init (opened_row, {#SawNoTarget ''h/o/app@v1''#}, \<lambda>_. Derived)"
proof -
  let ?ns = "''h/o/app@v1''" and ?w = "\<lambda>_. Derived"
  have "settle_step settle_init (NewRows, {#Waiting ?ns#}, ?w)"
    unfolding settle_init_def by (rule update_called)
  moreover have "settle_step (NewRows, {#Waiting ?ns#}, ?w) (opened_row, {#Opened ?ns#}, ?w)"
    by (rule opens) (simp add: targets_Open_def NewRows_def opened_row_def)
  moreover have "settle_step (opened_row, {#Opened ?ns#}, ?w) (opened_row, {#SawNoTarget ?ns#}, ?w)"
    by (rule sees_no_target) (simp add: targets_Pending_def NewRows_def opened_row_def)
  ultimately show ?thesis by (meson rtranclp.rtrancl_refl run_on)
qed

theorem updates_never_overlap_witness: "\<not> Settling ''h/o/app@v1'' opened_row"
  using updates_never_overlap [OF sample_bracket, of "''h/o/app@v1''"]
  by (simp add: commits_InFlight_def opened_row_def NewRows_def)


text \<open>An update from its bracket to its release, with a version check held while its run ran.\<close>

definition sample_put :: rows where
  "sample_put = snd (snd (targets_Put ''h/o/app@v1'' \<lparr>avRef = ''v2'', avCommit = ''c2''\<rparr> opened_row))"

definition sample_ended :: rows where
  "sample_ended = snd (commits_Begin ''h/o/app@v1'' (targets_Close ''h/o/app@v1'' (mark_dirty ''h/o/app@v1'' True sample_put)))"

definition sample_released :: rows where
  "sample_released = commits_Done ''h/o/app@v1'' (mark_dirty ''h/o/app@v1'' False (snd (targets_Take ''h/o/app@v1'' sample_ended)))"

lemmas sample_rows = sample_put_def sample_ended_def sample_released_def opened_row_def NewRows_def row_ops Let_def

lemma sample_update:
  assumes "b \<in> {Derived, Unwritten}"
  shows "settle_step\<^sup>*\<^sup>* settle_init (sample_released, {#}, (\<lambda>_. Derived)(''h/o/app@v1'' := Owes, ''h/o/app@v1'' := b))"
proof -
  let ?ns = "''h/o/app@v1''" and ?w = "\<lambda>_. Derived" and ?h = "(\<lambda>_. Derived)(''h/o/app@v1'' := Owes)"
  let ?p = "mark_dirty ?ns True sample_put" and ?t = "snd (targets_Take ?ns sample_ended)"
  have s1: "settle_step\<^sup>*\<^sup>* settle_init (opened_row, {#Admitted ?ns#}, ?w)"
    by (rule run_on [OF sample_bracket], rule sees_no_commit) (simp add: sample_rows)
  have s2: "settle_step\<^sup>*\<^sup>* settle_init (sample_put, {#Remembering ?ns 1 None#}, ?w)"
    by (rule run_on [OF s1], rule puts [of _ "\<lparr>avRef = ''v2'', avCommit = ''c2''\<rparr>"]) (simp add: sample_rows)
  have s3: "settle_step\<^sup>*\<^sup>* settle_init (sample_put, {#Accepted ?ns 1 None, RunningUpdate ?ns#}, ?w)"
    by (subst add_mset_commute, rule run_on [OF s2], rule accepted)
  have s4: "settle_step\<^sup>*\<^sup>* settle_init (sample_put, {#Closing ?ns, RunningUpdate ?ns#}, ?w)"
    by (rule run_on [OF s3], rule returns)
  have s5: "settle_step\<^sup>*\<^sup>* settle_init (?p, {#Closing ?ns, RunningUpdate ?ns#}, ?h)"
    by (rule run_on [OF s4], rule held_by_target) (simp_all add: sample_rows)
  have s6: "settle_step\<^sup>*\<^sup>* settle_init (targets_Close ?ns ?p, {#RunningUpdate ?ns#}, ?h)"
    by (rule run_on [OF s5], rule closes)
  have s7: "settle_step\<^sup>*\<^sup>* settle_init (sample_ended, {#Ended ?ns#}, ?h)"
    by (rule run_on [OF s6], rule run_ends) (simp add: sample_rows)
  have s8: "settle_step\<^sup>*\<^sup>* settle_init (?t, {#SettlingRow ?ns#}, ?h)"
    by (rule run_on [OF s7], rule takes) (rule prod.collapse [symmetric])
  have s9: "settle_step\<^sup>*\<^sup>* settle_init (?t, {#Clearing ?ns False#}, ?h)"
    by (rule run_on [OF s8], rule settled)
  have s10: "settle_step\<^sup>*\<^sup>* settle_init (mark_dirty ?ns False ?t, {#Reconciling ?ns False#}, ?h)"
    by (rule run_on [OF s9], rule clears) (simp add: sample_rows)
  have s11: "settle_step\<^sup>*\<^sup>* settle_init (mark_dirty ?ns False ?t, {#Deciding ?ns False#}, ?h(?ns := b))"
    using assms run_on [OF s10 reconciles] run_on [OF s10 reconcile_fails] by auto
  have s12: "settle_step\<^sup>*\<^sup>* settle_init (sample_released, {#}, ?h(?ns := b))"
    using run_on [OF s11] releases_row [of "mark_dirty ?ns False ?t" ?ns False "{#}" "?h(?ns := b)"] by (auto simp: sample_rows)
  show ?thesis using s12 .
qed

theorem held_checks_are_reconciled_witness:
  "settle_step\<^sup>*\<^sup>* settle_init (sample_released, {#}, (\<lambda>_. Derived)(''h/o/app@v1'' := Owes, ''h/o/app@v1'' := Derived)) \<and>
   settle_step\<^sup>*\<^sup>* settle_init (sample_released, {#}, (\<lambda>_. Derived)(''h/o/app@v1'' := Owes, ''h/o/app@v1'' := Unwritten)) \<and>
   ((\<lambda>_. Derived)(''h/o/app@v1'' := Owes, ''h/o/app@v1'' := Unwritten)) ''h/o/app@v1'' \<in> {Derived, Unwritten}"
proof -
  have s: "\<not> Settling ''h/o/app@v1'' sample_released" "\<not> rwBrackets sample_released ''h/o/app@v1''" "\<not> cmDraining sample_released"
    by (simp_all add: Settling_def sample_rows)
  show ?thesis
    using held_checks_are_reconciled [OF sample_update s, of Unwritten] sample_update [of Derived] sample_update [of Unwritten]
    by blast
qed

end
