(* ===== verification/Spec2Isabelle.thy ===== *)
theory Spec2Isabelle
  imports Channels DepTree Versioning Vault ArrowRow Wizard Manifold Fletcher Orchestrator Settle
begin

text \<open>
  A verification library for quiver.core, the daemon of quiver (Go, under src/internal).  The daemon
  catalogues, installs, runs and updates applications, called arrows.  An arrow is named by a
  namespace \<open>host/user/repo@selector\<close> and described by a manifest, a YAML document that may sit in a
  markdown file of the repository: targets per platform, each with lifecycles and methods made of
  steps, variables, ports and dependencies on other arrows.

  \<^bold>\<open>How the parts interact.\<close>  A caller adds a namespace: the selector is classified against the refs
  the repository advertises (Versioning, over the channels of Channels), the manifest is fetched
  (Manifold), read and compiled (Manifest), checked (Ruleset) and cached (Vault); a repository
  without one gets a draft made of its releases (Picker, Fletcher).  The row of the arrow is an
  event-sourced aggregate (ArrowRow) that a read model mirrors in SQL (Catalog).  Installing, stopping,
  updating and uninstalling go through the lifecycle orchestrator (Orchestrator, Settle): it resolves
  the dependencies (DepTree, Graph), brackets the row, and begins runs of the second aggregate, the
  runtime of the arrow (Runtime).  To begin a run, its steps and variables are assembled (Assembler); the
  wizard executes the steps (Wizard) and its events are drained back into the aggregate, whose end the
  orchestrator reacts to.

  \<^bold>\<open>Theories and code.\<close>  Every definition keeps the name of the Go function or type it translates, with
  a prefix where two packages use one name.  Paths are below src/internal.

  \<^item> GoStd: the byte strings, decimal conversion, leftmost-first regular expressions, glob matching and
  comparison sorting the code takes from Go's standard library.  Case mapping is that of ASCII, where
  \<open>strings.ToLower\<close> is Unicode: the two agree on the ASCII names the code compares.

  \<^item> Prelude: conventions (nil as \<open>None\<close>, maps as association lists, errors as \<open>Inl\<close>), the fact
  collections, and the interfaces \<open>event_aggregate\<close> and \<open>simulation\<close>.

  \<^item> Steps, Domain: domain/ and domain/runtime/step: steps and their values per platform, namespaces,
  platforms, arrow states with the transition table, ref snapshots, manifest data, portable records.

  \<^item> DepTree: engine/deptree.  The traversal with its state map, stack and order; the resolver and
  the polls of the context are parameters.

  \<^item> Channels: engine/manifold/resolver/resolvers/channel.go, constraint.go, newest_first.go: the tag grammar,
  channels and their orders, constraints, the folding of a ref advertisement.

  \<^item> Versioning: engine/manifold/versioning: selector, channels, drift, admit and the snapshot cache,
  and the identity of an install (app/repositories/arrow/internal/store/selector.go).

  \<^item> Runtime: domain/runtime and app/repositories/runtime/internal: the aggregate, its seventeen
  commands, the version badge, the drain of a run's events and crash recovery.

  \<^item> Vault: engine/vault: the file names of identities, current and legacy, the manifest cache with
  absence marks and the sweep, and workdir lookup, on a file system that ignores case or not.

  \<^item> ArrowRow: app/repositories/arrow/internal/commands and advance: the eight commands of a row and
  the loops that send them again on a conflict.

  \<^item> Catalog: app/repositories/arrow/internal/store: the tables, the projector, the version-check
  claims and the reads.

  \<^item> Manifest: engine/manifold/translator and compiler: markdown, the schema line, the mapping of the
  decoded document, target selection with base chains and overrides, compilation per platform.

  \<^item> Ruleset: engine/manifold/ruleset: the six rules before and the twelve after compilation and the
  rules of a collection.

  \<^item> Assembler: app/repositories/runtime/internal/assembler, runtime.go and arrow/preinstalled.go: the
  variables of a run in their six layers, the command that begins it, the preinstalled probe.

  \<^item> Wizard: engine/wizard/wizard.go and internal/step: expansion, timeouts, the seven handlers, a run
  with its events, the probe and the shutdown gate.  Regular files are part of the modelled world.

  \<^item> Manifold: engine/manifold/manifold.go, resolver, resolvers/http.go and git.go, the collection
  translator and fletcher/internal/fallback.

  \<^item> Picker, Fletcher: engine/manifold/fletcher: choosing a release asset for a platform, confidence,
  the forge of the document and the drafter.

  \<^item> Graph: app/repositories/graph: the install plan, the table of edges, the difference of two manifests.

  \<^item> Orchestrator: app/repositories/lifecycle/internal/deps, bracket, settle: every operation is a
  function on the world of the other parts that also returns the calls it made with their answers.  The
  answers are unconstrained, so whatever another goroutine does between two calls is covered.

  \<^item> Settle: lifecycle/internal/bracket/targets.go, commits, settle/holds.go: the same brackets, commits and
  badge holds as a step relation that interleaves any number of goroutines at their mutexes.
\<close>

text \<open>
  \<^bold>\<open>Interfaces.\<close>  \<open>desc_cmp\<close> (GoStd) is what a comparison function promises to a sort: a total
  order given by a key.  It is interpreted on the comparison functions of channels, constraints,
  snapshots and catalog versions, and gives that sorting does not depend on the order of the input.
  \<open>event_aggregate\<close> (Prelude) is the contract of an event-sourced aggregate, interpreted on the runtime and
  on the catalog row: an invariant of accepted commands holds of every history.  \<open>simulation\<close>
  (Prelude) relates operations to an abstract specification and is interpreted on the catalog and its
  live rows.  \<open>manifest_cache\<close> (Vault) is what a cache of entries by identity promises and is
  interpreted on the files of the vault.

  \<^bold>\<open>What the lemmas show.\<close>  The claims C1 to C40 stand next to the definitions they are about.

  \<^item> Dependencies: the order is dependencies first and complete, exists exactly when there is no
  cycle, and a reported cycle is one (C1 to C3); the edges of the graph are the declarations of
  the catalogued arrows (C17).

  \<^item> Versions: channels are independent of the order of the tags (C4), the tag grammar loses nothing
  (C5), drift settles (C6) and never downgrades (C7).

  \<^item> Aggregates: the invariant of the runtime and its transitions (C8, C9), the inertness of a
  superseded run (C10), the identity of a row (C14).

  \<^item> Storage: names tell identities apart, the cache is a map, workdirs never nest (C11 to C13), each with
  the conditions it needs and lemmas that show the claim failing without them (\<open>legacy_names_fold\<close>,
  \<open>spelled_repositories_share\<close>, \<open>absence_mark_deletes_manifest\<close>, \<open>absence_mark_deletes_meta\<close>,
  \<open>legacy_workdir_nests\<close>); the read model mirrors the live rows and search agrees with it (C15, C16).

  \<^item> Lifecycle: installs begin after their dependencies (C18), cascades spare what is needed (C19),
  failed updates are undone and updates stamp only their own target (C20, C21), updates of a row never
  overlap and held checks are not forgotten (C22, C23).

  \<^item> Manifests: target selection, flatness of what is compiled, markdown (C24 to C26); what the rules
  guarantee (C27 to C29), with what they do not (\<open>inherited_steps_escape_coverage\<close>,
  \<open>signal_step_without_signal\<close>).

  \<^item> Runs: computed values and references (C30, C31), every run settles (C32), a fetched file is
  verified before it is moved into place (C33).

  \<^item> Resolution: absence only on evidence (C34), local members of a collection (C35), resolving at
  a commit (C36).

  \<^item> Drafting: the pick is independent of the order of the assets, runs on its platform, and the
  targets of a draft are one product (C37 to C39); a draft parses and fetches assets of its release (C40).
\<close>

text \<open>
  \<^bold>\<open>Termination, fuel and bounds.\<close>  The traversal of DepTree takes fuel, one unit per level of nesting; C2 gives a
  result for every fuel above the size of a finite set that contains the root and is closed under dependencies.
  \<open>graph_Resolve\<close> passes that fuel on; \<open>called\<close>, which lists the namespaces the traversal asks
  about, is given one unit for the root and one for each declared child, which is the number of work items it
  can ever meet.  The fuel of the glob parser is the length of its pattern.  Every other loop is
  structural or has a proved measure: base chains by the keys not yet seen, expansion and token scans by
  the text left, a run by its remaining steps.  Go's int is \<open>int\<close>: the quantities it holds here are list
  lengths, scores and numbers read by \<open>strconv.Atoi\<close>, whose range error is written out, as is the
  overflow of \<open>time.ParseDuration\<close>.  Times are integers.

  \<^bold>\<open>Assumptions\<close> are parameters and named hypotheses: digests that differ in the characters a cut file
  name keeps (\<open>told_apart\<close>), a YAML library that reads back what it encodes (\<open>yaml_reads\<close>), tags and a HEAD
  whose short names start with no escape prefix (\<open>plain_ref\<close>), a draft within the limits of the rules
  (\<open>manifest_bounds\<close>), which the drafter itself does not ensure.

  \<^bold>\<open>Not modelled.\<close>  Pure input and output: the HTTP API and its DTOs, the command line, the git
  provider clients, port allocation (netbridge), the surface proxy, the adapters to the operating
  system, configuration and logging.  Effects given to the wizard as parameters: archives, processes, the shelf of
  portable apps; file modes are left out.  The image probes, badge and link filters and HTML parsing
  of the drafter.  The FTS5 matching of SQLite and failures of the database.  The search index and the
  collection cache of the vault.  The queue of runtimes to forget after a removal
  (repositories/cascade), the collection, discovery, recommendation and config repositories and the use cases over
  them.  The in-memory retry of a run, and the time bounds of a commit.  Messages of errors are left out
  throughout: an error keeps what the code tells errors apart by.
\<close>

end
